(* ===== verification/Vqe_Prelude.thy ===== *)
theory Vqe_Prelude
  imports Main "HOL-Library.Word"
begin

text \<open>
  Shared vocabulary of the development: the machine integers of the C sources, the C operators
  that HOL spells differently, and the facts on words, lists and rings of slots which the
  component theories use.

  Unsigned C integers are words of their width, and so are signed ones: \<open>sint\<close> reads a
  signed value and \<open>\<le>s\<close>, \<open><s\<close> compare it. Arithmetic wraps around at the width.
\<close>

unbundle bit_operations_syntax

type_synonym u8 = "8 word"
type_synonym u16 = "16 word"
type_synonym u32 = "32 word"
type_synonym u64 = "64 word"
type_synonym s32 = "32 word"
type_synonym s64 = "64 word"

named_theorems seq_simps "facts on serial numbers that carry the sequence-number proofs"
named_theorems time_defs "unfolding rules of the time representation"

subsection \<open>C operators\<close>

text \<open>Division of C rounds towards zero.\<close>

definition c_div :: "int \<Rightarrow> int \<Rightarrow> int" where
  "c_div a b = sgn a * sgn b * (\<bar>a\<bar> div \<bar>b\<bar>)"

lemma c_div_nonneg: "0 \<le> a \<Longrightarrow> 0 < b \<Longrightarrow> c_div a b = a div b"
  by (cases "a = 0") (auto simp: c_div_def)

subsection \<open>Outcomes\<close>

text \<open>The outcome of a function that asserts is a value, a failed assertion, which ends the process,
  an access outside of a buffer or an array, whose behaviour C leaves undefined, or the end of the fuel of
  a loop.\<close>

datatype 'a outcome = Done 'a | Assert_failed | Bad_access | Out_of_fuel

primrec bind_out :: "'a outcome \<Rightarrow> ('a \<Rightarrow> 'b outcome) \<Rightarrow> 'b outcome" where
  "bind_out (Done x) f = f x"
| "bind_out Assert_failed f = Assert_failed"
| "bind_out Bad_access f = Bad_access"
| "bind_out Out_of_fuel f = Out_of_fuel"

lemma bind_out_Done_iff: "bind_out m f = Done y \<longleftrightarrow> (\<exists>x. m = Done x \<and> f x = Done y)"
  by (cases m) auto

subsection \<open>Words and masks\<close>

lemma mask_of_pow2:
  fixes m :: "'a::len word"
  assumes "m = 2 ^ k"
  shows "m - 1 = mask k"
  using assms by (simp add: mask_eq_decr_exp)

lemma unat_and_mask: "unat (x AND mask k :: 'a::len word) = unat x mod 2 ^ k"
  by (simp flip: take_bit_eq_mask take_bit_eq_mod add: unsigned_take_bit_eq)

lemma word_eq_unat_iff: "(x :: 'a::len word) = y \<longleftrightarrow> unat x = unat y"
  by (simp add: word_unat_eq_iff)

lemma unat_less_pow: "unat (w :: 'a::len word) < 2 ^ LENGTH('a)"
  by (rule unsigned_less)

text \<open>
  Distances on the circle of \<open>2 ^ n\<close> values: the distance forward from \<open>y\<close> to \<open>x\<close> is
  \<open>unat (x - y)\<close>, and the two distances between different points add up to the whole circle.
\<close>

lemma unat_minus_swap:
  fixes x y :: "'a::len word"
  assumes "x \<noteq> y"
  shows "unat (x - y) = 2 ^ LENGTH('a) - unat (y - x)"
proof -
  have "unat x - unat y = 2 ^ LENGTH('a) - (unat y + 2 ^ LENGTH('a) - unat x)"
    if "unat y \<le> unat x"
    using that unat_less_pow [of x] by linarith
  moreover have "unat x \<noteq> unat y" using assms by (simp add: word_unat_eq_iff)
  ultimately show ?thesis by (auto simp: unat_sub_if_size word_size)
qed

lemma unat_add_small:
  fixes x y :: "'a::len word"
  assumes "unat x + unat y < 2 ^ LENGTH('a)"
  shows "unat (x + y) = unat x + unat y"
  using assms by (simp add: unat_word_ariths)

lemma unat_of_nat_small:
  "n < 2 ^ LENGTH('a) \<Longrightarrow> unat (of_nat n :: 'a::len word) = n"
  by (simp add: unsigned_of_nat take_bit_nat_eq_self)

lemma unat_drop_bit_div: "unat (drop_bit n w :: 'a::len word) = unat w div 2 ^ n"
  by (simp only: unat_drop_bit_eq) (simp only: drop_bit_eq_div)

lemma unat_push_bit_mod: "unat (push_bit n w :: 'a::len word) = unat w * 2 ^ n mod 2 ^ LENGTH('a)"
  by (simp only: unsigned_push_bit_eq take_bit_eq_mod) (simp only: push_bit_eq_mult)

lemma unat_ucast_16: "unat (ucast (w :: u32) :: u16) = unat w mod 65536"
  by (simp add: unsigned_ucast_eq take_bit_eq_mod)

lemma unat_ucast_16_32: "unat (ucast (w :: u16) :: u32) = unat w"
proof -
  have "unat w < 2 ^ 16" using unat_less_pow [of w] by simp
  then show ?thesis by (simp add: unsigned_ucast_eq take_bit_nat_eq_self)
qed

lemma unat_add_mod:
  fixes x y :: u32
  assumes "c dvd 2 ^ 32"
  shows "unat (x + y) mod c = (unat x + unat y) mod c"
  using assms by (simp add: unat_word_ariths mod_mod_cancel)

lemma unat_add_mod_same:
  fixes x y :: u32
  assumes "c dvd 2 ^ 32"
  shows "unat (x + y) mod c = unat x mod c \<longleftrightarrow> unat y mod c = 0"
  unfolding unat_add_mod [OF assms] by (simp add: mod_eq_dvd_iff_nat mod_eq_0_iff_dvd)

lemma unat_window_diff:
  fixes x y b :: "'a::len word"
  assumes "unat (x - b) \<le> unat (y - b)"
  shows "unat (y - x) = unat (y - b) - unat (x - b)"
proof -
  have "y - x = (y - b) - (x - b)" by simp
  then show ?thesis using assms by (simp only: unat_sub_if_size if_True)
qed

end
