(* ===== verification/Seq_Num.thy ===== *)
theory Seq_Num
  imports Vqe_Prelude
begin

text \<open>
  Generalised sequence numbers, \<^verbatim>\<open>vqecutils/vqec_seq_num.h\<close>: the 32-bit serial numbers that
  the packet cache uses, their order, which is an order on every window of less than half of the
  number circle, and the conversion from and to the 16-bit numbers of RTP packets.
\<close>

subsection \<open>The operations\<close>

type_synonym vqec_seq_num = u32

definition vqec_seq_num_lt :: "vqec_seq_num \<Rightarrow> vqec_seq_num \<Rightarrow> bool" where
  "vqec_seq_num_lt s0 s1 = (drop_bit 31 (s0 - s1) \<noteq> 0)"

definition vqec_seq_num_gt :: "vqec_seq_num \<Rightarrow> vqec_seq_num \<Rightarrow> bool" where
  "vqec_seq_num_gt s0 s1 = vqec_seq_num_lt s1 s0"

definition vqec_seq_num_eq :: "vqec_seq_num \<Rightarrow> vqec_seq_num \<Rightarrow> bool" where
  "vqec_seq_num_eq s0 s1 = (s0 = s1)"

definition vqec_seq_num_ge :: "vqec_seq_num \<Rightarrow> vqec_seq_num \<Rightarrow> bool" where
  "vqec_seq_num_ge s0 s1 = (s0 = s1 \<or> vqec_seq_num_gt s0 s1)"

definition vqec_seq_num_le :: "vqec_seq_num \<Rightarrow> vqec_seq_num \<Rightarrow> bool" where
  "vqec_seq_num_le s0 s1 = (s0 = s1 \<or> vqec_seq_num_lt s0 s1)"

definition vqec_seq_num_ne :: "vqec_seq_num \<Rightarrow> vqec_seq_num \<Rightarrow> bool" where
  "vqec_seq_num_ne s0 s1 = (s0 \<noteq> s1)"

text \<open>The C functions return \<open>int32_t\<close>: the same 32 bits, which callers that need the sign
  read with \<open>sint\<close>.\<close>

definition vqec_seq_num_add :: "vqec_seq_num \<Rightarrow> vqec_seq_num \<Rightarrow> s32" where
  "vqec_seq_num_add s0 s1 = s0 + s1"

definition vqec_seq_num_sub :: "vqec_seq_num \<Rightarrow> vqec_seq_num \<Rightarrow> s32" where
  "vqec_seq_num_sub s0 s1 = s0 - s1"

definition vqec_next_seq_num :: "vqec_seq_num \<Rightarrow> vqec_seq_num" where
  "vqec_next_seq_num s = s + 1"

definition vqec_pre_seq_num :: "vqec_seq_num \<Rightarrow> vqec_seq_num" where
  "vqec_pre_seq_num s = s - 1"

text \<open>\<open>s + ((int16_t) (rtp_seq_num - (s & 0xffff)))\<close>: the difference is cut to 16 bits and
  sign-extended.\<close>

definition vqec_seq_num_nearest_to_rtp_seq_num :: "vqec_seq_num \<Rightarrow> u16 \<Rightarrow> vqec_seq_num" where
  "vqec_seq_num_nearest_to_rtp_seq_num s rtp_seq_num =
     s + scast (ucast (ucast rtp_seq_num - (s AND 0xffff)) :: 16 word)"

definition vqec_seq_num_to_rtp_seq_num :: "vqec_seq_num \<Rightarrow> u16" where
  "vqec_seq_num_to_rtp_seq_num s = ucast (s AND 0xffff)"

definition VQEC_SEQ_NUM_RTP_DISCONT_IND :: u32 where
  "VQEC_SEQ_NUM_RTP_DISCONT_IND = 0x00030000"

definition vqec_seq_num_mark_rtp_seq_num_discont :: "vqec_seq_num \<Rightarrow> vqec_seq_num" where
  "vqec_seq_num_mark_rtp_seq_num_discont s = (s AND NOT 0x0000ffff) + VQEC_SEQ_NUM_RTP_DISCONT_IND"

definition vqec_seq_num_bump_seq :: "vqec_seq_num \<Rightarrow> vqec_seq_num" where
  "vqec_seq_num_bump_seq s = s + VQEC_SEQ_NUM_RTP_DISCONT_IND"

definition vqec_next_rtp_seq_num :: "u16 \<Rightarrow> u16" where
  "vqec_next_rtp_seq_num s = s + 1"

definition vqec_pre_rtp_seq_num :: "u16 \<Rightarrow> u16" where
  "vqec_pre_rtp_seq_num s = s - 1"

definition vqec_rtp_seq_num_lt :: "u16 \<Rightarrow> u16 \<Rightarrow> bool" where
  "vqec_rtp_seq_num_lt s0 s1 = (drop_bit 15 (s0 - s1) \<noteq> 0)"

definition vqec_rtp_seq_num_gt :: "u16 \<Rightarrow> u16 \<Rightarrow> bool" where
  "vqec_rtp_seq_num_gt s0 s1 = vqec_rtp_seq_num_lt s1 s0"

subsection \<open>Serial order as distance on the circle\<close>

text \<open>The distance forward from \<open>a\<close> to \<open>b\<close>. Every comparison is a bound on it.\<close>

abbreviation fdist :: "vqec_seq_num \<Rightarrow> vqec_seq_num \<Rightarrow> nat" where
  "fdist a b \<equiv> unat (b - a)"

lemma drop_bit_ne_0_iff:
  fixes w :: "'a::len word"
  shows "drop_bit n w \<noteq> 0 \<longleftrightarrow> 2 ^ n \<le> unat w"
proof -
  have "drop_bit n w = 0 \<longleftrightarrow> unat (drop_bit n w) = 0"
    by (simp only: unat_0_iff)
  also have "\<dots> \<longleftrightarrow> unat w div 2 ^ n = 0"
    by (simp only: unat_drop_bit_div)
  also have "\<dots> \<longleftrightarrow> unat w < 2 ^ n"
    by (simp add: div_eq_0_iff)
  finally show ?thesis by (simp add: not_less)
qed

lemma vqec_seq_num_lt_unat: "vqec_seq_num_lt a b \<longleftrightarrow> 2 ^ 31 \<le> unat (a - b)"
  by (simp only: vqec_seq_num_lt_def drop_bit_ne_0_iff)

lemma vqec_seq_num_lt_iff [seq_simps]:
  "vqec_seq_num_lt a b \<longleftrightarrow> 0 < fdist a b \<and> fdist a b \<le> 2 ^ 31"
proof (cases "a = b")
  case True
  then show ?thesis by (simp add: vqec_seq_num_lt_unat)
next
  case False
  then have "unat (a - b) = 2 ^ 32 - fdist a b" and "0 < fdist a b"
    using unat_minus_swap [of a b] by (simp_all add: unat_gt_0)
  then show ?thesis using unat_less_pow [of "b - a"] by (auto simp: vqec_seq_num_lt_unat)
qed

lemma vqec_seq_num_gt_iff [seq_simps]:
  "vqec_seq_num_gt a b \<longleftrightarrow> 0 < fdist b a \<and> fdist b a \<le> 2 ^ 31"
  by (simp add: vqec_seq_num_gt_def vqec_seq_num_lt_iff)

lemma vqec_seq_num_le_iff [seq_simps]: "vqec_seq_num_le a b \<longleftrightarrow> fdist a b \<le> 2 ^ 31"
  by (auto simp: vqec_seq_num_le_def vqec_seq_num_lt_iff unat_gt_0)

lemma vqec_seq_num_ge_iff [seq_simps]: "vqec_seq_num_ge a b \<longleftrightarrow> fdist b a \<le> 2 ^ 31"
  by (auto simp: vqec_seq_num_ge_def vqec_seq_num_gt_iff unat_gt_0)

lemma fdist_trans:
  assumes "fdist a b + fdist b c < 2 ^ 32"
  shows "fdist a c = fdist a b + fdist b c"
proof -
  have "c - a = (b - a) + (c - b)" by simp
  then show ?thesis
    using unat_add_small [of "b - a" "c - b"] assms by simp
qed

lemma fdist_swap: "a \<noteq> b \<Longrightarrow> fdist b a = 2 ^ 32 - fdist a b"
  using unat_minus_swap [of a b] by simp

subsection \<open>Serial order on a window\<close>

text \<open>
  What a user of serial numbers relies on: inside a window of less than half of the circle the
  serial comparison is the numeric order of the distances from the window's base. Both widths of
  sequence number satisfy the contract.
\<close>

locale serial_order =
  fixes lt :: "'a::len word \<Rightarrow> 'a word \<Rightarrow> bool"
  assumes lt_dist: "lt a b \<longleftrightarrow> 0 < unat (b - a) \<and> unat (b - a) \<le> 2 ^ (LENGTH('a) - 1)"
begin

lemma window_lt:
  assumes x: "unat (x - b) < 2 ^ (LENGTH('a) - 1)"
    and y: "unat (y - b) < 2 ^ (LENGTH('a) - 1)"
  shows "lt x y \<longleftrightarrow> unat (x - b) < unat (y - b)"
proof (cases "unat (x - b) \<le> unat (y - b)")
  case True
  then have "unat (y - x) = unat (y - b) - unat (x - b)" by (rule unat_window_diff)
  with True y show ?thesis unfolding lt_dist by auto
next
  case False
  then have gt: "unat (y - b) < unat (x - b)" by simp
  then have d: "unat (x - y) = unat (x - b) - unat (y - b)"
    by (intro unat_window_diff) simp
  have ne: "x \<noteq> y" using gt by auto
  have "(2::nat) ^ LENGTH('a) = 2 * 2 ^ (LENGTH('a) - 1)"
    by (simp flip: power_Suc)
  then have "2 ^ (LENGTH('a) - 1) < unat (y - x)"
    using unat_minus_swap [of y x] ne d x gt by (simp add: not_le)
  with gt show ?thesis unfolding lt_dist by auto
qed

lemma window_asym:
  assumes "unat (b - a) \<noteq> 2 ^ (LENGTH('a) - 1)" and "lt a b"
  shows "\<not> lt b a"
proof -
  have ne: "b \<noteq> a" using assms(2) lt_dist by auto
  have "(2::nat) ^ LENGTH('a) = 2 * 2 ^ (LENGTH('a) - 1)"
    by (simp flip: power_Suc)
  then show ?thesis
    using unat_minus_swap [of a b] ne assms unfolding lt_dist by auto
qed

end

interpretation seq: serial_order vqec_seq_num_lt
  by unfold_locales (simp add: vqec_seq_num_lt_iff)

lemma vqec_rtp_seq_num_lt_iff:
  "vqec_rtp_seq_num_lt a b \<longleftrightarrow> 0 < unat (b - a) \<and> unat (b - a) \<le> 2 ^ 15"
proof (cases "a = b")
  case True
  then show ?thesis by (simp add: vqec_rtp_seq_num_lt_def)
next
  case False
  then have "unat (a - b) = 2 ^ 16 - unat (b - a)" and "0 < unat (b - a)"
    using unat_minus_swap [of a b] by (simp_all add: unat_gt_0)
  moreover have "unat (b - a) < 2 ^ 16" using unat_less_pow [of "b - a"] by simp
  ultimately show ?thesis
    unfolding vqec_rtp_seq_num_lt_def drop_bit_ne_0_iff by auto
qed

interpretation rtp_seq: serial_order vqec_rtp_seq_num_lt
  by unfold_locales (simp add: vqec_rtp_seq_num_lt_iff)

subsection \<open>Unwrapping the 16-bit RTP sequence number\<close>

lemma low16_mask: "(0xffff :: u32) = mask 16"
  by (simp add: mask_eq_exp_minus_1)

lemma ucast_low16: "ucast (s AND 0xffff :: u32) = (ucast s :: u16)"
  unfolding low16_mask by (rule bit_word_eqI) (auto simp: bit_simps)

lemma ucast_add16: "(ucast (x + y :: u32) :: u16) = ucast x + ucast y"
  by (simp add: word_eq_unat_iff unat_word_ariths unsigned_ucast_eq take_bit_eq_mod
      mod_mod_cancel mod_add_eq)

lemma ucast_sub16: "(ucast (x - y :: u32) :: u16) = ucast x - ucast y"
proof -
  have "ucast x = (ucast (x - y) + ucast y :: u16)" by (simp flip: ucast_add16)
  then show ?thesis by simp
qed

lemma ucast_scast16: "(ucast (scast (w :: u16) :: u32) :: u16) = w"
  by (rule bit_word_eqI) (auto simp: bit_simps)

lemma ucast_ucast16: "(ucast (ucast (w :: u16) :: u32) :: u16) = w"
  by (rule bit_word_eqI) (auto simp: bit_simps)

lemma vqec_seq_num_to_rtp_seq_num_ucast: "vqec_seq_num_to_rtp_seq_num s = ucast s"
  by (simp add: vqec_seq_num_to_rtp_seq_num_def ucast_low16)

lemma nearest_offset:
  "vqec_seq_num_nearest_to_rtp_seq_num s r - s = scast (r - vqec_seq_num_to_rtp_seq_num s)"
  by (simp add: vqec_seq_num_nearest_to_rtp_seq_num_def vqec_seq_num_to_rtp_seq_num_ucast
      ucast_sub16 ucast_ucast16 ucast_low16)

lemma sint_scast16: "sint (scast (w :: u16) :: u32) = sint w"
  by transfer simp

lemma sint16_bounds: "- (2 ^ 15) \<le> sint (w :: u16) \<and> sint w < 2 ^ 15"
  using sint_greater_eq [of w] sint_less [of w] by simp

lemma ucast16_sint_inj:
  fixes d e :: u32
  assumes "(ucast d :: u16) = ucast e"
    and "- (2 ^ 15) \<le> sint d" "sint d < 2 ^ 15" "- (2 ^ 15) \<le> sint e" "sint e < 2 ^ 15"
  shows "d = e"
proof -
  have m: "uint (ucast w :: u16) = sint w mod 2 ^ 16" for w :: u32
    using uint_sint [of w] by (simp add: unsigned_ucast_eq take_bit_eq_mod mod_mod_cancel)
  have "sint d mod 2 ^ 16 = sint e mod 2 ^ 16" using m [of d] m [of e] assms(1) by simp
  then have "2 ^ 16 dvd sint d - sint e" by (simp add: mod_eq_dvd_iff)
  moreover have "\<bar>sint d - sint e\<bar> < 2 ^ 16" using assms(2-) by auto
  ultimately have "sint d = sint e" using dvd_imp_le_int [of "sint d - sint e" "2 ^ 16"] by force
  then show ?thesis by (rule signed_word_eqI)
qed

lemma clear_low16: "(s AND NOT 0x0000ffff :: u32) = s - (s AND 0xffff)"
proof -
  have "s = (s AND NOT 0xffff) OR (s AND 0xffff)"
    by (rule bit_word_eqI) (auto simp: bit_simps)
  also have "\<dots> = (s AND NOT 0xffff) + (s AND 0xffff)"
    by (rule disjunctive_add [symmetric]) (auto simp: bit_simps)
  finally show ?thesis by (metis add_diff_cancel_right')
qed

lemma discont_dist: "fdist s (vqec_seq_num_mark_rtp_seq_num_discont s) = 0x30000 - unat s mod 2 ^ 16"
proof -
  have e: "vqec_seq_num_mark_rtp_seq_num_discont s - s = 0x30000 - (s AND 0xffff)"
    unfolding vqec_seq_num_mark_rtp_seq_num_discont_def clear_low16
        VQEC_SEQ_NUM_RTP_DISCONT_IND_def by simp
  have u: "unat (s AND 0xffff) = unat s mod 2 ^ 16" by (simp only: low16_mask unat_and_mask)
  have "unat (s AND 0xffff) \<le> unat (0x30000 :: u32)" unfolding u by (simp add: less_imp_le [THEN le_trans])
  then show ?thesis by (simp only: e unat_sub_if_size if_True u) simp
qed

lemma uint_of_int32: "uint (word_of_int d :: u32) = d mod 0x100000000"
  by (simp add: unsigned_of_int take_bit_eq_mod)

lemma fdist_signed_offset:
  assumes "0x8000 \<le> fdist s m" "fdist s m + 0x8000 < 0x100000000"
    and "- 0x8000 \<le> sint (x - m)" "sint (x - m) < 0x8000"
  shows "int (fdist s x) = int (fdist s m) + sint (x - m)"
proof -
  let ?d = "int (fdist s m) + sint (x - m)"
  have "x - s = word_of_int (uint (m - s)) + word_of_int (sint (x - m))"
    by simp
  also have "\<dots> = word_of_int ?d" by (simp only: of_int_add uint_nat)
  finally have "uint (x - s) = uint (word_of_int ?d :: u32)" by (rule arg_cong)
  also have "\<dots> = ?d mod 0x100000000" by (rule uint_of_int32)
  also have "\<dots> = ?d" using assms by (intro mod_pos_pos_trivial) linarith+
  finally show ?thesis by (simp only: uint_nat)
qed

subsection \<open>Properties\<close>

text \<open>C25: inside any window of less than half of the number circle, starting anywhere, the six
  comparisons of generalised sequence numbers are exactly the numeric comparisons of the distances
  from the start of the window, wrap-around included.\<close>

theorem seq_num_window_order:
  assumes "unat (x - base) < 2 ^ 31" and "unat (y - base) < 2 ^ 31"
  shows "(vqec_seq_num_lt x y \<longleftrightarrow> unat (x - base) < unat (y - base)) \<and>
    (vqec_seq_num_gt x y \<longleftrightarrow> unat (x - base) > unat (y - base)) \<and>
    (vqec_seq_num_le x y \<longleftrightarrow> unat (x - base) \<le> unat (y - base)) \<and>
    (vqec_seq_num_ge x y \<longleftrightarrow> unat (x - base) \<ge> unat (y - base)) \<and>
    (vqec_seq_num_eq x y \<longleftrightarrow> unat (x - base) = unat (y - base)) \<and>
    (vqec_seq_num_ne x y \<longleftrightarrow> unat (x - base) \<noteq> unat (y - base))"
proof -
  have lt: "vqec_seq_num_lt x y \<longleftrightarrow> unat (x - base) < unat (y - base)"
    and gt: "vqec_seq_num_lt y x \<longleftrightarrow> unat (y - base) < unat (x - base)"
    using assms by (auto intro!: seq.window_lt)
  have eq: "x = y \<longleftrightarrow> unat (x - base) = unat (y - base)"
    by (metis diff_add_cancel word_unat_eq_iff)
  show ?thesis
    unfolding vqec_seq_num_gt_def vqec_seq_num_le_def vqec_seq_num_ge_def vqec_seq_num_eq_def
      vqec_seq_num_ne_def lt gt eq by auto
qed

theorem seq_num_window_order_witness:
  "vqec_seq_num_lt 0xFFFFFFFE 3 \<and> \<not> vqec_seq_num_ge 0xFFFFFFFE 3"
  using seq_num_window_order [of "0xFFFFFFFE" "0xFFFFFFF0" 3] by simp

text \<open>C26: \<open>vqec_seq_num_nearest_to_rtp_seq_num\<close> unwraps a 16-bit RTP number next to a reference
  number: the result has the low 16 bits of the RTP number, lies within \<open>2 ^ 15\<close> of the reference
  on either side, and is the only number that does.\<close>

theorem nearest_to_rtp_unique:
  "x = vqec_seq_num_nearest_to_rtp_seq_num s r \<longleftrightarrow>
   vqec_seq_num_to_rtp_seq_num x = r \<and>
   - (2 ^ 15) \<le> sint (vqec_seq_num_sub x s) \<and> sint (vqec_seq_num_sub x s) < 2 ^ 15"
    (is "?eq \<longleftrightarrow> ?near x")
proof
  let ?n = "vqec_seq_num_nearest_to_rtp_seq_num s r"
  have "vqec_seq_num_to_rtp_seq_num ?n = ucast (?n - s) + ucast s"
    by (simp add: vqec_seq_num_to_rtp_seq_num_ucast flip: ucast_add16)
  then have n: "?near ?n"
    using sint16_bounds
    by (simp add: vqec_seq_num_sub_def nearest_offset ucast_scast16 sint_scast16
        vqec_seq_num_to_rtp_seq_num_ucast)
  then show "?near x" if ?eq using that by simp
  show ?eq if "?near x"
    using ucast16_sint_inj [of "x - s" "?n - s"] that n
    by (simp add: vqec_seq_num_sub_def vqec_seq_num_to_rtp_seq_num_ucast ucast_sub16)
qed

text \<open>After a discontinuity the cached stream restarts beyond everything it held: whatever
  RTP number the next packet carries, its generalised number comes after the last number before
  the mark, at a distance of more than \<open>2 ^ 16\<close> (so the old and the new numbers never meet in one
  RTP cycle) and less than \<open>2 ^ 18\<close>.\<close>

lemma discont_jumps_ahead:
  "let n = vqec_seq_num_nearest_to_rtp_seq_num (vqec_seq_num_mark_rtp_seq_num_discont s) r
   in vqec_seq_num_gt n s \<and> 2 ^ 16 < unat (n - s) \<and> unat (n - s) < 2 ^ 18"
proof -
  let ?m = "vqec_seq_num_mark_rtp_seq_num_discont s"
  let ?n = "vqec_seq_num_nearest_to_rtp_seq_num ?m r"
  have near: "- 0x8000 \<le> sint (?n - ?m)" "sint (?n - ?m) < 0x8000"
    using sint16_bounds by (simp_all add: nearest_offset sint_scast16)
  have lo: "0x20000 < fdist s ?m" and hi: "fdist s ?m \<le> 0x30000"
    using mod_less_divisor [of "2 ^ 16" "unat s"] unfolding discont_dist by auto
  then have "int (fdist s ?n) = int (fdist s ?m) + sint (?n - ?m)"
    using near by (intro fdist_signed_offset) linarith+
  then have "0x10000 < fdist s ?n" and "fdist s ?n < 0x40000" using lo hi near by linarith+
  then show ?thesis by (simp add: Let_def vqec_seq_num_gt_iff)
qed

end
