(* ===== verification/Vam_Time.thy ===== *)
theory Vam_Time
  imports Vqe_Prelude
begin

text \<open>
  Time, \<^verbatim>\<open>include/utils/vam_time.h\<close>: absolute times are unsigned and relative times are signed
  counts of microseconds in 64 bits, both structs of one field, so both are words here and an
  operation on relative times reads them with \<open>sint\<close>. Every addition and subtraction wraps as the
  C code's does. The operations of the header on floating point numbers (conversion to NTP time,
  multiplication and division with \<^verbatim>\<open>double\<close>) are left out.
\<close>

subsection \<open>Representation\<close>

type_synonym abs_time = u64
type_synonym rel_time = s64

record timeval =
  tv_sec :: s64
  tv_usec :: s64

definition sdiv64 :: "s64 \<Rightarrow> s64 \<Rightarrow> s64" where
  "sdiv64 a b = word_of_int (c_div (sint a) (sint b))"

definition ABS_TIME_0 :: abs_time where "ABS_TIME_0 = 0"
definition REL_TIME_0 :: rel_time where "REL_TIME_0 = 0"
definition SECS :: "s64 \<Rightarrow> rel_time" where "SECS secs = 1000000 * secs"
definition MSECS :: "s64 \<Rightarrow> rel_time" where "MSECS msecs = 1000 * msecs"
definition USECS :: "s64 \<Rightarrow> rel_time" where "USECS usecs = usecs"

subsection \<open>Absolute times\<close>

definition sec_to_abs_time :: "u64 \<Rightarrow> abs_time" where
  "sec_to_abs_time sec = 1000000 * sec"

definition msec_to_abs_time :: "u64 \<Rightarrow> abs_time" where
  "msec_to_abs_time msec = 1000 * msec"

definition usec_to_abs_time :: "u64 \<Rightarrow> abs_time" where
  "usec_to_abs_time usec = usec"

definition nsec_to_abs_time :: "u64 \<Rightarrow> abs_time" where
  "nsec_to_abs_time nsec = nsec div 1000"

definition timeval_to_abs_time :: "timeval \<Rightarrow> abs_time" where
  "timeval_to_abs_time tv = tv_sec tv * 1000000 + tv_usec tv"

definition abs_time_to_sec :: "abs_time \<Rightarrow> u64" where
  "abs_time_to_sec t = t div 1000000"

definition abs_time_to_msec :: "abs_time \<Rightarrow> u64" where
  "abs_time_to_msec t = t div 1000"

definition abs_time_to_usec :: "abs_time \<Rightarrow> u64" where
  "abs_time_to_usec t = t"

definition abs_time_to_nsec :: "abs_time \<Rightarrow> u64" where
  "abs_time_to_nsec t = t * 1000"

definition abs_time_to_timeval :: "abs_time \<Rightarrow> timeval" where
  "abs_time_to_timeval t =
     (let secs = t div 1000000 in \<lparr>tv_sec = secs, tv_usec = t - secs * 1000000\<rparr>)"

definition abs_time_lt :: "abs_time \<Rightarrow> abs_time \<Rightarrow> bool" where "abs_time_lt t0 t1 = (t0 < t1)"
definition abs_time_gt :: "abs_time \<Rightarrow> abs_time \<Rightarrow> bool" where "abs_time_gt t0 t1 = (t0 > t1)"
definition abs_time_le :: "abs_time \<Rightarrow> abs_time \<Rightarrow> bool" where "abs_time_le t0 t1 = (t0 \<le> t1)"
definition abs_time_ge :: "abs_time \<Rightarrow> abs_time \<Rightarrow> bool" where "abs_time_ge t0 t1 = (t0 \<ge> t1)"
definition abs_time_eq :: "abs_time \<Rightarrow> abs_time \<Rightarrow> bool" where "abs_time_eq t0 t1 = (t0 = t1)"
definition abs_time_ne :: "abs_time \<Rightarrow> abs_time \<Rightarrow> bool" where "abs_time_ne t0 t1 = (t0 \<noteq> t1)"

definition IS_ABS_TIME_ZERO :: "abs_time \<Rightarrow> bool" where
  "IS_ABS_TIME_ZERO t = abs_time_eq t ABS_TIME_0"

subsection \<open>Relative times\<close>

definition sec_to_rel_time :: "s64 \<Rightarrow> rel_time" where
  "sec_to_rel_time sec = 1000000 * sec"

definition msec_to_rel_time :: "s64 \<Rightarrow> rel_time" where
  "msec_to_rel_time msec = 1000 * msec"

definition usec_to_rel_time :: "s64 \<Rightarrow> rel_time" where
  "usec_to_rel_time usec = usec"

definition nsec_to_rel_time :: "s64 \<Rightarrow> rel_time" where
  "nsec_to_rel_time nsec = sdiv64 nsec 1000"

definition PCR_TO_USEC_SHIFT :: nat where "PCR_TO_USEC_SHIFT = 25"

definition PCR_TO_USEC_MULT :: s64 where
  "PCR_TO_USEC_MULT = sdiv64 (push_bit PCR_TO_USEC_SHIFT 100) 9"

definition pcr_to_rel_time :: "s64 \<Rightarrow> rel_time" where
  "pcr_to_rel_time pcr = signed_drop_bit PCR_TO_USEC_SHIFT (pcr * PCR_TO_USEC_MULT)"

definition timeval_to_rel_time :: "timeval \<Rightarrow> rel_time" where
  "timeval_to_rel_time tv = tv_sec tv * 1000000 + tv_usec tv"

definition rel_time_to_sec :: "rel_time \<Rightarrow> s64" where "rel_time_to_sec t = sdiv64 t 1000000"
definition rel_time_to_msec :: "rel_time \<Rightarrow> s64" where "rel_time_to_msec t = sdiv64 t 1000"
definition rel_time_to_usec :: "rel_time \<Rightarrow> s64" where "rel_time_to_usec t = t"
definition rel_time_to_nsec :: "rel_time \<Rightarrow> s64" where "rel_time_to_nsec t = t * 1000"

text \<open>The multiplier of \<open>rel_time_to_pcr\<close> is unsigned, so that the product is unsigned and the
  shift brings in zeros.\<close>

definition USEC_TO_PCR_SHIFT :: nat where "USEC_TO_PCR_SHIFT = 27"

definition USEC_TO_PCR_MULT :: u64 where
  "USEC_TO_PCR_MULT = push_bit USEC_TO_PCR_SHIFT 9 div 100"

definition rel_time_to_pcr :: "rel_time \<Rightarrow> s64" where
  "rel_time_to_pcr t = drop_bit USEC_TO_PCR_SHIFT (t * USEC_TO_PCR_MULT)"

definition rel_time_to_timeval :: "rel_time \<Rightarrow> timeval" where
  "rel_time_to_timeval t =
     (let secs = sdiv64 t 1000000 in \<lparr>tv_sec = secs, tv_usec = t - secs * 1000000\<rparr>)"

definition rel_time_lt :: "rel_time \<Rightarrow> rel_time \<Rightarrow> bool" where "rel_time_lt t0 t1 = (t0 <s t1)"
definition rel_time_gt :: "rel_time \<Rightarrow> rel_time \<Rightarrow> bool" where "rel_time_gt t0 t1 = (t1 <s t0)"
definition rel_time_le :: "rel_time \<Rightarrow> rel_time \<Rightarrow> bool" where "rel_time_le t0 t1 = (t0 \<le>s t1)"
definition rel_time_ge :: "rel_time \<Rightarrow> rel_time \<Rightarrow> bool" where "rel_time_ge t0 t1 = (t1 \<le>s t0)"
definition rel_time_eq :: "rel_time \<Rightarrow> rel_time \<Rightarrow> bool" where "rel_time_eq t0 t1 = (t0 = t1)"
definition rel_time_ne :: "rel_time \<Rightarrow> rel_time \<Rightarrow> bool" where "rel_time_ne t0 t1 = (t0 \<noteq> t1)"

subsection \<open>Arithmetic\<close>

definition abs_plus_rel_time :: "abs_time \<Rightarrow> rel_time \<Rightarrow> abs_time" where
  "abs_plus_rel_time time offset = time + offset"

definition abs_minus_rel_time :: "abs_time \<Rightarrow> rel_time \<Rightarrow> abs_time" where
  "abs_minus_rel_time time offset = time - offset"

definition abs_minus_abs_time :: "abs_time \<Rightarrow> abs_time \<Rightarrow> rel_time" where
  "abs_minus_abs_time t0 t1 = t0 - t1"

definition rel_plus_rel_time :: "rel_time \<Rightarrow> rel_time \<Rightarrow> rel_time" where
  "rel_plus_rel_time t0 t1 = t0 + t1"

definition rel_minus_rel_time :: "rel_time \<Rightarrow> rel_time \<Rightarrow> rel_time" where
  "rel_minus_rel_time t0 t1 = t0 - t1"

definition rel_time_neg :: "rel_time \<Rightarrow> rel_time" where
  "rel_time_neg t = - t"

definition rel_time_abs :: "rel_time \<Rightarrow> rel_time" where
  "rel_time_abs t = (if rel_time_lt t REL_TIME_0 then rel_time_neg t else t)"

definition rel_time_mult_int :: "rel_time \<Rightarrow> s32 \<Rightarrow> rel_time" where
  "rel_time_mult_int t factor = t * scast factor"

text \<open>The C operators leave a zero divisor undefined; here the quotient is then 0.\<close>

definition rel_time_div_int :: "rel_time \<Rightarrow> s32 \<Rightarrow> rel_time" where
  "rel_time_div_int t divisor = sdiv64 t (scast divisor)"

definition rel_div_rel_time :: "rel_time \<Rightarrow> rel_time \<Rightarrow> s32" where
  "rel_div_rel_time t0 t1 = ucast (sdiv64 t0 t1)"

definition rel_mod_rel_time :: "rel_time \<Rightarrow> rel_time \<Rightarrow> rel_time" where
  "rel_mod_rel_time t0 t1 = t0 - sdiv64 t0 t1 * t1"

definition rel_time_lshift :: "rel_time \<Rightarrow> u8 \<Rightarrow> rel_time" where
  "rel_time_lshift t shift = push_bit (unat shift) t"

definition rel_time_rshift :: "rel_time \<Rightarrow> u8 \<Rightarrow> rel_time" where
  "rel_time_rshift t shift = signed_drop_bit (unat shift) t"

definition rel_time_mult_rel_div_rel :: "rel_time \<Rightarrow> rel_time \<Rightarrow> rel_time \<Rightarrow> rel_time" where
  "rel_time_mult_rel_div_rel factor0 factor1 divisor = sdiv64 (factor0 * factor1) divisor"

lemmas abs_time_cmp_defs =
  abs_time_lt_def abs_time_gt_def abs_time_le_def abs_time_ge_def abs_time_eq_def abs_time_ne_def

lemmas rel_time_cmp_defs =
  rel_time_lt_def rel_time_gt_def rel_time_le_def rel_time_ge_def rel_time_eq_def rel_time_ne_def

lemmas time_arith_defs =
  abs_plus_rel_time_def abs_minus_rel_time_def abs_minus_abs_time_def rel_plus_rel_time_def
  rel_minus_rel_time_def rel_time_neg_def

declare abs_time_cmp_defs [time_defs] rel_time_cmp_defs [time_defs] time_arith_defs [time_defs]
  ABS_TIME_0_def [time_defs] REL_TIME_0_def [time_defs]

subsection \<open>Lemmas\<close>

lemma rel_time_lt_sint: "rel_time_lt a b \<longleftrightarrow> sint a < sint b"
  by (simp add: rel_time_lt_def word_sless_alt)

lemma rel_time_le_sint: "rel_time_le a b \<longleftrightarrow> sint a \<le> sint b"
  by (simp add: rel_time_le_def word_sle_eq)

lemma sint_word_of_int64:
  assumes "- (2 ^ 63) \<le> i" and "i < 2 ^ 63"
  shows "sint (word_of_int i :: s64) = i"
  using assms by (simp add: signed_of_int signed_take_bit_int_eq_self)

lemma sint_eq_uint64:
  assumes "uint (w :: s64) < 2 ^ 63"
  shows "sint w = uint w"
  using assms by (simp add: sint_uint signed_take_bit_int_eq_self order_trans [OF _ uint_ge_0])

lemma sint_nonneg_uint64:
  assumes "0 \<le> sint (w :: s64)"
  shows "sint w = uint w"
  using assms sint_less [of w] by (simp add: uint_sint take_bit_int_eq_self)

lemma sint_nonneg_iff64: "0 \<le> sint (w :: s64) \<longleftrightarrow> uint w < 2 ^ 63"
  using sint_eq_uint64 [of w] sint_nonneg_uint64 [of w] sint_less [of w] by auto

lemma sdiv64_nonneg:
  assumes "uint a < 2 ^ 63" and "0 < uint b" "uint b < 2 ^ 63"
  shows "uint (sdiv64 a b) = uint a div uint b"
proof -
  have "uint a div uint b \<le> uint a" using assms(2)
    by (cases "uint b = 1") (auto intro: order_trans [OF zdiv_mono2 [of _ 1]])
  then have "uint a div uint b < 2 ^ 64" using assms(1) by simp
  moreover have "0 \<le> uint a div uint b" using assms(2) by (simp add: pos_imp_zdiv_nonneg_iff)
  ultimately show ?thesis
    using assms by (simp add: sdiv64_def sint_eq_uint64 c_div_nonneg unsigned_of_int take_bit_int_eq_self)
qed

lemma pcr_mult_error:
  fixes p :: int
  assumes "0 \<le> p" and "p < 8589934592"
  shows "p * 372827022 div 2 ^ 25 \<le> p * 100 div 9 \<and>
    p * 100 div 9 < p * 372827022 div 2 ^ 25 + 58"
proof -
  let ?q = "p * 372827022 div 33554432" and ?r = "p * 100 div 9"
  have "33554432 * ?q \<le> p * 372827022" and "p * 372827022 < 33554432 * ?q + 33554432"
    and "9 * ?r \<le> p * 100" and "p * 100 < 9 * ?r + 9" by linarith+
  then have "?q \<le> ?r" and "?r < ?q + 58" using assms by auto
  then show ?thesis by simp
qed

lemma PCR_TO_USEC_MULT_val: "PCR_TO_USEC_MULT = 372827022"
  by (simp add: PCR_TO_USEC_MULT_def PCR_TO_USEC_SHIFT_def sdiv64_def c_div_def)

subsection \<open>Properties\<close>

text \<open>An absolute time survives the conversion to a \<open>timeval\<close> and back, and the \<open>timeval\<close> is
  normalised: its microseconds are below one million.\<close>

lemma abs_time_timeval_roundtrip:
  "timeval_to_abs_time (abs_time_to_timeval t) = t \<and> tv_usec (abs_time_to_timeval t) < 1000000"
proof -
  have "t - t div 1000000 * 1000000 = t mod 1000000"
    by (rule minus_div_mult_eq_mod)
  then show ?thesis
    by (simp add: timeval_to_abs_time_def abs_time_to_timeval_def Let_def word_mod_less_divisor div_mult_mod_eq)
qed

text \<open>The division-free conversion of 90 kHz ticks to microseconds never overflows for a
  33-bit MPEG clock value, never exceeds the exact quotient \<open>pcr * 100 / 9\<close>, and is less than
  58 microseconds below it.\<close>

lemma pcr_to_rel_time_error:
  assumes "uint pcr < 2 ^ 33"
  shows "uint (pcr_to_rel_time pcr) \<le> uint pcr * 100 div 9 \<and>
    uint pcr * 100 div 9 < uint (pcr_to_rel_time pcr) + 58"
proof -
  have "uint pcr * 372827022 < 2 ^ 63" using assms by simp
  moreover have u: "uint (pcr * 372827022) = uint pcr * 372827022"
    using assms by (simp add: uint_word_ariths)
  ultimately have "sint (pcr * 372827022) = uint pcr * 372827022"
    by (simp add: sint_eq_uint64)
  then have "sint (pcr_to_rel_time pcr) = uint pcr * 372827022 div 2 ^ 25"
    by (simp add: pcr_to_rel_time_def PCR_TO_USEC_MULT_val PCR_TO_USEC_SHIFT_def sint_signed_drop_bit_eq drop_bit_eq_div)
  then have "uint (pcr_to_rel_time pcr) = uint pcr * 372827022 div 2 ^ 25"
    using sint_nonneg_uint64 [of "pcr_to_rel_time pcr"] by (simp add: pos_imp_zdiv_nonneg_iff)
  then show ?thesis using pcr_mult_error [of "uint pcr"] assms by simp
qed

end
