(* ===== verification/Vqe_Bitmap.thy ===== *)
theory Vqe_Bitmap
  imports Vqe_Prelude
begin

text \<open>
  The circular bitmap, \<^verbatim>\<open>utils/vqe_bitmap.c\<close>: an array of 32-bit blocks in which bit 0 of the map
  is the most significant bit of block 0. Indices of any size are reduced by a mask to the size of
  the map, a power of two, and a range whose end lies before its start wraps around. The packet
  cache keeps its map of missing packets in one of these.

  A pointer to a map that may be null is an option; the data array of an existing map is never
  null, since \<open>vqe_bitmap_create\<close> does not return a map without one.
\<close>

subsection \<open>The operations\<close>

datatype vqe_bitmap_error = VQE_BITMAP_OK | VQE_BITMAP_ERR_INVALIDARGS

record vqe_bitmap =
  bm_data :: "u32 list"
  bm_size :: u32

definition VQE_BITMAP_MAX_SIZE :: u32 where "VQE_BITMAP_MAX_SIZE = 65536"
definition VQE_BITMAP_WORD_SIZE_BITS :: nat where "VQE_BITMAP_WORD_SIZE_BITS = 5"
definition VQE_BITMAP_ALL_ONES :: u32 where "VQE_BITMAP_ALL_ONES = - 1"

definition VQE_BITMAP_IDX_MAX :: "vqe_bitmap \<Rightarrow> u32" where
  "VQE_BITMAP_IDX_MAX m = bm_size m - 1"

definition VQE_BITMAP_IDX :: "vqe_bitmap \<Rightarrow> u32 \<Rightarrow> u32" where
  "VQE_BITMAP_IDX m x = x AND VQE_BITMAP_IDX_MAX m"

definition vqe_bitmap_flush :: "vqe_bitmap option \<Rightarrow> vqe_bitmap_error \<times> vqe_bitmap option" where
  "vqe_bitmap_flush map_p =
     (case map_p of
        None \<Rightarrow> (VQE_BITMAP_ERR_INVALIDARGS, None)
      | Some m \<Rightarrow>
          (VQE_BITMAP_OK,
           Some (m\<lparr>bm_data :=
             replicate (unat (drop_bit VQE_BITMAP_WORD_SIZE_BITS (bm_size m))) 0\<rparr>)))"

text \<open>The two flags say whether the allocations of the structure and of its data succeed. Freshly
  allocated data has unknown contents, here \<open>junk\<close>, which the flush clears.\<close>

definition vqe_bitmap_create :: "bool \<Rightarrow> bool \<Rightarrow> u32 list \<Rightarrow> u32 \<Rightarrow> vqe_bitmap option" where
  "vqe_bitmap_create map_alloc data_alloc junk bits =
     (if bits > VQE_BITMAP_MAX_SIZE then None
      else if \<not> map_alloc then None
      else if \<not> data_alloc then None
      else snd (vqe_bitmap_flush (Some \<lparr>bm_data = junk, bm_size = bits\<rparr>)))"

definition vqe_bitmap_destroy :: "vqe_bitmap option \<Rightarrow> vqe_bitmap_error \<times> vqe_bitmap option" where
  "vqe_bitmap_destroy map_p =
     (case map_p of
        None \<Rightarrow> (VQE_BITMAP_ERR_INVALIDARGS, None)
      | Some m \<Rightarrow> (VQE_BITMAP_OK, None))"

text \<open>The body of the loop of \<open>vqe_bitmap_modify_bitrange\<close>: the part of the range that lies in
  the block of \<open>b1\<close>.\<close>

definition range_block :: "u16 \<Rightarrow> u16 \<Rightarrow> u32" where
  "range_block b1 b2 =
     (let block_num = drop_bit VQE_BITMAP_WORD_SIZE_BITS b1;
          block_offset = b1 AND 0x1f;
          extent = (if drop_bit VQE_BITMAP_WORD_SIZE_BITS b2 - block_num \<noteq> 0
                    then 31 - block_offset else b2 - b1)
      in drop_bit (unat block_offset) VQE_BITMAP_ALL_ONES AND
         push_bit (31 - unat block_offset - unat extent) VQE_BITMAP_ALL_ONES)"

function bitrange_loop :: "u32 list \<Rightarrow> u16 \<Rightarrow> u16 \<Rightarrow> bool \<Rightarrow> u32 list" where
  "bitrange_loop data b1 b2 value =
     (if b1 \<le> b2 then
        let block_num = drop_bit VQE_BITMAP_WORD_SIZE_BITS b1;
            block = range_block b1 b2;
            old = data ! unat block_num;
            data' = data[unat block_num := (if value then old OR block else old AND NOT block)]
        in if block_num = drop_bit VQE_BITMAP_WORD_SIZE_BITS (ucast VQE_BITMAP_ALL_ONES)
           then data'
           else bitrange_loop data' (push_bit VQE_BITMAP_WORD_SIZE_BITS (block_num + 1)) b2 value
      else data)"
  by pat_completeness auto

lemma block_num_unat: "unat (drop_bit VQE_BITMAP_WORD_SIZE_BITS (b :: u16)) = unat b div 32"
  by (simp only: unat_drop_bit_div VQE_BITMAP_WORD_SIZE_BITS_def) simp

lemma last_block_iff:
  "drop_bit VQE_BITMAP_WORD_SIZE_BITS (b :: u16) =
     drop_bit VQE_BITMAP_WORD_SIZE_BITS (ucast VQE_BITMAP_ALL_ONES) \<longleftrightarrow> unat b div 32 = 2047"
proof -
  have "(ucast VQE_BITMAP_ALL_ONES :: u16) = - 1"
    unfolding VQE_BITMAP_ALL_ONES_def by (rule bit_word_eqI) (simp add: bit_simps)
  moreover have "unat (- 1 :: u16) = 65535"
    by (simp add: unsigned_minus_1_eq_mask mask_eq_exp_minus_1)
  ultimately show ?thesis unfolding word_eq_unat_iff block_num_unat by simp
qed

lemma next_block_unat:
  assumes "unat b div 32 \<noteq> 2047"
  shows "unat (push_bit VQE_BITMAP_WORD_SIZE_BITS
    (drop_bit VQE_BITMAP_WORD_SIZE_BITS (b :: u16) + 1) :: u16) = (unat b div 32 + 1) * 32"
proof -
  have "unat b < 65536" using unat_less_pow [of b] by simp
  then have lt: "unat b div 32 + 1 < 2048" using assms by linarith
  have "unat (drop_bit VQE_BITMAP_WORD_SIZE_BITS b + 1) = unat b div 32 + 1"
    using lt by (subst unat_add_small) (simp_all only: block_num_unat unat_1, simp)
  then show ?thesis
    using lt by (simp only: unat_push_bit_mod) (simp add: VQE_BITMAP_WORD_SIZE_BITS_def)
qed

lemma next_block_further:
  assumes "drop_bit VQE_BITMAP_WORD_SIZE_BITS (b :: u16) \<noteq>
    drop_bit VQE_BITMAP_WORD_SIZE_BITS (ucast VQE_BITMAP_ALL_ONES)"
  shows "65536 - unat (push_bit VQE_BITMAP_WORD_SIZE_BITS
    (drop_bit VQE_BITMAP_WORD_SIZE_BITS b + 1) :: u16) < 65536 - unat b"
proof -
  have "unat b div 32 \<noteq> 2047" using assms unfolding last_block_iff .
  note next_block_unat [OF this]
  moreover have "unat b < (unat b div 32 + 1) * 32"
    using dividend_less_times_div [of 32 "unat b"] by (simp add: algebra_simps)
  moreover have "unat b < 65536" using unat_less_pow [of b] by simp
  ultimately show ?thesis by (simp only: diff_less_mono2)
qed

termination bitrange_loop
  apply (relation "measure (\<lambda>(data, b1, b2, value). 65536 - unat b1)")
   apply (rule wf_measure)
  apply (simp only: in_measure split_conv)
  apply (rule next_block_further, assumption)
  done

declare bitrange_loop.simps [simp del]

function vqe_bitmap_modify_bitrange ::
  "vqe_bitmap option \<Rightarrow> u32 \<Rightarrow> u32 \<Rightarrow> bool \<Rightarrow> vqe_bitmap_error \<times> vqe_bitmap option" where
  "vqe_bitmap_modify_bitrange map_p startbit endbit value =
     (case map_p of
        None \<Rightarrow> (VQE_BITMAP_ERR_INVALIDARGS, None)
      | Some m \<Rightarrow>
          let b1 = ucast (VQE_BITMAP_IDX m (ucast (ucast startbit :: u16))) :: u16;
              b2 = ucast (VQE_BITMAP_IDX m (ucast (ucast endbit :: u16))) :: u16
          in if b2 < b1 then
               let map1 = snd (vqe_bitmap_modify_bitrange (Some m) (ucast b1)
                                 (VQE_BITMAP_IDX_MAX m) value);
                   map2 = snd (vqe_bitmap_modify_bitrange map1 0 (ucast b2) value)
               in (VQE_BITMAP_OK, map2)
             else (VQE_BITMAP_OK, Some (m\<lparr>bm_data := bitrange_loop (bm_data m) b1 b2 value\<rparr>)))"
  by pat_completeness auto

text \<open>The recursive calls do not wrap again: the first ends at the largest index and the second
  starts at index 0, whatever the size of the map.\<close>

definition wraps :: "vqe_bitmap option \<Rightarrow> u32 \<Rightarrow> u32 \<Rightarrow> bool" where
  "wraps map_p startbit endbit =
     (case map_p of None \<Rightarrow> False
      | Some m \<Rightarrow> (ucast (VQE_BITMAP_IDX m (ucast (ucast endbit :: u16))) :: u16) <
                 ucast (VQE_BITMAP_IDX m (ucast (ucast startbit :: u16))))"

lemma idx_16: "(ucast (VQE_BITMAP_IDX m (ucast (w :: u16))) :: u16) =
    w AND ucast (VQE_BITMAP_IDX_MAX m)"
  unfolding VQE_BITMAP_IDX_def by (rule bit_word_eqI) (auto simp: bit_simps)

lemma wraps_not_again:
  "\<not> wraps map_p 0 e"
  "\<not> wraps (Some m) (ucast (ucast (VQE_BITMAP_IDX m (ucast (ucast s :: u16))) :: u16))
      (VQE_BITMAP_IDX_MAX m)"
proof -
  show "\<not> wraps map_p 0 e" by (simp add: wraps_def VQE_BITMAP_IDX_def split: option.split)
  have "(ucast (ucast w :: u32) :: u16) = w" for w :: u16
    by (rule bit_word_eqI) (auto simp: bit_simps)
  then show "\<not> wraps (Some m) (ucast (ucast (VQE_BITMAP_IDX m (ucast (ucast s :: u16))) :: u16))
      (VQE_BITMAP_IDX_MAX m)"
    by (simp add: wraps_def idx_16 not_less word_and_le1)
qed

termination vqe_bitmap_modify_bitrange
  apply (relation "measure (\<lambda>(map_p, s, e, value). if wraps map_p s e then 1 else 0)")
    apply simp
   apply (auto simp only: in_measure split_conv wraps_not_again)
   apply (auto simp: wraps_def)
  done

declare vqe_bitmap_modify_bitrange.simps [simp del]

text \<open>The output parameters are results; the flag says whether the caller passed a place for them.\<close>

definition vqe_bitmap_get_bit ::
  "vqe_bitmap option \<Rightarrow> bool \<Rightarrow> u32 \<Rightarrow> vqe_bitmap_error \<times> bool option" where
  "vqe_bitmap_get_bit map_p value_p bit_no =
     (case map_p of
        None \<Rightarrow> (VQE_BITMAP_ERR_INVALIDARGS, None)
      | Some m \<Rightarrow>
          if \<not> value_p then (VQE_BITMAP_ERR_INVALIDARGS, None)
          else let b = VQE_BITMAP_IDX m bit_no;
                   block = bm_data m ! unat (drop_bit VQE_BITMAP_WORD_SIZE_BITS b)
               in (VQE_BITMAP_OK, Some (drop_bit (31 - unat (b AND 0x1f)) block AND 1 \<noteq> 0)))"

definition vqe_bitmap_set_bit ::
  "vqe_bitmap option \<Rightarrow> u32 \<Rightarrow> vqe_bitmap_error \<times> vqe_bitmap option" where
  "vqe_bitmap_set_bit map_p bit_no =
     (case map_p of
        None \<Rightarrow> (VQE_BITMAP_ERR_INVALIDARGS, None)
      | Some m \<Rightarrow>
          let b = VQE_BITMAP_IDX m bit_no;
              block_num = ucast (drop_bit VQE_BITMAP_WORD_SIZE_BITS b) :: u16;
              i = unat block_num
          in (VQE_BITMAP_OK,
              Some (m\<lparr>bm_data := (bm_data m)
                [i := bm_data m ! i OR push_bit (31 - unat (b AND 0x1f)) 1]\<rparr>)))"

definition vqe_bitmap_clear_bit ::
  "vqe_bitmap option \<Rightarrow> u32 \<Rightarrow> vqe_bitmap_error \<times> vqe_bitmap option" where
  "vqe_bitmap_clear_bit map_p bit_no =
     (case map_p of
        None \<Rightarrow> (VQE_BITMAP_ERR_INVALIDARGS, None)
      | Some m \<Rightarrow>
          let b = VQE_BITMAP_IDX m bit_no;
              block_num = ucast (drop_bit VQE_BITMAP_WORD_SIZE_BITS b) :: u16;
              i = unat block_num
          in (VQE_BITMAP_OK,
              Some (m\<lparr>bm_data := (bm_data m)
                [i := bm_data m ! i AND NOT (push_bit (31 - unat (b AND 0x1f)) 1)]\<rparr>)))"

definition vqe_bitmap_get_block ::
  "vqe_bitmap option \<Rightarrow> bool \<Rightarrow> u32 \<Rightarrow> vqe_bitmap_error \<times> u32 option" where
  "vqe_bitmap_get_block map_p block_p bit_no =
     (case map_p of
        None \<Rightarrow> (VQE_BITMAP_ERR_INVALIDARGS, None)
      | Some m \<Rightarrow>
          if \<not> block_p then (VQE_BITMAP_ERR_INVALIDARGS, None)
          else let b = VQE_BITMAP_IDX m bit_no
               in (VQE_BITMAP_OK, Some (bm_data m ! unat (drop_bit VQE_BITMAP_WORD_SIZE_BITS b))))"

definition vqe_bitmap_clear_block ::
  "vqe_bitmap option \<Rightarrow> u32 \<Rightarrow> vqe_bitmap_error \<times> vqe_bitmap option" where
  "vqe_bitmap_clear_block map_p bit_no =
     (case map_p of
        None \<Rightarrow> (VQE_BITMAP_ERR_INVALIDARGS, None)
      | Some m \<Rightarrow>
          let b = VQE_BITMAP_IDX m bit_no
          in (VQE_BITMAP_OK,
              Some (m\<lparr>bm_data := (bm_data m)
                [unat (drop_bit VQE_BITMAP_WORD_SIZE_BITS b) := 0]\<rparr>)))"

subsection \<open>The abstract map of bits\<close>

text \<open>A well-formed map has a power of two of bits, from one block up to 65536, and one block for
  every 32 of them. Bit \<open>i\<close> of the map is bit \<open>31 - i mod 32\<close> of block \<open>i div 32\<close>.\<close>

definition bitmap_ok :: "vqe_bitmap \<Rightarrow> bool" where
  "bitmap_ok m \<longleftrightarrow> unat (bm_size m) \<in> (\<lambda>k. 2 ^ k) ` {5..16} \<and>
     length (bm_data m) = unat (bm_size m) div 32"

definition dbit :: "u32 list \<Rightarrow> nat \<Rightarrow> bool" where
  "dbit data i = bit (data ! (i div 32)) (31 - i mod 32)"

definition bm_bit :: "vqe_bitmap \<Rightarrow> u32 \<Rightarrow> bool" where
  "bm_bit m b = dbit (bm_data m) (unat b mod unat (bm_size m))"

lemma bitmap_ok_sizeE:
  assumes "bitmap_ok m"
  obtains k where "5 \<le> k" "k \<le> 16" "unat (bm_size m) = 2 ^ k" "bm_size m = 2 ^ k"
    "length (bm_data m) = 2 ^ (k - 5)"
proof -
  from assms obtain k where k: "5 \<le> k" "k \<le> 16" "unat (bm_size m) = 2 ^ k"
    and l: "length (bm_data m) = unat (bm_size m) div 32"
    by (auto simp: bitmap_ok_def)
  have "bm_size m = of_nat (unat (bm_size m))" by simp
  then have "bm_size m = 2 ^ k" using k by simp
  moreover have "length (bm_data m) = 2 ^ (k - 5)"
    using k l power_diff [of "2::nat" 5 k] by simp
  ultimately show ?thesis using that k by blast
qed

lemma bitmap_ok_len:
  assumes "bitmap_ok m"
  shows "32 * length (bm_data m) = unat (bm_size m)" "length (bm_data m) \<le> 2048"
    "0 < unat (bm_size m)" "unat (bm_size m) dvd 2 ^ 16"
proof -
  from assms obtain k where k: "5 \<le> k" "k \<le> 16" "unat (bm_size m) = 2 ^ k"
    and l: "length (bm_data m) = 2 ^ (k - 5)" by (rule bitmap_ok_sizeE)
  have "(2::nat) ^ k = 2 ^ 5 * 2 ^ (k - 5)"
    using k(1) by (metis le_add_diff_inverse power_add)
  then show "32 * length (bm_data m) = unat (bm_size m)" using k l by simp
  have "(2::nat) ^ (k - 5) \<le> 2 ^ 11" using k by (intro power_increasing) auto
  then show "length (bm_data m) \<le> 2048" using l by simp
  show "0 < unat (bm_size m)" using k by simp
  show "unat (bm_size m) dvd 2 ^ 16" unfolding k(3) using k(2) by (rule le_imp_power_dvd)
qed

lemma unat_idx:
  assumes "bitmap_ok m"
  shows "unat (VQE_BITMAP_IDX m b) = unat b mod unat (bm_size m)"
proof -
  from assms obtain k where k: "unat (bm_size m) = 2 ^ k" "bm_size m = 2 ^ k"
    by (rule bitmap_ok_sizeE)
  have "VQE_BITMAP_IDX_MAX m = mask k"
    unfolding VQE_BITMAP_IDX_MAX_def using k(2) by (rule mask_of_pow2)
  then show ?thesis using k(1) by (simp only: VQE_BITMAP_IDX_def unat_and_mask)
qed

lemma unat_idx_16:
  fixes b :: u32
  assumes "bitmap_ok m"
  shows "unat (ucast (VQE_BITMAP_IDX m (ucast (ucast b :: u16))) :: u16) =
    unat b mod unat (bm_size m)"
proof -
  have d: "unat (bm_size m) dvd 65536" using bitmap_ok_len(4) [OF assms] by simp
  have "unat (ucast (ucast b :: u16) :: u32) = unat b mod 65536"
    by (subst unat_ucast_16_32) (rule unat_ucast_16)
  then have i: "unat (VQE_BITMAP_IDX m (ucast (ucast b :: u16))) = unat b mod unat (bm_size m)"
    using d by (simp add: unat_idx [OF assms] mod_mod_cancel)
  have "unat b mod unat (bm_size m) < unat (bm_size m)"
    by (intro mod_less_divisor bitmap_ok_len(3) assms)
  also have "\<dots> \<le> 65536" using d by (intro dvd_imp_le) auto
  finally show ?thesis using i by (simp add: unat_ucast_16)
qed

lemma block_index:
  assumes "bitmap_ok m" and "unat b < unat (bm_size m)"
  shows "unat (drop_bit VQE_BITMAP_WORD_SIZE_BITS (b :: u32)) = unat b div 32"
    "unat (ucast (drop_bit VQE_BITMAP_WORD_SIZE_BITS b) :: u16) = unat b div 32"
    "unat b div 32 < length (bm_data m)"
    "unat (b AND 0x1f) = unat b mod 32"
proof -
  show d: "unat (drop_bit VQE_BITMAP_WORD_SIZE_BITS b) = unat b div 32"
    by (simp only: unat_drop_bit_div VQE_BITMAP_WORD_SIZE_BITS_def) simp
  show lt: "unat b div 32 < length (bm_data m)"
    using bitmap_ok_len(1) [OF assms(1)] assms(2) by (simp add: less_mult_imp_div_less mult.commute)
  then have "unat b div 32 < 65536" using bitmap_ok_len(2) [OF assms(1)] by simp
  then show "unat (ucast (drop_bit VQE_BITMAP_WORD_SIZE_BITS b) :: u16) = unat b div 32"
    by (simp add: unat_ucast_16 d)
  have "(0x1f :: u32) = mask 5" by (simp add: mask_eq_exp_minus_1)
  then show "unat (b AND 0x1f) = unat b mod 32" by (simp only: unat_and_mask) simp
qed

subsection \<open>A range of bits\<close>

lemma block_extent_arith:
  fixes x y j :: nat
  assumes "x \<le> y" and "j < 32"
  shows "31 - j + x mod 32 < 32 \<and>
    31 - x mod 32 - (if y div 32 = x div 32 then y - x else 31 - x mod 32) \<le> 31 - j \<longleftrightarrow>
    x \<le> x div 32 * 32 + j \<and> x div 32 * 32 + j \<le> y"
proof -
  define q r where "q = x div 32" and "r = x mod 32"
  have x: "x = q * 32 + r" "r < 32" by (simp_all add: q_def r_def)
  define q' r' where "q' = y div 32" and "r' = y mod 32"
  have y: "y = q' * 32 + r'" "r' < 32" by (simp_all add: q'_def r'_def)
  have "q \<le> q'" unfolding q_def q'_def using assms(1) by (rule div_le_mono)
  then consider "q' = q" | "q + 1 \<le> q'" by linarith
  then have "31 - j + r < 32 \<and> 31 - r - (if q' = q then y - x else 31 - r) \<le> 31 - j \<longleftrightarrow>
      x \<le> q * 32 + j \<and> q * 32 + j \<le> y"
  proof cases
    case 1
    then show ?thesis using x y assms by auto
  next
    case 2
    then have "(q + 1) * 32 \<le> q' * 32" by simp
    then have "q * 32 + j \<le> y" using y assms(2) by auto
    with 2 show ?thesis using x assms(2) by auto
  qed
  then show ?thesis unfolding q_def q'_def r_def .
qed

lemma range_block_bit:
  assumes "b1 \<le> b2" and j: "j < 32"
  shows "bit (range_block b1 b2) (31 - j) \<longleftrightarrow>
    unat b1 \<le> unat b1 div 32 * 32 + j \<and> unat b1 div 32 * 32 + j \<le> unat b2"
proof -
  have le: "unat b1 \<le> unat b2" using assms(1) by (simp add: word_le_nat_alt)
  have m: "(0x1f :: u16) = mask 5" by (simp add: mask_eq_exp_minus_1)
  have off: "unat (b1 AND 0x1f) = unat b1 mod 32" by (simp only: m unat_and_mask) simp
  let ?ext = "if drop_bit VQE_BITMAP_WORD_SIZE_BITS b2 - drop_bit VQE_BITMAP_WORD_SIZE_BITS b1 \<noteq> 0
    then 31 - (b1 AND 0x1f) else b2 - b1"
  have ext: "unat ?ext =
      (if unat b2 div 32 = unat b1 div 32 then unat b2 - unat b1 else 31 - unat b1 mod 32)"
  proof -
    have "drop_bit VQE_BITMAP_WORD_SIZE_BITS b2 - drop_bit VQE_BITMAP_WORD_SIZE_BITS b1 \<noteq> 0 \<longleftrightarrow>
        unat b2 div 32 \<noteq> unat b1 div 32"
      by (simp only: right_minus_eq) (simp only: word_eq_unat_iff block_num_unat)
    moreover have "unat (31 - (b1 AND 0x1f)) = 31 - unat b1 mod 32"
      using off by (simp add: unat_sub_if_size)
    moreover have "unat (b2 - b1) = unat b2 - unat b1" using le by (simp add: unat_sub_if_size)
    ultimately show ?thesis by simp
  qed
  have "bit (range_block b1 b2) (31 - j) \<longleftrightarrow>
      31 - j + unat b1 mod 32 < 32 \<and> 31 - unat b1 mod 32 - unat ?ext \<le> 31 - j"
    using j by (auto simp: range_block_def Let_def off bit_simps VQE_BITMAP_ALL_ONES_def)
  then show ?thesis using block_extent_arith [OF le j] by (simp only: ext)
qed

lemma dbit_update:
  assumes "i div 32 < length data"
  shows "dbit (data[n := w]) i = (if n = i div 32 then bit w (31 - i mod 32) else dbit data i)"
  using assms by (auto simp: dbit_def)

definition put_block :: "u32 list \<Rightarrow> u16 \<Rightarrow> u16 \<Rightarrow> bool \<Rightarrow> u32 list" where
  "put_block data b1 b2 v =
     (let n = unat b1 div 32
      in data[n := (if v then data ! n OR range_block b1 b2
                    else data ! n AND NOT (range_block b1 b2))])"

lemma block_lt: "i < 32 * n \<Longrightarrow> i div 32 < (n :: nat)"
  by (simp add: less_mult_imp_div_less mult.commute)

lemma dbit_put_block:
  assumes "b1 \<le> b2" and "i < 32 * length data"
  shows "dbit (put_block data b1 b2 v) i =
    (if i div 32 = unat b1 div 32 \<and> unat b1 \<le> i \<and> i \<le> unat b2 then v else dbit data i)"
proof (cases "i div 32 = unat b1 div 32")
  case True
  have "unat b1 div 32 * 32 + i mod 32 = i" unfolding True [symmetric] by simp
  then have "bit (range_block b1 b2) (31 - i mod 32) \<longleftrightarrow> unat b1 \<le> i \<and> i \<le> unat b2"
    using range_block_bit [OF assms(1), of "i mod 32"] by simp
  then show ?thesis
    using True block_lt [OF assms(2)]
    by (cases v) (auto simp: put_block_def Let_def dbit_update bit_simps dbit_def)
next
  case False
  then show ?thesis
    using block_lt [OF assms(2)] by (simp add: put_block_def Let_def dbit_update)
qed

lemma bitrange_loop_unfold:
  "bitrange_loop data b1 b2 v =
     (if b1 \<le> b2 then
        if unat b1 div 32 = 2047 then put_block data b1 b2 v
        else bitrange_loop (put_block data b1 b2 v)
          (push_bit VQE_BITMAP_WORD_SIZE_BITS (drop_bit VQE_BITMAP_WORD_SIZE_BITS b1 + 1)) b2 v
      else data)"
  by (subst bitrange_loop.simps) (simp only: Let_def last_block_iff block_num_unat put_block_def)

lemma length_put_block [simp]: "length (put_block data b1 b2 v) = length data"
  by (simp add: put_block_def Let_def)

lemma block_split:
  fixes x i :: nat
  shows "x \<le> i \<Longrightarrow> (x div 32 + 1) * 32 \<le> i \<or> i div 32 = x div 32"
    and "(x div 32 + 1) * 32 \<le> i \<Longrightarrow> x \<le> i"
proof -
  assume "x \<le> i"
  then have "x div 32 \<le> i div 32" by (rule div_le_mono)
  moreover have "i div 32 * 32 \<le> i" by simp
  ultimately show "(x div 32 + 1) * 32 \<le> i \<or> i div 32 = x div 32"
    by (cases "i div 32 = x div 32") (auto intro: order_trans [OF mult_le_mono1])
next
  have "x < 32 + 32 * (x div 32)" by (rule dividend_less_times_div) simp
  then show "(x div 32 + 1) * 32 \<le> i \<Longrightarrow> x \<le> i" by (simp add: algebra_simps)
qed

lemma bitrange_loop_ok:
  assumes "unat b2 < 32 * length data" "length data \<le> 2048"
  shows "length (bitrange_loop data b1 b2 v) = length data \<and>
    (\<forall>i < 32 * length data. dbit (bitrange_loop data b1 b2 v) i =
       (if unat b1 \<le> i \<and> i \<le> unat b2 then v else dbit data i))"
  using assms
proof (induction "65536 - unat b1" arbitrary: data b1 rule: less_induct)
  case less
  let ?n = "unat b1 div 32"
  let ?b = "push_bit VQE_BITMAP_WORD_SIZE_BITS (drop_bit VQE_BITMAP_WORD_SIZE_BITS b1 + 1) :: u16"
  show ?case
  proof (cases "b1 \<le> b2")
    case False
    then have "bitrange_loop data b1 b2 v = data" by (simp add: bitrange_loop_unfold [of data b1])
    with False show ?thesis by (auto simp: word_le_nat_alt)
  next
    case le: True
    show ?thesis
    proof (cases "?n = 2047")
      case True
      have last: "i div 32 = ?n" if "unat b1 \<le> i" "i < 32 * length data" for i
        using div_le_mono [OF that(1), of 32] block_lt [OF that(2)] True less.prems(2) by linarith
      have "dbit (put_block data b1 b2 v) i =
          (if unat b1 \<le> i \<and> i \<le> unat b2 then v else dbit data i)"
        if "i < 32 * length data" for i
        unfolding dbit_put_block [OF le that] using last [of i] that by (cases "unat b1 \<le> i") auto
      moreover have "bitrange_loop data b1 b2 v = put_block data b1 b2 v"
        using le True by (simp add: bitrange_loop_unfold [of data b1])
      ultimately show ?thesis by simp
    next
      case False
      have nb: "unat ?b = (?n + 1) * 32" using False by (rule next_block_unat)
      have "65536 - unat ?b < 65536 - unat b1"
        using False by (intro next_block_further) (simp only: last_block_iff not_False_eq_True)
      then have IH: "length (bitrange_loop (put_block data b1 b2 v) ?b b2 v) = length data \<and>
        (\<forall>i < 32 * length data. dbit (bitrange_loop (put_block data b1 b2 v) ?b b2 v) i =
         (if unat ?b \<le> i \<and> i \<le> unat b2 then v else dbit (put_block data b1 b2 v) i))"
        using less.hyps [of ?b "put_block data b1 b2 v"] less.prems by simp
      have eq: "bitrange_loop data b1 b2 v = bitrange_loop (put_block data b1 b2 v) ?b b2 v"
        using le False by (simp add: bitrange_loop_unfold [of data b1])
      have "(if unat ?b \<le> i \<and> i \<le> unat b2 then v else dbit (put_block data b1 b2 v) i) =
          (if unat b1 \<le> i \<and> i \<le> unat b2 then v else dbit data i)"
        if "i < 32 * length data" for i
        unfolding dbit_put_block [OF le that] nb
        using block_split [of "unat b1" i] by (simp only: split: if_split) blast
      then show ?thesis using IH unfolding eq by simp
    qed
  qed
qed

lemma cyclic_dist:
  fixes x y :: u32
  assumes "c dvd 2 ^ 32" and "0 < c"
  shows "unat (x - y) mod c = (unat x mod c + (c - unat y mod c)) mod c"
proof -
  have "int (unat (x - y) mod c) = (uint x - uint y) mod int c"
    using assms(1)
    by (simp add: uint_word_ariths of_nat_mod mod_mod_cancel int_dvd_int_iff [symmetric])
  also have "\<dots> = (uint x mod int c - uint y mod int c + int c) mod int c"
    by (simp add: mod_simps)
  also have "\<dots> = (int (unat x mod c) + (int c - int (unat y mod c))) mod int c"
    by (simp add: of_nat_mod algebra_simps)
  also have "\<dots> = int ((unat x mod c + (c - unat y mod c)) mod c)"
    using mod_less_divisor [OF assms(2), of "unat y"]
    by (simp only: of_nat_mod of_nat_add of_nat_diff less_imp_le)
  finally show ?thesis by (simp only: of_nat_eq_iff)
qed

lemma cyclic_le:
  fixes i s e c :: nat
  assumes "i < c" "s < c" "e < c"
  shows "(i + (c - s)) mod c \<le> (e + (c - s)) mod c \<longleftrightarrow>
    (if s \<le> e then s \<le> i \<and> i \<le> e else s \<le> i \<or> i \<le> e)"
proof -
  have m: "(x + (c - s)) mod c = (if s \<le> x then x - s else x + (c - s))" if "x < c" for x
  proof (cases "s \<le> x")
    case True
    then have "x + (c - s) = (x - s) + c" using assms(2) by simp
    then have "(x + (c - s)) mod c = (x - s) mod c" by (simp only: mod_add_self2)
    then show ?thesis using True that by simp
  qed (use assms that in simp)
  show ?thesis unfolding m [OF assms(1)] m [OF assms(3)] using assms by auto
qed

lemma bitmap_ok_dvd: "bitmap_ok m \<Longrightarrow> unat (bm_size m) dvd 2 ^ 32"
  using bitmap_ok_len(4) [of m] by (rule dvd_trans) (simp_all add: le_imp_power_dvd)

text \<open>The bits of a cyclic range, from \<open>s\<close> up to and including \<open>e\<close>.\<close>

definition in_cyclic_range :: "vqe_bitmap \<Rightarrow> u32 \<Rightarrow> u32 \<Rightarrow> u32 \<Rightarrow> bool" where
  "in_cyclic_range m s e b \<longleftrightarrow> unat (b - s) mod unat (bm_size m) \<le> unat (e - s) mod unat (bm_size m)"

lemma in_cyclic_range_iff:
  assumes "bitmap_ok m"
  shows "in_cyclic_range m s e b \<longleftrightarrow>
    (let c = unat (bm_size m); i = unat b mod c; s' = unat s mod c; e' = unat e mod c
     in if s' \<le> e' then s' \<le> i \<and> i \<le> e' else s' \<le> i \<or> i \<le> e')"
proof -
  have c: "0 < unat (bm_size m)" using assms by (rule bitmap_ok_len)
  show ?thesis
    unfolding in_cyclic_range_def Let_def cyclic_dist [OF bitmap_ok_dvd [OF assms] c]
    using c by (intro cyclic_le mod_less_divisor)
qed

lemma modify_straight:
  assumes ok: "bitmap_ok m"
    and le: "unat s mod unat (bm_size m) \<le> unat e mod unat (bm_size m)"
  obtains m' where "vqe_bitmap_modify_bitrange (Some m) s e v = (VQE_BITMAP_OK, Some m')"
    and "bitmap_ok m'" and "bm_size m' = bm_size m"
    and "\<And>i. i < unat (bm_size m) \<Longrightarrow> dbit (bm_data m') i =
      (if unat s mod unat (bm_size m) \<le> i \<and> i \<le> unat e mod unat (bm_size m) then v
       else dbit (bm_data m) i)"
proof -
  let ?b1 = "ucast (VQE_BITMAP_IDX m (ucast (ucast s :: u16))) :: u16"
  let ?b2 = "ucast (VQE_BITMAP_IDX m (ucast (ucast e :: u16))) :: u16"
  let ?m = "m\<lparr>bm_data := bitrange_loop (bm_data m) ?b1 ?b2 v\<rparr>"
  have n: "\<not> ?b2 < ?b1"
    using le by (simp only: word_less_nat_alt unat_idx_16 [OF ok] not_less)
  have r: "vqe_bitmap_modify_bitrange (Some m) s e v = (VQE_BITMAP_OK, Some ?m)"
    using n by (subst vqe_bitmap_modify_bitrange.simps) (simp only: option.case Let_def if_False)
  have "unat ?b2 < 32 * length (bm_data m)"
    unfolding unat_idx_16 [OF ok] bitmap_ok_len(1) [OF ok]
    by (intro mod_less_divisor bitmap_ok_len ok)
  note l = bitrange_loop_ok [OF this bitmap_ok_len(2) [OF ok], of ?b1 v, unfolded bitmap_ok_len(1) [OF ok] unat_idx_16 [OF ok]]
  show ?thesis
  proof (rule that [OF r])
    show "bitmap_ok ?m" using ok l by (simp add: bitmap_ok_def)
  qed (use l in simp_all)
qed

lemma modify_bits:
  assumes ok: "bitmap_ok m"
  shows "\<exists>m'. vqe_bitmap_modify_bitrange (Some m) s e v = (VQE_BITMAP_OK, Some m') \<and>
    bitmap_ok m' \<and> bm_size m' = bm_size m \<and>
    (\<forall>b. bm_bit m' b = (if in_cyclic_range m s e b then v else bm_bit m b))"
proof (cases "unat s mod unat (bm_size m) \<le> unat e mod unat (bm_size m)")
  case True
  obtain m' where "vqe_bitmap_modify_bitrange (Some m) s e v = (VQE_BITMAP_OK, Some m')"
    and "bitmap_ok m'" and "bm_size m' = bm_size m"
    and "\<And>i. i < unat (bm_size m) \<Longrightarrow> dbit (bm_data m') i =
      (if unat s mod unat (bm_size m) \<le> i \<and> i \<le> unat e mod unat (bm_size m) then v
       else dbit (bm_data m) i)"
    using modify_straight [OF ok True] by blast
  then show ?thesis
    using True bitmap_ok_len(3) [OF ok]
    by (auto simp: bm_bit_def in_cyclic_range_iff [OF ok] Let_def)
next
  case False
  let ?c = "unat (bm_size m)"
  let ?b1 = "ucast (VQE_BITMAP_IDX m (ucast (ucast s :: u16))) :: u16"
  let ?b2 = "ucast (VQE_BITMAP_IDX m (ucast (ucast e :: u16))) :: u16"
  have wrap: "?b2 < ?b1"
    using False by (simp only: word_less_nat_alt unat_idx_16 [OF ok] not_le)
  have c: "0 < ?c" using ok by (rule bitmap_ok_len)
  have mx: "unat (VQE_BITMAP_IDX_MAX m) mod ?c = ?c - 1"
    using c by (simp add: VQE_BITMAP_IDX_MAX_def unat_sub_if_size)
  have s: "unat (ucast ?b1 :: u32) mod ?c = unat s mod ?c"
    by (simp only: unat_ucast_16_32 unat_idx_16 [OF ok] mod_mod_trivial)
  have e: "unat (ucast ?b2 :: u32) mod ?c = unat e mod ?c"
    by (simp only: unat_ucast_16_32 unat_idx_16 [OF ok] mod_mod_trivial)
  have lt: "unat s mod ?c \<le> ?c - 1" using mod_less_divisor [OF c, of "unat s"] by linarith
  obtain m1 where m1: "vqe_bitmap_modify_bitrange (Some m) (ucast ?b1) (VQE_BITMAP_IDX_MAX m) v =
      (VQE_BITMAP_OK, Some m1)"
    and ok1: "bitmap_ok m1" and s1: "bm_size m1 = bm_size m"
    and d1: "\<And>i. i < ?c \<Longrightarrow> dbit (bm_data m1) i =
      (if unat s mod ?c \<le> i \<and> i \<le> ?c - 1 then v else dbit (bm_data m) i)"
    using modify_straight [OF ok, of "ucast ?b1" "VQE_BITMAP_IDX_MAX m" v] lt
    unfolding s mx by blast
  obtain m2 where m2: "vqe_bitmap_modify_bitrange (Some m1) 0 (ucast ?b2) v = (VQE_BITMAP_OK, Some m2)"
    and ok2: "bitmap_ok m2" and s2: "bm_size m2 = bm_size m"
    and d2: "\<And>i. i < ?c \<Longrightarrow> dbit (bm_data m2) i =
      (if i \<le> unat e mod ?c then v else dbit (bm_data m1) i)"
    using modify_straight [OF ok1, of 0 "ucast ?b2" v] unfolding s1 e by auto
  have "vqe_bitmap_modify_bitrange (Some m) s e v = (VQE_BITMAP_OK, Some m2)"
    using wrap by (subst vqe_bitmap_modify_bitrange.simps) (simp only: option.case Let_def if_True m1 m2 snd_conv)
  moreover have "bm_bit m2 b = (if in_cyclic_range m s e b then v else bm_bit m b)" for b
  proof -
    have "unat b mod ?c < ?c" using c by (rule mod_less_divisor)
    then show ?thesis
      using False by (auto simp: bm_bit_def in_cyclic_range_iff [OF ok] Let_def s2 d1 d2)
  qed
  ultimately show ?thesis using ok2 s2 by blast
qed

subsection \<open>Single bits and blocks\<close>

lemma test_bit_drop: "drop_bit n w AND 1 \<noteq> 0 \<longleftrightarrow> bit (w :: u32) n"
  by (simp only: and_one_eq bit_iff_odd_drop_bit mod_2_eq_odd) simp

lemma idx_lt: "bitmap_ok m \<Longrightarrow> unat (VQE_BITMAP_IDX m b) < unat (bm_size m)"
  by (simp add: unat_idx bitmap_ok_len)

lemmas idx_block = block_index [OF _ idx_lt]

lemma get_bit_ok:
  "bitmap_ok m \<Longrightarrow> vqe_bitmap_get_bit (Some m) True b = (VQE_BITMAP_OK, Some (bm_bit m b))"
  by (simp add: vqe_bitmap_get_bit_def Let_def idx_block test_bit_drop bm_bit_def dbit_def unat_idx)

definition put_bit :: "vqe_bitmap \<Rightarrow> u32 \<Rightarrow> bool \<Rightarrow> vqe_bitmap" where
  "put_bit m b v = the (snd (if v then vqe_bitmap_set_bit (Some m) b
                             else vqe_bitmap_clear_bit (Some m) b))"

lemma set_clear_bit_ok:
  "vqe_bitmap_set_bit (Some m) b = (VQE_BITMAP_OK, Some (put_bit m b True))"
  "vqe_bitmap_clear_bit (Some m) b = (VQE_BITMAP_OK, Some (put_bit m b False))"
  by (simp_all add: put_bit_def vqe_bitmap_set_bit_def vqe_bitmap_clear_bit_def Let_def)

lemma put_bit_data:
  assumes "bitmap_ok m"
  shows "put_bit m b v = m\<lparr>bm_data := (let i = unat b mod unat (bm_size m); n = i div 32; w = bm_data m ! n
    in (bm_data m)[n := if v then set_bit (31 - i mod 32) w else unset_bit (31 - i mod 32) w])\<rparr>"
  using assms
  by (simp add: put_bit_def vqe_bitmap_set_bit_def vqe_bitmap_clear_bit_def Let_def idx_block unat_idx
      set_bit_eq_or unset_bit_eq_and_not)

lemma put_bit_ok:
  assumes "bitmap_ok m"
  shows "bitmap_ok (put_bit m b v)" "bm_size (put_bit m b v) = bm_size m"
  using assms by (simp_all add: put_bit_data Let_def bitmap_ok_def)

lemma bit_pos_inj:
  assumes "i div 32 = j div (32::nat)" and "31 - i mod 32 = 31 - j mod 32"
  shows "i = j"
proof -
  have "i mod 32 < 32" "j mod 32 < 32" by simp_all
  then have "i mod 32 = j mod 32" using assms(2) by linarith
  then show ?thesis using assms(1) by (metis div_mult_mod_eq)
qed

lemma dbit_put:
  assumes "j div 32 < length data"
  shows "dbit (data[i div 32 := (if v then set_bit (31 - i mod 32) (data ! (i div 32))
    else unset_bit (31 - i mod 32) (data ! (i div 32)))]) j = (if i = j then v else dbit data j)"
proof (cases "i div 32 = j div 32")
  case True
  then have "(31 - i mod 32 = 31 - j mod 32) = (i = j)" using bit_pos_inj [of i j] by blast
  moreover have "31 - j mod 32 < 32" by simp
  ultimately show ?thesis
    by (simp add: assms True dbit_def bit_set_bit_iff bit_unset_bit_iff)
next
  case False
  then show ?thesis using assms by (auto simp: dbit_update)
qed

lemma bm_bit_put_bit:
  assumes ok: "bitmap_ok m"
  shows "bm_bit (put_bit m b v) c =
    (if unat b mod unat (bm_size m) = unat c mod unat (bm_size m) then v else bm_bit m c)"
proof -
  have "unat c mod unat (bm_size m) < 32 * length (bm_data m)"
    using bitmap_ok_len(1,3) [OF ok] by simp
  then show ?thesis
    using block_lt by (simp add: bm_bit_def put_bit_ok [OF ok] put_bit_data [OF ok] Let_def dbit_put)
qed

lemma create_ok:
  assumes "5 \<le> k" "k \<le> 16"
  shows "\<exists>m. vqe_bitmap_create True True junk (2 ^ k) = Some m \<and> bitmap_ok m \<and>
    bm_size m = 2 ^ k \<and> (\<forall>b. \<not> bm_bit m b)"
proof -
  have lt: "(2::nat) ^ k \<le> 2 ^ 16" using assms by (intro power_increasing) auto
  have u: "unat (2 ^ k :: u32) = 2 ^ k"
    using unat_of_nat_small [of "2 ^ k", where 'a = 32] lt by simp
  have n: "unat (drop_bit VQE_BITMAP_WORD_SIZE_BITS (2 ^ k :: u32)) = 2 ^ k div 32"
    by (simp only: unat_drop_bit_div u VQE_BITMAP_WORD_SIZE_BITS_def) simp
  let ?m = "\<lparr>bm_data = replicate (2 ^ k div 32) 0, bm_size = 2 ^ k\<rparr>"
  have "\<not> (2 ^ k > VQE_BITMAP_MAX_SIZE)"
    using lt by (simp only: word_less_nat_alt u VQE_BITMAP_MAX_SIZE_def) simp
  then have "vqe_bitmap_create True True junk (2 ^ k) = Some ?m"
    by (simp add: vqe_bitmap_create_def vqe_bitmap_flush_def n)
  moreover have ok: "bitmap_ok ?m" using assms u by (auto simp: bitmap_ok_def)
  moreover have "\<not> bm_bit ?m b" for b
  proof -
    have "unat b mod 2 ^ k < 32 * (2 ^ k div 32)"
      using bitmap_ok_len(1,3) [OF ok] u by simp
    then show ?thesis using block_lt by (simp add: bm_bit_def dbit_def u)
  qed
  ultimately show ?thesis by auto
qed

subsection \<open>The interface\<close>

text \<open>
  What the users of the bitmap rely on, the packet cache among them: an array of bits under cyclic
  indices, with single-bit and range updates. The laws say what a read returns after an update.
\<close>

locale bit_array =
  fixes ok :: "'m \<Rightarrow> bool"
    and cap :: "'m \<Rightarrow> nat"
    and get :: "'m \<Rightarrow> u32 \<Rightarrow> bool"
    and put :: "'m \<Rightarrow> u32 \<Rightarrow> bool \<Rightarrow> 'm"
    and fill :: "'m \<Rightarrow> u32 \<Rightarrow> u32 \<Rightarrow> bool \<Rightarrow> 'm"
  assumes cap_dvd: "ok m \<Longrightarrow> cap m dvd 2 ^ 32"
    and get_cong: "ok m \<Longrightarrow> unat i mod cap m = unat j mod cap m \<Longrightarrow> get m i = get m j"
    and put_keeps: "ok m \<Longrightarrow> ok (put m i v) \<and> cap (put m i v) = cap m"
    and fill_keeps: "ok m \<Longrightarrow> ok (fill m i j v) \<and> cap (fill m i j v) = cap m"
    and get_put: "ok m \<Longrightarrow>
      get (put m i v) j = (if unat i mod cap m = unat j mod cap m then v else get m j)"
    and get_fill: "ok m \<Longrightarrow>
      get (fill m s e v) j = (if unat (j - s) mod cap m \<le> unat (e - s) mod cap m then v else get m j)"
begin

lemma cap_pos: "ok m \<Longrightarrow> 0 < cap m"
  using cap_dvd [of m] by (cases "cap m = 0") auto

lemma same_iff_dist0:
  fixes i j :: u32
  assumes "ok m"
  shows "unat i mod cap m = unat j mod cap m \<longleftrightarrow> unat (j - i) mod cap m = 0"
  using unat_add_mod_same [OF cap_dvd [OF assms], of i "j - i"] by auto

text \<open>A range of one bit is that bit.\<close>

lemma fill_single: "ok m \<Longrightarrow> get (fill m i i v) = get (put m i v)"
  by (rule ext) (simp add: get_fill get_put same_iff_dist0)

text \<open>A range one bit longer is the range and the bit.\<close>

lemma fill_extend:
  assumes ok: "ok m" and lt: "unat (e - s) mod cap m + 1 < cap m"
  shows "get (fill m s (e + 1) v) = get (put (fill m s e v) (e + 1) v)"
proof
  fix j
  let ?c = "cap m" and ?d = "unat (e - s) mod cap m"
  have one: "unat (e + 1 - s) mod ?c = ?d + 1"
  proof -
    have "e + 1 - s = (e - s) + 1" by simp
    then have "unat (e + 1 - s) mod ?c = (unat (e - s) + 1) mod ?c"
      using unat_add_mod [OF cap_dvd [OF ok], of "e - s" 1] by (simp only: unat_1)
    also have "\<dots> = (?d + 1) mod ?c" by (simp add: mod_simps)
    finally show ?thesis using lt by simp
  qed
  have "unat (e + 1) mod ?c = unat j mod ?c \<longleftrightarrow> unat (j - (e + 1)) mod ?c = 0"
    using ok by (rule same_iff_dist0)
  also have "\<dots> \<longleftrightarrow> unat (j - s) mod ?c = ?d + 1"
    using unat_add_mod_same [OF cap_dvd [OF ok], of "e + 1 - s" "j - (e + 1)"]
    by (simp only: one diff_add_cancel add_diff_eq)  simp
  finally have "unat (e + 1) mod ?c = unat j mod ?c \<longleftrightarrow> unat (j - s) mod ?c = ?d + 1" .
  then show "get (fill m s (e + 1) v) j = get (put (fill m s e v) (e + 1) v) j"
    using ok fill_keeps [OF ok] by (auto simp: get_fill get_put one)
qed

end

definition fill_range :: "vqe_bitmap \<Rightarrow> u32 \<Rightarrow> u32 \<Rightarrow> bool \<Rightarrow> vqe_bitmap" where
  "fill_range m s e v = the (snd (vqe_bitmap_modify_bitrange (Some m) s e v))"

lemma fill_range_ok:
  assumes "bitmap_ok m"
  shows "vqe_bitmap_modify_bitrange (Some m) s e v = (VQE_BITMAP_OK, Some (fill_range m s e v))"
    and "bitmap_ok (fill_range m s e v)" and "bm_size (fill_range m s e v) = bm_size m"
    and "bm_bit (fill_range m s e v) b = (if in_cyclic_range m s e b then v else bm_bit m b)"
  using modify_bits [OF assms, of s e v] by (auto simp: fill_range_def)

interpretation bitmap: bit_array bitmap_ok "\<lambda>m. unat (bm_size m)" bm_bit put_bit fill_range
proof unfold_locales
  show "bm_bit m i = bm_bit m j" if "unat i mod unat (bm_size m) = unat j mod unat (bm_size m)"
    for m i j using that by (simp add: bm_bit_def)
qed (simp_all only: bitmap_ok_dvd put_bit_ok fill_range_ok in_cyclic_range_def bm_bit_put_bit simp_thms)

subsection \<open>Properties\<close>

text \<open>C23: on a well-formed map \<open>vqe_bitmap_modify_bitrange\<close> succeeds for every pair of indices, sets
  exactly the bits of the cyclic range from the start to the end to the value and leaves the other
  bits as they are. The range wraps around when its end comes before its start, and the map stays
  well-formed, so that no block outside the array is touched.\<close>

theorem modify_bitrange_cyclic:
  assumes "bitmap_ok m"
  shows "\<exists>m'. vqe_bitmap_modify_bitrange (Some m) s e v = (VQE_BITMAP_OK, Some m') \<and>
    bitmap_ok m' \<and> bm_size m' = bm_size m \<and>
    (\<forall>b. vqe_bitmap_get_bit (Some m') True b =
       (VQE_BITMAP_OK, Some (if unat (b - s) mod unat (bm_size m) \<le> unat (e - s) mod unat (bm_size m)
          then v else bm_bit m b)))"
  using fill_range_ok [OF assms, of s e v]
  by (auto simp: get_bit_ok in_cyclic_range_def)

theorem modify_bitrange_cyclic_witness:
  "\<exists>m'. vqe_bitmap_modify_bitrange (Some \<lparr>bm_data = [0, 0], bm_size = 64\<rparr>) 62 1 True =
      (VQE_BITMAP_OK, Some m') \<and> vqe_bitmap_get_bit (Some m') True 63 = (VQE_BITMAP_OK, Some True)"
proof -
  have "bitmap_ok \<lparr>bm_data = [0, 0], bm_size = 64\<rparr>"
    by (auto simp: bitmap_ok_def intro: image_eqI [of _ _ 6])
  from modify_bitrange_cyclic [OF this, of 62 1 True] show ?thesis by auto
qed

text \<open>After \<open>vqe_bitmap_set_bit\<close> or \<open>vqe_bitmap_clear_bit\<close> a read of any index that falls on
  the same bit returns the new value, and a read of any other index returns what it returned
  before.\<close>

lemma bitmap_read_after_write:
  assumes "bitmap_ok m"
  shows "\<exists>m1 m0. vqe_bitmap_set_bit (Some m) i = (VQE_BITMAP_OK, Some m1) \<and>
    vqe_bitmap_clear_bit (Some m) i = (VQE_BITMAP_OK, Some m0) \<and> bitmap_ok m1 \<and> bitmap_ok m0 \<and>
    (\<forall>j. if unat i mod unat (bm_size m) = unat j mod unat (bm_size m)
      then vqe_bitmap_get_bit (Some m1) True j = (VQE_BITMAP_OK, Some True) \<and>
           vqe_bitmap_get_bit (Some m0) True j = (VQE_BITMAP_OK, Some False)
      else vqe_bitmap_get_bit (Some m1) True j = vqe_bitmap_get_bit (Some m) True j \<and>
           vqe_bitmap_get_bit (Some m0) True j = vqe_bitmap_get_bit (Some m) True j)"
  using assms bitmap.put_keeps [OF assms] bitmap.get_put [OF assms]
  by (auto simp: set_clear_bit_ok get_bit_ok)

end
