(* ===== verification/Event_Q.thy ===== *)
theory Event_Q
  imports Vqe_Prelude
begin

text \<open>
  The event queue of the two RCC state machines. \<^verbatim>\<open>eva/vqec_sm.c\<close> and
  \<^verbatim>\<open>eva/vqec-dp/channel/vqec_dp_sm.c\<close> keep the same three fields in their channels: four slots with
  a lease flag, the number of leased slots and the index of the next free one. The fields are one
  record here, and the statements of the delivery functions that lease and clear a slot are its
  operations. The ring implements a bounded FIFO queue.
\<close>

record 'e evq_slot =
  sl_lease :: bool
  sl_event :: 'e
  sl_arg :: u64

record 'e evq =
  q_slots :: "'e evq_slot list"
  q_depth :: u32
  q_idx :: u32

definition SM_MAX_EVENTQ_DEPTH :: u32 where "SM_MAX_EVENTQ_DEPTH = 4"

text \<open>The next slot is leased for an event; the assertions are that the queue has room and that the
  slot is free.\<close>

definition evq_lease :: "'e \<Rightarrow> u64 \<Rightarrow> 'e evq \<Rightarrow> 'e evq outcome" where
  "evq_lease e a q =
     (if \<not> q_depth q < SM_MAX_EVENTQ_DEPTH then Assert_failed
      else if sl_lease (q_slots q ! unat (q_idx q)) then Assert_failed
      else Done (q\<lparr>q_slots := (q_slots q)
                    [unat (q_idx q) := \<lparr>sl_lease = True, sl_event = e, sl_arg = a\<rparr>],
                   q_depth := q_depth q + 1,
                   q_idx := (q_idx q + 1) mod SM_MAX_EVENTQ_DEPTH\<rparr>))"

text \<open>A slot that has been served is zeroed; the event with value 0 is a parameter.\<close>

definition evq_clear :: "'e \<Rightarrow> u32 \<Rightarrow> 'e evq \<Rightarrow> 'e evq" where
  "evq_clear ev0 i q =
     q\<lparr>q_slots := (q_slots q)[unat i := \<lparr>sl_lease = False, sl_event = ev0, sl_arg = 0\<rparr>],
       q_depth := q_depth q - 1\<rparr>"

subsection \<open>The ring as a list\<close>

definition evq_head :: "'e evq \<Rightarrow> u32" where
  "evq_head q = (q_idx q + 4 - q_depth q) mod 4"

definition evq_items :: "'e evq \<Rightarrow> 'e list" where
  "evq_items q = map (\<lambda>k. sl_event (q_slots q ! ((unat (evq_head q) + k) mod 4)))
     [0..<unat (q_depth q)]"

definition evq_ok :: "'e evq \<Rightarrow> bool" where
  "evq_ok q \<longleftrightarrow> length (q_slots q) = 4 \<and> q_idx q \<in> {0, 1, 2, 3} \<and> q_depth q \<in> {0, 1, 2, 3, 4} \<and>
     (\<forall>k<4. sl_lease (q_slots q ! ((unat (evq_head q) + k) mod 4)) \<longleftrightarrow> k < unat (q_depth q))"

lemma list4E:
  assumes "length xs = 4"
  obtains a b c d where "xs = [a, b, c, d]"
  using assms by (auto simp: numeral_eq_Suc length_Suc_conv)

lemma all_less4: "(\<forall>k<4. P k) \<longleftrightarrow> P 0 \<and> P 1 \<and> P 2 \<and> P (3::nat)"
  by (auto simp: numeral_eq_Suc less_Suc_eq)

lemmas evq_defs = evq_ok_def evq_head_def evq_items_def evq_lease_def evq_clear_def
  SM_MAX_EVENTQ_DEPTH_def all_less4

lemma evq_lease_ok:
  assumes "evq_ok q" and "length (evq_items q) < 4"
  shows "\<exists>q'. evq_lease e a q = Done q' \<and> evq_ok q' \<and> evq_items q' = evq_items q @ [e] \<and>
    evq_head q' = evq_head q \<and> q_idx q' = (q_idx q + 1) mod SM_MAX_EVENTQ_DEPTH"
proof -
  from assms(1) obtain w x y z where s: "q_slots q = [w, x, y, z]"
    by (auto simp: evq_ok_def elim: list4E)
  have i: "q_idx q = 0 \<or> q_idx q = 1 \<or> q_idx q = 2 \<or> q_idx q = 3"
    and d: "q_depth q = 0 \<or> q_depth q = 1 \<or> q_depth q = 2 \<or> q_depth q = 3"
    using assms by (auto simp: evq_ok_def evq_items_def)
  show ?thesis
    using assms(1) i d s by (elim disjE) (simp_all add: evq_defs upt_rec)
qed

lemma evq_serve_ok:
  assumes "evq_ok q" and "evq_items q = e # es"
  shows "sl_event (q_slots q ! unat (evq_head q)) = e \<and>
    evq_ok (evq_clear e0 (evq_head q) q) \<and> evq_items (evq_clear e0 (evq_head q) q) = es \<and>
    evq_head (evq_clear e0 (evq_head q) q) = (evq_head q + 1) mod SM_MAX_EVENTQ_DEPTH"
proof -
  from assms(1) obtain w x y z where s: "q_slots q = [w, x, y, z]"
    by (auto simp: evq_ok_def elim: list4E)
  have i: "q_idx q = 0 \<or> q_idx q = 1 \<or> q_idx q = 2 \<or> q_idx q = 3"
    and d: "q_depth q = 1 \<or> q_depth q = 2 \<or> q_depth q = 3 \<or> q_depth q = 4"
    using assms by (auto simp: evq_ok_def evq_items_def)
  show ?thesis
    using assms i d s by (elim disjE) (simp_all add: evq_defs upt_rec)
qed

lemma evq_depth_items: "evq_ok q \<Longrightarrow> length (evq_items q) = unat (q_depth q)"
  by (simp add: evq_items_def)

lemma evq_head_empty: "evq_ok q \<Longrightarrow> evq_items q = [] \<Longrightarrow> evq_head q = q_idx q"
  by (auto simp: evq_ok_def evq_items_def evq_head_def)

lemma evq_depth_le: "evq_ok q \<Longrightarrow> length (evq_items q) \<le> 4"
  by (auto simp: evq_ok_def evq_items_def)

definition evq_empty :: "'e \<Rightarrow> 'e evq" where
  "evq_empty e0 =
     (let slot = \<lparr>sl_lease = False, sl_event = e0, sl_arg = 0\<rparr>
      in \<lparr>q_slots = [slot, slot, slot, slot], q_depth = 0, q_idx = 0\<rparr>)"

lemma evq_empty_ok: "evq_ok (evq_empty e0)" "evq_items (evq_empty e0) = []"
  by (simp_all add: evq_empty_def evq_defs Let_def)

subsection \<open>The interface\<close>

text \<open>A bounded FIFO queue with a cursor on its oldest element, which is what the delivery
  functions rely on: leasing a slot appends, and clearing the slot under the cursor removes the
  oldest event.\<close>

locale fifo =
  fixes ok :: "'q \<Rightarrow> bool"
    and cap :: nat
    and items :: "'q \<Rightarrow> 'e list"
    and push :: "'e \<Rightarrow> 'q \<Rightarrow> 'q outcome"
    and front :: "'q \<Rightarrow> 'e"
    and drop_front :: "'q \<Rightarrow> 'q"
  assumes push_ok: "ok q \<Longrightarrow> length (items q) < cap \<Longrightarrow>
      \<exists>q'. push e q = Done q' \<and> ok q' \<and> items q' = items q @ [e]"
    and front_ok: "ok q \<Longrightarrow> items q = e # es \<Longrightarrow> front q = e"
    and drop_ok: "ok q \<Longrightarrow> items q = e # es \<Longrightarrow> ok (drop_front q) \<and> items (drop_front q) = es"
begin

text \<open>Events pushed while there is room are served in the order in which they were pushed.\<close>

primrec push_all :: "'e list \<Rightarrow> 'q \<Rightarrow> 'q outcome" where
  "push_all [] q = Done q"
| "push_all (e # es) q = bind_out (push e q) (push_all es)"

primrec serve :: "nat \<Rightarrow> 'q \<Rightarrow> 'e list" where
  "serve 0 q = []"
| "serve (Suc n) q = front q # serve n (drop_front q)"

lemma push_all_ok:
  "ok q \<Longrightarrow> length (items q) + length es \<le> cap \<Longrightarrow>
   \<exists>q'. push_all es q = Done q' \<and> ok q' \<and> items q' = items q @ es"
proof (induction es arbitrary: q)
  case (Cons e es)
  then obtain q1 where "push e q = Done q1" "ok q1" "items q1 = items q @ [e]"
    using push_ok [of q e] by auto
  with Cons show ?case by force
qed simp

lemma serve_items: "ok q \<Longrightarrow> n \<le> length (items q) \<Longrightarrow> serve n q = take n (items q)"
proof (induction n arbitrary: q)
  case (Suc n)
  then obtain e es where i: "items q = e # es" by (cases "items q") auto
  with Suc show ?case using front_ok [OF Suc.prems(1) i] drop_ok [OF Suc.prems(1) i] by auto
qed simp

lemma fifo_order:
  assumes "ok q" and "items q = []" and "length es \<le> cap"
  shows "\<exists>q'. push_all es q = Done q' \<and> serve (length es) q' = es"
  using push_all_ok [of q es] serve_items assms by fastforce

end

interpretation evq: fifo evq_ok 4 evq_items "\<lambda>e. evq_lease e 0"
  "\<lambda>q. sl_event (q_slots q ! unat (evq_head q))" "\<lambda>q. evq_clear e0 (evq_head q) q"
  for e0 :: 'a
proof unfold_locales
  show "\<exists>q'. evq_lease e 0 q = Done q' \<and> evq_ok q' \<and> evq_items q' = evq_items q @ [e]"
    if "evq_ok q" "length (evq_items q) < 4" for q :: "'a evq" and e
    using evq_lease_ok [OF that, of e 0] by blast
  fix q :: "'a evq" and e es
  assume q: "evq_ok q" "evq_items q = e # es"
  note s = evq_serve_ok [OF q, of e0]
  show "sl_event (q_slots q ! unat (evq_head q)) = e" using s by blast
  show "evq_ok (evq_clear e0 (evq_head q) q) \<and> evq_items (evq_clear e0 (evq_head q) q) = es"
    using s by blast
qed

subsection \<open>Serving a queue until it is empty\<close>

text \<open>
  The \<open>do ... while\<close> loop of the delivery functions serves the oldest event until the queue is
  empty. A machine whose handler of one event always succeeds, and never adds more events than it
  has credit for, leaves the loop, and with an empty queue. Both state machines provide this.
\<close>

locale event_loop =
  fixes inv :: "'l \<Rightarrow> bool"
    and pending :: "'l \<Rightarrow> nat"
    and credit :: "'l \<Rightarrow> nat"
    and body :: "'l \<Rightarrow> 'l outcome"
    and loop :: "nat \<Rightarrow> 'l \<Rightarrow> 'l outcome"
  assumes loop_Suc: "loop (Suc n) l =
      bind_out (body l) (\<lambda>l'. if pending l' = 0 then Done l' else loop n l')"
    and body_ok: "inv l \<Longrightarrow> 0 < pending l \<Longrightarrow>
      \<exists>l'. body l = Done l' \<and> inv l' \<and> pending l' + credit l' < pending l + credit l"
begin

lemma loop_ok:
  "inv l \<Longrightarrow> 0 < pending l \<Longrightarrow> pending l + credit l \<le> n \<Longrightarrow>
   \<exists>l'. loop n l = Done l' \<and> inv l' \<and> pending l' = 0"
proof (induction n arbitrary: l)
  case (Suc n)
  then obtain l' where "body l = Done l'" "inv l'" "pending l' + credit l' < pending l + credit l"
    using body_ok by blast
  with Suc show ?case by (cases "pending l' = 0") (auto simp: loop_Suc)
qed simp

end

end
