(* ===== verification/Rcc_Cp.thy ===== *)
theory Rcc_Cp
  imports Event_Q Vam_Time
begin

text \<open>
  The control-plane state machine of rapid channel change (RCC), \<^verbatim>\<open>eva/vqec_sm.c\<close>, with the parts
  of \<^verbatim>\<open>eva/vqec_channel.c\<close> that feed it and that it calls back: the start of a channel, the NAT
  binding updates, the APP packet and the abort notification.

  The record holds the fields of the channel and of the channel module that this code reads or
  writes, the outgoing calls in their order, and a counter of the requests to the operating system.
  What those requests return (the clock, whether a timer can be created and started, whether the
  NAK-PLI can be sent) is the environment, a parameter.
\<close>

subsection \<open>Data\<close>

datatype vqec_sm_event =
    VQEC_EVENT_RAPID_CHANNEL_CHANGE
  | VQEC_EVENT_SLOW_CHANNEL_CHANGE
  | VQEC_EVENT_NAT_BINDING_COMPLETE
  | VQEC_EVENT_RECEIVE_VALID_APP
  | VQEC_EVENT_RECEIVE_INVALID_APP
  | VQEC_EVENT_RECEIVE_NULL_APP
  | VQEC_EVENT_RCC_START_TIMEOUT
  | VQEC_EVENT_RCC_IPC_ERR
  | VQEC_EVENT_RCC_INTERNAL_ERR
  | VQEC_EVENT_CHAN_DEINIT

datatype vqec_sm_state =
    VQEC_SM_STATE_INVALID
  | VQEC_SM_STATE_INIT
  | VQEC_SM_STATE_WAIT_APP
  | VQEC_SM_STATE_FIN_SUCCESS
  | VQEC_SM_STATE_ABORT

datatype vqec_sm_log_event =
  VQEC_SM_LOG_STATE_EVENT | VQEC_SM_LOG_STATE_ENTER | VQEC_SM_LOG_STATE_EXIT

primrec vqec_sm_event_no :: "vqec_sm_event \<Rightarrow> nat" where
  "vqec_sm_event_no VQEC_EVENT_RAPID_CHANNEL_CHANGE = 0"
| "vqec_sm_event_no VQEC_EVENT_SLOW_CHANNEL_CHANGE = 1"
| "vqec_sm_event_no VQEC_EVENT_NAT_BINDING_COMPLETE = 2"
| "vqec_sm_event_no VQEC_EVENT_RECEIVE_VALID_APP = 3"
| "vqec_sm_event_no VQEC_EVENT_RECEIVE_INVALID_APP = 4"
| "vqec_sm_event_no VQEC_EVENT_RECEIVE_NULL_APP = 5"
| "vqec_sm_event_no VQEC_EVENT_RCC_START_TIMEOUT = 6"
| "vqec_sm_event_no VQEC_EVENT_RCC_IPC_ERR = 7"
| "vqec_sm_event_no VQEC_EVENT_RCC_INTERNAL_ERR = 8"
| "vqec_sm_event_no VQEC_EVENT_CHAN_DEINIT = 9"

record vqec_sm_log_entry =
  lg_log_event :: vqec_sm_log_event
  lg_state :: vqec_sm_state
  lg_event :: vqec_sm_event
  lg_timestamp :: abs_time

definition VQEC_SM_LOG_MAX_SIZE :: u32 where "VQEC_SM_LOG_MAX_SIZE = 16"

datatype fastfill_abort_reason = FASTFILL_ABORT_CLIENT | FASTFILL_ABORT_SERVER

record ppdd_tlv =
  tlv_start_seq_number :: u32
  tlv_start_rtp_time :: u32
  tlv_dt_earliest_join :: u32
  tlv_dt_repair_end :: u32
  tlv_act_rcc_fill :: u32
  tlv_act_rcc_fill_at_join :: u32
  tlv_er_holdoff_time :: u32
  tlv_actual_fastfill :: u32

record vqec_dp_rcc_app =
  app_rcc_start_time :: abs_time
  app_start_seq_num :: u32
  app_rtp_ts :: u32
  app_dt_earliest_join :: rel_time
  app_dt_repair_end :: rel_time
  app_act_min_backfill :: rel_time
  app_act_backfill_at_join :: rel_time
  app_er_holdoff_time :: rel_time
  app_first_repair_deadline :: abs_time
  app_fast_fill_time :: rel_time

datatype dp_app_result = DP_APP_OK | DP_APP_INVALID | DP_APP_IPC_FAILED

datatype cp_call =
    Call_send_nakpli rel_time rel_time bool u32 rel_time
  | Call_dp_abort_rcc
  | Call_mrb_timer_stop
  | Call_mrb_transition_cb
  | Call_enable_er_poll
  | Call_repair_bye
  | Call_fastfill_start u32
  | Call_fastfill_abort fastfill_abort_reason
  | Call_dp_process_app vqec_dp_rcc_app

record vqec_chan =
  cp_state :: vqec_sm_state
  cp_event_mask :: u32
  cp_event_q :: "vqec_sm_event evq"
  cp_sm_log :: "vqec_sm_log_entry list"
  cp_sm_log_tail :: u32
  cp_sm_log_head :: u32
  cp_rcc_enabled :: bool
  cp_er_enabled :: bool
  cp_nat_enabled :: bool
  cp_shutdown :: bool
  cp_rcc_in_abort :: bool
  cp_rcc_start_time :: abs_time
  cp_app_timeout_interval :: rel_time
  cp_app_timeout :: "timeval option"
  cp_first_repair_deadline :: abs_time
  cp_nakpli_sent :: bool
  cp_nakpli_sent_time :: abs_time
  cp_rtp_nat_complete :: bool
  cp_rtcp_nat_complete :: bool
  cp_fast_fill_enabled :: bool
  cp_fastfill_start :: bool
  cp_fastfill_abort :: bool
  cp_fastfill_done :: bool
  cp_fast_fill_end_time :: abs_time
  cp_rcc_min_fill :: rel_time
  cp_rcc_max_fill :: rel_time
  cp_max_fastfill :: rel_time
  cp_max_recv_bw_rcc :: u32
  cp_max_recv_bw_er :: u32
  cp_fec_recv_bw :: u32
  cp_primary_dest_addr :: u32
  cp_fec1_mcast_addr :: u32
  cp_fec2_mcast_addr :: u32
  cp_use_rcc_bw_for_er :: bool
  cp_mrb_transition_ev :: bool
  cp_app :: vqec_dp_rcc_app
  cp_app_rx_ev_ts :: abs_time
  cp_mrb_transition_cb :: bool
  cp_num_current_rccs :: u32
  cp_total_app_timeout_counter :: u64
  cp_total_app_paks :: u64
  cp_total_null_app_paks :: u64
  cp_total_app_parse_errors :: u64
  cp_concurrent_rccs_limited :: u64
  cp_calls :: "cp_call list"
  cp_tick :: nat

record cp_env =
  env_time :: "nat \<Rightarrow> abs_time"
  env_event_create :: "nat \<Rightarrow> bool"
  env_event_start :: "nat \<Rightarrow> bool"
  env_send_nakpli :: "nat \<Rightarrow> bool"
  env_dp_process_app :: "nat \<Rightarrow> dp_app_result"

type_synonym cp_res = "(bool \<times> vqec_chan) outcome"
type_synonym cp_deliver = "vqec_sm_event \<Rightarrow> u64 \<Rightarrow> vqec_chan \<Rightarrow> cp_res"
type_synonym cp_action =
  "cp_env \<Rightarrow> cp_deliver \<Rightarrow> vqec_sm_state \<Rightarrow> vqec_sm_event \<Rightarrow> u64 \<Rightarrow> vqec_chan \<Rightarrow> cp_res"

definition cp_sys_time :: "cp_env \<Rightarrow> vqec_chan \<Rightarrow> abs_time \<times> vqec_chan" where
  "cp_sys_time env c = (env_time env (cp_tick c), c\<lparr>cp_tick := Suc (cp_tick c)\<rparr>)"

definition cp_call_out :: "cp_call \<Rightarrow> vqec_chan \<Rightarrow> vqec_chan" where
  "cp_call_out k c = c\<lparr>cp_calls := cp_calls c @ [k]\<rparr>"

subsection \<open>Printable names and the log\<close>

primrec vqec_sm_event_to_string :: "vqec_sm_event \<Rightarrow> string" where
  "vqec_sm_event_to_string VQEC_EVENT_RAPID_CHANNEL_CHANGE = ''RAPID_CHANNEL_CHANGE''"
| "vqec_sm_event_to_string VQEC_EVENT_SLOW_CHANNEL_CHANGE = ''SLOW_CHANNEL_CHANGE''"
| "vqec_sm_event_to_string VQEC_EVENT_NAT_BINDING_COMPLETE = ''NAT_BINDING_COMPLETE''"
| "vqec_sm_event_to_string VQEC_EVENT_RECEIVE_VALID_APP = ''RECEIVE_VALID_APP''"
| "vqec_sm_event_to_string VQEC_EVENT_RECEIVE_INVALID_APP = ''RECEIVE_INVALID_APP''"
| "vqec_sm_event_to_string VQEC_EVENT_RECEIVE_NULL_APP = ''RECEIVE_NULL_APP''"
| "vqec_sm_event_to_string VQEC_EVENT_RCC_START_TIMEOUT = ''RCC_START_TIMEOUT''"
| "vqec_sm_event_to_string VQEC_EVENT_RCC_IPC_ERR = ''RCC_IPC_ERR''"
| "vqec_sm_event_to_string VQEC_EVENT_RCC_INTERNAL_ERR = ''RCC_INTERNAL_ERROR''"
| "vqec_sm_event_to_string VQEC_EVENT_CHAN_DEINIT = ''CHAN_DEINIT''"

primrec vqec_sm_state_to_string :: "vqec_sm_state \<Rightarrow> string" where
  "vqec_sm_state_to_string VQEC_SM_STATE_INVALID = ''STATE_INVALID''"
| "vqec_sm_state_to_string VQEC_SM_STATE_INIT = ''STATE_INIT''"
| "vqec_sm_state_to_string VQEC_SM_STATE_WAIT_APP = ''STATE_WAIT_APP''"
| "vqec_sm_state_to_string VQEC_SM_STATE_FIN_SUCCESS = ''STATE_SUCCESS''"
| "vqec_sm_state_to_string VQEC_SM_STATE_ABORT = ''STATE_ABORT''"

primrec vqec_sm_log_evt_to_string :: "vqec_sm_log_event \<Rightarrow> string" where
  "vqec_sm_log_evt_to_string VQEC_SM_LOG_STATE_EVENT = ''FSM_EVENT''"
| "vqec_sm_log_evt_to_string VQEC_SM_LOG_STATE_ENTER = ''STATE_ENTER''"
| "vqec_sm_log_evt_to_string VQEC_SM_LOG_STATE_EXIT = ''STATE_EXIT''"

definition vqec_sm_log ::
  "cp_env \<Rightarrow> vqec_sm_log_event \<Rightarrow> vqec_sm_state \<Rightarrow> vqec_sm_event \<Rightarrow> vqec_chan \<Rightarrow> vqec_chan" where
  "vqec_sm_log env log_evt state event c =
     (let i = unat (cp_sm_log_tail c);
          c1 = c\<lparr>cp_sm_log_tail := (cp_sm_log_tail c + 1) mod VQEC_SM_LOG_MAX_SIZE\<rparr>;
          (now, c2) = cp_sys_time env c1
      in c2\<lparr>cp_sm_log := (cp_sm_log c2)
           [i := \<lparr>lg_log_event = log_evt, lg_state = state, lg_event = event, lg_timestamp = now\<rparr>]\<rparr>)"

text \<open>The display walks the ring from the head to the tail, at most once around. The lines it
  prints are the result.\<close>

fun display_log_from :: "nat \<Rightarrow> u32 \<Rightarrow> vqec_chan \<Rightarrow> (string \<times> string \<times> string \<times> u64) list" where
  "display_log_from 0 i c = []"
| "display_log_from (Suc n) i c =
     (if i = cp_sm_log_tail c then []
      else let log = cp_sm_log c ! unat i
           in (vqec_sm_state_to_string (lg_state log), vqec_sm_event_to_string (lg_event log),
               vqec_sm_log_evt_to_string (lg_log_event log), abs_time_to_msec (lg_timestamp log))
              # display_log_from n ((i + 1) mod VQEC_SM_LOG_MAX_SIZE) c)"

definition vqec_sm_display_log :: "vqec_chan \<Rightarrow> (string \<times> string \<times> string \<times> u64) list" where
  "vqec_sm_display_log c = display_log_from (unat VQEC_SM_LOG_MAX_SIZE) (cp_sm_log_head c) c"

subsection \<open>Callbacks into the channel\<close>

definition vqec_chan_is_rcc_aborted :: "vqec_chan \<Rightarrow> bool" where
  "vqec_chan_is_rcc_aborted c = cp_rcc_in_abort c"

definition vqec_chan_set_rcc_aborted :: "vqec_chan \<Rightarrow> vqec_chan" where
  "vqec_chan_set_rcc_aborted c = c\<lparr>cp_rcc_in_abort := True\<rparr>"

definition vqec_chan_mrb_transition_actions :: "bool \<Rightarrow> vqec_chan \<Rightarrow> vqec_chan" where
  "vqec_chan_mrb_transition_actions timed_out c =
     (let c1 = (if \<not> timed_out \<and> cp_mrb_transition_ev c then cp_call_out Call_mrb_timer_stop c else c);
          c2 = c1\<lparr>cp_use_rcc_bw_for_er := False\<rparr>
      in if cp_mrb_transition_cb c2 then cp_call_out Call_mrb_transition_cb c2 else c2)"

definition vqec_chan_get_max_recv_bw_rcc :: "vqec_chan \<Rightarrow> u32" where
  "vqec_chan_get_max_recv_bw_rcc c =
     (if cp_primary_dest_addr c \<noteq> cp_fec1_mcast_addr c \<and>
         cp_primary_dest_addr c \<noteq> cp_fec2_mcast_addr c
      then cp_max_recv_bw_rcc c
      else if cp_max_recv_bw_rcc c > cp_fec_recv_bw c
           then cp_max_recv_bw_rcc c - cp_fec_recv_bw c
           else 0)"

definition vqec_chan_get_max_recv_bw_er :: "vqec_chan \<Rightarrow> u32" where
  "vqec_chan_get_max_recv_bw_er c =
     (if cp_max_recv_bw_er c > cp_fec_recv_bw c then cp_max_recv_bw_er c - cp_fec_recv_bw c else 0)"

definition vqec_chan_rcc_abort_notify :: "vqec_chan \<Rightarrow> vqec_chan" where
  "vqec_chan_rcc_abort_notify c =
     (if cp_shutdown c then c
      else if \<not> vqec_chan_is_rcc_aborted c then
        let c1 = cp_call_out Call_dp_abort_rcc c;
            c2 = (if cp_use_rcc_bw_for_er c1 then vqec_chan_mrb_transition_actions False c1 else c1);
            c3 = cp_call_out Call_enable_er_poll c2;
            c4 = cp_call_out Call_repair_bye c3;
            c5 = (if cp_fast_fill_enabled c4 \<and> cp_fastfill_abort c4 \<and>
                     abs_time_eq (cp_fast_fill_end_time c4) ABS_TIME_0
                  then cp_call_out (Call_fastfill_abort FASTFILL_ABORT_CLIENT) c4 else c4);
            c6 = c5\<lparr>cp_num_current_rccs := cp_num_current_rccs c5 - 1\<rparr>
        in vqec_chan_set_rcc_aborted c6
      else c)"

subsection \<open>Actions\<close>

text \<open>An action gets the delivery function, which some of them call again, as an argument.\<close>

definition vqec_sm_enter_def :: cp_action where
  "vqec_sm_enter_def env dlv state event arg c = Done (True, c)"

definition vqec_sm_exit_def :: cp_action where
  "vqec_sm_exit_def env dlv state event arg c = Done (True, c)"

definition vqec_sm_null_action :: cp_action where
  "vqec_sm_null_action env dlv state event arg c = Done (True, c)"

definition vqec_sm_enter_abort_rcc :: cp_action where
  "vqec_sm_enter_abort_rcc env dlv state event arg c = Done (True, vqec_chan_rcc_abort_notify c)"

definition vqec_sm_app_timer_stop :: cp_action where
  "vqec_sm_app_timer_stop env dlv state event arg c =
     Done (True, if cp_app_timeout c \<noteq> None then c\<lparr>cp_app_timeout := None\<rparr> else c)"

definition vqec_sm_app_timer_start :: cp_action where
  "vqec_sm_app_timer_start env dlv state event arg c =
     (let (t0, c1) = cp_sys_time env c;
          c2 = c1\<lparr>cp_rcc_start_time := t0\<rparr>;
          tv = rel_time_to_timeval (cp_app_timeout_interval c2)
      in if cp_app_timeout c2 \<noteq> None then Assert_failed
         else let n = cp_tick c2;
                  c3 = c2\<lparr>cp_tick := Suc n\<rparr>
              in if \<not> env_event_create env n \<or> \<not> env_event_start env n
                 then bind_out (dlv VQEC_EVENT_RCC_INTERNAL_ERR 0 (c3\<lparr>cp_app_timeout := None\<rparr>))
                        (\<lambda>(_, c4). Done (False, c4))
                 else let (t1, c4) = cp_sys_time env (c3\<lparr>cp_app_timeout := Some tv\<rparr>)
                      in Done (True, c4\<lparr>cp_first_repair_deadline :=
                           abs_plus_rel_time t1 (cp_app_timeout_interval c4)\<rparr>))"

definition vqec_sm_send_nakpli :: cp_action where
  "vqec_sm_send_nakpli env dlv state event arg c =
     (let do_fast_fill = (cp_fast_fill_enabled c \<and> cp_fastfill_start c \<and> cp_fastfill_abort c \<and>
                          cp_fastfill_done c);
          bw = vqec_chan_get_max_recv_bw_rcc c;
          recv_bw = (if bw = 0 \<and> cp_max_recv_bw_rcc c \<noteq> 0 then 1 else bw);
          n = cp_tick c;
          c1 = cp_call_out (Call_send_nakpli (cp_rcc_min_fill c) (cp_rcc_max_fill c) do_fast_fill
                              recv_bw (cp_max_fastfill c)) (c\<lparr>cp_tick := Suc n\<rparr>)
      in if \<not> env_send_nakpli env n
         then bind_out (dlv VQEC_EVENT_RCC_INTERNAL_ERR 0 c1) (\<lambda>(_, c2). Done (False, c2))
         else let (t, c2) = cp_sys_time env (c1\<lparr>cp_nakpli_sent := True\<rparr>)
              in Done (True, c2\<lparr>cp_nakpli_sent_time := t\<rparr>))"

subsection \<open>Transitions and the table of states\<close>

definition vqec_sm_transition_fcn_init :: "vqec_sm_event \<Rightarrow> vqec_sm_state" where
  "vqec_sm_transition_fcn_init event =
     (case event of
        VQEC_EVENT_RAPID_CHANNEL_CHANGE \<Rightarrow> VQEC_SM_STATE_WAIT_APP
      | VQEC_EVENT_SLOW_CHANNEL_CHANGE \<Rightarrow> VQEC_SM_STATE_FIN_SUCCESS
      | _ \<Rightarrow> VQEC_SM_STATE_INVALID)"

definition vqec_sm_transition_fcn_waitapp :: "vqec_sm_event \<Rightarrow> vqec_sm_state" where
  "vqec_sm_transition_fcn_waitapp event =
     (case event of
        VQEC_EVENT_NAT_BINDING_COMPLETE \<Rightarrow> VQEC_SM_STATE_WAIT_APP
      | VQEC_EVENT_RECEIVE_VALID_APP \<Rightarrow> VQEC_SM_STATE_FIN_SUCCESS
      | VQEC_EVENT_RECEIVE_INVALID_APP \<Rightarrow> VQEC_SM_STATE_ABORT
      | VQEC_EVENT_RECEIVE_NULL_APP \<Rightarrow> VQEC_SM_STATE_ABORT
      | VQEC_EVENT_RCC_START_TIMEOUT \<Rightarrow> VQEC_SM_STATE_ABORT
      | VQEC_EVENT_RCC_INTERNAL_ERR \<Rightarrow> VQEC_SM_STATE_ABORT
      | VQEC_EVENT_RCC_IPC_ERR \<Rightarrow> VQEC_SM_STATE_ABORT
      | VQEC_EVENT_CHAN_DEINIT \<Rightarrow> VQEC_SM_STATE_ABORT
      | _ \<Rightarrow> VQEC_SM_STATE_INVALID)"

definition vqec_sm_transition_fcn_finsuccess :: "vqec_sm_event \<Rightarrow> vqec_sm_state" where
  "vqec_sm_transition_fcn_finsuccess event = VQEC_SM_STATE_FIN_SUCCESS"

definition vqec_sm_transition_fcn_abort :: "vqec_sm_event \<Rightarrow> vqec_sm_state" where
  "vqec_sm_transition_fcn_abort event = VQEC_SM_STATE_ABORT"

definition vqec_sm_action_fcn_init :: "vqec_sm_event \<Rightarrow> cp_action" where
  "vqec_sm_action_fcn_init event = vqec_sm_null_action"

definition vqec_sm_action_fcn_waitapp :: "vqec_sm_event \<Rightarrow> cp_action" where
  "vqec_sm_action_fcn_waitapp event =
     (case event of
        VQEC_EVENT_NAT_BINDING_COMPLETE \<Rightarrow> vqec_sm_send_nakpli
      | _ \<Rightarrow> vqec_sm_null_action)"

definition vqec_sm_action_fcn_finsuccess :: "vqec_sm_event \<Rightarrow> cp_action" where
  "vqec_sm_action_fcn_finsuccess event = vqec_sm_null_action"

definition vqec_sm_action_fcn_abort :: "vqec_sm_event \<Rightarrow> cp_action" where
  "vqec_sm_action_fcn_abort event = vqec_sm_null_action"

record vqec_sm_state_fcns =
  entry_fcn :: cp_action
  exit_fcn :: cp_action
  action_map_fcn :: "vqec_sm_event \<Rightarrow> cp_action"
  transition_fcn :: "vqec_sm_event \<Rightarrow> vqec_sm_state"

primrec s_cp_states :: "vqec_sm_state \<Rightarrow> vqec_sm_state_fcns option" where
  "s_cp_states VQEC_SM_STATE_INVALID = None"
| "s_cp_states VQEC_SM_STATE_INIT =
     Some \<lparr>entry_fcn = vqec_sm_enter_def, exit_fcn = vqec_sm_exit_def,
           action_map_fcn = vqec_sm_action_fcn_init, transition_fcn = vqec_sm_transition_fcn_init\<rparr>"
| "s_cp_states VQEC_SM_STATE_WAIT_APP =
     Some \<lparr>entry_fcn = vqec_sm_app_timer_start, exit_fcn = vqec_sm_app_timer_stop,
           action_map_fcn = vqec_sm_action_fcn_waitapp,
           transition_fcn = vqec_sm_transition_fcn_waitapp\<rparr>"
| "s_cp_states VQEC_SM_STATE_FIN_SUCCESS =
     Some \<lparr>entry_fcn = vqec_sm_enter_def, exit_fcn = vqec_sm_exit_def,
           action_map_fcn = vqec_sm_action_fcn_finsuccess,
           transition_fcn = vqec_sm_transition_fcn_finsuccess\<rparr>"
| "s_cp_states VQEC_SM_STATE_ABORT =
     Some \<lparr>entry_fcn = vqec_sm_enter_abort_rcc, exit_fcn = vqec_sm_exit_def,
           action_map_fcn = vqec_sm_action_fcn_abort, transition_fcn = vqec_sm_transition_fcn_abort\<rparr>"

definition vqec_sm_guard_fcn :: "vqec_sm_state \<Rightarrow> vqec_sm_event \<Rightarrow> bool" where
  "vqec_sm_guard_fcn state event =
     (case s_cp_states state of None \<Rightarrow> False
      | Some f \<Rightarrow> transition_fcn f event \<noteq> VQEC_SM_STATE_INVALID)"

subsection \<open>Delivery of an event\<close>

text \<open>The variables of the loop: the slot being served, the slot after it, the accumulated result,
  and the channel. A state without functions cannot be called: that is an assertion failure.\<close>

type_synonym cp_loop = "u32 \<times> u32 \<times> bool \<times> vqec_chan"

definition cp_serve_event :: "cp_env \<Rightarrow> cp_deliver \<Rightarrow> vqec_sm_event \<Rightarrow> u64 \<Rightarrow> vqec_chan \<Rightarrow> cp_res" where
  "cp_serve_event env dlv event arg c =
     (case s_cp_states (cp_state c) of
        None \<Rightarrow> Assert_failed
      | Some f \<Rightarrow>
          bind_out (action_map_fcn f event env dlv (cp_state c) event arg c) (\<lambda>(ra, c1).
          (let next_state = transition_fcn f event
           in if next_state \<noteq> cp_state c1 then
                bind_out (exit_fcn f env dlv (cp_state c1) event arg c1) (\<lambda>(rx, c2).
                (let c3 = vqec_sm_log env VQEC_SM_LOG_STATE_EXIT (cp_state c2) event c2;
                     c4 = c3\<lparr>cp_state := next_state\<rparr>
                 in case s_cp_states next_state of
                      None \<Rightarrow> Assert_failed
                    | Some g \<Rightarrow>
                        bind_out (entry_fcn g env dlv (cp_state c4) event arg c4) (\<lambda>(re, c5).
                        Done (ra \<and> rx \<and> re,
                              vqec_sm_log env VQEC_SM_LOG_STATE_ENTER (cp_state c5) event c5))))
              else Done (ra, c1))))"

definition cp_loop_body :: "cp_env \<Rightarrow> cp_deliver \<Rightarrow> cp_loop \<Rightarrow> cp_loop outcome" where
  "cp_loop_body env dlv l =
     (case l of (cur, nxt_q_idx, ret_act, c) \<Rightarrow>
        let slot = q_slots (cp_event_q c) ! unat cur;
            event = sl_event slot;
            ret = vqec_sm_guard_fcn (cp_state c) event;
            c1 = vqec_sm_log env VQEC_SM_LOG_STATE_EVENT (cp_state c) event c
        in bind_out (if ret then cp_serve_event env dlv event (sl_arg slot) c1 else Done (True, c1))
             (\<lambda>(r, c2). Done (nxt_q_idx, (nxt_q_idx + 1) mod SM_MAX_EVENTQ_DEPTH, ret_act \<and> r,
                c2\<lparr>cp_event_q := evq_clear VQEC_EVENT_RAPID_CHANNEL_CHANGE cur (cp_event_q c2)\<rparr>)))"

primrec cp_loop_run :: "cp_env \<Rightarrow> cp_deliver \<Rightarrow> nat \<Rightarrow> cp_loop \<Rightarrow> cp_loop outcome" where
  "cp_loop_run env dlv 0 l = Out_of_fuel"
| "cp_loop_run env dlv (Suc n) l =
     bind_out (cp_loop_body env dlv l) (\<lambda>l'.
       case l' of (_, _, _, c) \<Rightarrow>
         if q_depth (cp_event_q c) = 0 then Done l' else cp_loop_run env dlv n l')"

text \<open>The recursion of delivery through actions is bounded by the first argument, the loop by 8
  rounds; \<open>cp_deliver_total\<close> below shows that neither bound is ever reached.\<close>

definition CP_LOOP_ROUNDS :: nat where "CP_LOOP_ROUNDS = 8"

primrec cp_deliver_rec :: "nat \<Rightarrow> cp_env \<Rightarrow> cp_deliver" where
  "cp_deliver_rec 0 env event arg c = Out_of_fuel"
| "cp_deliver_rec (Suc d) env event arg c =
     (if s_cp_states (cp_state c) = None then Assert_failed
      else
        let (cur_time, c1) = cp_sys_time env c;
            cur = q_idx (cp_event_q c1)
        in bind_out (evq_lease event arg (cp_event_q c1)) (\<lambda>q.
           let c2 = c1\<lparr>cp_event_q := q,
                       cp_event_mask := cp_event_mask c1 OR push_bit (vqec_sm_event_no event) 1\<rparr>
           in if q_depth q > 1 then Done (True, c2)
              else bind_out (cp_loop_run env (cp_deliver_rec d env) CP_LOOP_ROUNDS
                               (cur, q_idx q, True, c2))
                     (\<lambda>(_, _, ret_act, c3). Done (ret_act, c3))))"

definition vqec_sm_deliver_event :: "cp_env \<Rightarrow> cp_deliver" where
  "vqec_sm_deliver_event env = cp_deliver_rec 2 env"

definition vqec_sm_app_timeout_handler :: "cp_env \<Rightarrow> vqec_chan \<Rightarrow> vqec_chan outcome" where
  "vqec_sm_app_timeout_handler env c =
     bind_out (vqec_sm_deliver_event env VQEC_EVENT_RCC_START_TIMEOUT 0
                 (c\<lparr>cp_total_app_timeout_counter := cp_total_app_timeout_counter c + 1\<rparr>))
       (\<lambda>(_, c1). Done c1)"

definition vqec_sm_init :: "vqec_chan \<Rightarrow> vqec_chan" where
  "vqec_sm_init c = c\<lparr>cp_state := VQEC_SM_STATE_INIT\<rparr>"

definition vqec_sm_deinit :: "cp_env \<Rightarrow> vqec_chan \<Rightarrow> vqec_chan outcome" where
  "vqec_sm_deinit env c =
     (if cp_state c \<noteq> VQEC_SM_STATE_INVALID
      then bind_out (vqec_sm_deliver_event env VQEC_EVENT_CHAN_DEINIT 0 c) (\<lambda>(_, c1). Done c1)
      else Done c)"

definition cp_event_seen :: "vqec_chan \<Rightarrow> vqec_sm_event \<Rightarrow> bool" where
  "cp_event_seen c event = (cp_event_mask c AND push_bit (vqec_sm_event_no event) 1 \<noteq> 0)"

definition vqec_sm_fail_reason :: "vqec_chan \<Rightarrow> string" where
  "vqec_sm_fail_reason c =
     (if \<not> cp_rcc_enabled c then ''RCC_DISABLED''
      else if cp_rcc_in_abort c then
        if cp_event_seen c VQEC_EVENT_RECEIVE_INVALID_APP then ''INVALID_APP''
        else if cp_event_seen c VQEC_EVENT_RECEIVE_NULL_APP then ''NULL_APP''
        else if cp_event_seen c VQEC_EVENT_RCC_START_TIMEOUT then
          if cp_nakpli_sent c then ''APP_TIMEOUT'' else ''NAT_TIMEOUT''
        else if cp_event_seen c VQEC_EVENT_RCC_IPC_ERR then ''IPC_ERROR''
        else if cp_event_seen c VQEC_EVENT_CHAN_DEINIT then ''CHAN_DEINIT''
        else ''UNKNOWN''
      else ''NONE'')"

subsection \<open>Channel operations that feed the machine\<close>

text \<open>The admission of a new RCC: not more than the configured number at a time, 0 meaning no
  limit.\<close>

definition vqec_chan_rcc_admit :: "u32 \<Rightarrow> vqec_chan \<Rightarrow> vqec_chan" where
  "vqec_chan_rcc_admit rcc_max_concurrent c =
     (if cp_rcc_enabled c \<and> rcc_max_concurrent \<noteq> 0 \<and> cp_num_current_rccs c \<ge> rcc_max_concurrent
      then c\<lparr>cp_rcc_enabled := False,
             cp_concurrent_rccs_limited := cp_concurrent_rccs_limited c + 1\<rparr>
      else c)"

text \<open>The last part of a bind: the machine is initialised and started. The result is whether the
  bind succeeds; \<open>behind_nat\<close> says that the NAT mode is on and the client is behind a NAT.\<close>

definition vqec_chan_bind_start ::
  "cp_env \<Rightarrow> u32 \<Rightarrow> bool \<Rightarrow> vqec_chan \<Rightarrow> (bool \<times> vqec_chan) outcome" where
  "vqec_chan_bind_start env rcc_start_timeout behind_nat c =
     (let c1 = vqec_sm_init (c\<lparr>cp_app_timeout_interval := msec_to_rel_time (ucast rcc_start_timeout)\<rparr>)
      in if cp_rcc_enabled c1 then
           bind_out (vqec_sm_deliver_event env VQEC_EVENT_RAPID_CHANNEL_CHANGE 0 c1) (\<lambda>(ok1, c2).
           if \<not> ok1 then Done (False, c2)
           else let c3 = c2\<lparr>cp_num_current_rccs := cp_num_current_rccs c2 + 1\<rparr>
                in if \<not> cp_nat_enabled c3 \<or> \<not> behind_nat
                   then vqec_sm_deliver_event env VQEC_EVENT_NAT_BINDING_COMPLETE 0
                          (c3\<lparr>cp_rtp_nat_complete := True, cp_rtcp_nat_complete := True\<rparr>)
                   else Done (True, c3))
         else
           bind_out (vqec_sm_deliver_event env VQEC_EVENT_SLOW_CHANNEL_CHANGE 0 c1) (\<lambda>(ok1, c2).
           if \<not> ok1 then Done (False, c2)
           else Done (True, if cp_er_enabled c2 then cp_call_out Call_enable_er_poll c2 else c2)))"

text \<open>What the destruction of a channel that is not yet shut down does to the count of RCCs.\<close>

definition vqec_chan_destroy_count :: "vqec_chan \<Rightarrow> vqec_chan" where
  "vqec_chan_destroy_count c =
     (if cp_shutdown c then c
      else if cp_rcc_enabled c \<and> \<not> cp_rcc_in_abort c
           then c\<lparr>cp_num_current_rccs := cp_num_current_rccs c - 1\<rparr> else c)"

datatype nat_binding = REPAIR_RTP_BINDING | REPAIR_RTCP_BINDING | OTHER_BINDING

definition vqec_chan_nat_bind_update ::
  "cp_env \<Rightarrow> nat_binding \<Rightarrow> vqec_chan \<Rightarrow> vqec_chan outcome" where
  "vqec_chan_nat_bind_update env bindid c =
     (if bindid = REPAIR_RTP_BINDING \<and> \<not> cp_rtp_nat_complete c then
        let c1 = c\<lparr>cp_rtp_nat_complete := True\<rparr>
        in if cp_rtcp_nat_complete c1
           then bind_out (vqec_sm_deliver_event env VQEC_EVENT_NAT_BINDING_COMPLETE 0 c1)
                  (\<lambda>(_, c2). Done c2)
           else Done c1
      else if bindid = REPAIR_RTCP_BINDING \<and> \<not> cp_rtcp_nat_complete c then
        let c1 = c\<lparr>cp_rtcp_nat_complete := True\<rparr>
        in if cp_rtp_nat_complete c1
           then bind_out (vqec_sm_deliver_event env VQEC_EVENT_NAT_BINDING_COMPLETE 0 c1)
                  (\<lambda>(_, c2). Done c2)
           else Done c1
      else Done c)"

definition vqec_chan_mrb_transition_event_handler :: "vqec_chan \<Rightarrow> vqec_chan" where
  "vqec_chan_mrb_transition_event_handler c =
     (if cp_use_rcc_bw_for_er c then vqec_chan_mrb_transition_actions True c else c)"

text \<open>The parameters of an APP packet as they are cached in the channel and passed on to the data
  plane.\<close>

definition cache_app :: "ppdd_tlv \<Rightarrow> vqec_chan \<Rightarrow> vqec_dp_rcc_app" where
  "cache_app tlv c =
     \<lparr>app_rcc_start_time = cp_rcc_start_time c,
      app_start_seq_num = tlv_start_seq_number tlv,
      app_rtp_ts = tlv_start_rtp_time tlv,
      app_dt_earliest_join = pcr_to_rel_time (ucast (tlv_dt_earliest_join tlv)),
      app_dt_repair_end = pcr_to_rel_time (ucast (tlv_dt_repair_end tlv)),
      app_act_min_backfill = msec_to_rel_time (ucast (tlv_act_rcc_fill tlv)),
      app_act_backfill_at_join = msec_to_rel_time (ucast (tlv_act_rcc_fill_at_join tlv)),
      app_er_holdoff_time = msec_to_rel_time (ucast (tlv_er_holdoff_time tlv)),
      app_first_repair_deadline = cp_first_repair_deadline c,
      app_fast_fill_time = pcr_to_rel_time (ucast (tlv_actual_fastfill tlv))\<rparr>"

definition cp_deliver_ignore ::
  "cp_env \<Rightarrow> vqec_sm_event \<Rightarrow> vqec_chan \<Rightarrow> vqec_chan outcome" where
  "cp_deliver_ignore env ev c = bind_out (vqec_sm_deliver_event env ev 0 c) (\<lambda>(_, c1). Done c1)"

text \<open>A fast-fill callback that is called without being registered is a call through a null pointer,
  here an assertion failure.\<close>

definition app_fastfill_notify :: "vqec_chan \<Rightarrow> vqec_chan outcome" where
  "app_fastfill_notify c =
     (if cp_fast_fill_enabled c \<and> cp_fastfill_start c then
        if rel_time_gt (app_fast_fill_time (cp_app c)) REL_TIME_0
        then Done (cp_call_out
               (Call_fastfill_start (ucast (rel_time_to_pcr (app_fast_fill_time (cp_app c))))) c)
        else if cp_fastfill_abort c
             then Done (cp_call_out (Call_fastfill_abort FASTFILL_ABORT_SERVER) c)
             else Assert_failed
      else Done c)"

definition vqec_chan_process_app ::
  "cp_env \<Rightarrow> ppdd_tlv \<Rightarrow> vqec_chan \<Rightarrow> vqec_chan outcome" where
  "vqec_chan_process_app env tlv c =
     (if cp_shutdown c then Done c
      else
        let (now, c0) = cp_sys_time env c;
            c1 = c0\<lparr>cp_app_rx_ev_ts := now, cp_total_app_paks := cp_total_app_paks c0 + 1\<rparr>
        in if tlv_start_rtp_time tlv = 0 \<and> tlv_dt_earliest_join tlv = 0 \<and> tlv_dt_repair_end tlv = 0
           then bind_out (cp_deliver_ignore env VQEC_EVENT_RECEIVE_NULL_APP c1) (\<lambda>c2.
                Done (c2\<lparr>cp_total_null_app_paks := cp_total_null_app_paks c2 + 1\<rparr>))
           else if rel_time_eq (cp_max_fastfill c1) REL_TIME_0 \<and>
                   rel_time_lt (cp_rcc_max_fill c1) (msec_to_rel_time (ucast (tlv_act_rcc_fill tlv)))
           then bind_out (cp_deliver_ignore env VQEC_EVENT_RECEIVE_INVALID_APP c1) (\<lambda>c2.
                Done (c2\<lparr>cp_total_app_parse_errors := cp_total_app_parse_errors c2 + 1\<rparr>))
           else
             let c2 = c1\<lparr>cp_app := cache_app tlv c1\<rparr>;
                 n = cp_tick c2;
                 c3 = (if cp_max_recv_bw_rcc c2 \<noteq> 0 \<or> cp_max_recv_bw_er c2 \<noteq> 0
                       then c2\<lparr>cp_mrb_transition_ev := env_event_create env n, cp_tick := Suc n\<rparr>
                       else c2);
                 m = cp_tick c3;
                 c4 = cp_call_out (Call_dp_process_app (cp_app c3)) (c3\<lparr>cp_tick := Suc m\<rparr>)
             in case env_dp_process_app env m of
                  DP_APP_OK \<Rightarrow>
                    bind_out (cp_deliver_ignore env VQEC_EVENT_RECEIVE_VALID_APP c4)
                      app_fastfill_notify
                | DP_APP_INVALID \<Rightarrow>
                    bind_out (cp_deliver_ignore env VQEC_EVENT_RECEIVE_INVALID_APP c4) (\<lambda>c5.
                    Done (c5\<lparr>cp_total_app_parse_errors := cp_total_app_parse_errors c5 + 1\<rparr>))
                | DP_APP_IPC_FAILED \<Rightarrow> cp_deliver_ignore env VQEC_EVENT_RCC_IPC_ERR c4)"

definition vqec_chan_app_parse_failure :: "cp_env \<Rightarrow> vqec_chan \<Rightarrow> vqec_chan outcome" where
  "vqec_chan_app_parse_failure env c =
     bind_out (cp_deliver_ignore env VQEC_EVENT_RECEIVE_INVALID_APP c) (\<lambda>c1.
     Done (c1\<lparr>cp_total_app_parse_errors := cp_total_app_parse_errors c1 + 1,
              cp_total_app_paks := cp_total_app_paks c1 + 1\<rparr>))"

subsection \<open>What one event does\<close>

text \<open>Logging touches the log and the counter of requests only, and the abort notification neither
  the state, the queue nor the timer.\<close>

lemma vqec_sm_log_frame [simp]:
  "cp_state (vqec_sm_log env k st ev c) = cp_state c"
  "cp_event_q (vqec_sm_log env k st ev c) = cp_event_q c"
  "cp_event_mask (vqec_sm_log env k st ev c) = cp_event_mask c"
  "cp_app_timeout (vqec_sm_log env k st ev c) = cp_app_timeout c"
  "cp_shutdown (vqec_sm_log env k st ev c) = cp_shutdown c"
  "cp_rcc_in_abort (vqec_sm_log env k st ev c) = cp_rcc_in_abort c"
  "cp_num_current_rccs (vqec_sm_log env k st ev c) = cp_num_current_rccs c"
  by (simp_all add: vqec_sm_log_def cp_sys_time_def Let_def)

lemma abort_notify_frame [simp]:
  "cp_state (vqec_chan_rcc_abort_notify c) = cp_state c"
  "cp_event_q (vqec_chan_rcc_abort_notify c) = cp_event_q c"
  "cp_event_mask (vqec_chan_rcc_abort_notify c) = cp_event_mask c"
  "cp_app_timeout (vqec_chan_rcc_abort_notify c) = cp_app_timeout c"
  "cp_shutdown (vqec_chan_rcc_abort_notify c) = cp_shutdown c"
  by (simp_all add: vqec_chan_rcc_abort_notify_def vqec_chan_mrb_transition_actions_def
      cp_call_out_def vqec_chan_set_rcc_aborted_def Let_def)

lemma abort_notify_flags [simp]:
  "cp_rcc_in_abort (vqec_chan_rcc_abort_notify c) = (cp_rcc_in_abort c \<or> \<not> cp_shutdown c)"
  "cp_num_current_rccs (vqec_chan_rcc_abort_notify c) =
     (if cp_rcc_in_abort c \<or> cp_shutdown c then cp_num_current_rccs c
      else cp_num_current_rccs c - 1)"
  by (simp_all add: vqec_chan_rcc_abort_notify_def vqec_chan_mrb_transition_actions_def
      cp_call_out_def vqec_chan_set_rcc_aborted_def vqec_chan_is_rcc_aborted_def Let_def)

text \<open>An event that an action delivers while another one is served is queued.\<close>

lemma cp_deliver_nested:
  assumes "cp_state c \<noteq> VQEC_SM_STATE_INVALID" and "evq_ok (cp_event_q c)"
    and "evq_items (cp_event_q c) = e # es" and "length es < 3"
  shows "\<exists>q'. evq_ok q' \<and> evq_items q' = e # es @ [ev] \<and> evq_head q' = evq_head (cp_event_q c) \<and>
    cp_deliver_rec (Suc d) env ev arg c = Done (True, c\<lparr>cp_tick := Suc (cp_tick c), cp_event_q := q',
      cp_event_mask := cp_event_mask c OR push_bit (vqec_sm_event_no ev) 1\<rparr>)"
proof -
  obtain q' where q': "evq_lease ev arg (cp_event_q c) = Done q'" "evq_ok q'"
      "evq_items q' = e # es @ [ev]" "evq_head q' = evq_head (cp_event_q c)"
    using evq_lease_ok [OF assms(2), of ev arg] assms(3,4) by auto
  have "unat (q_depth q') = Suc (Suc (length es))"
    using evq_depth_items [OF q'(2)] q'(3) by simp
  then have "q_depth q' > 1" by (simp add: word_less_nat_alt)
  moreover have "s_cp_states (cp_state c) \<noteq> None" using assms(1) by (cases "cp_state c") auto
  ultimately show ?thesis using q' by (auto simp: cp_sys_time_def Let_def)
qed

lemmas cp_table_defs = vqec_sm_guard_fcn_def vqec_sm_transition_fcn_init_def
  vqec_sm_transition_fcn_waitapp_def vqec_sm_transition_fcn_finsuccess_def
  vqec_sm_transition_fcn_abort_def vqec_sm_action_fcn_init_def vqec_sm_action_fcn_waitapp_def
  vqec_sm_action_fcn_finsuccess_def vqec_sm_action_fcn_abort_def

lemmas cp_action_defs = vqec_sm_enter_def_def vqec_sm_exit_def_def vqec_sm_null_action_def
  vqec_sm_enter_abort_rcc_def vqec_sm_app_timer_stop_def

text \<open>The count of running RCCs and the abort flag of the channel move together.\<close>

definition cp_rcc_share :: "vqec_chan \<Rightarrow> u32" where
  "cp_rcc_share c = cp_num_current_rccs c + (if cp_rcc_in_abort c then 1 else 0)"

text \<open>What serving an event of the queue leaves behind: the next state of the table, an internal
  error at the end of the queue if and only if something failed, the timer of the new state, and the
  abort flag once the machine has aborted.\<close>

definition cp_served :: "vqec_sm_event \<Rightarrow> vqec_chan \<Rightarrow> bool \<Rightarrow> vqec_chan \<Rightarrow> bool" where
  "cp_served e c r c' \<longleftrightarrow>
     Some (cp_state c') = map_option (\<lambda>f. transition_fcn f e) (s_cp_states (cp_state c)) \<and>
     evq_ok (cp_event_q c') \<and> evq_head (cp_event_q c') = evq_head (cp_event_q c) \<and>
     evq_items (cp_event_q c') =
       evq_items (cp_event_q c) @ (if r then [] else [VQEC_EVENT_RCC_INTERNAL_ERR]) \<and>
     (\<not> r \<longrightarrow> e \<noteq> VQEC_EVENT_RCC_INTERNAL_ERR \<and> cp_state c' = VQEC_SM_STATE_WAIT_APP) \<and>
     (cp_app_timeout c' \<noteq> None \<longrightarrow> cp_state c' = VQEC_SM_STATE_WAIT_APP) \<and>
     (cp_state c' = VQEC_SM_STATE_WAIT_APP \<and> r \<and> cp_state c \<noteq> VQEC_SM_STATE_WAIT_APP \<longrightarrow>
        cp_app_timeout c' \<noteq> None) \<and>
     (cp_state c' = VQEC_SM_STATE_WAIT_APP \<and> cp_state c = VQEC_SM_STATE_WAIT_APP \<longrightarrow>
        cp_app_timeout c' = cp_app_timeout c) \<and>
     cp_shutdown c' = cp_shutdown c \<and> cp_rcc_share c' = cp_rcc_share c \<and>
     (cp_state c' = VQEC_SM_STATE_ABORT \<and> cp_state c \<noteq> VQEC_SM_STATE_ABORT \<and> \<not> cp_shutdown c \<longrightarrow>
        cp_rcc_in_abort c') \<and>
     (cp_rcc_in_abort c \<longrightarrow> cp_rcc_in_abort c')"

text \<open>An action that can fail either succeeds with the queue untouched or queues one internal
  error.\<close>

definition cp_acted :: "vqec_chan \<Rightarrow> bool \<Rightarrow> vqec_chan \<Rightarrow> bool" where
  "cp_acted c r c' \<longleftrightarrow>
     evq_ok (cp_event_q c') \<and> evq_head (cp_event_q c') = evq_head (cp_event_q c) \<and>
     evq_items (cp_event_q c') =
       evq_items (cp_event_q c) @ (if r then [] else [VQEC_EVENT_RCC_INTERNAL_ERR]) \<and>
     cp_state c' = cp_state c \<and> cp_shutdown c' = cp_shutdown c \<and>
     cp_num_current_rccs c' = cp_num_current_rccs c \<and> cp_rcc_in_abort c' = cp_rcc_in_abort c"

lemma send_nakpli_ok:
  assumes "cp_state c \<noteq> VQEC_SM_STATE_INVALID" and "evq_ok (cp_event_q c)"
    and "evq_items (cp_event_q c) = e # es" and "length es < 3"
  shows "\<exists>r c'. vqec_sm_send_nakpli env (cp_deliver_rec (Suc d) env) st ev arg c = Done (r, c') \<and>
    cp_acted c r c' \<and> cp_app_timeout c' = cp_app_timeout c"
proof (cases "env_send_nakpli env (cp_tick c)")
  case True
  then show ?thesis
    using assms by (simp add: vqec_sm_send_nakpli_def Let_def cp_sys_time_def cp_call_out_def
        cp_acted_def) blast
next
  case False
  let ?k = "Call_send_nakpli (cp_rcc_min_fill c) (cp_rcc_max_fill c)
    (cp_fast_fill_enabled c \<and> cp_fastfill_start c \<and> cp_fastfill_abort c \<and> cp_fastfill_done c)
    (let bw = vqec_chan_get_max_recv_bw_rcc c in if bw = 0 \<and> cp_max_recv_bw_rcc c \<noteq> 0 then 1 else bw)
    (cp_max_fastfill c)"
  let ?c = "cp_call_out ?k (c\<lparr>cp_tick := Suc (cp_tick c)\<rparr>)"
  have c: "cp_state ?c \<noteq> VQEC_SM_STATE_INVALID" "evq_ok (cp_event_q ?c)"
    "evq_items (cp_event_q ?c) = e # es"
    using assms by (simp_all add: cp_call_out_def)
  obtain q' where q': "evq_ok q'" "evq_items q' = e # es @ [VQEC_EVENT_RCC_INTERNAL_ERR]"
    "evq_head q' = evq_head (cp_event_q ?c)"
    and n: "cp_deliver_rec (Suc d) env VQEC_EVENT_RCC_INTERNAL_ERR 0 ?c = Done (True,
      ?c\<lparr>cp_tick := Suc (cp_tick ?c), cp_event_q := q',
        cp_event_mask := cp_event_mask ?c OR push_bit (vqec_sm_event_no VQEC_EVENT_RCC_INTERNAL_ERR) 1\<rparr>)"
    using cp_deliver_nested [OF c assms(4)] by blast
  show ?thesis
    unfolding vqec_sm_send_nakpli_def Let_def if_not_P [OF False] using False n [unfolded Let_def] q' assms
    by (simp add: cp_acted_def cp_call_out_def del: cp_deliver_rec.simps) blast
qed

lemma app_timer_start_ok:
  assumes "cp_state c \<noteq> VQEC_SM_STATE_INVALID" and "evq_ok (cp_event_q c)"
    and "evq_items (cp_event_q c) = e # es" and "length es < 3" and "cp_app_timeout c = None"
  shows "\<exists>r c'. vqec_sm_app_timer_start env (cp_deliver_rec (Suc d) env) st ev arg c = Done (r, c') \<and>
    cp_acted c r c' \<and> (cp_app_timeout c' \<noteq> None \<longleftrightarrow> r) \<and> (r \<longrightarrow> (\<exists>n. env_event_create env n))"
proof (cases "env_event_create env (Suc (cp_tick c)) \<and> env_event_start env (Suc (cp_tick c))")
  case True
  then show ?thesis
    using assms
    by (simp add: vqec_sm_app_timer_start_def Let_def cp_sys_time_def cp_acted_def) blast
next
  case False
  let ?c = "c\<lparr>cp_tick := Suc (cp_tick c), cp_rcc_start_time := env_time env (cp_tick c),
    cp_tick := Suc (Suc (cp_tick c)), cp_app_timeout := None\<rparr>"
  have c: "cp_state ?c \<noteq> VQEC_SM_STATE_INVALID" "evq_ok (cp_event_q ?c)"
    "evq_items (cp_event_q ?c) = e # es"
    using assms by simp_all
  obtain q' where q': "evq_ok q'" "evq_items q' = e # es @ [VQEC_EVENT_RCC_INTERNAL_ERR]"
    "evq_head q' = evq_head (cp_event_q ?c)"
    and n: "cp_deliver_rec (Suc d) env VQEC_EVENT_RCC_INTERNAL_ERR 0 ?c = Done (True,
      ?c\<lparr>cp_tick := Suc (cp_tick ?c), cp_event_q := q',
        cp_event_mask := cp_event_mask ?c OR push_bit (vqec_sm_event_no VQEC_EVENT_RCC_INTERNAL_ERR) 1\<rparr>)"
    using cp_deliver_nested [OF c assms(4)] by blast
  show ?thesis
    using False n q' assms
    by (simp add: vqec_sm_app_timer_start_def Let_def cp_sys_time_def cp_acted_def
        del: cp_deliver_rec.simps) blast
qed

lemma cp_serve_ok:
  assumes q: "evq_ok (cp_event_q c)" "evq_items (cp_event_q c) = e # es" "length es < 3"
    and guard: "vqec_sm_guard_fcn (cp_state c) e"
    and timer: "cp_app_timeout c \<noteq> None \<longrightarrow> cp_state c = VQEC_SM_STATE_WAIT_APP"
  shows "\<exists>r c'. cp_serve_event env (cp_deliver_rec (Suc d) env) e arg c = Done (r, c') \<and>
    cp_served e c r c' \<and>
    (r \<and> cp_state c \<noteq> VQEC_SM_STATE_WAIT_APP \<and> cp_state c' = VQEC_SM_STATE_WAIT_APP \<longrightarrow>
       (\<exists>n. env_event_create env n))"
proof (cases "cp_state c")
  case VQEC_SM_STATE_INVALID
  then show ?thesis using guard by (simp add: vqec_sm_guard_fcn_def)
next
  case st: VQEC_SM_STATE_INIT
  then consider "e = VQEC_EVENT_RAPID_CHANNEL_CHANGE" | "e = VQEC_EVENT_SLOW_CHANNEL_CHANGE"
    using guard by (cases e) (simp_all add: cp_table_defs)
  then show ?thesis
  proof cases
    case 1
    let ?c = "(vqec_sm_log env VQEC_SM_LOG_STATE_EXIT VQEC_SM_STATE_INIT e c)
      \<lparr>cp_state := VQEC_SM_STATE_WAIT_APP\<rparr>"
    obtain r c' where "vqec_sm_app_timer_start env (cp_deliver_rec (Suc d) env)
        VQEC_SM_STATE_WAIT_APP e arg ?c = Done (r, c')"
      "cp_acted ?c r c'" "cp_app_timeout c' \<noteq> None \<longleftrightarrow> r" "r \<longrightarrow> (\<exists>n. env_event_create env n)"
      using app_timer_start_ok [of ?c e es env d VQEC_SM_STATE_WAIT_APP e arg] q timer st by auto
    then show ?thesis
      using st 1 by (auto simp: cp_serve_event_def cp_table_defs cp_action_defs Let_def cp_served_def
          cp_acted_def cp_rcc_share_def)
  next
    case 2
    then show ?thesis
      using st q timer
      by (simp add: cp_serve_event_def cp_table_defs cp_action_defs Let_def cp_served_def
          cp_rcc_share_def) blast
  qed
next
  case st: VQEC_SM_STATE_WAIT_APP
  show ?thesis
  proof (cases "e = VQEC_EVENT_NAT_BINDING_COMPLETE")
    case True
    obtain r c' where "vqec_sm_send_nakpli env (cp_deliver_rec (Suc d) env)
        VQEC_SM_STATE_WAIT_APP e arg c = Done (r, c')"
      "cp_acted c r c'" "cp_app_timeout c' = cp_app_timeout c"
      using send_nakpli_ok [of c e es env d VQEC_SM_STATE_WAIT_APP e arg] q st by auto
    then show ?thesis
      using st True by (auto simp: cp_serve_event_def cp_table_defs cp_action_defs Let_def
          cp_served_def cp_acted_def cp_rcc_share_def)
  next
    case False
    then show ?thesis
      using st q guard
      by (cases e) (simp add: cp_serve_event_def cp_table_defs cp_action_defs Let_def cp_served_def
          cp_rcc_share_def; blast)+
  qed
next
  case VQEC_SM_STATE_FIN_SUCCESS
  then show ?thesis
    using q timer
    by (simp add: cp_serve_event_def cp_table_defs cp_action_defs Let_def cp_served_def) blast
next
  case VQEC_SM_STATE_ABORT
  then show ?thesis
    using q timer
    by (simp add: cp_serve_event_def cp_table_defs cp_action_defs Let_def cp_served_def) blast
qed

subsection \<open>Delivery runs to completion\<close>

text \<open>The abstract machine: an event moves the state along the table, or is ignored where the table
  has no entry.\<close>

definition cp_step :: "vqec_sm_state \<Rightarrow> vqec_sm_event \<Rightarrow> vqec_sm_state" where
  "cp_step st ev =
     (case s_cp_states st of None \<Rightarrow> st
      | Some f \<Rightarrow> if transition_fcn f ev = VQEC_SM_STATE_INVALID then st else transition_fcn f ev)"

text \<open>Between two deliveries: the queue is empty, the machine is initialised, and the APP timer runs
  exactly while the machine waits for the APP packet.\<close>

definition cp_rest :: "vqec_chan \<Rightarrow> bool" where
  "cp_rest c \<longleftrightarrow> evq_ok (cp_event_q c) \<and> evq_items (cp_event_q c) = [] \<and>
     cp_state c \<noteq> VQEC_SM_STATE_INVALID \<and>
     (cp_app_timeout c \<noteq> None \<longleftrightarrow> cp_state c = VQEC_SM_STATE_WAIT_APP) \<and>
     (cp_state c = VQEC_SM_STATE_ABORT \<and> \<not> cp_shutdown c \<longrightarrow> cp_rcc_in_abort c)"

text \<open>A delivery is in one of four phases: the event waits; it has been served without a fault; a
  fault has queued an internal error; the internal error has been served.\<close>

definition cp_phase :: "vqec_sm_state \<Rightarrow> vqec_sm_event \<Rightarrow> bool \<Rightarrow> vqec_chan \<Rightarrow> bool" where
  "cp_phase st ev r c \<longleftrightarrow>
     (let items = evq_items (cp_event_q c); timer = (cp_app_timeout c \<noteq> None)
      in (r \<and> items = [ev] \<and> cp_state c = st \<and> timer = (st = VQEC_SM_STATE_WAIT_APP)) \<or>
         (r \<and> items = [] \<and> cp_state c = cp_step st ev \<and>
            timer = (cp_state c = VQEC_SM_STATE_WAIT_APP)) \<or>
         (\<not> r \<and> items = [VQEC_EVENT_RCC_INTERNAL_ERR] \<and> cp_state c = VQEC_SM_STATE_WAIT_APP \<and>
            ev \<noteq> VQEC_EVENT_RCC_INTERNAL_ERR \<and> cp_step st ev = VQEC_SM_STATE_WAIT_APP) \<or>
         (\<not> r \<and> items = [] \<and> cp_state c = VQEC_SM_STATE_ABORT \<and> \<not> timer \<and>
            cp_step st ev = VQEC_SM_STATE_WAIT_APP))"

definition cp_inv :: "cp_env \<Rightarrow> vqec_sm_event \<Rightarrow> vqec_chan \<Rightarrow> cp_loop \<Rightarrow> bool" where
  "cp_inv env ev c0 l \<longleftrightarrow>
     (case l of (cur, nxt, r, c) \<Rightarrow>
        evq_ok (cp_event_q c) \<and> cur = evq_head (cp_event_q c) \<and>
        nxt = (cur + 1) mod SM_MAX_EVENTQ_DEPTH \<and>
        cp_state c \<noteq> VQEC_SM_STATE_INVALID \<and> cp_phase (cp_state c0) ev r c \<and>
        cp_shutdown c = cp_shutdown c0 \<and> cp_rcc_share c = cp_rcc_share c0 \<and>
        (cp_state c = VQEC_SM_STATE_ABORT \<and> \<not> cp_shutdown c \<longrightarrow> cp_rcc_in_abort c) \<and>
        (cp_rcc_in_abort c0 \<longrightarrow> cp_rcc_in_abort c) \<and>
        (r \<and> cp_state c0 \<noteq> VQEC_SM_STATE_WAIT_APP \<and> cp_state c = VQEC_SM_STATE_WAIT_APP \<longrightarrow>
           (\<exists>n. env_event_create env n)))"

definition cp_pending :: "cp_loop \<Rightarrow> nat" where
  "cp_pending l = (case l of (_, _, _, c) \<Rightarrow> unat (q_depth (cp_event_q c)))"

definition cp_credit :: "cp_loop \<Rightarrow> nat" where
  "cp_credit l = (case l of (_, _, _, c) \<Rightarrow>
     length (filter (\<lambda>e. e \<noteq> VQEC_EVENT_RCC_INTERNAL_ERR) (evq_items (cp_event_q c))))"

lemma cp_step_not_invalid: "st \<noteq> VQEC_SM_STATE_INVALID \<Longrightarrow> cp_step st ev \<noteq> VQEC_SM_STATE_INVALID"
  by (cases st) (simp_all add: cp_step_def)

text \<open>The parts of the invariant that do not depend on the phase carry over to any channel that
  keeps them.\<close>

lemma cp_inv_advance:
  assumes inv: "cp_inv env ev c0 (cur, nxt, r, c)"
    and q: "evq_ok (cp_event_q c')" "evq_head (cp_event_q c') = nxt"
    and st: "cp_state c' \<noteq> VQEC_SM_STATE_INVALID" and ph: "cp_phase (cp_state c0) ev r' c'"
    and keep: "cp_shutdown c' = cp_shutdown c" "cp_rcc_share c' = cp_rcc_share c"
      "cp_state c' = VQEC_SM_STATE_ABORT \<and> cp_state c \<noteq> VQEC_SM_STATE_ABORT \<and>
        \<not> cp_shutdown c \<longrightarrow> cp_rcc_in_abort c'"
      "cp_rcc_in_abort c \<longrightarrow> cp_rcc_in_abort c'"
    and cr: "r' \<and> cp_state c0 \<noteq> VQEC_SM_STATE_WAIT_APP \<and> cp_state c' = VQEC_SM_STATE_WAIT_APP \<longrightarrow>
      (\<exists>n. env_event_create env n)"
  shows "cp_inv env ev c0 (nxt, (nxt + 1) mod SM_MAX_EVENTQ_DEPTH, r', c')"
proof -
  have "cp_shutdown c = cp_shutdown c0" "cp_rcc_share c = cp_rcc_share c0"
    "cp_state c = VQEC_SM_STATE_ABORT \<and> \<not> cp_shutdown c \<longrightarrow> cp_rcc_in_abort c"
    "cp_rcc_in_abort c0 \<longrightarrow> cp_rcc_in_abort c"
    using inv unfolding cp_inv_def prod.case by blast+
  then show ?thesis
    unfolding cp_inv_def prod.case using q st ph keep cr by (intro conjI) (blast | simp)+
qed

lemma cp_served_queue:
  assumes "cp_served e c r c'" and "evq_items (cp_event_q c) = [e]"
  shows "evq_ok (cp_event_q c')" "evq_head (cp_event_q c') = evq_head (cp_event_q c)"
    "evq_items (cp_event_q c') = e # (if r then [] else [VQEC_EVENT_RCC_INTERNAL_ERR])"
  using assms by (simp_all add: cp_served_def)

lemma cp_served_step:
  assumes "cp_served e c r c'" and "vqec_sm_guard_fcn (cp_state c) e"
  shows "cp_state c' = cp_step (cp_state c) e"
  using assms by (cases "cp_state c") (auto simp: cp_served_def cp_step_def vqec_sm_guard_fcn_def)

lemma cp_served_phase:
  assumes served: "cp_served e c r1 c2" and guard: "vqec_sm_guard_fcn (cp_state c) e"
    and e: "e = ev \<and> r \<and> cp_state c = st \<and>
          (cp_app_timeout c \<noteq> None \<longleftrightarrow> cp_state c = VQEC_SM_STATE_WAIT_APP) \<or>
        e = VQEC_EVENT_RCC_INTERNAL_ERR \<and> \<not> r \<and> cp_state c = VQEC_SM_STATE_WAIT_APP \<and>
          ev \<noteq> VQEC_EVENT_RCC_INTERNAL_ERR \<and> cp_step st ev = VQEC_SM_STATE_WAIT_APP"
    and q: "evq_items q = (if r1 then [] else [VQEC_EVENT_RCC_INTERNAL_ERR])"
  shows "cp_phase st ev (r \<and> r1) (c2\<lparr>cp_event_q := q\<rparr>)"
proof -
  have err: "\<not> r1 \<longrightarrow> e \<noteq> VQEC_EVENT_RCC_INTERNAL_ERR \<and> cp_state c2 = VQEC_SM_STATE_WAIT_APP"
    and t1: "cp_app_timeout c2 \<noteq> None \<longrightarrow> cp_state c2 = VQEC_SM_STATE_WAIT_APP"
    and t2: "cp_state c2 = VQEC_SM_STATE_WAIT_APP \<and> r1 \<and> cp_state c \<noteq> VQEC_SM_STATE_WAIT_APP \<longrightarrow>
      cp_app_timeout c2 \<noteq> None"
    and t3: "cp_state c2 = VQEC_SM_STATE_WAIT_APP \<and> cp_state c = VQEC_SM_STATE_WAIT_APP \<longrightarrow>
      cp_app_timeout c2 = cp_app_timeout c"
    using served unfolding cp_served_def by blast+
  note tr = cp_served_step [OF served guard]
  show ?thesis
    unfolding cp_phase_def Let_def using e
  proof (elim disjE conjE, goal_cases)
    case 1
    show ?case
    proof (cases r1)
      case True
      have "cp_app_timeout c2 \<noteq> None \<longleftrightarrow> cp_state c2 = VQEC_SM_STATE_WAIT_APP"
        using 1 t1 t2 t3 True by metis
      then show ?thesis using True 1 tr q by simp
    qed (use 1 tr err q in simp)
  next
    case 2
    have "cp_state c2 = VQEC_SM_STATE_ABORT" "r1"
      using 2 tr err by (auto simp: cp_step_def vqec_sm_transition_fcn_waitapp_def)
    with 2 show ?case using t1 q by auto
  qed
qed

lemma cp_body_ok:
  assumes inv: "cp_inv env ev c0 l" and pend: "0 < cp_pending l"
  shows "\<exists>l'. cp_loop_body env (cp_deliver_rec (Suc 0) env) l = Done l' \<and> cp_inv env ev c0 l' \<and>
    cp_pending l' + cp_credit l' < cp_pending l + cp_credit l"
proof -
  obtain cur nxt r c where l: "l = (cur, nxt, r, c)" by (cases l)
  let ?q = "cp_event_q c"
  have ok: "evq_ok ?q" and cur: "cur = evq_head ?q" and nxt: "nxt = (cur + 1) mod SM_MAX_EVENTQ_DEPTH"
    and st: "cp_state c \<noteq> VQEC_SM_STATE_INVALID" and ph: "cp_phase (cp_state c0) ev r c"
    and cr0: "r \<and> cp_state c0 \<noteq> VQEC_SM_STATE_WAIT_APP \<and> cp_state c = VQEC_SM_STATE_WAIT_APP \<longrightarrow>
      (\<exists>n. env_event_create env n)"
    using inv unfolding cp_inv_def l prod.case by blast+
  have "evq_items ?q \<noteq> []" using pend evq_depth_items [OF ok] by (auto simp: l cp_pending_def)
  then obtain e where items: "evq_items ?q = [e]" and
    e: "e = ev \<and> r \<and> cp_state c = cp_state c0 \<and>
          (cp_app_timeout c \<noteq> None \<longleftrightarrow> cp_state c = VQEC_SM_STATE_WAIT_APP) \<or>
        e = VQEC_EVENT_RCC_INTERNAL_ERR \<and> \<not> r \<and> cp_state c = VQEC_SM_STATE_WAIT_APP \<and>
          ev \<noteq> VQEC_EVENT_RCC_INTERNAL_ERR \<and> cp_step (cp_state c0) ev = VQEC_SM_STATE_WAIT_APP"
    using ph by (auto simp: cp_phase_def Let_def)
  have pl: "cp_pending l = 1"
    "cp_credit l = (if e = VQEC_EVENT_RCC_INTERNAL_ERR then 0 else 1)"
    using evq_depth_items [OF ok] items by (simp_all add: cp_pending_def cp_credit_def l)
  note sv = evq_serve_ok [OF ok items, of VQEC_EVENT_RAPID_CHANNEL_CHANGE, folded cur]
  let ?c1 = "vqec_sm_log env VQEC_SM_LOG_STATE_EVENT (cp_state c) e c"
  show ?thesis
  proof (cases "vqec_sm_guard_fcn (cp_state c) e")
    case False
    let ?c2 = "?c1\<lparr>cp_event_q := evq_clear VQEC_EVENT_RAPID_CHANNEL_CHANGE cur ?q\<rparr>"
    let ?l = "(nxt, (nxt + 1) mod SM_MAX_EVENTQ_DEPTH, r, ?c2)"
    have "cp_step (cp_state c) e = cp_state c"
      using False by (cases "cp_state c") (auto simp: vqec_sm_guard_fcn_def cp_step_def)
    moreover have "\<not> (cp_state c = VQEC_SM_STATE_WAIT_APP \<and> e = VQEC_EVENT_RCC_INTERNAL_ERR)"
      using False by (auto simp: cp_table_defs)
    ultimately have "cp_phase (cp_state c0) ev r ?c2"
      using e sv by (auto simp: cp_phase_def Let_def)
    then have "cp_inv env ev c0 ?l"
      using sv nxt st cr0
      by (intro cp_inv_advance [OF inv [unfolded l]]) (simp add: cp_rcc_share_def | blast)+
    moreover have "cp_loop_body env (cp_deliver_rec (Suc 0) env) l = Done ?l"
      using False sv by (simp add: l cp_loop_body_def Let_def)
    moreover have "cp_pending ?l = 0" "cp_credit ?l = 0"
      using sv evq_depth_items [of "cp_event_q ?c2"] by (simp_all add: cp_pending_def cp_credit_def)
    ultimately show ?thesis using pend by auto
  next
    case True
    have pre: "evq_ok (cp_event_q ?c1)" "evq_items (cp_event_q ?c1) = [e]" "length [] < (3::nat)"
      "vqec_sm_guard_fcn (cp_state ?c1) e"
      "cp_app_timeout ?c1 \<noteq> None \<longrightarrow> cp_state ?c1 = VQEC_SM_STATE_WAIT_APP"
      using ok items True e by auto
    obtain r1 c2 where s: "cp_serve_event env (cp_deliver_rec (Suc 0) env) e
        (sl_arg (q_slots ?q ! unat cur)) ?c1 = Done (r1, c2)"
      and served: "cp_served e c r1 c2"
      and cr: "r1 \<and> cp_state c \<noteq> VQEC_SM_STATE_WAIT_APP \<and> cp_state c2 = VQEC_SM_STATE_WAIT_APP \<longrightarrow>
        (\<exists>n. env_event_create env n)"
      using cp_serve_ok [OF pre, of env 0 "sl_arg (q_slots ?q ! unat cur)"]
      unfolding cp_served_def vqec_sm_log_frame cp_rcc_share_def by blast
    note q2 = cp_served_queue [OF served items, folded cur]
    note sv2 = evq_serve_ok [OF q2(1) q2(3), of VQEC_EVENT_RAPID_CHANNEL_CHANGE, unfolded q2(2)]
    let ?c3 = "c2\<lparr>cp_event_q := evq_clear VQEC_EVENT_RAPID_CHANNEL_CHANGE cur (cp_event_q c2)\<rparr>"
    let ?l = "(nxt, (nxt + 1) mod SM_MAX_EVENTQ_DEPTH, r \<and> r1, ?c3)"
    have keep: "cp_shutdown c2 = cp_shutdown c" "cp_rcc_share c2 = cp_rcc_share c"
      "cp_state c2 = VQEC_SM_STATE_ABORT \<and> cp_state c \<noteq> VQEC_SM_STATE_ABORT \<and>
        \<not> cp_shutdown c \<longrightarrow> cp_rcc_in_abort c2"
      "cp_rcc_in_abort c \<longrightarrow> cp_rcc_in_abort c2"
      and err: "\<not> r1 \<longrightarrow> e \<noteq> VQEC_EVENT_RCC_INTERNAL_ERR"
      using served unfolding cp_served_def by blast+
    have "cp_inv env ev c0 ?l"
    proof (rule cp_inv_advance [OF inv [unfolded l]])
      show "cp_phase (cp_state c0) ev (r \<and> r1) ?c3"
        using sv2 by (intro cp_served_phase [OF served True e]) simp
      show "cp_state ?c3 \<noteq> VQEC_SM_STATE_INVALID"
        using cp_served_step [OF served True] cp_step_not_invalid [OF st] by simp
      show "(r \<and> r1) \<and> cp_state c0 \<noteq> VQEC_SM_STATE_WAIT_APP \<and>
          cp_state ?c3 = VQEC_SM_STATE_WAIT_APP \<longrightarrow> (\<exists>n. env_event_create env n)"
        using cr e by auto
    qed (use sv2 nxt keep in \<open>simp_all add: cp_rcc_share_def\<close>)
    moreover have "cp_loop_body env (cp_deliver_rec (Suc 0) env) l = Done ?l"
      using True s sv by (simp add: l cp_loop_body_def Let_def)
    moreover have "cp_pending ?l = (if r1 then 0 else 1)" "cp_credit ?l = 0"
      using sv2 evq_depth_items [of "cp_event_q ?c3"]
      by (cases r1; simp add: cp_pending_def cp_credit_def)+
    ultimately show ?thesis using pl err by auto
  qed
qed

interpretation cp_loop: event_loop "cp_inv env ev c0" cp_pending cp_credit
  "cp_loop_body env (cp_deliver_rec (Suc 0) env)" "cp_loop_run env (cp_deliver_rec (Suc 0) env)"
  for ev c0 env
proof unfold_locales
  show "cp_loop_run env (cp_deliver_rec (Suc 0) env) (Suc n) l =
      bind_out (cp_loop_body env (cp_deliver_rec (Suc 0) env) l)
        (\<lambda>l'. if cp_pending l' = 0 then Done l' else cp_loop_run env (cp_deliver_rec (Suc 0) env) n l')"
    for n l
    by (simp only: cp_loop_run.simps, rule arg_cong [of _ _ "bind_out _"])
      (auto simp: fun_eq_iff cp_pending_def unat_eq_0)
qed (rule cp_body_ok)

lemma cp_deliver_total:
  assumes "cp_rest c"
  shows "\<exists>r c'. vqec_sm_deliver_event env ev arg c = Done (r, c') \<and> cp_rest c' \<and>
    cp_state c' = (if r then cp_step (cp_state c) ev else VQEC_SM_STATE_ABORT) \<and>
    (\<not> r \<longrightarrow> cp_step (cp_state c) ev = VQEC_SM_STATE_WAIT_APP) \<and>
    cp_shutdown c' = cp_shutdown c \<and> cp_rcc_share c' = cp_rcc_share c \<and>
    (cp_rcc_in_abort c \<longrightarrow> cp_rcc_in_abort c') \<and>
    (r \<and> cp_state c \<noteq> VQEC_SM_STATE_WAIT_APP \<and> cp_state c' = VQEC_SM_STATE_WAIT_APP \<longrightarrow>
       (\<exists>n. env_event_create env n))"
proof -
  have ok: "evq_ok (cp_event_q c)" and em: "evq_items (cp_event_q c) = []"
    and st: "cp_state c \<noteq> VQEC_SM_STATE_INVALID" using assms by (auto simp: cp_rest_def)
  obtain q where q: "evq_lease ev arg (cp_event_q c) = Done q" "evq_ok q" "evq_items q = [ev]"
    "evq_head q = q_idx (cp_event_q c)"
    "q_idx q = (q_idx (cp_event_q c) + 1) mod SM_MAX_EVENTQ_DEPTH"
    using evq_lease_ok [OF ok, of ev arg] em evq_head_empty [OF ok em] by auto
  have d: "unat (q_depth q) = 1" using evq_depth_items [OF q(2)] q(3) by simp
  let ?c = "c\<lparr>cp_tick := Suc (cp_tick c), cp_event_q := q,
    cp_event_mask := cp_event_mask c OR push_bit (vqec_sm_event_no ev) 1\<rparr>"
  let ?l = "(q_idx (cp_event_q c), q_idx q, True, ?c)"
  have "cp_inv env ev c ?l"
    using assms q st by (simp add: cp_inv_def cp_phase_def cp_rest_def cp_rcc_share_def)
  moreover have "0 < cp_pending ?l" "cp_pending ?l + cp_credit ?l \<le> CP_LOOP_ROUNDS"
    using d q(3) by (simp_all add: cp_pending_def cp_credit_def CP_LOOP_ROUNDS_def)
  ultimately obtain cur nxt r c' where
    run: "cp_loop_run env (cp_deliver_rec (Suc 0) env) CP_LOOP_ROUNDS ?l = Done (cur, nxt, r, c')"
    and inv: "cp_inv env ev c (cur, nxt, r, c')" and em': "cp_pending (cur, nxt, r, c') = 0"
    using cp_loop.loop_ok [of env ev c ?l CP_LOOP_ROUNDS] by (metis prod_cases4)
  have "\<not> q_depth q > 1" using d by (simp add: word_less_nat_alt)
  moreover have "s_cp_states (cp_state c) \<noteq> None" using st by (cases "cp_state c") auto
  ultimately have del: "vqec_sm_deliver_event env ev arg c = Done (r, c')"
    using q(1) run by (auto simp: vqec_sm_deliver_event_def numeral_2_eq_2 cp_sys_time_def Let_def
        simp del: cp_loop_run.simps)
  have "evq_items (cp_event_q c') = []"
    using inv em' evq_depth_items [of "cp_event_q c'"] by (simp add: cp_inv_def cp_pending_def)
  then have "cp_phase (cp_state c) ev r c'" "evq_items (cp_event_q c') = []"
    using inv by (simp_all add: cp_inv_def)
  then have r: "if r then cp_state c' = cp_step (cp_state c) ev \<and>
        (cp_app_timeout c' \<noteq> None \<longleftrightarrow> cp_state c' = VQEC_SM_STATE_WAIT_APP)
      else cp_state c' = VQEC_SM_STATE_ABORT \<and> cp_app_timeout c' = None \<and>
        cp_step (cp_state c) ev = VQEC_SM_STATE_WAIT_APP"
    unfolding cp_phase_def Let_def by auto
  then have "cp_app_timeout c' \<noteq> None \<longleftrightarrow> cp_state c' = VQEC_SM_STATE_WAIT_APP"
    by (cases r) auto
  then have "cp_rest c'"
    using inv \<open>evq_items (cp_event_q c') = []\<close> unfolding cp_rest_def cp_inv_def prod.case by blast
  moreover have "cp_shutdown c' = cp_shutdown c" "cp_rcc_share c' = cp_rcc_share c"
    "cp_rcc_in_abort c \<longrightarrow> cp_rcc_in_abort c'"
    "r \<and> cp_state c \<noteq> VQEC_SM_STATE_WAIT_APP \<and> cp_state c' = VQEC_SM_STATE_WAIT_APP \<longrightarrow>
       (\<exists>n. env_event_create env n)"
    using inv unfolding cp_inv_def prod.case by blast+
  ultimately show ?thesis using del r by (intro exI conjI) (assumption | cases r; simp)+
qed

subsection \<open>Runs of the machine\<close>

primrec cp_run :: "cp_env \<Rightarrow> vqec_sm_event list \<Rightarrow> vqec_chan \<Rightarrow> vqec_chan outcome" where
  "cp_run env [] c = Done c"
| "cp_run env (ev # evs) c = bind_out (cp_deliver_ignore env ev c) (cp_run env evs)"

lemma cp_step_final:
  "cp_step VQEC_SM_STATE_FIN_SUCCESS ev = VQEC_SM_STATE_FIN_SUCCESS"
  "cp_step VQEC_SM_STATE_ABORT ev = VQEC_SM_STATE_ABORT"
  by (simp_all add: cp_step_def cp_table_defs)

text \<open>What time does to a channel.\<close>

definition cp_later :: "vqec_chan \<Rightarrow> vqec_chan \<Rightarrow> bool" where
  "cp_later c c' \<longleftrightarrow>
     (cp_state c = VQEC_SM_STATE_FIN_SUCCESS \<longrightarrow> cp_state c' = VQEC_SM_STATE_FIN_SUCCESS) \<and>
     (cp_state c = VQEC_SM_STATE_ABORT \<longrightarrow> cp_state c' = VQEC_SM_STATE_ABORT) \<and>
     cp_shutdown c' = cp_shutdown c \<and> cp_rcc_share c' = cp_rcc_share c \<and>
     (cp_rcc_in_abort c \<longrightarrow> cp_rcc_in_abort c')"

lemma cp_later_refl: "cp_later c c"
  by (simp add: cp_later_def)

lemma cp_later_trans: "cp_later a b \<Longrightarrow> cp_later b c \<Longrightarrow> cp_later a c"
  unfolding cp_later_def by metis

lemma cp_deliver_ignore_ok:
  assumes "cp_rest c"
  shows "\<exists>c'. cp_deliver_ignore env ev c = Done c' \<and> cp_rest c' \<and> cp_later c c'"
proof -
  obtain r c' where d: "vqec_sm_deliver_event env ev 0 c = Done (r, c')" "cp_rest c'"
    "cp_state c' = (if r then cp_step (cp_state c) ev else VQEC_SM_STATE_ABORT)"
    "\<not> r \<longrightarrow> cp_step (cp_state c) ev = VQEC_SM_STATE_WAIT_APP"
    "cp_shutdown c' = cp_shutdown c" "cp_rcc_share c' = cp_rcc_share c"
    "cp_rcc_in_abort c \<longrightarrow> cp_rcc_in_abort c'"
    using cp_deliver_total [OF assms, of env ev 0] by blast
  have "cp_deliver_ignore env ev c = Done c'" using d(1) by (simp add: cp_deliver_ignore_def)
  moreover have "cp_state c = VQEC_SM_STATE_FIN_SUCCESS \<longrightarrow> cp_state c' = VQEC_SM_STATE_FIN_SUCCESS"
    "cp_state c = VQEC_SM_STATE_ABORT \<longrightarrow> cp_state c' = VQEC_SM_STATE_ABORT"
    using d(3,4) cp_step_final [of ev] by (cases r; auto)+
  ultimately show ?thesis using d(2,5-7) unfolding cp_later_def by blast
qed

lemma cp_run_ok:
  assumes "cp_rest c"
  shows "\<exists>c'. cp_run env evs c = Done c' \<and> cp_rest c' \<and> cp_later c c'"
  using assms
proof (induction evs arbitrary: c)
  case (Cons ev evs)
  obtain c1 where c1: "cp_deliver_ignore env ev c = Done c1" "cp_rest c1" "cp_later c c1"
    using cp_deliver_ignore_ok [OF Cons.prems, of env ev] by blast
  obtain c2 where "cp_run env evs c1 = Done c2" "cp_rest c2" "cp_later c1 c2"
    using Cons.IH [OF c1(2)] by blast
  with c1 show ?case using cp_later_trans by auto
qed (simp add: cp_later_refl)

text \<open>The empty channel, as it is after its allocation and the initialisation of its machine.\<close>

definition vqec_chan_zero :: vqec_chan where
  "vqec_chan_zero =
     \<lparr>cp_state = VQEC_SM_STATE_INVALID, cp_event_mask = 0,
      cp_event_q = evq_empty VQEC_EVENT_RAPID_CHANNEL_CHANGE,
      cp_sm_log = replicate 16 \<lparr>lg_log_event = VQEC_SM_LOG_STATE_EVENT,
        lg_state = VQEC_SM_STATE_INVALID, lg_event = VQEC_EVENT_RAPID_CHANNEL_CHANGE,
        lg_timestamp = 0\<rparr>,
      cp_sm_log_tail = 0, cp_sm_log_head = 0, cp_rcc_enabled = False, cp_er_enabled = False,
      cp_nat_enabled = False, cp_shutdown = False, cp_rcc_in_abort = False, cp_rcc_start_time = 0,
      cp_app_timeout_interval = 0, cp_app_timeout = None, cp_first_repair_deadline = 0,
      cp_nakpli_sent = False, cp_nakpli_sent_time = 0, cp_rtp_nat_complete = False,
      cp_rtcp_nat_complete = False, cp_fast_fill_enabled = False, cp_fastfill_start = False,
      cp_fastfill_abort = False, cp_fastfill_done = False, cp_fast_fill_end_time = 0,
      cp_rcc_min_fill = 0, cp_rcc_max_fill = 0, cp_max_fastfill = 0, cp_max_recv_bw_rcc = 0,
      cp_max_recv_bw_er = 0, cp_fec_recv_bw = 0, cp_primary_dest_addr = 0, cp_fec1_mcast_addr = 0,
      cp_fec2_mcast_addr = 0, cp_use_rcc_bw_for_er = False, cp_mrb_transition_ev = False,
      cp_app = \<lparr>app_rcc_start_time = 0, app_start_seq_num = 0, app_rtp_ts = 0,
        app_dt_earliest_join = 0, app_dt_repair_end = 0, app_act_min_backfill = 0,
        app_act_backfill_at_join = 0, app_er_holdoff_time = 0, app_first_repair_deadline = 0,
        app_fast_fill_time = 0\<rparr>,
      cp_app_rx_ev_ts = 0, cp_mrb_transition_cb = False, cp_num_current_rccs = 0,
      cp_total_app_timeout_counter = 0, cp_total_app_paks = 0, cp_total_null_app_paks = 0,
      cp_total_app_parse_errors = 0, cp_concurrent_rccs_limited = 0, cp_calls = [], cp_tick = 0\<rparr>"

definition cp_env_all :: "bool \<Rightarrow> cp_env" where
  "cp_env_all b = \<lparr>env_time = (\<lambda>n. of_nat n), env_event_create = (\<lambda>_. b),
     env_event_start = (\<lambda>_. b), env_send_nakpli = (\<lambda>_. b), env_dp_process_app = (\<lambda>_. DP_APP_OK)\<rparr>"

lemma cp_rest_init:
  assumes "evq_ok (cp_event_q c)" "evq_items (cp_event_q c) = []" "cp_app_timeout c = None"
  shows "cp_rest (vqec_sm_init c)"
  using assms by (simp add: cp_rest_def vqec_sm_init_def)

lemma vqec_chan_zero_rest: "cp_rest (vqec_sm_init vqec_chan_zero)"
  by (rule cp_rest_init) (simp_all add: vqec_chan_zero_def evq_empty_ok)

subsection \<open>The length of the log\<close>

lemma display_length:
  assumes "unat i \<le> unat (cp_sm_log_tail c)" "unat (cp_sm_log_tail c) < 16"
    "unat (cp_sm_log_tail c) - unat i < n"
  shows "length (display_log_from n i c) = unat (cp_sm_log_tail c) - unat i"
  using assms
proof (induction n arbitrary: i)
  case (Suc n)
  show ?case
  proof (cases "i = cp_sm_log_tail c")
    case False
    then have lt: "unat i < unat (cp_sm_log_tail c)"
      using Suc.prems(1) by (simp add: word_eq_unat_iff)
    have "unat ((i + 1) mod VQEC_SM_LOG_MAX_SIZE) = unat i + 1"
      using lt Suc.prems(2) by (simp add: VQEC_SM_LOG_MAX_SIZE_def unat_mod_distrib unat_word_ariths)
    then show ?thesis using Suc.IH [of "(i + 1) mod VQEC_SM_LOG_MAX_SIZE"] False lt Suc.prems
      by (simp add: Let_def)
  qed simp
qed simp

lemma log_tail: "cp_sm_log_tail (vqec_sm_log env k st ev c) = (cp_sm_log_tail c + 1) mod VQEC_SM_LOG_MAX_SIZE"
  "cp_sm_log_head (vqec_sm_log env k st ev c) = cp_sm_log_head c"
  by (simp_all add: vqec_sm_log_def cp_sys_time_def Let_def)

lemma log_tail_fold:
  assumes "unat (cp_sm_log_tail c) = 0" "cp_sm_log_head c = 0"
  shows "unat (cp_sm_log_tail (fold (\<lambda>(k, st, ev). vqec_sm_log env k st ev) es c)) = length es mod 16 \<and>
    cp_sm_log_head (fold (\<lambda>(k, st, ev). vqec_sm_log env k st ev) es c) = 0"
proof (induction es rule: rev_induct)
  case (snoc e es)
  let ?c = "fold (\<lambda>(k, st, ev). vqec_sm_log env k st ev) es c"
  have "unat (cp_sm_log_tail ?c) = length es mod 16" using snoc by simp
  then have "unat ((cp_sm_log_tail ?c + 1) mod VQEC_SM_LOG_MAX_SIZE) = (length es mod 16 + 1) mod 16"
    by (simp add: VQEC_SM_LOG_MAX_SIZE_def unat_mod_distrib unat_word_ariths)
  then show ?case using snoc by (cases e) (simp add: log_tail mod_simps)
qed (use assms in simp)
subsection \<open>Properties\<close>

text \<open>C3: on a channel at rest every delivery of an event returns: no assertion of the delivery
  function or of an action fails, the recursion through actions stays within two levels and the loop
  within its bound, whatever the timers, the clock and the network do. The channel is at rest again
  (an empty event queue, the APP timer running exactly in the state that waits for it). The state is
  the one of the transition table, or, when the result is false because of a resource failure, the
  abort state.\<close>

theorem rcc_cp_deliver_returns:
  assumes "cp_rest c"
  shows "\<exists>r c'. vqec_sm_deliver_event env ev arg c = Done (r, c') \<and> cp_rest c' \<and>
    cp_state c' = (if r then cp_step (cp_state c) ev else VQEC_SM_STATE_ABORT) \<and>
    (\<not> r \<longrightarrow> cp_step (cp_state c) ev = VQEC_SM_STATE_WAIT_APP)"
  using cp_deliver_total [OF assms, of env ev arg] by blast

theorem rcc_cp_deliver_returns_witness:
  "\<exists>r c'. vqec_sm_deliver_event (cp_env_all False) VQEC_EVENT_RAPID_CHANNEL_CHANGE 0
     (vqec_sm_init vqec_chan_zero) = Done (r, c') \<and> cp_rest c'"
  using rcc_cp_deliver_returns [OF vqec_chan_zero_rest, of "cp_env_all False"] by blast

text \<open>C15: over any sequence of events the success and the abort state are final, an aborted channel
  that is not shut down carries the abort flag, and the count of running RCCs, taken together with
  the channel's abort flag, does not change: each channel gives its place back at most once.\<close>

theorem rcc_cp_run_final:
  assumes "cp_rest c"
  shows "\<exists>c'. cp_run env evs c = Done c' \<and>
    (cp_state c \<in> {VQEC_SM_STATE_FIN_SUCCESS, VQEC_SM_STATE_ABORT} \<longrightarrow> cp_state c' = cp_state c) \<and>
    (cp_state c' = VQEC_SM_STATE_ABORT \<and> \<not> cp_shutdown c' \<longrightarrow> cp_rcc_in_abort c') \<and>
    cp_num_current_rccs c' + (if cp_rcc_in_abort c' then 1 else 0) =
      cp_num_current_rccs c + (if cp_rcc_in_abort c then 1 else 0)"
proof -
  obtain c' where c': "cp_run env evs c = Done c'" "cp_rest c'" "cp_later c c'"
    using cp_run_ok [OF assms, of env evs] by blast
  have "cp_state c \<in> {VQEC_SM_STATE_FIN_SUCCESS, VQEC_SM_STATE_ABORT} \<longrightarrow> cp_state c' = cp_state c"
    using c'(3) unfolding cp_later_def by auto
  moreover have "cp_state c' = VQEC_SM_STATE_ABORT \<and> \<not> cp_shutdown c' \<longrightarrow> cp_rcc_in_abort c'"
    using c'(2) unfolding cp_rest_def by blast
  moreover have "cp_num_current_rccs c' + (if cp_rcc_in_abort c' then 1 else 0) =
      cp_num_current_rccs c + (if cp_rcc_in_abort c then 1 else 0)"
    using c'(3) unfolding cp_later_def cp_rcc_share_def by blast
  ultimately show ?thesis using c'(1) by blast
qed

theorem rcc_cp_run_final_witness:
  "\<exists>c'. cp_run (cp_env_all True) [VQEC_EVENT_RAPID_CHANNEL_CHANGE, VQEC_EVENT_RCC_START_TIMEOUT]
      (vqec_sm_init vqec_chan_zero) = Done c' \<and>
    cp_num_current_rccs c' + (if cp_rcc_in_abort c' then 1 else 0) = 0"
  using rcc_cp_run_final [OF vqec_chan_zero_rest, of "cp_env_all True"
      "[VQEC_EVENT_RAPID_CHANNEL_CHANGE, VQEC_EVENT_RCC_START_TIMEOUT]"]
  by (auto simp: vqec_sm_init_def vqec_chan_zero_def)

text \<open>C27: when a channel is started for RCC and its APP timer cannot be created, the bind fails and
  the abort takes one off the count of running RCCs although the channel was never counted; the
  destruction of the channel does not put it back. From 0 the count wraps around to its largest
  value, and with any limit on concurrent RCCs every later channel is refused RCC.\<close>

theorem rcc_count_underflow:
  assumes "evq_ok (cp_event_q c)" "evq_items (cp_event_q c) = []" "cp_app_timeout c = None"
    and "cp_rcc_enabled c" "\<not> cp_shutdown c" "\<not> cp_rcc_in_abort c" "cp_num_current_rccs c = 0"
    and "\<forall>n. \<not> env_event_create env n" and "0 < limit"
  shows "\<exists>c'. vqec_chan_bind_start env timeout behind_nat c = Done (False, c') \<and>
    cp_num_current_rccs (vqec_chan_destroy_count c') = 0xFFFFFFFF \<and>
    (\<forall>d. cp_num_current_rccs d = cp_num_current_rccs c' \<longrightarrow>
       \<not> cp_rcc_enabled (vqec_chan_rcc_admit limit d))"
proof -
  let ?c = "vqec_sm_init (c\<lparr>cp_app_timeout_interval := msec_to_rel_time (ucast timeout)\<rparr>)"
  have rest: "cp_rest ?c" using assms(1-3) by (intro cp_rest_init) simp_all
  have step: "cp_step (cp_state ?c) VQEC_EVENT_RAPID_CHANNEL_CHANGE = VQEC_SM_STATE_WAIT_APP"
    by (simp add: vqec_sm_init_def cp_step_def cp_table_defs)
  obtain r c' where d: "vqec_sm_deliver_event env VQEC_EVENT_RAPID_CHANNEL_CHANGE 0 ?c = Done (r, c')"
    "cp_rest c'" "cp_state c' = (if r then VQEC_SM_STATE_WAIT_APP else VQEC_SM_STATE_ABORT)"
    "cp_shutdown c' = cp_shutdown ?c" "cp_rcc_share c' = cp_rcc_share ?c"
    and w: "r \<and> cp_state ?c \<noteq> VQEC_SM_STATE_WAIT_APP \<and> cp_state c' = VQEC_SM_STATE_WAIT_APP \<longrightarrow>
      (\<exists>n. env_event_create env n)"
    using cp_deliver_total [OF rest, of env VQEC_EVENT_RAPID_CHANNEL_CHANGE 0] unfolding step by blast
  have r: "\<not> r" using w d(3) assms(8) by (auto simp: vqec_sm_init_def)
  then have ab: "cp_rcc_in_abort c'"
    using d(2-4) assms(5) by (simp add: cp_rest_def vqec_sm_init_def)
  then have "cp_num_current_rccs c' + 1 = 0"
    using d(5) assms(6,7) by (simp add: cp_rcc_share_def vqec_sm_init_def)
  have lim: "limit \<le> 0xFFFFFFFF"
    using unat_less_pow [of limit] by (simp add: word_le_nat_alt)
  have n: "cp_num_current_rccs c' = 0xFFFFFFFF"
    using \<open>cp_num_current_rccs c' + 1 = 0\<close> by (simp add: eq_neg_iff_add_eq_0 [symmetric])
  moreover have "vqec_chan_bind_start env timeout behind_nat c = Done (False, c')"
    using d(1) r assms(4) by (simp add: vqec_chan_bind_start_def Let_def vqec_sm_init_def)
  moreover have "\<not> cp_rcc_enabled (vqec_chan_rcc_admit limit d)"
    if "cp_num_current_rccs d = cp_num_current_rccs c'" for d
    using that n assms(9) lim by (auto simp: vqec_chan_rcc_admit_def)
  ultimately show ?thesis using ab by (auto simp: vqec_chan_destroy_count_def)
qed

theorem rcc_count_underflow_witness:
  "\<exists>c'. vqec_chan_bind_start (cp_env_all False) 5000 False (vqec_chan_zero\<lparr>cp_rcc_enabled := True\<rparr>) =
      Done (False, c') \<and>
    cp_num_current_rccs (vqec_chan_destroy_count c') = 0xFFFFFFFF"
  using rcc_count_underflow [of "vqec_chan_zero\<lparr>cp_rcc_enabled := True\<rparr>" "cp_env_all False" 1 5000 False]
  by (auto simp: vqec_chan_zero_def evq_empty_ok cp_env_all_def)

text \<open>The display of the log shows the last \<open>n mod 16\<close> of \<open>n\<close> entries, not the last 16: the
  head of the ring never moves, so that each time the ring is full its contents are hidden, and after
  exactly 16 entries the display is empty.\<close>

lemma display_log_hides_full_ring:
  assumes "cp_sm_log_head c = 0" and "cp_sm_log_tail c = 0"
  shows "length (vqec_sm_display_log (fold (\<lambda>(k, st, ev). vqec_sm_log env k st ev) es c)) =
    length es mod 16"
proof -
  let ?c = "fold (\<lambda>(k, st, ev). vqec_sm_log env k st ev) es c"
  have t: "unat (cp_sm_log_tail ?c) = length es mod 16" "cp_sm_log_head ?c = 0"
    using log_tail_fold [of c env es] assms by auto
  then show ?thesis
    using display_length [of 0 ?c "unat VQEC_SM_LOG_MAX_SIZE"]
    by (simp add: vqec_sm_display_log_def VQEC_SM_LOG_MAX_SIZE_def)
qed

end
