(* ===== verification/Rcc_Dp.thy ===== *)
theory Rcc_Dp
  imports Event_Q Vam_Time Seq_Num
begin

text \<open>
  The data-plane state machine of rapid channel change, \<^verbatim>\<open>eva/vqec-dp/channel/vqec_dp_sm.c\<close>, with
  the parts of \<^verbatim>\<open>eva/vqec-dp/channel/vqec_dpchan.c\<close> and \<^verbatim>\<open>vqec_dpchan.h\<close> that it calls back (join,
  abort, success, error-repair notifications) and that feed it packets. The machine waits for the
  first repair packet, joins the multicast, enables error repair and waits for the end of the burst;
  any failure aborts it.

  The callbacks poll the input streams, which can hand packets to the channel, and these deliver
  events again while an event is being served. What the environment does (the clock, the timers, the
  packets a poll finds, the success of an insertion into the packet cache, the lookup of an input
  stream) is a parameter.
\<close>

subsection \<open>Data\<close>

datatype vqec_dp_sm_event =
    VQEC_DP_SM_EVENT_START_RCC
  | VQEC_DP_SM_EVENT_ABORT
  | VQEC_DP_SM_EVENT_INTERNAL_ERR
  | VQEC_DP_SM_EVENT_TIME_TO_JOIN
  | VQEC_DP_SM_EVENT_TIME_TO_EN_ER
  | VQEC_DP_SM_EVENT_TIME_END_BURST
  | VQEC_DP_SM_EVENT_TIME_FIRST_SEQ
  | VQEC_DP_SM_EVENT_REPAIR
  | VQEC_DP_SM_EVENT_PRIMARY
  | VQEC_DP_SM_EVENT_ACTIVITY_TIMEOUT

primrec vqec_dp_sm_event_no :: "vqec_dp_sm_event \<Rightarrow> nat" where
  "vqec_dp_sm_event_no VQEC_DP_SM_EVENT_START_RCC = 0"
| "vqec_dp_sm_event_no VQEC_DP_SM_EVENT_ABORT = 1"
| "vqec_dp_sm_event_no VQEC_DP_SM_EVENT_INTERNAL_ERR = 2"
| "vqec_dp_sm_event_no VQEC_DP_SM_EVENT_TIME_TO_JOIN = 3"
| "vqec_dp_sm_event_no VQEC_DP_SM_EVENT_TIME_TO_EN_ER = 4"
| "vqec_dp_sm_event_no VQEC_DP_SM_EVENT_TIME_END_BURST = 5"
| "vqec_dp_sm_event_no VQEC_DP_SM_EVENT_TIME_FIRST_SEQ = 6"
| "vqec_dp_sm_event_no VQEC_DP_SM_EVENT_REPAIR = 7"
| "vqec_dp_sm_event_no VQEC_DP_SM_EVENT_PRIMARY = 8"
| "vqec_dp_sm_event_no VQEC_DP_SM_EVENT_ACTIVITY_TIMEOUT = 9"

datatype vqec_dp_sm_state =
    VQEC_DP_SM_STATE_INVALID
  | VQEC_DP_SM_STATE_INIT
  | VQEC_DP_SM_STATE_WAIT_FIRST_SEQ
  | VQEC_DP_SM_STATE_WAIT_JOIN
  | VQEC_DP_SM_STATE_WAIT_EN_ER
  | VQEC_DP_SM_STATE_WAIT_END_BURST
  | VQEC_DP_SM_STATE_FIN_SUCCESS
  | VQEC_DP_SM_STATE_ABORT

text \<open>The channel code compares states by their position in the enumeration.\<close>

primrec vqec_dp_sm_state_no :: "vqec_dp_sm_state \<Rightarrow> nat" where
  "vqec_dp_sm_state_no VQEC_DP_SM_STATE_INVALID = 0"
| "vqec_dp_sm_state_no VQEC_DP_SM_STATE_INIT = 1"
| "vqec_dp_sm_state_no VQEC_DP_SM_STATE_WAIT_FIRST_SEQ = 2"
| "vqec_dp_sm_state_no VQEC_DP_SM_STATE_WAIT_JOIN = 3"
| "vqec_dp_sm_state_no VQEC_DP_SM_STATE_WAIT_EN_ER = 4"
| "vqec_dp_sm_state_no VQEC_DP_SM_STATE_WAIT_END_BURST = 5"
| "vqec_dp_sm_state_no VQEC_DP_SM_STATE_FIN_SUCCESS = 6"
| "vqec_dp_sm_state_no VQEC_DP_SM_STATE_ABORT = 7"

datatype vqec_dp_sm_log_event =
    VQEC_DP_SM_LOG_STATE_EVENT | VQEC_DP_SM_LOG_STATE_ENTER | VQEC_DP_SM_LOG_STATE_EXIT
  | VQEC_DP_SM_LOG_FIRST_REPAIR | VQEC_DP_SM_LOG_ISSUED_JOIN | VQEC_DP_SM_LOG_FIRST_PRIMARY
  | VQEC_DP_SM_LOG_ER_EN

record vqec_dp_sm_log_entry =
  dlg_log_event :: vqec_dp_sm_log_event
  dlg_state :: vqec_dp_sm_state
  dlg_event :: vqec_dp_sm_event
  dlg_timestamp :: abs_time

definition VQEC_DP_SM_LOG_MAX_SIZE :: u32 where "VQEC_DP_SM_LOG_MAX_SIZE = 16"
definition VQEC_DP_RCC_FSMLOG_ARRAY_SIZE :: nat where "VQEC_DP_RCC_FSMLOG_ARRAY_SIZE = 10"

datatype rx_pak_ev = VQEC_DP_CHAN_RX_PRIMARY_PAK | VQEC_DP_CHAN_RX_REPAIR_PAK | VQEC_DP_CHAN_RX_FEC_PAK

datatype pak_action = PAK_ACTION_ACCEPT | PAK_ACTION_QUEUE | PAK_ACTION_DROP

record rx_pak =
  rp_seq_num :: u32
  rp_rcv_ts :: abs_time

datatype snapshot_kind = SNAP_JOIN | SNAP_FIRST_PRIM | SNAP_ER_EN | SNAP_END_BURST

datatype input_stream = IS_PRIMARY | IS_REPAIR | IS_FEC0 | IS_FEC1

datatype dp_call =
    DCall_pcm_insert nat
  | DCall_pak_free nat
  | DCall_pcm_snapshot snapshot_kind
  | DCall_pcm_notify_en_er
  | DCall_pcm_notify_abort
  | DCall_bind_commit input_stream
  | DCall_reset_repair_stream
  | DCall_upcall_ncsi
  | DCall_upcall_abort
  | DCall_hist_join_delay s64

record vqec_dpchan =
  dp_state :: vqec_dp_sm_state
  dp_event_mask :: u32
  dp_event_q :: "vqec_dp_sm_event evq"
  dp_sm_log :: "vqec_dp_sm_log_entry list"
  dp_sm_log_tail :: u32
  dp_sm_log_head :: u32
  dp_rcc_enabled :: bool
  dp_fec_enabled :: bool
  dp_rcc_in_abort :: bool
  dp_joined_primary :: bool
  dp_joined_fec :: bool
  dp_join_issue_time :: abs_time
  dp_app_paks :: "nat list"
  dp_wait_first_timer :: "timeval option"
  dp_join_timer :: "timeval option"
  dp_er_timer :: "timeval option"
  dp_burst_end_timer :: "timeval option"
  dp_activity_timer :: "timeval option"
  dp_first_repair_deadline :: abs_time
  dp_first_repair_ts :: abs_time
  dp_first_repair_seq :: u32
  dp_first_repair_ev_ts :: abs_time
  dp_first_primary_ts :: abs_time
  dp_first_primary_seq :: u32
  dp_first_primary_ev_ts :: abs_time
  dp_dt_earliest_join :: rel_time
  dp_er_holdoff_time :: rel_time
  dp_dt_repair_end :: rel_time
  dp_burst_end_time :: abs_time
  dp_er_enable_time :: abs_time
  dp_last_repair_pak_ts :: abs_time
  dp_last_primary_pak_ts :: abs_time
  dp_rx_primary :: bool
  dp_rx_repair :: bool
  dp_process_first_repair :: bool
  dp_streams :: "input_stream list"
  dp_pcm_fast_fill_time :: rel_time
  dp_pcm_rcc_post_abort_process :: bool
  dp_calls :: "dp_call list"
  dp_tick :: nat

record dp_env =
  dpe_time :: "nat \<Rightarrow> abs_time"
  dpe_event_create :: "nat \<Rightarrow> bool"
  dpe_event_start :: "nat \<Rightarrow> bool"
  dpe_pcm_insert :: "nat \<Rightarrow> bool"
  dpe_stream_found :: "nat \<Rightarrow> bool"
  dpe_poll :: "nat \<Rightarrow> (rx_pak_ev \<times> rx_pak) list"

type_synonym dp_res = "(bool \<times> vqec_dpchan) outcome"
type_synonym dp_deliver = "vqec_dp_sm_event \<Rightarrow> u64 \<Rightarrow> vqec_dpchan \<Rightarrow> dp_res"
type_synonym dp_action =
  "dp_env \<Rightarrow> dp_deliver \<Rightarrow> vqec_dp_sm_state \<Rightarrow> vqec_dp_sm_event \<Rightarrow> u64 \<Rightarrow> vqec_dpchan \<Rightarrow> dp_res"

definition dp_sys_time :: "dp_env \<Rightarrow> vqec_dpchan \<Rightarrow> abs_time \<times> vqec_dpchan" where
  "dp_sys_time env c = (dpe_time env (dp_tick c), c\<lparr>dp_tick := Suc (dp_tick c)\<rparr>)"

definition dp_call_out :: "dp_call \<Rightarrow> vqec_dpchan \<Rightarrow> vqec_dpchan" where
  "dp_call_out k c = c\<lparr>dp_calls := dp_calls c @ [k]\<rparr>"

text \<open>Delivery from within the channel code: the result is ignored.\<close>

definition dp_post :: "dp_deliver \<Rightarrow> vqec_dp_sm_event \<Rightarrow> vqec_dpchan \<Rightarrow> vqec_dpchan outcome" where
  "dp_post dlv ev c = bind_out (dlv ev 0 c) (\<lambda>(_, c1). Done c1)"

subsection \<open>Printable names and the log\<close>

primrec vqec_dp_sm_event_to_string :: "vqec_dp_sm_event \<Rightarrow> string" where
  "vqec_dp_sm_event_to_string VQEC_DP_SM_EVENT_START_RCC = ''PROCEED_RCC''"
| "vqec_dp_sm_event_to_string VQEC_DP_SM_EVENT_ABORT = ''CP_ABORT''"
| "vqec_dp_sm_event_to_string VQEC_DP_SM_EVENT_INTERNAL_ERR = ''DP_INTERNAL_ERR''"
| "vqec_dp_sm_event_to_string VQEC_DP_SM_EVENT_TIME_TO_JOIN = ''TIME_TO_JOIN''"
| "vqec_dp_sm_event_to_string VQEC_DP_SM_EVENT_TIME_TO_EN_ER = ''TIME_TO_EN_ER''"
| "vqec_dp_sm_event_to_string VQEC_DP_SM_EVENT_TIME_END_BURST = ''END_OF_BURST''"
| "vqec_dp_sm_event_to_string VQEC_DP_SM_EVENT_TIME_FIRST_SEQ = ''1st_SEQ_TIMEOUT''"
| "vqec_dp_sm_event_to_string VQEC_DP_SM_EVENT_REPAIR = ''RX_REPAIR''"
| "vqec_dp_sm_event_to_string VQEC_DP_SM_EVENT_PRIMARY = ''RX_PRIMARY''"
| "vqec_dp_sm_event_to_string VQEC_DP_SM_EVENT_ACTIVITY_TIMEOUT = ''ACT_TIMEOUT''"

primrec vqec_dp_sm_state_to_string :: "vqec_dp_sm_state \<Rightarrow> string" where
  "vqec_dp_sm_state_to_string VQEC_DP_SM_STATE_INVALID = ''STATE_INVALID''"
| "vqec_dp_sm_state_to_string VQEC_DP_SM_STATE_INIT = ''STATE_INIT''"
| "vqec_dp_sm_state_to_string VQEC_DP_SM_STATE_WAIT_FIRST_SEQ = ''STATE_WAIT_FIRSTSEQ''"
| "vqec_dp_sm_state_to_string VQEC_DP_SM_STATE_WAIT_JOIN = ''STATE_WAIT_JOIN''"
| "vqec_dp_sm_state_to_string VQEC_DP_SM_STATE_WAIT_EN_ER = ''STATE_WAIT_EN_ER''"
| "vqec_dp_sm_state_to_string VQEC_DP_SM_STATE_WAIT_END_BURST = ''STATE_WAIT_ENDBURST''"
| "vqec_dp_sm_state_to_string VQEC_DP_SM_STATE_FIN_SUCCESS = ''STATE_SUCCESS''"
| "vqec_dp_sm_state_to_string VQEC_DP_SM_STATE_ABORT = ''STATE_ABORT''"

primrec vqec_dp_sm_log_evt_to_string :: "vqec_dp_sm_log_event \<Rightarrow> string" where
  "vqec_dp_sm_log_evt_to_string VQEC_DP_SM_LOG_STATE_EVENT = ''INPUT_EVENT''"
| "vqec_dp_sm_log_evt_to_string VQEC_DP_SM_LOG_STATE_ENTER = ''STATE_ENTER''"
| "vqec_dp_sm_log_evt_to_string VQEC_DP_SM_LOG_STATE_EXIT = ''STATE_EXIT''"
| "vqec_dp_sm_log_evt_to_string VQEC_DP_SM_LOG_FIRST_REPAIR = ''FIRST_REPAIR''"
| "vqec_dp_sm_log_evt_to_string VQEC_DP_SM_LOG_ISSUED_JOIN = ''ISSUED_JOIN''"
| "vqec_dp_sm_log_evt_to_string VQEC_DP_SM_LOG_FIRST_PRIMARY = ''FIRST_PRIMARY''"
| "vqec_dp_sm_log_evt_to_string VQEC_DP_SM_LOG_ER_EN = ''ENABLED_ER''"

definition vqec_dp_sm_log ::
  "dp_env \<Rightarrow> vqec_dp_sm_log_event \<Rightarrow> vqec_dp_sm_state \<Rightarrow> vqec_dp_sm_event \<Rightarrow> vqec_dpchan \<Rightarrow> vqec_dpchan"
  where
  "vqec_dp_sm_log env log_evt state event c =
     (let i = unat (dp_sm_log_tail c);
          c1 = c\<lparr>dp_sm_log_tail := (dp_sm_log_tail c + 1) mod VQEC_DP_SM_LOG_MAX_SIZE\<rparr>;
          (now, c2) = dp_sys_time env c1
      in c2\<lparr>dp_sm_log := (dp_sm_log c2)
           [i := \<lparr>dlg_log_event = log_evt, dlg_state = state, dlg_event = event,
                  dlg_timestamp = now\<rparr>]\<rparr>)"

text \<open>The copy of the log for the control plane takes at most ten entries from the head on.\<close>

fun copy_log_from :: "nat \<Rightarrow> u32 \<Rightarrow> vqec_dpchan \<Rightarrow> vqec_dp_sm_log_entry list" where
  "copy_log_from 0 i c = []"
| "copy_log_from (Suc n) i c =
     (if i = dp_sm_log_tail c then []
      else dp_sm_log c ! unat i # copy_log_from n ((i + 1) mod VQEC_DP_SM_LOG_MAX_SIZE) c)"

definition vqec_dp_sm_copy_log :: "vqec_dpchan \<Rightarrow> vqec_dp_sm_log_entry list" where
  "vqec_dp_sm_copy_log c = copy_log_from VQEC_DP_RCC_FSMLOG_ARRAY_SIZE (dp_sm_log_head c) c"

subsection \<open>Packets\<close>

definition vqec_dpchan_is_rcc_aborted :: "vqec_dpchan \<Rightarrow> bool" where
  "vqec_dpchan_is_rcc_aborted c = dp_rcc_in_abort c"

definition vqec_dpchan_set_rcc_aborted :: "vqec_dpchan \<Rightarrow> vqec_dpchan" where
  "vqec_dpchan_set_rcc_aborted c =
     c\<lparr>dp_rcc_in_abort := True, dp_pcm_fast_fill_time := REL_TIME_0,
       dp_pcm_rcc_post_abort_process := True\<rparr>"

definition vqec_dpchan_sm_state_post_er_enable :: "vqec_dpchan option \<Rightarrow> bool" where
  "vqec_dpchan_sm_state_post_er_enable cp =
     (case cp of None \<Rightarrow> False
      | Some c \<Rightarrow> vqec_dp_sm_state_no (dp_state c) \<ge>
                 vqec_dp_sm_state_no VQEC_DP_SM_STATE_WAIT_END_BURST)"

definition vqec_dpchan_pak_event_record_first_primary ::
  "rx_pak \<Rightarrow> abs_time \<Rightarrow> vqec_dpchan \<Rightarrow> vqec_dpchan" where
  "vqec_dpchan_pak_event_record_first_primary pak cur_time c =
     (let c1 = c\<lparr>dp_first_primary_ts := rp_rcv_ts pak, dp_first_primary_seq := rp_seq_num pak,
                 dp_first_primary_ev_ts := cur_time, dp_rx_primary := True\<rparr>;
          join_latency = (if abs_time_le (dp_first_primary_ts c1) (dp_join_issue_time c1)
                          then REL_TIME_0
                          else abs_minus_abs_time (dp_first_primary_ts c1) (dp_join_issue_time c1))
      in dp_call_out (DCall_hist_join_delay (rel_time_to_msec join_latency)) c1)"

definition vqec_dpchan_pak_event_update_state ::
  "dp_env \<Rightarrow> dp_deliver \<Rightarrow> rx_pak_ev \<Rightarrow> rx_pak \<Rightarrow> abs_time \<Rightarrow> vqec_dpchan \<Rightarrow> dp_res" where
  "vqec_dpchan_pak_event_update_state env dlv ev pak cur_time0 c0 =
     (let (cur_time, c) = (if IS_ABS_TIME_ZERO cur_time0 then dp_sys_time env c0
                           else (cur_time0, c0))
      in case ev of
           VQEC_DP_CHAN_RX_PRIMARY_PAK \<Rightarrow>
             bind_out (if \<not> dp_rx_primary c
                       then dp_post dlv VQEC_DP_SM_EVENT_PRIMARY
                              (vqec_dpchan_pak_event_record_first_primary pak cur_time c)
                       else Done c)
               (\<lambda>c1. Done (True, c1\<lparr>dp_last_primary_pak_ts := cur_time\<rparr>))
         | VQEC_DP_CHAN_RX_REPAIR_PAK \<Rightarrow>
             bind_out (if \<not> dp_rx_repair c \<and> dp_process_first_repair c
                       then dp_post dlv VQEC_DP_SM_EVENT_REPAIR
                              (c\<lparr>dp_first_repair_seq := rp_seq_num pak,
                                 dp_first_repair_ts := rp_rcv_ts pak,
                                 dp_first_repair_ev_ts := cur_time,
                                 dp_rx_repair := True, dp_process_first_repair := False\<rparr>)
                       else Done c)
               (\<lambda>c1. Done (True, c1\<lparr>dp_last_repair_pak_ts := cur_time\<rparr>))
         | VQEC_DP_CHAN_RX_FEC_PAK \<Rightarrow> Done (True, c))"

definition vqec_dpchan_pak_event ::
  "dp_env \<Rightarrow> dp_deliver \<Rightarrow> rx_pak_ev \<Rightarrow> rx_pak \<Rightarrow> abs_time \<Rightarrow> vqec_dpchan \<Rightarrow>
   (pak_action \<times> vqec_dpchan) outcome" where
  "vqec_dpchan_pak_event env dlv ev pak cur_time c =
     (if vqec_dp_sm_state_no (dp_state c) \<ge> vqec_dp_sm_state_no VQEC_DP_SM_STATE_FIN_SUCCESS \<or>
         \<not> dp_rcc_enabled c
      then bind_out (if \<not> dp_rx_primary c \<and> ev = VQEC_DP_CHAN_RX_PRIMARY_PAK
                     then vqec_dpchan_pak_event_update_state env dlv ev pak cur_time c
                     else Done (True, c))
             (\<lambda>(_, c1). Done (PAK_ACTION_ACCEPT, c1))
      else if dp_state c = VQEC_DP_SM_STATE_INIT
      then Done (if ev = VQEC_DP_CHAN_RX_REPAIR_PAK then PAK_ACTION_QUEUE else PAK_ACTION_DROP, c)
      else if ev = VQEC_DP_CHAN_RX_PRIMARY_PAK \<or> ev = VQEC_DP_CHAN_RX_REPAIR_PAK
      then bind_out (vqec_dpchan_pak_event_update_state env dlv ev pak cur_time c)
             (\<lambda>(ok, c1). Done (if ok then PAK_ACTION_ACCEPT else PAK_ACTION_DROP, c1))
      else Done (PAK_ACTION_ACCEPT, c))"

text \<open>A poll of an input stream hands the packets that are waiting to the channel, each with the
  current time left to be read from the clock.\<close>

primrec dp_rx_all :: "dp_env \<Rightarrow> dp_deliver \<Rightarrow> (rx_pak_ev \<times> rx_pak) list \<Rightarrow> vqec_dpchan \<Rightarrow> vqec_dpchan outcome"
  where
  "dp_rx_all env dlv [] c = Done c"
| "dp_rx_all env dlv (x # xs) c =
     bind_out (vqec_dpchan_pak_event env dlv (fst x) (snd x) ABS_TIME_0 c)
       (\<lambda>(_, c1). dp_rx_all env dlv xs c1)"

definition dp_stream_lookup :: "dp_env \<Rightarrow> vqec_dpchan \<Rightarrow> bool \<times> vqec_dpchan" where
  "dp_stream_lookup env c = (dpe_stream_found env (dp_tick c), c\<lparr>dp_tick := Suc (dp_tick c)\<rparr>)"

definition dp_poll_stream :: "dp_env \<Rightarrow> dp_deliver \<Rightarrow> input_stream \<Rightarrow> vqec_dpchan \<Rightarrow> vqec_dpchan outcome" where
  "dp_poll_stream env dlv s c =
     (if s \<in> set (dp_streams c) then
        let (found, c1) = dp_stream_lookup env c
        in if found then dp_rx_all env dlv (dpe_poll env (dp_tick c1)) c1 else Done c1
      else Done c)"

subsection \<open>Notifications of the channel\<close>

definition vqec_dpchan_reset_repair_stream_rcc_state :: "dp_env \<Rightarrow> vqec_dpchan \<Rightarrow> vqec_dpchan" where
  "vqec_dpchan_reset_repair_stream_rcc_state env c =
     (let (found, c1) = dp_stream_lookup env c
      in if found then dp_call_out DCall_reset_repair_stream c1 else c1)"

text \<open>A failed commit of a join is only logged.\<close>

definition vqec_dpchan_join_fec :: "dp_env \<Rightarrow> vqec_dpchan \<Rightarrow> vqec_dpchan" where
  "vqec_dpchan_join_fec env c =
     (if dp_fec_enabled c \<and> \<not> dp_joined_fec c then
        let (ok0, c1) = (if IS_FEC0 \<in> set (dp_streams c)
                         then let (found, c') = dp_stream_lookup env c
                              in (found, if found then dp_call_out (DCall_bind_commit IS_FEC0) c' else c')
                         else (True, c))
        in if \<not> ok0 then c1
           else let (ok1, c2) = (if IS_FEC1 \<in> set (dp_streams c1)
                                 then let (found, c') = dp_stream_lookup env c1
                                      in (found, if found then dp_call_out (DCall_bind_commit IS_FEC1) c' else c')
                                 else (True, c1))
                in if \<not> ok1 then c2 else c2\<lparr>dp_joined_fec := True\<rparr>
      else c)"

definition vqec_dpchan_join_primary :: "dp_env \<Rightarrow> vqec_dpchan \<Rightarrow> vqec_dpchan" where
  "vqec_dpchan_join_primary env c =
     (if \<not> dp_joined_primary c then
        let (found, c1) = dp_stream_lookup env c
        in if \<not> found then c1
           else let c2 = dp_call_out (DCall_bind_commit IS_PRIMARY) c1;
                    (now, c3) = dp_sys_time env (c2\<lparr>dp_joined_primary := True\<rparr>)
                in c3\<lparr>dp_join_issue_time := now\<rparr>
      else c)"

definition vqec_dpchan_rcc_success_notify :: "dp_env \<Rightarrow> vqec_dpchan \<Rightarrow> vqec_dpchan" where
  "vqec_dpchan_rcc_success_notify env c =
     dp_call_out (DCall_pcm_snapshot SNAP_END_BURST)
       (vqec_dpchan_reset_repair_stream_rcc_state env (vqec_dpchan_join_fec env c))"

definition vqec_dpchan_rcc_join_notify :: "dp_env \<Rightarrow> vqec_dpchan \<Rightarrow> vqec_dpchan" where
  "vqec_dpchan_rcc_join_notify env c =
     dp_call_out (DCall_pcm_snapshot SNAP_JOIN) (vqec_dpchan_join_primary env c)"

definition vqec_dpchan_rcc_ncsi_notify :: "vqec_dpchan \<Rightarrow> vqec_dpchan" where
  "vqec_dpchan_rcc_ncsi_notify c =
     dp_call_out (DCall_pcm_snapshot SNAP_FIRST_PRIM) (dp_call_out DCall_upcall_ncsi c)"

definition vqec_dpchan_rcc_er_en_notify ::
  "dp_env \<Rightarrow> dp_deliver \<Rightarrow> vqec_dpchan \<Rightarrow> vqec_dpchan outcome" where
  "vqec_dpchan_rcc_er_en_notify env dlv c =
     bind_out (dp_poll_stream env dlv IS_REPAIR c) (\<lambda>c1.
     bind_out (dp_poll_stream env dlv IS_PRIMARY c1) (\<lambda>c2.
     let c3 = dp_call_out DCall_pcm_notify_en_er c2;
         c4 = vqec_dpchan_reset_repair_stream_rcc_state env c3;
         c5 = dp_call_out (DCall_pcm_snapshot SNAP_ER_EN) c4;
         (now, c6) = dp_sys_time env c5
     in Done (c6\<lparr>dp_er_enable_time := now\<rparr>)))"

definition vqec_dpchan_abort_rcc_doactions ::
  "dp_env \<Rightarrow> dp_deliver \<Rightarrow> vqec_dpchan \<Rightarrow> vqec_dpchan outcome" where
  "vqec_dpchan_abort_rcc_doactions env dlv c =
     (let c1 = dp_call_out DCall_pcm_notify_abort c;
          c2 = vqec_dpchan_join_primary env c1;
          c3 = vqec_dpchan_join_fec env c2
      in bind_out (vqec_dpchan_rcc_er_en_notify env dlv c3) (\<lambda>c4.
         Done (vqec_dpchan_reset_repair_stream_rcc_state env c4)))"

definition vqec_dpchan_rcc_abort_notify ::
  "dp_env \<Rightarrow> dp_deliver \<Rightarrow> vqec_dpchan \<Rightarrow> vqec_dpchan outcome" where
  "vqec_dpchan_rcc_abort_notify env dlv c =
     (if \<not> vqec_dpchan_is_rcc_aborted c then
        bind_out (vqec_dpchan_abort_rcc_doactions env dlv (dp_call_out DCall_upcall_abort c)) (\<lambda>c1.
        Done (vqec_dpchan_set_rcc_aborted c1))
      else Done c)"

subsection \<open>Actions\<close>

definition vqec_dp_sm_enter_def :: dp_action where
  "vqec_dp_sm_enter_def env dlv state event arg c = Done (True, c)"

definition vqec_dp_sm_exit_def :: dp_action where
  "vqec_dp_sm_exit_def env dlv state event arg c = Done (True, c)"

definition vqec_dp_sm_null_action :: dp_action where
  "vqec_dp_sm_null_action env dlv state event arg c = Done (True, c)"

text \<open>Stopping a timer clears the pointer if it is set.\<close>

definition vqec_dp_sm_timer_stop :: "timeval option \<Rightarrow> timeval option" where
  "vqec_dp_sm_timer_stop timer = (if timer \<noteq> None then None else timer)"

definition vqec_dp_sm_waitfirst_timer_stop :: dp_action where
  "vqec_dp_sm_waitfirst_timer_stop env dlv state event arg c =
     Done (True, c\<lparr>dp_wait_first_timer := vqec_dp_sm_timer_stop (dp_wait_first_timer c)\<rparr>)"

definition vqec_dp_sm_join_timer_stop :: dp_action where
  "vqec_dp_sm_join_timer_stop env dlv state event arg c =
     Done (True, c\<lparr>dp_join_timer := vqec_dp_sm_timer_stop (dp_join_timer c)\<rparr>)"

definition vqec_dp_sm_er_timer_stop :: dp_action where
  "vqec_dp_sm_er_timer_stop env dlv state event arg c =
     Done (True, c\<lparr>dp_er_timer := vqec_dp_sm_timer_stop (dp_er_timer c)\<rparr>)"

definition vqec_dp_sm_waitburst_timer_stop :: dp_action where
  "vqec_dp_sm_waitburst_timer_stop env dlv state event arg c =
     Done (True, c\<lparr>dp_burst_end_timer := vqec_dp_sm_timer_stop (dp_burst_end_timer c)\<rparr>)"

definition vqec_dp_sm_activity_timer_stop :: dp_action where
  "vqec_dp_sm_activity_timer_stop env dlv state event arg c =
     Done (True, c\<lparr>dp_activity_timer := vqec_dp_sm_timer_stop (dp_activity_timer c)\<rparr>)"

text \<open>The start of one of the four timers, given how to read and write its pointer.\<close>

definition vqec_dp_sm_timer_start ::
  "dp_env \<Rightarrow> dp_deliver \<Rightarrow> (vqec_dpchan \<Rightarrow> timeval option) \<Rightarrow>
   (timeval option \<Rightarrow> vqec_dpchan \<Rightarrow> vqec_dpchan) \<Rightarrow> rel_time \<Rightarrow> vqec_dpchan \<Rightarrow> dp_res" where
  "vqec_dp_sm_timer_start env dlv timer set_timer timeout c =
     (let tv = rel_time_to_timeval timeout
      in if timer c \<noteq> None then Assert_failed
         else let n = dp_tick c;
                  c1 = c\<lparr>dp_tick := Suc n\<rparr>
              in if \<not> dpe_event_create env n \<or> \<not> dpe_event_start env n
                 then bind_out (dp_post dlv VQEC_DP_SM_EVENT_INTERNAL_ERR (set_timer None c1))
                        (\<lambda>c2. Done (False, c2))
                 else Done (True, set_timer (Some tv) c1))"

definition dp_time_left :: "abs_time \<Rightarrow> abs_time \<Rightarrow> rel_time" where
  "dp_time_left deadline cur_time =
     (if abs_time_gt deadline cur_time then abs_minus_abs_time deadline cur_time else REL_TIME_0)"

definition vqec_dp_sm_waitfirst_timer_start :: dp_action where
  "vqec_dp_sm_waitfirst_timer_start env dlv state event arg c =
     (let (cur_time, c1) = dp_sys_time env c
      in vqec_dp_sm_timer_start env dlv dp_wait_first_timer (\<lambda>t d. d\<lparr>dp_wait_first_timer := t\<rparr>)
           (dp_time_left (dp_first_repair_deadline c1) cur_time) c1)"

definition vqec_dp_sm_join_timer_start :: dp_action where
  "vqec_dp_sm_join_timer_start env dlv state event arg c =
     (let (cur_time, c1) = dp_sys_time env c;
          join_time = abs_plus_rel_time (dp_first_repair_ts c1) (dp_dt_earliest_join c1)
      in vqec_dp_sm_timer_start env dlv dp_join_timer (\<lambda>t d. d\<lparr>dp_join_timer := t\<rparr>)
           (dp_time_left join_time cur_time) c1)"

definition vqec_dp_sm_er_timer_start :: dp_action where
  "vqec_dp_sm_er_timer_start env dlv state event arg c =
     (let (cur_time, c1) = dp_sys_time env c;
          er_en_time = abs_plus_rel_time
            (abs_plus_rel_time (dp_first_repair_ts c1) (dp_dt_earliest_join c1))
            (dp_er_holdoff_time c1)
      in vqec_dp_sm_timer_start env dlv dp_er_timer (\<lambda>t d. d\<lparr>dp_er_timer := t\<rparr>)
           (dp_time_left er_en_time cur_time) c1)"

definition vqec_dp_sm_waitburst_timer_start :: dp_action where
  "vqec_dp_sm_waitburst_timer_start env dlv state event arg c =
     (let (cur_time, c1) = dp_sys_time env c;
          waitburst_time = abs_plus_rel_time (dp_first_repair_ts c1) (dp_dt_repair_end c1);
          c2 = (if abs_time_gt waitburst_time cur_time then c1
                else let (now, c') = dp_sys_time env c1 in c'\<lparr>dp_burst_end_time := now\<rparr>)
      in vqec_dp_sm_timer_start env dlv dp_burst_end_timer (\<lambda>t d. d\<lparr>dp_burst_end_timer := t\<rparr>)
           (dp_time_left waitburst_time cur_time) c2)"

definition VQEC_DP_REPAIR_ACTIVITY_TIMEOUT :: rel_time where
  "VQEC_DP_REPAIR_ACTIVITY_TIMEOUT = MSECS 200"

definition VQEC_DP_REPAIR_ACTIVITY_POLL_INTERVAL :: rel_time where
  "VQEC_DP_REPAIR_ACTIVITY_POLL_INTERVAL = MSECS 50"

text \<open>The cached APP packets go into the packet cache one by one, up to the first that is refused;
  all of them are freed.\<close>

primrec insert_app_paks :: "dp_env \<Rightarrow> nat list \<Rightarrow> bool \<Rightarrow> vqec_dpchan \<Rightarrow> bool \<times> vqec_dpchan" where
  "insert_app_paks env [] failed_insert c = (failed_insert, c)"
| "insert_app_paks env (pak # paks) failed_insert c =
     (let c1 = c\<lparr>dp_app_paks := paks\<rparr>;
          (failed', c2) =
            (if \<not> failed_insert
             then (\<not> dpe_pcm_insert env (dp_tick c1),
                   dp_call_out (DCall_pcm_insert pak) (c1\<lparr>dp_tick := Suc (dp_tick c1)\<rparr>))
             else (failed_insert, c1))
      in insert_app_paks env paks failed' (dp_call_out (DCall_pak_free pak) c2))"

primrec free_app_paks :: "nat list \<Rightarrow> vqec_dpchan \<Rightarrow> vqec_dpchan" where
  "free_app_paks [] c = c"
| "free_app_paks (pak # paks) c =
     free_app_paks paks (dp_call_out (DCall_pak_free pak) (c\<lparr>dp_app_paks := paks\<rparr>))"

definition vqec_dp_sm_first_repair_actions :: dp_action where
  "vqec_dp_sm_first_repair_actions env dlv state event arg c0 =
     (let c = vqec_dp_sm_log env VQEC_DP_SM_LOG_FIRST_REPAIR state event c0
      in if dp_app_paks c = []
         then bind_out (dp_post dlv VQEC_DP_SM_EVENT_INTERNAL_ERR c) (\<lambda>c1. Done (False, c1))
         else
           let (failed_insert, c1) = insert_app_paks env (dp_app_paks c) False c
           in if failed_insert
              then bind_out (dp_post dlv VQEC_DP_SM_EVENT_INTERNAL_ERR c1) (\<lambda>c2. Done (False, c2))
              else
                let tv = rel_time_to_timeval VQEC_DP_REPAIR_ACTIVITY_POLL_INTERVAL;
                    n = dp_tick c1;
                    c2 = c1\<lparr>dp_tick := Suc n\<rparr>
                in if \<not> dpe_event_create env n \<or> \<not> dpe_event_start env n
                   then bind_out (dp_post dlv VQEC_DP_SM_EVENT_INTERNAL_ERR
                                    (c2\<lparr>dp_activity_timer := None\<rparr>)) (\<lambda>c3. Done (False, c3))
                   else Done (True, c2\<lparr>dp_activity_timer := Some tv\<rparr>))"

definition vqec_dp_sm_enter_success_rcc :: dp_action where
  "vqec_dp_sm_enter_success_rcc env dlv state event arg c =
     bind_out (vqec_dp_sm_activity_timer_stop env dlv state event arg c) (\<lambda>(_, c1).
     Done (True, vqec_dpchan_rcc_success_notify env c1))"

definition vqec_dp_sm_enter_abort_rcc :: dp_action where
  "vqec_dp_sm_enter_abort_rcc env dlv state event arg c =
     bind_out (vqec_dp_sm_activity_timer_stop env dlv state event arg
                 (free_app_paks (dp_app_paks c) c)) (\<lambda>(_, c1).
     bind_out (vqec_dpchan_rcc_abort_notify env dlv c1) (\<lambda>c2. Done (True, c2)))"

definition vqec_dp_sm_primary_join :: dp_action where
  "vqec_dp_sm_primary_join env dlv state event arg c =
     bind_out (vqec_dp_sm_activity_timer_stop env dlv state event arg c) (\<lambda>(_, c1).
     Done (True, vqec_dp_sm_log env VQEC_DP_SM_LOG_ISSUED_JOIN state event
                   (vqec_dpchan_rcc_join_notify env c1)))"

definition vqec_dp_sm_send_ncsi :: dp_action where
  "vqec_dp_sm_send_ncsi env dlv state event arg c =
     Done (True, vqec_dp_sm_log env VQEC_DP_SM_LOG_FIRST_PRIMARY state event
                   (vqec_dpchan_rcc_ncsi_notify c))"

definition vqec_dp_sm_notify_er_en :: dp_action where
  "vqec_dp_sm_notify_er_en env dlv state event arg c =
     bind_out (vqec_dpchan_rcc_er_en_notify env dlv c) (\<lambda>c1.
     Done (True, vqec_dp_sm_log env VQEC_DP_SM_LOG_ER_EN state event c1))"

subsection \<open>Transitions and the table of states\<close>

definition vqec_dp_sm_action_fcn_init :: "vqec_dp_sm_event \<Rightarrow> dp_action" where
  "vqec_dp_sm_action_fcn_init event = vqec_dp_sm_null_action"

definition vqec_dp_sm_transition_fcn_init :: "vqec_dp_sm_event \<Rightarrow> vqec_dp_sm_state" where
  "vqec_dp_sm_transition_fcn_init event =
     (case event of
        VQEC_DP_SM_EVENT_START_RCC \<Rightarrow> VQEC_DP_SM_STATE_WAIT_FIRST_SEQ
      | VQEC_DP_SM_EVENT_ABORT \<Rightarrow> VQEC_DP_SM_STATE_ABORT
      | VQEC_DP_SM_EVENT_INTERNAL_ERR \<Rightarrow> VQEC_DP_SM_STATE_ABORT
      | _ \<Rightarrow> VQEC_DP_SM_STATE_INVALID)"

definition vqec_dp_sm_action_fcn_waitfirst :: "vqec_dp_sm_event \<Rightarrow> dp_action" where
  "vqec_dp_sm_action_fcn_waitfirst event =
     (case event of
        VQEC_DP_SM_EVENT_REPAIR \<Rightarrow> vqec_dp_sm_first_repair_actions
      | _ \<Rightarrow> vqec_dp_sm_null_action)"

definition vqec_dp_sm_transition_fcn_waitfirst :: "vqec_dp_sm_event \<Rightarrow> vqec_dp_sm_state" where
  "vqec_dp_sm_transition_fcn_waitfirst event =
     (case event of
        VQEC_DP_SM_EVENT_REPAIR \<Rightarrow> VQEC_DP_SM_STATE_WAIT_JOIN
      | VQEC_DP_SM_EVENT_ABORT \<Rightarrow> VQEC_DP_SM_STATE_ABORT
      | VQEC_DP_SM_EVENT_INTERNAL_ERR \<Rightarrow> VQEC_DP_SM_STATE_ABORT
      | VQEC_DP_SM_EVENT_TIME_FIRST_SEQ \<Rightarrow> VQEC_DP_SM_STATE_ABORT
      | _ \<Rightarrow> VQEC_DP_SM_STATE_INVALID)"

definition vqec_dp_sm_action_fcn_waitjoin :: "vqec_dp_sm_event \<Rightarrow> dp_action" where
  "vqec_dp_sm_action_fcn_waitjoin event =
     (case event of
        VQEC_DP_SM_EVENT_TIME_TO_JOIN \<Rightarrow> vqec_dp_sm_primary_join
      | _ \<Rightarrow> vqec_dp_sm_null_action)"

definition vqec_dp_sm_transition_fcn_waitjoin :: "vqec_dp_sm_event \<Rightarrow> vqec_dp_sm_state" where
  "vqec_dp_sm_transition_fcn_waitjoin event =
     (case event of
        VQEC_DP_SM_EVENT_TIME_TO_JOIN \<Rightarrow> VQEC_DP_SM_STATE_WAIT_EN_ER
      | VQEC_DP_SM_EVENT_ABORT \<Rightarrow> VQEC_DP_SM_STATE_ABORT
      | VQEC_DP_SM_EVENT_INTERNAL_ERR \<Rightarrow> VQEC_DP_SM_STATE_ABORT
      | VQEC_DP_SM_EVENT_ACTIVITY_TIMEOUT \<Rightarrow> VQEC_DP_SM_STATE_ABORT
      | _ \<Rightarrow> VQEC_DP_SM_STATE_INVALID)"

definition vqec_dp_sm_action_fcn_wait_er :: "vqec_dp_sm_event \<Rightarrow> dp_action" where
  "vqec_dp_sm_action_fcn_wait_er event =
     (case event of
        VQEC_DP_SM_EVENT_PRIMARY \<Rightarrow> vqec_dp_sm_send_ncsi
      | VQEC_DP_SM_EVENT_TIME_TO_EN_ER \<Rightarrow> vqec_dp_sm_notify_er_en
      | _ \<Rightarrow> vqec_dp_sm_null_action)"

definition vqec_dp_sm_transition_fcn_wait_er :: "vqec_dp_sm_event \<Rightarrow> vqec_dp_sm_state" where
  "vqec_dp_sm_transition_fcn_wait_er event =
     (case event of
        VQEC_DP_SM_EVENT_TIME_TO_EN_ER \<Rightarrow> VQEC_DP_SM_STATE_WAIT_END_BURST
      | VQEC_DP_SM_EVENT_PRIMARY \<Rightarrow> VQEC_DP_SM_STATE_WAIT_EN_ER
      | VQEC_DP_SM_EVENT_ABORT \<Rightarrow> VQEC_DP_SM_STATE_ABORT
      | VQEC_DP_SM_EVENT_INTERNAL_ERR \<Rightarrow> VQEC_DP_SM_STATE_ABORT
      | _ \<Rightarrow> VQEC_DP_SM_STATE_INVALID)"

definition vqec_dp_sm_action_fcn_waitburst :: "vqec_dp_sm_event \<Rightarrow> dp_action" where
  "vqec_dp_sm_action_fcn_waitburst event =
     (case event of
        VQEC_DP_SM_EVENT_PRIMARY \<Rightarrow> vqec_dp_sm_send_ncsi
      | _ \<Rightarrow> vqec_dp_sm_null_action)"

definition vqec_dp_sm_transition_fcn_waitburst :: "vqec_dp_sm_event \<Rightarrow> vqec_dp_sm_state" where
  "vqec_dp_sm_transition_fcn_waitburst event =
     (case event of
        VQEC_DP_SM_EVENT_TIME_END_BURST \<Rightarrow> VQEC_DP_SM_STATE_FIN_SUCCESS
      | VQEC_DP_SM_EVENT_PRIMARY \<Rightarrow> VQEC_DP_SM_STATE_WAIT_END_BURST
      | VQEC_DP_SM_EVENT_ABORT \<Rightarrow> VQEC_DP_SM_STATE_ABORT
      | VQEC_DP_SM_EVENT_INTERNAL_ERR \<Rightarrow> VQEC_DP_SM_STATE_ABORT
      | _ \<Rightarrow> VQEC_DP_SM_STATE_INVALID)"

definition vqec_dp_sm_action_fcn_finsuccess :: "vqec_dp_sm_event \<Rightarrow> dp_action" where
  "vqec_dp_sm_action_fcn_finsuccess event =
     (case event of
        VQEC_DP_SM_EVENT_PRIMARY \<Rightarrow> vqec_dp_sm_send_ncsi
      | _ \<Rightarrow> vqec_dp_sm_null_action)"

definition vqec_dp_sm_transition_fcn_finsuccess :: "vqec_dp_sm_event \<Rightarrow> vqec_dp_sm_state" where
  "vqec_dp_sm_transition_fcn_finsuccess event = VQEC_DP_SM_STATE_FIN_SUCCESS"

definition vqec_dp_sm_action_fcn_abort :: "vqec_dp_sm_event \<Rightarrow> dp_action" where
  "vqec_dp_sm_action_fcn_abort event = vqec_dp_sm_null_action"

definition vqec_dp_sm_transition_fcn_abort :: "vqec_dp_sm_event \<Rightarrow> vqec_dp_sm_state" where
  "vqec_dp_sm_transition_fcn_abort event = VQEC_DP_SM_STATE_ABORT"

record vqec_dp_sm_state_fcns =
  dentry_fcn :: dp_action
  dexit_fcn :: dp_action
  daction_map_fcn :: "vqec_dp_sm_event \<Rightarrow> dp_action"
  dtransition_fcn :: "vqec_dp_sm_event \<Rightarrow> vqec_dp_sm_state"

primrec s_dp_states :: "vqec_dp_sm_state \<Rightarrow> vqec_dp_sm_state_fcns option" where
  "s_dp_states VQEC_DP_SM_STATE_INVALID = None"
| "s_dp_states VQEC_DP_SM_STATE_INIT =
     Some \<lparr>dentry_fcn = vqec_dp_sm_enter_def, dexit_fcn = vqec_dp_sm_exit_def,
           daction_map_fcn = vqec_dp_sm_action_fcn_init,
           dtransition_fcn = vqec_dp_sm_transition_fcn_init\<rparr>"
| "s_dp_states VQEC_DP_SM_STATE_WAIT_FIRST_SEQ =
     Some \<lparr>dentry_fcn = vqec_dp_sm_waitfirst_timer_start, dexit_fcn = vqec_dp_sm_waitfirst_timer_stop,
           daction_map_fcn = vqec_dp_sm_action_fcn_waitfirst,
           dtransition_fcn = vqec_dp_sm_transition_fcn_waitfirst\<rparr>"
| "s_dp_states VQEC_DP_SM_STATE_WAIT_JOIN =
     Some \<lparr>dentry_fcn = vqec_dp_sm_join_timer_start, dexit_fcn = vqec_dp_sm_join_timer_stop,
           daction_map_fcn = vqec_dp_sm_action_fcn_waitjoin,
           dtransition_fcn = vqec_dp_sm_transition_fcn_waitjoin\<rparr>"
| "s_dp_states VQEC_DP_SM_STATE_WAIT_EN_ER =
     Some \<lparr>dentry_fcn = vqec_dp_sm_er_timer_start, dexit_fcn = vqec_dp_sm_er_timer_stop,
           daction_map_fcn = vqec_dp_sm_action_fcn_wait_er,
           dtransition_fcn = vqec_dp_sm_transition_fcn_wait_er\<rparr>"
| "s_dp_states VQEC_DP_SM_STATE_WAIT_END_BURST =
     Some \<lparr>dentry_fcn = vqec_dp_sm_waitburst_timer_start, dexit_fcn = vqec_dp_sm_waitburst_timer_stop,
           daction_map_fcn = vqec_dp_sm_action_fcn_waitburst,
           dtransition_fcn = vqec_dp_sm_transition_fcn_waitburst\<rparr>"
| "s_dp_states VQEC_DP_SM_STATE_FIN_SUCCESS =
     Some \<lparr>dentry_fcn = vqec_dp_sm_enter_success_rcc, dexit_fcn = vqec_dp_sm_exit_def,
           daction_map_fcn = vqec_dp_sm_action_fcn_finsuccess,
           dtransition_fcn = vqec_dp_sm_transition_fcn_finsuccess\<rparr>"
| "s_dp_states VQEC_DP_SM_STATE_ABORT =
     Some \<lparr>dentry_fcn = vqec_dp_sm_enter_abort_rcc, dexit_fcn = vqec_dp_sm_exit_def,
           daction_map_fcn = vqec_dp_sm_action_fcn_abort,
           dtransition_fcn = vqec_dp_sm_transition_fcn_abort\<rparr>"

definition vqec_dp_sm_guard_fcn :: "vqec_dp_sm_state \<Rightarrow> vqec_dp_sm_event \<Rightarrow> bool" where
  "vqec_dp_sm_guard_fcn state event =
     (case s_dp_states state of None \<Rightarrow> False
      | Some f \<Rightarrow> dtransition_fcn f event \<noteq> VQEC_DP_SM_STATE_INVALID)"

subsection \<open>Delivery of an event\<close>

type_synonym dp_loop = "u32 \<times> u32 \<times> bool \<times> vqec_dpchan"

definition dp_serve_event ::
  "dp_env \<Rightarrow> dp_deliver \<Rightarrow> vqec_dp_sm_event \<Rightarrow> u64 \<Rightarrow> vqec_dpchan \<Rightarrow> dp_res" where
  "dp_serve_event env dlv event arg c =
     (case s_dp_states (dp_state c) of
        None \<Rightarrow> Assert_failed
      | Some f \<Rightarrow>
          bind_out (daction_map_fcn f event env dlv (dp_state c) event arg c) (\<lambda>(ra, c1).
          (let next_state = dtransition_fcn f event
           in if next_state \<noteq> dp_state c1 then
                bind_out (dexit_fcn f env dlv (dp_state c1) event arg c1) (\<lambda>(rx, c2).
                (let c3 = vqec_dp_sm_log env VQEC_DP_SM_LOG_STATE_EXIT (dp_state c2) event c2;
                     c4 = c3\<lparr>dp_state := next_state\<rparr>
                 in case s_dp_states next_state of
                      None \<Rightarrow> Assert_failed
                    | Some g \<Rightarrow>
                        bind_out (dentry_fcn g env dlv (dp_state c4) event arg c4) (\<lambda>(re, c5).
                        Done (ra \<and> rx \<and> re,
                              vqec_dp_sm_log env VQEC_DP_SM_LOG_STATE_ENTER (dp_state c5) event c5))))
              else Done (ra, c1))))"

definition dp_loop_body :: "dp_env \<Rightarrow> dp_deliver \<Rightarrow> dp_loop \<Rightarrow> dp_loop outcome" where
  "dp_loop_body env dlv l =
     (case l of (cur, nxt_q_idx, ret_act, c) \<Rightarrow>
        let slot = q_slots (dp_event_q c) ! unat cur;
            event = sl_event slot;
            ret = vqec_dp_sm_guard_fcn (dp_state c) event;
            c1 = vqec_dp_sm_log env VQEC_DP_SM_LOG_STATE_EVENT (dp_state c) event c
        in bind_out (if ret then dp_serve_event env dlv event (sl_arg slot) c1 else Done (True, c1))
             (\<lambda>(r, c2). Done (nxt_q_idx, (nxt_q_idx + 1) mod SM_MAX_EVENTQ_DEPTH, ret_act \<and> r,
                c2\<lparr>dp_event_q := evq_clear VQEC_DP_SM_EVENT_START_RCC cur (dp_event_q c2)\<rparr>)))"

primrec dp_loop_run :: "dp_env \<Rightarrow> dp_deliver \<Rightarrow> nat \<Rightarrow> dp_loop \<Rightarrow> dp_loop outcome" where
  "dp_loop_run env dlv 0 l = Out_of_fuel"
| "dp_loop_run env dlv (Suc n) l =
     bind_out (dp_loop_body env dlv l) (\<lambda>l'.
       case l' of (_, _, _, c) \<Rightarrow>
         if q_depth (dp_event_q c) = 0 then Done l' else dp_loop_run env dlv n l')"

definition DP_LOOP_ROUNDS :: nat where "DP_LOOP_ROUNDS = 8"

primrec dp_deliver_rec :: "nat \<Rightarrow> dp_env \<Rightarrow> dp_deliver" where
  "dp_deliver_rec 0 env event arg c = Out_of_fuel"
| "dp_deliver_rec (Suc d) env event arg c =
     (if s_dp_states (dp_state c) = None then Assert_failed
      else
        let (cur_time, c1) = dp_sys_time env c;
            cur = q_idx (dp_event_q c1)
        in bind_out (evq_lease event arg (dp_event_q c1)) (\<lambda>q.
           let c2 = c1\<lparr>dp_event_q := q,
                       dp_event_mask := dp_event_mask c1 OR push_bit (vqec_dp_sm_event_no event) 1\<rparr>
           in if q_depth q > 1 then Done (True, c2)
              else bind_out (dp_loop_run env (dp_deliver_rec d env) DP_LOOP_ROUNDS
                               (cur, q_idx q, True, c2))
                     (\<lambda>(_, _, ret_act, c3). Done (ret_act, c3))))"

definition vqec_dp_sm_deliver_event :: "dp_env \<Rightarrow> dp_deliver" where
  "vqec_dp_sm_deliver_event env = dp_deliver_rec 2 env"

subsection \<open>Timer handlers, start and end\<close>

definition vqec_dp_sm_waitfirst_timeout_handler :: "dp_env \<Rightarrow> vqec_dpchan \<Rightarrow> vqec_dpchan outcome" where
  "vqec_dp_sm_waitfirst_timeout_handler env c =
     dp_post (vqec_dp_sm_deliver_event env) VQEC_DP_SM_EVENT_TIME_FIRST_SEQ c"

definition vqec_dp_sm_join_timeout_handler :: "dp_env \<Rightarrow> vqec_dpchan \<Rightarrow> vqec_dpchan outcome" where
  "vqec_dp_sm_join_timeout_handler env c =
     dp_post (vqec_dp_sm_deliver_event env) VQEC_DP_SM_EVENT_TIME_TO_JOIN c"

definition vqec_dp_sm_er_timeout_handler :: "dp_env \<Rightarrow> vqec_dpchan \<Rightarrow> vqec_dpchan outcome" where
  "vqec_dp_sm_er_timeout_handler env c =
     dp_post (vqec_dp_sm_deliver_event env) VQEC_DP_SM_EVENT_TIME_TO_EN_ER c"

definition vqec_dp_sm_waitburst_timeout_handler :: "dp_env \<Rightarrow> vqec_dpchan \<Rightarrow> vqec_dpchan outcome" where
  "vqec_dp_sm_waitburst_timeout_handler env c =
     (let (now, c1) = dp_sys_time env c
      in dp_post (vqec_dp_sm_deliver_event env) VQEC_DP_SM_EVENT_TIME_END_BURST
           (c1\<lparr>dp_burst_end_time := now\<rparr>))"

definition vqec_dp_sm_activity_timer_handler :: "dp_env \<Rightarrow> vqec_dpchan \<Rightarrow> vqec_dpchan outcome" where
  "vqec_dp_sm_activity_timer_handler env c =
     (let (cur_time, c1) = dp_sys_time env c
      in if rel_time_gt (abs_minus_abs_time cur_time (dp_last_repair_pak_ts c1))
              VQEC_DP_REPAIR_ACTIVITY_TIMEOUT
         then dp_post (vqec_dp_sm_deliver_event env) VQEC_DP_SM_EVENT_ACTIVITY_TIMEOUT c1
         else Done c1)"

definition vqec_dp_sm_init :: "vqec_dpchan \<Rightarrow> vqec_dpchan" where
  "vqec_dp_sm_init c = c\<lparr>dp_state := VQEC_DP_SM_STATE_INIT\<rparr>"

definition vqec_dp_sm_deinit :: "dp_env \<Rightarrow> vqec_dpchan \<Rightarrow> vqec_dpchan outcome" where
  "vqec_dp_sm_deinit env c =
     (if dp_state c \<noteq> VQEC_DP_SM_STATE_INVALID
      then dp_post (vqec_dp_sm_deliver_event env) VQEC_DP_SM_EVENT_ABORT c else Done c)"

definition dp_event_seen :: "vqec_dpchan \<Rightarrow> vqec_dp_sm_event \<Rightarrow> bool" where
  "dp_event_seen c event = (dp_event_mask c AND push_bit (vqec_dp_sm_event_no event) 1 \<noteq> 0)"

definition vqec_dp_sm_fail_reason :: "vqec_dpchan \<Rightarrow> string" where
  "vqec_dp_sm_fail_reason c =
     (if \<not> dp_rcc_enabled c then ''RCC_DISABLED''
      else if dp_rcc_in_abort c then
        if dp_event_seen c VQEC_DP_SM_EVENT_ABORT then ''CP_ABORT''
        else if dp_event_seen c VQEC_DP_SM_EVENT_INTERNAL_ERR then ''INTERNAL_ERR''
        else if dp_event_seen c VQEC_DP_SM_EVENT_TIME_FIRST_SEQ then ''FIRST_REPAIR_TIMEOUT''
        else if dp_event_seen c VQEC_DP_SM_EVENT_ACTIVITY_TIMEOUT then ''REPAIR_TIMEOUT''
        else ''UNKNOWN''
      else ''NONE'')"


subsection \<open>Frames\<close>

named_theorems dp_frame

lemma vqec_dp_sm_log_frame [dp_frame]:
  "dp_state (vqec_dp_sm_log env k st ev c) = dp_state c"
  "dp_event_q (vqec_dp_sm_log env k st ev c) = dp_event_q c"
  "dp_rx_primary (vqec_dp_sm_log env k st ev c) = dp_rx_primary c"
  "dp_rx_repair (vqec_dp_sm_log env k st ev c) = dp_rx_repair c"
  "dp_wait_first_timer (vqec_dp_sm_log env k st ev c) = dp_wait_first_timer c"
  "dp_join_timer (vqec_dp_sm_log env k st ev c) = dp_join_timer c"
  "dp_er_timer (vqec_dp_sm_log env k st ev c) = dp_er_timer c"
  "dp_burst_end_timer (vqec_dp_sm_log env k st ev c) = dp_burst_end_timer c"
  "dp_activity_timer (vqec_dp_sm_log env k st ev c) = dp_activity_timer c"
  "dp_rcc_in_abort (vqec_dp_sm_log env k st ev c) = dp_rcc_in_abort c"
  "dp_joined_primary (vqec_dp_sm_log env k st ev c) = dp_joined_primary c"
  by (simp_all add: vqec_dp_sm_log_def dp_sys_time_def Let_def)

lemma dp_call_out_frame [dp_frame]:
  "dp_state (dp_call_out k c) = dp_state c"
  "dp_event_q (dp_call_out k c) = dp_event_q c"
  "dp_rx_primary (dp_call_out k c) = dp_rx_primary c"
  "dp_rx_repair (dp_call_out k c) = dp_rx_repair c"
  "dp_wait_first_timer (dp_call_out k c) = dp_wait_first_timer c"
  "dp_join_timer (dp_call_out k c) = dp_join_timer c"
  "dp_er_timer (dp_call_out k c) = dp_er_timer c"
  "dp_burst_end_timer (dp_call_out k c) = dp_burst_end_timer c"
  "dp_activity_timer (dp_call_out k c) = dp_activity_timer c"
  "dp_rcc_in_abort (dp_call_out k c) = dp_rcc_in_abort c"
  "dp_joined_primary (dp_call_out k c) = dp_joined_primary c"
  by (simp_all add: dp_call_out_def)

lemma join_fec_frame [dp_frame]:
  "dp_state (vqec_dpchan_join_fec env c) = dp_state c"
  "dp_event_q (vqec_dpchan_join_fec env c) = dp_event_q c"
  "dp_rx_primary (vqec_dpchan_join_fec env c) = dp_rx_primary c"
  "dp_rx_repair (vqec_dpchan_join_fec env c) = dp_rx_repair c"
  "dp_wait_first_timer (vqec_dpchan_join_fec env c) = dp_wait_first_timer c"
  "dp_join_timer (vqec_dpchan_join_fec env c) = dp_join_timer c"
  "dp_er_timer (vqec_dpchan_join_fec env c) = dp_er_timer c"
  "dp_burst_end_timer (vqec_dpchan_join_fec env c) = dp_burst_end_timer c"
  "dp_activity_timer (vqec_dpchan_join_fec env c) = dp_activity_timer c"
  "dp_rcc_in_abort (vqec_dpchan_join_fec env c) = dp_rcc_in_abort c"
  "dp_joined_primary (vqec_dpchan_join_fec env c) = dp_joined_primary c"
  by (simp_all add: vqec_dpchan_join_fec_def dp_stream_lookup_def dp_frame Let_def)

lemma join_primary_frame [dp_frame]:
  "dp_state (vqec_dpchan_join_primary env c) = dp_state c"
  "dp_event_q (vqec_dpchan_join_primary env c) = dp_event_q c"
  "dp_rx_primary (vqec_dpchan_join_primary env c) = dp_rx_primary c"
  "dp_rx_repair (vqec_dpchan_join_primary env c) = dp_rx_repair c"
  "dp_wait_first_timer (vqec_dpchan_join_primary env c) = dp_wait_first_timer c"
  "dp_join_timer (vqec_dpchan_join_primary env c) = dp_join_timer c"
  "dp_er_timer (vqec_dpchan_join_primary env c) = dp_er_timer c"
  "dp_burst_end_timer (vqec_dpchan_join_primary env c) = dp_burst_end_timer c"
  "dp_activity_timer (vqec_dpchan_join_primary env c) = dp_activity_timer c"
  "dp_rcc_in_abort (vqec_dpchan_join_primary env c) = dp_rcc_in_abort c"
  by (simp_all add: vqec_dpchan_join_primary_def dp_stream_lookup_def dp_sys_time_def dp_frame Let_def)

lemma join_primary_joins:
  "\<forall>n. dpe_stream_found env n \<Longrightarrow> dp_joined_primary (vqec_dpchan_join_primary env c)"
  "dp_joined_primary c \<Longrightarrow> dp_joined_primary (vqec_dpchan_join_primary env c)"
  by (simp_all add: vqec_dpchan_join_primary_def dp_stream_lookup_def dp_sys_time_def Let_def)

lemma reset_repair_frame [dp_frame]:
  "dp_state (vqec_dpchan_reset_repair_stream_rcc_state env c) = dp_state c"
  "dp_event_q (vqec_dpchan_reset_repair_stream_rcc_state env c) = dp_event_q c"
  "dp_rx_primary (vqec_dpchan_reset_repair_stream_rcc_state env c) = dp_rx_primary c"
  "dp_rx_repair (vqec_dpchan_reset_repair_stream_rcc_state env c) = dp_rx_repair c"
  "dp_wait_first_timer (vqec_dpchan_reset_repair_stream_rcc_state env c) = dp_wait_first_timer c"
  "dp_join_timer (vqec_dpchan_reset_repair_stream_rcc_state env c) = dp_join_timer c"
  "dp_er_timer (vqec_dpchan_reset_repair_stream_rcc_state env c) = dp_er_timer c"
  "dp_burst_end_timer (vqec_dpchan_reset_repair_stream_rcc_state env c) = dp_burst_end_timer c"
  "dp_activity_timer (vqec_dpchan_reset_repair_stream_rcc_state env c) = dp_activity_timer c"
  "dp_rcc_in_abort (vqec_dpchan_reset_repair_stream_rcc_state env c) = dp_rcc_in_abort c"
  "dp_joined_primary (vqec_dpchan_reset_repair_stream_rcc_state env c) = dp_joined_primary c"
  by (simp_all add: vqec_dpchan_reset_repair_stream_rcc_state_def dp_stream_lookup_def dp_frame Let_def)

lemma free_app_paks_frame [dp_frame]:
  "dp_state (free_app_paks ps c) = dp_state c"
  "dp_event_q (free_app_paks ps c) = dp_event_q c"
  "dp_rx_primary (free_app_paks ps c) = dp_rx_primary c"
  "dp_rx_repair (free_app_paks ps c) = dp_rx_repair c"
  "dp_wait_first_timer (free_app_paks ps c) = dp_wait_first_timer c"
  "dp_join_timer (free_app_paks ps c) = dp_join_timer c"
  "dp_er_timer (free_app_paks ps c) = dp_er_timer c"
  "dp_burst_end_timer (free_app_paks ps c) = dp_burst_end_timer c"
  "dp_activity_timer (free_app_paks ps c) = dp_activity_timer c"
  "dp_rcc_in_abort (free_app_paks ps c) = dp_rcc_in_abort c"
  "dp_joined_primary (free_app_paks ps c) = dp_joined_primary c"
  by (induction ps arbitrary: c) (simp_all add: dp_frame)

lemma insert_app_paks_frame:
  "insert_app_paks env ps b c = (b', c') \<Longrightarrow>
   dp_state c' = dp_state c \<and> dp_event_q c' = dp_event_q c \<and> dp_rx_primary c' = dp_rx_primary c \<and>
   dp_rx_repair c' = dp_rx_repair c \<and> dp_wait_first_timer c' = dp_wait_first_timer c \<and>
   dp_join_timer c' = dp_join_timer c \<and> dp_er_timer c' = dp_er_timer c \<and>
   dp_burst_end_timer c' = dp_burst_end_timer c \<and> dp_activity_timer c' = dp_activity_timer c \<and>
   dp_rcc_in_abort c' = dp_rcc_in_abort c \<and> dp_joined_primary c' = dp_joined_primary c"
proof (induction ps arbitrary: b c)
  case (Cons p ps)
  then show ?case by (cases b) (fastforce simp: dp_frame Let_def)+
qed simp

subsection \<open>Packets and events while an event is served\<close>

text \<open>An event that an action delivers while another one is served is queued.\<close>

lemma dp_post_nested:
  assumes "dp_state c \<noteq> VQEC_DP_SM_STATE_INVALID" and "evq_ok (dp_event_q c)"
    and "evq_items (dp_event_q c) \<noteq> []" and "length (evq_items (dp_event_q c)) < 4"
  shows "\<exists>q'. evq_ok q' \<and> evq_items q' = evq_items (dp_event_q c) @ [ev] \<and>
    evq_head q' = evq_head (dp_event_q c) \<and>
    dp_post (dp_deliver_rec (Suc d) env) ev c = Done (c\<lparr>dp_tick := Suc (dp_tick c), dp_event_q := q',
      dp_event_mask := dp_event_mask c OR push_bit (vqec_dp_sm_event_no ev) 1\<rparr>)"
proof -
  obtain q' where q': "evq_lease ev 0 (dp_event_q c) = Done q'" "evq_ok q'"
      "evq_items q' = evq_items (dp_event_q c) @ [ev]" "evq_head q' = evq_head (dp_event_q c)"
    using evq_lease_ok [OF assms(2,4), of ev 0] by auto
  have "unat (q_depth q') = Suc (length (evq_items (dp_event_q c)))"
    using evq_depth_items [OF q'(2)] q'(3) by simp
  then have "q_depth q' > 1" using assms(3) by (simp add: word_less_nat_alt)
  moreover have "s_dp_states (dp_state c) \<noteq> None" using assms(1) by (cases "dp_state c") auto
  ultimately show ?thesis using q' by (auto simp: dp_post_def dp_sys_time_def Let_def)
qed

text \<open>What a poll leaves behind: the state and the timers are untouched, and the queue is longer by
  at most one event for the first primary and one for the first repair packet.\<close>

definition dp_same :: "vqec_dpchan \<Rightarrow> vqec_dpchan \<Rightarrow> bool" where
  "dp_same c c' \<longleftrightarrow>
     dp_state c' = dp_state c \<and> dp_wait_first_timer c' = dp_wait_first_timer c \<and>
     dp_join_timer c' = dp_join_timer c \<and> dp_er_timer c' = dp_er_timer c \<and>
     dp_burst_end_timer c' = dp_burst_end_timer c \<and> dp_activity_timer c' = dp_activity_timer c \<and>
     dp_rcc_in_abort c' = dp_rcc_in_abort c \<and> dp_joined_primary c' = dp_joined_primary c"

lemma dp_same_refl: "dp_same c c"
  by (simp add: dp_same_def)

lemma dp_same_trans: "dp_same a b \<Longrightarrow> dp_same b c \<Longrightarrow> dp_same a c"
  by (simp add: dp_same_def)

text \<open>The first packets of a kind that have yet to come; a repair packet counts as long as the
  machine has not ended.\<close>

definition dp_first_left :: "vqec_dpchan \<Rightarrow> nat" where
  "dp_first_left c = of_bool (\<not> dp_rx_primary c) +
     of_bool (\<not> dp_rx_repair c \<and> vqec_dp_sm_state_no (dp_state c) < 6)"

lemma dp_first_left_eq:
  "dp_state c' = dp_state c \<Longrightarrow> dp_rx_primary c' = dp_rx_primary c \<Longrightarrow> dp_rx_repair c' = dp_rx_repair c \<Longrightarrow>
   dp_first_left c' = dp_first_left c"
  by (simp add: dp_first_left_def)

definition dp_polled :: "vqec_dpchan \<Rightarrow> vqec_dp_sm_event list \<Rightarrow> vqec_dpchan \<Rightarrow> bool" where
  "dp_polled c xs c' \<longleftrightarrow> dp_same c c' \<and> evq_ok (dp_event_q c') \<and>
     evq_head (dp_event_q c') = evq_head (dp_event_q c) \<and>
     evq_items (dp_event_q c') = evq_items (dp_event_q c) @ xs \<and>
     set xs \<subseteq> {VQEC_DP_SM_EVENT_PRIMARY, VQEC_DP_SM_EVENT_REPAIR} \<and>
     length xs + dp_first_left c' = dp_first_left c \<and>
     (dp_rx_repair c \<longrightarrow> dp_rx_repair c') \<and> (dp_rx_primary c \<longrightarrow> dp_rx_primary c') \<and>
     (VQEC_DP_SM_EVENT_REPAIR \<in> set xs \<longrightarrow> vqec_dp_sm_state_no (dp_state c) < 6)"

definition dp_room :: "vqec_dpchan \<Rightarrow> nat \<Rightarrow> bool" where
  "dp_room c n \<longleftrightarrow> dp_state c \<noteq> VQEC_DP_SM_STATE_INVALID \<and> evq_ok (dp_event_q c) \<and>
     evq_items (dp_event_q c) \<noteq> [] \<and> length (evq_items (dp_event_q c)) + dp_first_left c + n \<le> 4"

lemma dp_polled_refl: "evq_ok (dp_event_q c) \<Longrightarrow> dp_polled c [] c"
  by (simp add: dp_polled_def dp_same_refl)

lemma dp_polled_trans: "dp_polled a xs b \<Longrightarrow> dp_polled b ys c \<Longrightarrow> dp_polled a (xs @ ys) c"
  unfolding dp_polled_def using dp_same_trans by (auto simp: dp_same_def)

lemma dp_polled_room: "dp_room c n \<Longrightarrow> dp_polled c xs c' \<Longrightarrow> dp_room c' n"
  unfolding dp_polled_def dp_room_def by (auto simp: dp_same_def)

lemma update_state_ok:
  assumes room: "dp_room c n"
    and ev: "ev = VQEC_DP_CHAN_RX_PRIMARY_PAK \<or>
      ev = VQEC_DP_CHAN_RX_REPAIR_PAK \<and> vqec_dp_sm_state_no (dp_state c) < 6"
  shows "\<exists>c' xs. vqec_dpchan_pak_event_update_state env (dp_deliver_rec (Suc d) env) ev pak t c =
    Done (True, c') \<and> dp_polled c xs c'"
proof -
  define p where "p = (if IS_ABS_TIME_ZERO t then dp_sys_time env c else (t, c))"
  obtain t1 c1 where p: "p = (t1, c1)" by (cases p)
  have c1: "c1 = c \<or> c1 = c\<lparr>dp_tick := Suc (dp_tick c)\<rparr>"
    using p by (auto simp: p_def dp_sys_time_def split: if_splits)
  have room1: "dp_room c1 n" and same: "dp_same c c1" "dp_event_q c1 = dp_event_q c"
    "dp_rx_primary c1 = dp_rx_primary c" "dp_rx_repair c1 = dp_rx_repair c"
    using c1 room by (auto simp: dp_room_def dp_same_def dp_first_left_def)
  show ?thesis
    using ev
  proof (elim disjE conjE)
    assume e: "ev = VQEC_DP_CHAN_RX_PRIMARY_PAK"
    show ?thesis
    proof (cases "dp_rx_primary c1")
      case True
      then show ?thesis
        using e p same room1
        by (intro exI [of _ "c1\<lparr>dp_last_primary_pak_ts := t1\<rparr>"] exI [of _ "[]"])
          (simp add: vqec_dpchan_pak_event_update_state_def p_def [symmetric] dp_polled_def dp_room_def
            dp_first_left_def dp_same_def)
    next
      case False
      let ?c = "vqec_dpchan_pak_event_record_first_primary pak t1 c1"
      have fr: "dp_same c1 ?c" "dp_event_q ?c = dp_event_q c1" "dp_rx_primary ?c"
        "dp_rx_repair ?c = dp_rx_repair c1"
        by (simp_all add: vqec_dpchan_pak_event_record_first_primary_def dp_same_def dp_frame Let_def)
      have "dp_state ?c \<noteq> VQEC_DP_SM_STATE_INVALID" "evq_ok (dp_event_q ?c)"
        "evq_items (dp_event_q ?c) \<noteq> []" "length (evq_items (dp_event_q ?c)) < 4"
        using room1 fr False by (auto simp: dp_room_def dp_same_def dp_first_left_def)
      from dp_post_nested [OF this, of VQEC_DP_SM_EVENT_PRIMARY d env]
      obtain q' m where q': "evq_ok q'" "evq_items q' = evq_items (dp_event_q ?c) @ [VQEC_DP_SM_EVENT_PRIMARY]"
        "evq_head q' = evq_head (dp_event_q ?c)"
        "dp_post (dp_deliver_rec (Suc d) env) VQEC_DP_SM_EVENT_PRIMARY ?c =
          Done (?c\<lparr>dp_tick := Suc (dp_tick ?c), dp_event_q := q', dp_event_mask := m\<rparr>)" by blast
      let ?c' = "?c\<lparr>dp_tick := Suc (dp_tick ?c), dp_event_q := q', dp_event_mask := m,
        dp_last_primary_pak_ts := t1\<rparr>"
      have "dp_polled c [VQEC_DP_SM_EVENT_PRIMARY] ?c'"
        using q' fr same False by (auto simp: dp_polled_def dp_first_left_def dp_same_def)
      then show ?thesis
        using e p False q'(4)
        by (intro exI [of _ ?c'] exI [of _ "[VQEC_DP_SM_EVENT_PRIMARY]"])
          (simp add: vqec_dpchan_pak_event_update_state_def p_def [symmetric] del: dp_deliver_rec.simps)
    qed
  next
    assume e: "ev = VQEC_DP_CHAN_RX_REPAIR_PAK" and st: "vqec_dp_sm_state_no (dp_state c) < 6"
    show ?thesis
    proof (cases "\<not> dp_rx_repair c1 \<and> dp_process_first_repair c1")
      case False
      then show ?thesis
        using e p same room1
        by (intro exI [of _ "c1\<lparr>dp_last_repair_pak_ts := t1\<rparr>"] exI [of _ "[]"])
          (auto simp: vqec_dpchan_pak_event_update_state_def p_def [symmetric] dp_polled_def dp_room_def
            dp_first_left_def dp_same_def)
    next
      case True
      let ?c = "c1\<lparr>dp_first_repair_seq := rp_seq_num pak, dp_first_repair_ts := rp_rcv_ts pak,
        dp_first_repair_ev_ts := t1, dp_rx_repair := True, dp_process_first_repair := False\<rparr>"
      have fr: "dp_same c1 ?c" "dp_event_q ?c = dp_event_q c1" "dp_rx_primary ?c = dp_rx_primary c1"
        "dp_rx_repair ?c"
        by (simp_all add: dp_same_def)
      have "dp_state ?c \<noteq> VQEC_DP_SM_STATE_INVALID" "evq_ok (dp_event_q ?c)"
        "evq_items (dp_event_q ?c) \<noteq> []" "length (evq_items (dp_event_q ?c)) < 4"
        using room1 True st same by (auto simp: dp_room_def dp_same_def dp_first_left_def)
      from dp_post_nested [OF this, of VQEC_DP_SM_EVENT_REPAIR d env]
      obtain q' m where q': "evq_ok q'" "evq_items q' = evq_items (dp_event_q ?c) @ [VQEC_DP_SM_EVENT_REPAIR]"
        "evq_head q' = evq_head (dp_event_q ?c)"
        "dp_post (dp_deliver_rec (Suc d) env) VQEC_DP_SM_EVENT_REPAIR ?c =
          Done (?c\<lparr>dp_tick := Suc (dp_tick ?c), dp_event_q := q', dp_event_mask := m\<rparr>)" by blast
      let ?c' = "?c\<lparr>dp_tick := Suc (dp_tick ?c), dp_event_q := q', dp_event_mask := m,
        dp_last_repair_pak_ts := t1\<rparr>"
      have "dp_polled c [VQEC_DP_SM_EVENT_REPAIR] ?c'"
        using q' fr same True st by (auto simp: dp_polled_def dp_first_left_def dp_same_def)
      then show ?thesis
        using e p True q'(4)
        by (intro exI [of _ ?c'] exI [of _ "[VQEC_DP_SM_EVENT_REPAIR]"])
          (simp add: vqec_dpchan_pak_event_update_state_def p_def [symmetric] del: dp_deliver_rec.simps)
    qed
  qed
qed

lemma pak_event_ok:
  assumes room: "dp_room c n"
  shows "\<exists>a c' xs. vqec_dpchan_pak_event env (dp_deliver_rec (Suc d) env) ev pak t c = Done (a, c') \<and>
    dp_polled c xs c'"
proof -
  have ok: "evq_ok (dp_event_q c)" using room by (simp add: dp_room_def)
  note refl = dp_polled_refl [OF ok]
  show ?thesis
  proof (cases "vqec_dp_sm_state_no (dp_state c) \<ge> 6 \<or> \<not> dp_rcc_enabled c")
    case True
    show ?thesis
    proof (cases "\<not> dp_rx_primary c \<and> ev = VQEC_DP_CHAN_RX_PRIMARY_PAK")
      case p: True
      then show ?thesis
        using update_state_ok [OF room, of ev env d pak t] True
        by (auto simp: vqec_dpchan_pak_event_def)
    qed (use True refl in \<open>auto simp: vqec_dpchan_pak_event_def\<close>)
  next
    case False
    show ?thesis
    proof (cases "dp_state c = VQEC_DP_SM_STATE_INIT \<or> ev = VQEC_DP_CHAN_RX_FEC_PAK")
      case fec: False
      then have "ev = VQEC_DP_CHAN_RX_PRIMARY_PAK \<or>
          ev = VQEC_DP_CHAN_RX_REPAIR_PAK \<and> vqec_dp_sm_state_no (dp_state c) < 6"
        using False by (cases ev) auto
      then show ?thesis
        using update_state_ok [OF room, of ev env d pak t] False fec
        by (cases ev) (auto simp: vqec_dpchan_pak_event_def)
    qed (use False refl in \<open>auto simp: vqec_dpchan_pak_event_def\<close>)
  qed
qed

lemma rx_all_ok:
  assumes "dp_room c n"
  shows "\<exists>c' xs. dp_rx_all env (dp_deliver_rec (Suc d) env) ps c = Done c' \<and> dp_polled c xs c'"
  using assms
proof (induction ps arbitrary: c)
  case Nil
  then show ?case using dp_polled_refl by (auto simp: dp_room_def)
next
  case (Cons p ps)
  obtain a c1 xs where c1: "vqec_dpchan_pak_event env (dp_deliver_rec (Suc d) env) (fst p) (snd p)
      ABS_TIME_0 c = Done (a, c1)" "dp_polled c xs c1"
    using pak_event_ok [OF Cons.prems] by blast
  obtain c2 ys where "dp_rx_all env (dp_deliver_rec (Suc d) env) ps c1 = Done c2" "dp_polled c1 ys c2"
    using Cons.IH [OF dp_polled_room [OF Cons.prems c1(2)]] by blast
  with c1 show ?case by (simp del: dp_deliver_rec.simps) (blast intro: dp_polled_trans)
qed

lemma dp_polled_left:
  assumes "dp_polled c1 xs c'" and "dp_same c c1" and "dp_event_q c1 = dp_event_q c"
    and "dp_rx_primary c1 = dp_rx_primary c" and "dp_rx_repair c1 = dp_rx_repair c"
  shows "dp_polled c xs c'"
  using assms by (auto simp: dp_polled_def dp_first_left_def dp_same_def)

lemma dp_polled_right:
  assumes "dp_polled c xs c1" and "dp_same c1 c'" and "dp_event_q c' = dp_event_q c1"
    and "dp_rx_primary c' = dp_rx_primary c1" and "dp_rx_repair c' = dp_rx_repair c1"
  shows "dp_polled c xs c'"
  using assms by (auto simp: dp_polled_def dp_first_left_def dp_same_def)

lemma poll_stream_ok:
  assumes room: "dp_room c n"
  shows "\<exists>c' xs. dp_poll_stream env (dp_deliver_rec (Suc d) env) s c = Done c' \<and> dp_polled c xs c'"
proof (cases "s \<in> set (dp_streams c)")
  case True
  let ?c = "c\<lparr>dp_tick := Suc (dp_tick c)\<rparr>"
  have "dp_room ?c n" using room by (simp add: dp_room_def dp_first_left_def)
  then obtain c' xs where
    "dp_rx_all env (dp_deliver_rec (Suc d) env) (dpe_poll env (dp_tick ?c)) ?c = Done c'" "dp_polled ?c xs c'"
    using rx_all_ok by blast
  moreover have "dp_polled c ys d" if "dp_polled ?c ys d" for ys d
    by (rule dp_polled_left [OF that]) (simp_all add: dp_same_def)
  moreover have "dp_polled c [] ?c"
    using room by (simp add: dp_polled_def dp_same_def dp_room_def dp_first_left_def)
  ultimately show ?thesis using True by (auto simp: dp_poll_stream_def dp_stream_lookup_def)
next
  case False
  then show ?thesis using dp_polled_refl [of c] room by (auto simp: dp_poll_stream_def dp_room_def)
qed

lemma er_en_notify_ok:
  assumes room: "dp_room c n"
  shows "\<exists>c' xs. vqec_dpchan_rcc_er_en_notify env (dp_deliver_rec (Suc d) env) c = Done c' \<and>
    dp_polled c xs c'"
proof -
  obtain c1 xs where c1: "dp_poll_stream env (dp_deliver_rec (Suc d) env) IS_REPAIR c = Done c1"
    "dp_polled c xs c1" using poll_stream_ok [OF room] by blast
  obtain c2 ys where c2: "dp_poll_stream env (dp_deliver_rec (Suc d) env) IS_PRIMARY c1 = Done c2"
    "dp_polled c1 ys c2" using poll_stream_ok [OF dp_polled_room [OF room c1(2)]] by blast
  note p = dp_polled_trans [OF c1(2) c2(2)]
  show ?thesis
    using c1(1) c2(1)
    by (simp add: vqec_dpchan_rcc_er_en_notify_def dp_sys_time_def Let_def del: dp_deliver_rec.simps)
      (rule exI, rule dp_polled_right [OF p], simp_all add: dp_same_def dp_frame)
qed

text \<open>An abort joins the primary stream, takes at most one more event in, and marks the channel.\<close>

lemma abort_notify_ok:
  assumes room: "dp_room c n"
  shows "\<exists>c' xs. vqec_dpchan_rcc_abort_notify env (dp_deliver_rec (Suc d) env) c = Done c' \<and>
    dp_rcc_in_abort c' \<and> dp_polled c xs (c'\<lparr>dp_rcc_in_abort := dp_rcc_in_abort c,
      dp_joined_primary := dp_joined_primary c\<rparr>) \<and>
    (\<not> dp_rcc_in_abort c \<and> (\<forall>n. dpe_stream_found env n) \<or> dp_joined_primary c \<longrightarrow> dp_joined_primary c')"
proof (cases "dp_rcc_in_abort c")
  case True
  then show ?thesis
    using room
    by (intro exI [of _ c] exI [of _ "[]"]) (simp add: vqec_dpchan_rcc_abort_notify_def
        vqec_dpchan_is_rcc_aborted_def dp_room_def dp_polled_def dp_same_def dp_first_left_def)
next
  case False
  let ?c = "vqec_dpchan_join_fec env (vqec_dpchan_join_primary env
    (dp_call_out DCall_pcm_notify_abort (dp_call_out DCall_upcall_abort c)))"
  have "dp_room ?c n" using room by (simp add: dp_room_def dp_frame dp_first_left_def)
  then obtain c1 xs where c1: "vqec_dpchan_rcc_er_en_notify env (dp_deliver_rec (Suc d) env) ?c = Done c1"
    "dp_polled ?c xs c1" using er_en_notify_ok by blast
  let ?c' = "vqec_dpchan_set_rcc_aborted (vqec_dpchan_reset_repair_stream_rcc_state env c1)"
  have run: "vqec_dpchan_rcc_abort_notify env (dp_deliver_rec (Suc d) env) c = Done ?c'"
    using False c1(1) by (simp add: vqec_dpchan_rcc_abort_notify_def vqec_dpchan_is_rcc_aborted_def
        vqec_dpchan_abort_rcc_doactions_def Let_def del: dp_deliver_rec.simps)
  have "dp_polled c xs (?c'\<lparr>dp_rcc_in_abort := dp_rcc_in_abort c, dp_joined_primary := dp_joined_primary c\<rparr>)"
    (is "dp_polled _ _ ?d")
  proof -
    have "dp_first_left ?c = dp_first_left c" "dp_first_left ?d = dp_first_left c1"
      by (rule dp_first_left_eq; simp add: dp_frame vqec_dpchan_set_rcc_aborted_def)+
    then show ?thesis
      using c1(2) by (simp add: dp_polled_def dp_same_def dp_frame vqec_dpchan_set_rcc_aborted_def)
  qed
  moreover have "dp_joined_primary ?c' = dp_joined_primary ?c"
    using c1(2) by (simp add: dp_polled_def dp_same_def dp_frame vqec_dpchan_set_rcc_aborted_def)
  ultimately show ?thesis
    using run join_primary_joins [where env = env] by (auto simp: vqec_dpchan_set_rcc_aborted_def dp_frame)
qed

end
