(* ===== verification/Rcc_Dp_Run.thy ===== *)
theory Rcc_Dp_Run
  imports Rcc_Dp
begin

text \<open>
  The delivery of events to the data-plane machine of \<open>Rcc_Dp\<close> runs to completion. What serving one
  event leaves behind is stated once, as the predicate \<open>dp_served\<close>, and shown for each transition of
  the table; the loop of the delivery function is then an instance of \<open>event_loop\<close>.
\<close>

subsection \<open>The states and their timers\<close>

text \<open>The abstract machine: an event moves the state along the table, or is ignored where the table
  has no entry.\<close>

definition dp_step :: "vqec_dp_sm_state \<Rightarrow> vqec_dp_sm_event \<Rightarrow> vqec_dp_sm_state" where
  "dp_step st ev =
     (case s_dp_states st of None \<Rightarrow> st
      | Some f \<Rightarrow> if dtransition_fcn f ev = VQEC_DP_SM_STATE_INVALID then st else dtransition_fcn f ev)"

text \<open>A timer runs only in the state that waits for it, and runs in that state.\<close>

definition dp_timers_within :: "vqec_dpchan \<Rightarrow> bool" where
  "dp_timers_within c \<longleftrightarrow>
     (dp_wait_first_timer c \<noteq> None \<longrightarrow> dp_state c = VQEC_DP_SM_STATE_WAIT_FIRST_SEQ) \<and>
     (dp_join_timer c \<noteq> None \<longrightarrow> dp_state c = VQEC_DP_SM_STATE_WAIT_JOIN) \<and>
     (dp_er_timer c \<noteq> None \<longrightarrow> dp_state c = VQEC_DP_SM_STATE_WAIT_EN_ER) \<and>
     (dp_burst_end_timer c \<noteq> None \<longrightarrow> dp_state c = VQEC_DP_SM_STATE_WAIT_END_BURST) \<and>
     (dp_activity_timer c \<noteq> None \<longrightarrow> dp_state c = VQEC_DP_SM_STATE_WAIT_JOIN)"

definition dp_timers_armed :: "vqec_dpchan \<Rightarrow> bool" where
  "dp_timers_armed c \<longleftrightarrow>
     (dp_state c = VQEC_DP_SM_STATE_WAIT_FIRST_SEQ \<longrightarrow> dp_wait_first_timer c \<noteq> None) \<and>
     (dp_state c = VQEC_DP_SM_STATE_WAIT_JOIN \<longrightarrow> dp_join_timer c \<noteq> None \<and> dp_activity_timer c \<noteq> None) \<and>
     (dp_state c = VQEC_DP_SM_STATE_WAIT_EN_ER \<longrightarrow> dp_er_timer c \<noteq> None) \<and>
     (dp_state c = VQEC_DP_SM_STATE_WAIT_END_BURST \<longrightarrow> dp_burst_end_timer c \<noteq> None)"

text \<open>The primary stream has been joined once the machine is past the state that waits to join.\<close>

definition dp_past_join :: "vqec_dp_sm_state \<Rightarrow> bool" where
  "dp_past_join st \<longleftrightarrow> st \<in> {VQEC_DP_SM_STATE_WAIT_EN_ER, VQEC_DP_SM_STATE_WAIT_END_BURST,
     VQEC_DP_SM_STATE_FIN_SUCCESS, VQEC_DP_SM_STATE_ABORT}"

definition dp_ok :: "dp_env \<Rightarrow> vqec_dpchan \<Rightarrow> bool" where
  "dp_ok env c \<longleftrightarrow> evq_ok (dp_event_q c) \<and> dp_state c \<noteq> VQEC_DP_SM_STATE_INVALID \<and>
     dp_timers_within c \<and> (dp_rcc_in_abort c \<longleftrightarrow> dp_state c = VQEC_DP_SM_STATE_ABORT) \<and>
     ((\<forall>n. dpe_stream_found env n) \<and> dp_past_join (dp_state c) \<longrightarrow> dp_joined_primary c)"

text \<open>The number of events that can still be queued: one for each first packet, and the internal
  errors of the states ahead.\<close>

primrec dp_faults_ahead :: "vqec_dp_sm_state \<Rightarrow> nat" where
  "dp_faults_ahead VQEC_DP_SM_STATE_INVALID = 0"
| "dp_faults_ahead VQEC_DP_SM_STATE_INIT = 5"
| "dp_faults_ahead VQEC_DP_SM_STATE_WAIT_FIRST_SEQ = 4"
| "dp_faults_ahead VQEC_DP_SM_STATE_WAIT_JOIN = 2"
| "dp_faults_ahead VQEC_DP_SM_STATE_WAIT_EN_ER = 1"
| "dp_faults_ahead VQEC_DP_SM_STATE_WAIT_END_BURST = 0"
| "dp_faults_ahead VQEC_DP_SM_STATE_FIN_SUCCESS = 0"
| "dp_faults_ahead VQEC_DP_SM_STATE_ABORT = 0"

definition dp_potential :: "vqec_dpchan \<Rightarrow> nat" where
  "dp_potential c = dp_first_left c + dp_faults_ahead (dp_state c)"

text \<open>What an event leaves on the queue.\<close>

definition dp_queued :: "vqec_dpchan \<Rightarrow> bool \<Rightarrow> vqec_dpchan \<Rightarrow> vqec_dp_sm_event list \<Rightarrow> bool" where
  "dp_queued c r c' xs \<longleftrightarrow>
     evq_head (dp_event_q c') = evq_head (dp_event_q c) \<and>
     evq_items (dp_event_q c') = evq_items (dp_event_q c) @ xs \<and>
     set xs \<subseteq> {VQEC_DP_SM_EVENT_INTERNAL_ERR, VQEC_DP_SM_EVENT_PRIMARY, VQEC_DP_SM_EVENT_REPAIR} \<and>
     (VQEC_DP_SM_EVENT_REPAIR \<in> set xs \<longrightarrow> dp_state c' = VQEC_DP_SM_STATE_WAIT_END_BURST) \<and>
     (r \<longleftrightarrow> VQEC_DP_SM_EVENT_INTERNAL_ERR \<notin> set xs) \<and>
     (\<not> r \<longrightarrow> dp_state c' \<noteq> VQEC_DP_SM_STATE_FIN_SUCCESS \<and> dp_state c' \<noteq> VQEC_DP_SM_STATE_ABORT) \<and>
     length xs + dp_potential c' \<le> dp_potential c \<and>
     length xs + of_bool (\<not> dp_rx_primary c') \<le>
       (if dp_state c' = dp_state c \<or> dp_state c' = VQEC_DP_SM_STATE_ABORT
        then of_bool (\<not> dp_rx_primary c) else 3)"

definition dp_served :: "dp_env \<Rightarrow> vqec_dp_sm_event \<Rightarrow> vqec_dpchan \<Rightarrow> bool \<Rightarrow> vqec_dpchan \<Rightarrow> bool" where
  "dp_served env e c r c' \<longleftrightarrow> dp_ok env c' \<and> dp_state c' = dp_step (dp_state c) e \<and>
     (\<exists>xs. dp_queued c r c' xs) \<and>
     (r \<and> (dp_timers_armed c \<or> dp_state c' \<noteq> dp_state c) \<longrightarrow> dp_timers_armed c')"

lemmas dp_table_defs = vqec_dp_sm_guard_fcn_def vqec_dp_sm_transition_fcn_init_def
  vqec_dp_sm_transition_fcn_waitfirst_def vqec_dp_sm_transition_fcn_waitjoin_def
  vqec_dp_sm_transition_fcn_wait_er_def vqec_dp_sm_transition_fcn_waitburst_def
  vqec_dp_sm_transition_fcn_finsuccess_def vqec_dp_sm_transition_fcn_abort_def
  vqec_dp_sm_action_fcn_init_def vqec_dp_sm_action_fcn_waitfirst_def
  vqec_dp_sm_action_fcn_waitjoin_def vqec_dp_sm_action_fcn_wait_er_def
  vqec_dp_sm_action_fcn_waitburst_def vqec_dp_sm_action_fcn_finsuccess_def
  vqec_dp_sm_action_fcn_abort_def

text \<open>Leaving a state stops its timer.\<close>

primrec dp_stop :: "vqec_dp_sm_state \<Rightarrow> vqec_dpchan \<Rightarrow> vqec_dpchan" where
  "dp_stop VQEC_DP_SM_STATE_INVALID c = c"
| "dp_stop VQEC_DP_SM_STATE_INIT c = c"
| "dp_stop VQEC_DP_SM_STATE_WAIT_FIRST_SEQ c =
     c\<lparr>dp_wait_first_timer := vqec_dp_sm_timer_stop (dp_wait_first_timer c)\<rparr>"
| "dp_stop VQEC_DP_SM_STATE_WAIT_JOIN c =
     c\<lparr>dp_join_timer := vqec_dp_sm_timer_stop (dp_join_timer c)\<rparr>"
| "dp_stop VQEC_DP_SM_STATE_WAIT_EN_ER c =
     c\<lparr>dp_er_timer := vqec_dp_sm_timer_stop (dp_er_timer c)\<rparr>"
| "dp_stop VQEC_DP_SM_STATE_WAIT_END_BURST c =
     c\<lparr>dp_burst_end_timer := vqec_dp_sm_timer_stop (dp_burst_end_timer c)\<rparr>"
| "dp_stop VQEC_DP_SM_STATE_FIN_SUCCESS c = c"
| "dp_stop VQEC_DP_SM_STATE_ABORT c = c"

lemma timer_stop_None [simp]: "vqec_dp_sm_timer_stop t = None"
  by (simp add: vqec_dp_sm_timer_stop_def)

lemma exit_fcn_stop:
  "s_dp_states st = Some f \<Longrightarrow> dexit_fcn f env dlv st' e arg c = Done (True, dp_stop st c)"
  by (cases st) (auto simp: vqec_dp_sm_exit_def_def vqec_dp_sm_waitfirst_timer_stop_def
      vqec_dp_sm_join_timer_stop_def vqec_dp_sm_er_timer_stop_def vqec_dp_sm_waitburst_timer_stop_def)

lemma dp_stop_frame [dp_frame]:
  "dp_state (dp_stop st c) = dp_state c" "dp_event_q (dp_stop st c) = dp_event_q c"
  "dp_rx_primary (dp_stop st c) = dp_rx_primary c" "dp_rx_repair (dp_stop st c) = dp_rx_repair c"
  "dp_activity_timer (dp_stop st c) = dp_activity_timer c"
  "dp_rcc_in_abort (dp_stop st c) = dp_rcc_in_abort c"
  "dp_joined_primary (dp_stop st c) = dp_joined_primary c"
  by (cases st; simp)+

lemma dp_timers_within_activity:
  "dp_timers_within c \<Longrightarrow> dp_timers_within (c\<lparr>dp_activity_timer := None\<rparr>)"
  by (simp add: dp_timers_within_def)

lemma dp_stop_timers:
  assumes "dp_timers_within (c\<lparr>dp_activity_timer := None\<rparr>)"
  shows "dp_wait_first_timer (dp_stop (dp_state c) c) = None" "dp_join_timer (dp_stop (dp_state c) c) = None"
    "dp_er_timer (dp_stop (dp_state c) c) = None" "dp_burst_end_timer (dp_stop (dp_state c) c) = None"
  using assms by (cases "dp_state c"; auto simp: dp_timers_within_def)+

text \<open>The channel between the exit of one state and the entry of the next.\<close>

definition dp_between :: "dp_env \<Rightarrow> vqec_dp_sm_state \<Rightarrow> vqec_dp_sm_event \<Rightarrow> vqec_dpchan \<Rightarrow> vqec_dpchan" where
  "dp_between env st e c =
     (vqec_dp_sm_log env VQEC_DP_SM_LOG_STATE_EXIT (dp_state c) e (dp_stop (dp_state c) c))\<lparr>dp_state := st\<rparr>"

lemma dp_between_frame [dp_frame]:
  "dp_state (dp_between env st e c) = st" "dp_event_q (dp_between env st e c) = dp_event_q c"
  "dp_rx_primary (dp_between env st e c) = dp_rx_primary c"
  "dp_rx_repair (dp_between env st e c) = dp_rx_repair c"
  "dp_activity_timer (dp_between env st e c) = dp_activity_timer c"
  "dp_rcc_in_abort (dp_between env st e c) = dp_rcc_in_abort c"
  "dp_joined_primary (dp_between env st e c) = dp_joined_primary c"
  by (simp_all add: dp_between_def dp_frame)

lemma dp_between_timers:
  assumes "dp_timers_within (c\<lparr>dp_activity_timer := None\<rparr>)"
  shows "dp_wait_first_timer (dp_between env st e c) = None" "dp_join_timer (dp_between env st e c) = None"
    "dp_er_timer (dp_between env st e c) = None" "dp_burst_end_timer (dp_between env st e c) = None"
  using dp_stop_timers [OF assms] by (simp_all add: dp_between_def dp_frame)

lemma serve_moves:
  assumes f: "s_dp_states (dp_state c) = Some f" and g: "s_dp_states st = Some g"
    and tr: "dtransition_fcn f e = st"
    and act: "daction_map_fcn f e env dlv (dp_state c) e arg c = Done (ra, c1)"
    and st: "dp_state c1 = dp_state c" "st \<noteq> dp_state c"
    and entry: "dentry_fcn g env dlv st e arg (dp_between env st e c1) = Done (re, c2)"
    and st2: "dp_state c2 = st"
  shows "dp_serve_event env dlv e arg c =
    Done (ra \<and> re, vqec_dp_sm_log env VQEC_DP_SM_LOG_STATE_ENTER st e c2)"
  using assms exit_fcn_stop [OF f, of env dlv "dp_state c" e arg c1]
  by (simp add: dp_serve_event_def dp_between_def Let_def dp_frame)

subsection \<open>Serving an event\<close>

lemma timer_start_ok:
  assumes "timer c = None"
    and lens: "\<And>t d. dp_event_q (set_timer t d) = dp_event_q d" "\<And>t d. dp_state (set_timer t d) = dp_state d"
      "\<And>t d n. set_timer t (d\<lparr>dp_tick := n\<rparr>) = (set_timer t d)\<lparr>dp_tick := n\<rparr>"
    and c: "dp_state c \<noteq> VQEC_DP_SM_STATE_INVALID" "evq_ok (dp_event_q c)"
      "evq_items (dp_event_q c) \<noteq> []" "length (evq_items (dp_event_q c)) < 4"
  shows "\<exists>re tm q' n m. vqec_dp_sm_timer_start env (dp_deliver_rec (Suc d) env) timer set_timer timeout c =
      Done (re, (set_timer tm c)\<lparr>dp_tick := n, dp_event_q := q', dp_event_mask := m\<rparr>) \<and>
    (tm \<noteq> None \<longleftrightarrow> re) \<and> evq_ok q' \<and> evq_head q' = evq_head (dp_event_q c) \<and>
    evq_items q' = evq_items (dp_event_q c) @ (if re then [] else [VQEC_DP_SM_EVENT_INTERNAL_ERR])"
proof (cases "dpe_event_create env (dp_tick c) \<and> dpe_event_start env (dp_tick c)")
  case True
  let ?tm = "Some (rel_time_to_timeval timeout)"
  have "vqec_dp_sm_timer_start env (dp_deliver_rec (Suc d) env) timer set_timer timeout c =
      Done (True, (set_timer ?tm c)\<lparr>dp_tick := Suc (dp_tick c), dp_event_q := dp_event_q (set_timer ?tm c),
        dp_event_mask := dp_event_mask (set_timer ?tm c)\<rparr>)"
    using True assms(1) by (simp add: vqec_dp_sm_timer_start_def Let_def lens(3) del: dp_deliver_rec.simps)
  then show ?thesis
    using c by (intro exI [of _ True] exI [of _ ?tm] exI [of _ "dp_event_q (set_timer ?tm c)"]
        exI [of _ "Suc (dp_tick c)"] exI [of _ "dp_event_mask (set_timer ?tm c)"]) (simp add: lens)
next
  case False
  let ?c = "(set_timer None c)\<lparr>dp_tick := Suc (dp_tick c)\<rparr>"
  have "dp_state ?c \<noteq> VQEC_DP_SM_STATE_INVALID" "evq_ok (dp_event_q ?c)"
    "evq_items (dp_event_q ?c) \<noteq> []" "length (evq_items (dp_event_q ?c)) < 4"
    using c by (simp_all add: lens)
  from dp_post_nested [OF this, of VQEC_DP_SM_EVENT_INTERNAL_ERR d env] obtain q' n m where
    q': "evq_ok q'" "evq_items q' = evq_items (dp_event_q c) @ [VQEC_DP_SM_EVENT_INTERNAL_ERR]"
      "evq_head q' = evq_head (dp_event_q c)"
    and post: "dp_post (dp_deliver_rec (Suc d) env) VQEC_DP_SM_EVENT_INTERNAL_ERR ?c =
      Done (?c\<lparr>dp_tick := n, dp_event_q := q', dp_event_mask := m\<rparr>)" by (auto simp: lens)
  have "vqec_dp_sm_timer_start env (dp_deliver_rec (Suc d) env) timer set_timer timeout c =
      Done (False, ?c\<lparr>dp_tick := n, dp_event_q := q', dp_event_mask := m\<rparr>)"
    using assms(1) False post
    by (simp add: vqec_dp_sm_timer_start_def Let_def lens(3) del: dp_deliver_rec.simps)
  with q' show ?thesis
    by (intro exI [of _ False] exI [of _ None] exI [of _ q'] exI [of _ n] exI [of _ m]) simp
qed

lemma enter_abort_ok:
  assumes room: "dp_room c n" and st: "dp_state c = VQEC_DP_SM_STATE_ABORT" and ab: "\<not> dp_rcc_in_abort c"
  shows "\<exists>c' xs. vqec_dp_sm_enter_abort_rcc env (dp_deliver_rec (Suc d) env) st' e arg c = Done (True, c') \<and>
    dp_rcc_in_abort c' \<and> dp_state c' = dp_state c \<and> dp_activity_timer c' = None \<and>
    dp_wait_first_timer c' = dp_wait_first_timer c \<and> dp_join_timer c' = dp_join_timer c \<and>
    dp_er_timer c' = dp_er_timer c \<and> dp_burst_end_timer c' = dp_burst_end_timer c \<and>
    evq_ok (dp_event_q c') \<and> evq_head (dp_event_q c') = evq_head (dp_event_q c) \<and>
    evq_items (dp_event_q c') = evq_items (dp_event_q c) @ xs \<and> set xs \<subseteq> {VQEC_DP_SM_EVENT_PRIMARY} \<and>
    length xs + dp_first_left c' = dp_first_left c \<and> (dp_rx_primary c \<longrightarrow> dp_rx_primary c') \<and>
    ((\<forall>n. dpe_stream_found env n) \<longrightarrow> dp_joined_primary c')"
proof -
  let ?c = "(free_app_paks (dp_app_paks c) c)\<lparr>dp_activity_timer := None\<rparr>"
  have "dp_room ?c n" using room by (simp add: dp_room_def dp_frame dp_first_left_def)
  from abort_notify_ok [OF this, of env d] obtain c' xs where
    run: "vqec_dpchan_rcc_abort_notify env (dp_deliver_rec (Suc d) env) ?c = Done c'"
    and fl: "dp_rcc_in_abort c'"
    and pol: "dp_polled ?c xs (c'\<lparr>dp_rcc_in_abort := dp_rcc_in_abort ?c, dp_joined_primary := dp_joined_primary ?c\<rparr>)"
    and jo: "\<not> dp_rcc_in_abort ?c \<and> (\<forall>n. dpe_stream_found env n) \<or> dp_joined_primary ?c \<longrightarrow> dp_joined_primary c'"
    by blast
  have "vqec_dp_sm_enter_abort_rcc env (dp_deliver_rec (Suc d) env) st' e arg c = Done (True, c')"
    using run by (simp add: vqec_dp_sm_enter_abort_rcc_def vqec_dp_sm_activity_timer_stop_def dp_frame
        del: dp_deliver_rec.simps)
  moreover have "dp_first_left ?c = dp_first_left c"
    "dp_first_left (c'\<lparr>dp_rcc_in_abort := dp_rcc_in_abort ?c, dp_joined_primary := dp_joined_primary ?c\<rparr>) =
      dp_first_left c'"
    by (rule dp_first_left_eq; simp add: dp_frame)+
  ultimately show ?thesis
    using pol fl jo ab st
    by (intro exI [of _ c'] exI [of _ xs]) (auto simp: dp_polled_def dp_same_def dp_frame)
qed

lemma dp_first_left_le: "dp_first_left c \<le> 2" "dp_state c \<in> {VQEC_DP_SM_STATE_FIN_SUCCESS, VQEC_DP_SM_STATE_ABORT} \<Longrightarrow>
    dp_first_left c = of_bool (\<not> dp_rx_primary c)"
  by (auto simp: dp_first_left_def)

lemma dp_first_left_mono:
  assumes "dp_rx_primary c' = dp_rx_primary c" "dp_rx_repair c' = dp_rx_repair c"
    and "vqec_dp_sm_state_no (dp_state c) \<le> vqec_dp_sm_state_no (dp_state c')"
  shows "dp_first_left c' \<le> dp_first_left c"
  using assms by (auto simp: dp_first_left_def)

text \<open>The premises that all transitions share: \<open>e\<close> is the oldest event, and there is room.\<close>

definition dp_serving :: "dp_env \<Rightarrow> vqec_dp_sm_event \<Rightarrow> vqec_dpchan \<Rightarrow> bool" where
  "dp_serving env e c \<longleftrightarrow> dp_ok env c \<and> evq_items (dp_event_q c) \<noteq> [] \<and>
     hd (evq_items (dp_event_q c)) = e \<and>
     length (evq_items (dp_event_q c)) + of_bool (\<not> dp_rx_primary c) \<le> 3"

lemma serve_to_abort:
  assumes sv: "dp_serving env e c" and g: "vqec_dp_sm_guard_fcn (dp_state c) e"
    and tr: "dp_step (dp_state c) e = VQEC_DP_SM_STATE_ABORT" "dp_state c \<noteq> VQEC_DP_SM_STATE_ABORT"
  shows "\<exists>c'. dp_serve_event env (dp_deliver_rec (Suc d) env) e arg c = Done (True, c') \<and>
    dp_served env e c True c'"
proof -
  have ok: "dp_ok env c" using sv by (simp add: dp_serving_def)
  then obtain f where f: "s_dp_states (dp_state c) = Some f" by (cases "dp_state c") (auto simp: dp_ok_def)
  let ?b = "dp_between env VQEC_DP_SM_STATE_ABORT e c"
  have tf: "dtransition_fcn f e = VQEC_DP_SM_STATE_ABORT"
    using f g tr(1) by (simp add: dp_step_def vqec_dp_sm_guard_fcn_def split: if_splits)
  have act: "daction_map_fcn f e env (dp_deliver_rec (Suc d) env) (dp_state c) e arg c = Done (True, c)"
    using f tf by (cases "dp_state c"; cases e) (auto simp: dp_table_defs vqec_dp_sm_null_action_def)
  have "dp_room ?b 0" using sv by (simp add: dp_room_def dp_serving_def dp_ok_def dp_frame dp_first_left_def)
  from enter_abort_ok [OF this, of env d VQEC_DP_SM_STATE_ABORT e arg] ok tr(2)
  obtain c' xs where en: "vqec_dp_sm_enter_abort_rcc env (dp_deliver_rec (Suc d) env) VQEC_DP_SM_STATE_ABORT e arg ?b =
      Done (True, c')"
    and c': "dp_rcc_in_abort c'" "dp_state c' = VQEC_DP_SM_STATE_ABORT" "dp_activity_timer c' = None"
      "dp_wait_first_timer c' = None" "dp_join_timer c' = None" "dp_er_timer c' = None"
      "dp_burst_end_timer c' = None" "evq_ok (dp_event_q c')"
      "evq_head (dp_event_q c') = evq_head (dp_event_q c)"
      "evq_items (dp_event_q c') = evq_items (dp_event_q c) @ xs" "set xs \<subseteq> {VQEC_DP_SM_EVENT_PRIMARY}"
      "length xs + dp_first_left c' = dp_first_left ?b" "dp_rx_primary c \<longrightarrow> dp_rx_primary c'"
      "(\<forall>n. dpe_stream_found env n) \<longrightarrow> dp_joined_primary c'"
    using dp_between_timers [OF dp_timers_within_activity, of c env VQEC_DP_SM_STATE_ABORT e]
    by (auto simp: dp_ok_def dp_frame)
  let ?c = "vqec_dp_sm_log env VQEC_DP_SM_LOG_STATE_ENTER VQEC_DP_SM_STATE_ABORT e c'"
  have run: "dp_serve_event env (dp_deliver_rec (Suc d) env) e arg c = Done (True, ?c)"
    using serve_moves [OF f _ tf act, of _ True c'] en c'(2) tr(2) by simp
  have "dp_first_left ?c = dp_first_left c'" by (rule dp_first_left_eq) (simp_all add: dp_frame)
  moreover have "dp_first_left ?b \<le> dp_first_left c"
    by (rule dp_first_left_mono) (cases "dp_state c"; simp add: dp_frame)+
  ultimately have "length xs + dp_potential ?c \<le> dp_potential c"
    using c'(2,12) by (simp add: dp_potential_def dp_frame)
  moreover have "length xs + of_bool (\<not> dp_rx_primary ?c) = of_bool (\<not> dp_rx_primary c)"
    using c'(12) dp_first_left_le(2) [of c'] dp_first_left_le(2) [of ?b] c'(2) by (simp add: dp_frame)
  moreover have "set xs \<subseteq> {VQEC_DP_SM_EVENT_INTERNAL_ERR, VQEC_DP_SM_EVENT_PRIMARY, VQEC_DP_SM_EVENT_REPAIR}"
    "VQEC_DP_SM_EVENT_REPAIR \<notin> set xs" "VQEC_DP_SM_EVENT_INTERNAL_ERR \<notin> set xs" using c'(11) by auto
  ultimately have "dp_queued c True ?c xs" using c'(2,9,10) by (simp add: dp_queued_def dp_frame)
  moreover have "dp_ok env ?c" using c' by (simp add: dp_ok_def dp_timers_within_def dp_frame)
  ultimately have "dp_served env e c True ?c"
    using c' tr by (auto simp: dp_served_def dp_timers_armed_def dp_frame)
  with run show ?thesis by blast
qed

text \<open>Entering one of the four waiting states starts its timer, or queues an internal error.\<close>

lemma enter_wait_ok:
  assumes st: "dp_state b = st" "s_dp_states st = Some g"
      "st \<in> {VQEC_DP_SM_STATE_WAIT_FIRST_SEQ, VQEC_DP_SM_STATE_WAIT_JOIN, VQEC_DP_SM_STATE_WAIT_EN_ER,
        VQEC_DP_SM_STATE_WAIT_END_BURST}"
    and t: "dp_wait_first_timer b = None" "dp_join_timer b = None" "dp_er_timer b = None"
      "dp_burst_end_timer b = None"
    and q: "evq_ok (dp_event_q b)" "evq_items (dp_event_q b) \<noteq> []" "length (evq_items (dp_event_q b)) < 4"
  shows "\<exists>re c'. dentry_fcn g env (dp_deliver_rec (Suc d) env) st e arg b = Done (re, c') \<and> dp_state c' = st \<and>
    dp_rx_primary c' = dp_rx_primary b \<and> dp_rx_repair c' = dp_rx_repair b \<and>
    dp_rcc_in_abort c' = dp_rcc_in_abort b \<and> dp_joined_primary c' = dp_joined_primary b \<and>
    dp_activity_timer c' = dp_activity_timer b \<and> evq_ok (dp_event_q c') \<and>
    evq_head (dp_event_q c') = evq_head (dp_event_q b) \<and>
    evq_items (dp_event_q c') =
      evq_items (dp_event_q b) @ (if re then [] else [VQEC_DP_SM_EVENT_INTERNAL_ERR]) \<and>
    (dp_wait_first_timer c' \<noteq> None \<longleftrightarrow> re \<and> st = VQEC_DP_SM_STATE_WAIT_FIRST_SEQ) \<and>
    (dp_join_timer c' \<noteq> None \<longleftrightarrow> re \<and> st = VQEC_DP_SM_STATE_WAIT_JOIN) \<and>
    (dp_er_timer c' \<noteq> None \<longleftrightarrow> re \<and> st = VQEC_DP_SM_STATE_WAIT_EN_ER) \<and>
    (dp_burst_end_timer c' \<noteq> None \<longleftrightarrow> re \<and> st = VQEC_DP_SM_STATE_WAIT_END_BURST)"
  (is "\<exists>re c'. ?run re c' \<and> ?post re c'")
proof -
  note defs = vqec_dp_sm_waitfirst_timer_start_def vqec_dp_sm_join_timer_start_def
    vqec_dp_sm_er_timer_start_def vqec_dp_sm_waitburst_timer_start_def dp_sys_time_def Let_def
  consider "st = VQEC_DP_SM_STATE_WAIT_FIRST_SEQ" | "st = VQEC_DP_SM_STATE_WAIT_JOIN"
    | "st = VQEC_DP_SM_STATE_WAIT_EN_ER" | "st = VQEC_DP_SM_STATE_WAIT_END_BURST" using st(3) by blast
  then show ?thesis
  proof cases
    case 1
    let ?b = "b\<lparr>dp_tick := Suc (dp_tick b)\<rparr>"
    have entry: "dentry_fcn g env (dp_deliver_rec (Suc d) env) st e arg b =
        vqec_dp_sm_timer_start env (dp_deliver_rec (Suc d) env) dp_wait_first_timer
          (\<lambda>t d. d\<lparr>dp_wait_first_timer := t\<rparr>) (dp_time_left (dp_first_repair_deadline b)
            (dpe_time env (dp_tick b))) ?b"
      using st 1 by (auto simp: defs)
    have "\<exists>re tm q' n m. ?run re ((?b\<lparr>dp_wait_first_timer := tm\<rparr>)\<lparr>dp_tick := n, dp_event_q := q', dp_event_mask := m\<rparr>) \<and>
        (tm \<noteq> None \<longleftrightarrow> re) \<and> evq_ok q' \<and> evq_head q' = evq_head (dp_event_q ?b) \<and>
        evq_items q' = evq_items (dp_event_q ?b) @ (if re then [] else [VQEC_DP_SM_EVENT_INTERNAL_ERR])"
      unfolding entry
      by (rule timer_start_ok [where timer = dp_wait_first_timer and set_timer = "\<lambda>t d. d\<lparr>dp_wait_first_timer := t\<rparr>"])
        (use t q st 1 in simp_all)
    then obtain re tm q' n m where
      run: "?run re ((?b\<lparr>dp_wait_first_timer := tm\<rparr>)\<lparr>dp_tick := n, dp_event_q := q', dp_event_mask := m\<rparr>)"
      and q': "tm \<noteq> None \<longleftrightarrow> re" "evq_ok q'" "evq_head q' = evq_head (dp_event_q ?b)"
        "evq_items q' = evq_items (dp_event_q ?b) @ (if re then [] else [VQEC_DP_SM_EVENT_INTERNAL_ERR])"
      by (elim exE conjE) (rule that)
    have "?post re ((?b\<lparr>dp_wait_first_timer := tm\<rparr>)\<lparr>dp_tick := n, dp_event_q := q', dp_event_mask := m\<rparr>)"
      using t st 1 q' by (cases re) simp_all
    then show ?thesis
      by (intro exI [of _ re] exI [of _ "(?b\<lparr>dp_wait_first_timer := tm\<rparr>)\<lparr>dp_tick := n, dp_event_q := q', dp_event_mask := m\<rparr>"]
          conjI [OF run])
  next
    case 2
    let ?b = "b\<lparr>dp_tick := Suc (dp_tick b)\<rparr>"
    have entry: "dentry_fcn g env (dp_deliver_rec (Suc d) env) st e arg b =
        vqec_dp_sm_timer_start env (dp_deliver_rec (Suc d) env) dp_join_timer
          (\<lambda>t d. d\<lparr>dp_join_timer := t\<rparr>) (dp_time_left (abs_plus_rel_time (dp_first_repair_ts b) (dp_dt_earliest_join b))
            (dpe_time env (dp_tick b))) ?b"
      using st 2 by (auto simp: defs)
    have "\<exists>re tm q' n m. ?run re ((?b\<lparr>dp_join_timer := tm\<rparr>)\<lparr>dp_tick := n, dp_event_q := q', dp_event_mask := m\<rparr>) \<and>
        (tm \<noteq> None \<longleftrightarrow> re) \<and> evq_ok q' \<and> evq_head q' = evq_head (dp_event_q ?b) \<and>
        evq_items q' = evq_items (dp_event_q ?b) @ (if re then [] else [VQEC_DP_SM_EVENT_INTERNAL_ERR])"
      unfolding entry
      by (rule timer_start_ok [where timer = dp_join_timer and set_timer = "\<lambda>t d. d\<lparr>dp_join_timer := t\<rparr>"])
        (use t q st 2 in simp_all)
    then obtain re tm q' n m where
      run: "?run re ((?b\<lparr>dp_join_timer := tm\<rparr>)\<lparr>dp_tick := n, dp_event_q := q', dp_event_mask := m\<rparr>)"
      and q': "tm \<noteq> None \<longleftrightarrow> re" "evq_ok q'" "evq_head q' = evq_head (dp_event_q ?b)"
        "evq_items q' = evq_items (dp_event_q ?b) @ (if re then [] else [VQEC_DP_SM_EVENT_INTERNAL_ERR])"
      by (elim exE conjE) (rule that)
    have "?post re ((?b\<lparr>dp_join_timer := tm\<rparr>)\<lparr>dp_tick := n, dp_event_q := q', dp_event_mask := m\<rparr>)"
      using t st 2 q' by (cases re) simp_all
    then show ?thesis
      by (intro exI [of _ re] exI [of _ "(?b\<lparr>dp_join_timer := tm\<rparr>)\<lparr>dp_tick := n, dp_event_q := q', dp_event_mask := m\<rparr>"]
          conjI [OF run])
  next
    case 3
    let ?b = "b\<lparr>dp_tick := Suc (dp_tick b)\<rparr>"
    have entry: "dentry_fcn g env (dp_deliver_rec (Suc d) env) st e arg b =
        vqec_dp_sm_timer_start env (dp_deliver_rec (Suc d) env) dp_er_timer
          (\<lambda>t d. d\<lparr>dp_er_timer := t\<rparr>) (dp_time_left (abs_plus_rel_time (abs_plus_rel_time (dp_first_repair_ts b)
            (dp_dt_earliest_join b)) (dp_er_holdoff_time b))
            (dpe_time env (dp_tick b))) ?b"
      using st 3 by (auto simp: defs)
    have "\<exists>re tm q' n m. ?run re ((?b\<lparr>dp_er_timer := tm\<rparr>)\<lparr>dp_tick := n, dp_event_q := q', dp_event_mask := m\<rparr>) \<and>
        (tm \<noteq> None \<longleftrightarrow> re) \<and> evq_ok q' \<and> evq_head q' = evq_head (dp_event_q ?b) \<and>
        evq_items q' = evq_items (dp_event_q ?b) @ (if re then [] else [VQEC_DP_SM_EVENT_INTERNAL_ERR])"
      unfolding entry
      by (rule timer_start_ok [where timer = dp_er_timer and set_timer = "\<lambda>t d. d\<lparr>dp_er_timer := t\<rparr>"])
        (use t q st 3 in simp_all)
    then obtain re tm q' n m where
      run: "?run re ((?b\<lparr>dp_er_timer := tm\<rparr>)\<lparr>dp_tick := n, dp_event_q := q', dp_event_mask := m\<rparr>)"
      and q': "tm \<noteq> None \<longleftrightarrow> re" "evq_ok q'" "evq_head q' = evq_head (dp_event_q ?b)"
        "evq_items q' = evq_items (dp_event_q ?b) @ (if re then [] else [VQEC_DP_SM_EVENT_INTERNAL_ERR])"
      by (elim exE conjE) (rule that)
    have "?post re ((?b\<lparr>dp_er_timer := tm\<rparr>)\<lparr>dp_tick := n, dp_event_q := q', dp_event_mask := m\<rparr>)"
      using t st 3 q' by (cases re) simp_all
    then show ?thesis
      by (intro exI [of _ re] exI [of _ "(?b\<lparr>dp_er_timer := tm\<rparr>)\<lparr>dp_tick := n, dp_event_q := q', dp_event_mask := m\<rparr>"]
          conjI [OF run])
  next
    case 4
    let ?w = "abs_plus_rel_time (dp_first_repair_ts b) (dp_dt_repair_end b)"
    let ?now = "dpe_time env (dp_tick b)"
    let ?b = "if abs_time_gt ?w ?now then b\<lparr>dp_tick := Suc (dp_tick b)\<rparr>
      else b\<lparr>dp_tick := Suc (Suc (dp_tick b)), dp_burst_end_time := dpe_time env (Suc (dp_tick b))\<rparr>"
    have entry: "dentry_fcn g env (dp_deliver_rec (Suc d) env) st e arg b =
        vqec_dp_sm_timer_start env (dp_deliver_rec (Suc d) env) dp_burst_end_timer
          (\<lambda>t d. d\<lparr>dp_burst_end_timer := t\<rparr>) (dp_time_left ?w ?now) ?b"
      using st 4 by (auto simp: defs)
    have "\<exists>re tm q' n m. ?run re ((?b\<lparr>dp_burst_end_timer := tm\<rparr>)\<lparr>dp_tick := n, dp_event_q := q', dp_event_mask := m\<rparr>) \<and>
        (tm \<noteq> None \<longleftrightarrow> re) \<and> evq_ok q' \<and> evq_head q' = evq_head (dp_event_q ?b) \<and>
        evq_items q' = evq_items (dp_event_q ?b) @ (if re then [] else [VQEC_DP_SM_EVENT_INTERNAL_ERR])"
      unfolding entry
      by (rule timer_start_ok [where timer = dp_burst_end_timer and set_timer = "\<lambda>t d. d\<lparr>dp_burst_end_timer := t\<rparr>"])
        (use t q st 4 in simp_all)
    then obtain re tm q' n m where
      run: "?run re ((?b\<lparr>dp_burst_end_timer := tm\<rparr>)\<lparr>dp_tick := n, dp_event_q := q', dp_event_mask := m\<rparr>)"
      and q': "tm \<noteq> None \<longleftrightarrow> re" "evq_ok q'" "evq_head q' = evq_head (dp_event_q ?b)"
        "evq_items q' = evq_items (dp_event_q ?b) @ (if re then [] else [VQEC_DP_SM_EVENT_INTERNAL_ERR])"
      by (elim exE conjE) (rule that)
    have "?post re ((?b\<lparr>dp_burst_end_timer := tm\<rparr>)\<lparr>dp_tick := n, dp_event_q := q', dp_event_mask := m\<rparr>)"
      using t st 4 q' by (cases re) simp_all
    then show ?thesis
      by (intro exI [of _ re] exI [of _ "(?b\<lparr>dp_burst_end_timer := tm\<rparr>)\<lparr>dp_tick := n, dp_event_q := q', dp_event_mask := m\<rparr>"]
          conjI [OF run])
  qed
qed

text \<open>A transition into a waiting state, given what its action has done.\<close>

lemma serve_to_wait:
  assumes sv: "dp_serving env e c" and ab: "vqec_dp_sm_state_no (dp_state c) < 6"
    and f: "s_dp_states (dp_state c) = Some f" and g: "s_dp_states st = Some g"
    and tr: "dtransition_fcn f e = st" "st \<noteq> dp_state c"
    and wait: "st \<in> {VQEC_DP_SM_STATE_WAIT_FIRST_SEQ, VQEC_DP_SM_STATE_WAIT_JOIN, VQEC_DP_SM_STATE_WAIT_EN_ER,
        VQEC_DP_SM_STATE_WAIT_END_BURST}"
    and act: "daction_map_fcn f e env (dp_deliver_rec (Suc d) env) (dp_state c) e arg c = Done (ra, c1)"
    and c1: "dp_state c1 = dp_state c" "dp_timers_within (c1\<lparr>dp_activity_timer := None\<rparr>)"
      "dp_rcc_in_abort c1 = dp_rcc_in_abort c" "evq_ok (dp_event_q c1)"
    and q: "evq_head (dp_event_q c1) = evq_head (dp_event_q c)"
      "evq_items (dp_event_q c1) = evq_items (dp_event_q c) @ xs" "length (evq_items (dp_event_q c1)) < 4"
      "set xs \<subseteq> {VQEC_DP_SM_EVENT_INTERNAL_ERR, VQEC_DP_SM_EVENT_PRIMARY, VQEC_DP_SM_EVENT_REPAIR}"
      "VQEC_DP_SM_EVENT_REPAIR \<in> set xs \<longrightarrow> st = VQEC_DP_SM_STATE_WAIT_END_BURST"
      "ra \<longleftrightarrow> VQEC_DP_SM_EVENT_INTERNAL_ERR \<notin> set xs" "length xs + of_bool (\<not> dp_rx_primary c1) \<le> 2"
    and pot: "length xs + dp_first_left c1 + 1 + dp_faults_ahead st \<le> dp_potential c"
    and ac: "dp_activity_timer c1 \<noteq> None \<longrightarrow> st = VQEC_DP_SM_STATE_WAIT_JOIN"
      "st = VQEC_DP_SM_STATE_WAIT_JOIN \<and> ra \<longrightarrow> dp_activity_timer c1 \<noteq> None"
    and jo: "(\<forall>n. dpe_stream_found env n) \<and> dp_past_join st \<longrightarrow> dp_joined_primary c1"
  shows "\<exists>r c'. dp_serve_event env (dp_deliver_rec (Suc d) env) e arg c = Done (r, c') \<and> dp_served env e c r c'"
proof -
  let ?b = "dp_between env st e c1"
  have b: "dp_state ?b = st" "evq_ok (dp_event_q ?b)" "evq_items (dp_event_q ?b) \<noteq> []"
    "length (evq_items (dp_event_q ?b)) < 4"
    using sv q(2,3) c1(4) by (simp_all add: dp_serving_def dp_frame)
  from enter_wait_ok [OF b(1) g wait dp_between_timers [OF c1(2)] b(2-4), of env d e arg]
  obtain re c' where
    run: "dentry_fcn g env (dp_deliver_rec (Suc d) env) st e arg ?b = Done (re, c')"
    and c0: "dp_state c' = st" "dp_rx_primary c' = dp_rx_primary ?b" "dp_rx_repair c' = dp_rx_repair ?b"
      "dp_rcc_in_abort c' = dp_rcc_in_abort ?b" "dp_joined_primary c' = dp_joined_primary ?b"
      "dp_activity_timer c' = dp_activity_timer ?b" "evq_ok (dp_event_q c')"
      "evq_head (dp_event_q c') = evq_head (dp_event_q ?b)"
      "evq_items (dp_event_q c') =
        evq_items (dp_event_q ?b) @ (if re then [] else [VQEC_DP_SM_EVENT_INTERNAL_ERR])"
    and ti: "dp_wait_first_timer c' \<noteq> None \<longleftrightarrow> re \<and> st = VQEC_DP_SM_STATE_WAIT_FIRST_SEQ"
      "dp_join_timer c' \<noteq> None \<longleftrightarrow> re \<and> st = VQEC_DP_SM_STATE_WAIT_JOIN"
      "dp_er_timer c' \<noteq> None \<longleftrightarrow> re \<and> st = VQEC_DP_SM_STATE_WAIT_EN_ER"
      "dp_burst_end_timer c' \<noteq> None \<longleftrightarrow> re \<and> st = VQEC_DP_SM_STATE_WAIT_END_BURST"
    by (elim exE conjE) (rule that)
  note c' = c0 [unfolded dp_frame q(1,2) append_assoc c1(3)]
  let ?c = "vqec_dp_sm_log env VQEC_DP_SM_LOG_STATE_ENTER st e c'"
  have serve: "dp_serve_event env (dp_deliver_rec (Suc d) env) e arg c = Done (ra \<and> re, ?c)"
    using serve_moves [OF f g tr(1) act c1(1) tr(2) run c'(1)] .
  let ?xs = "xs @ (if re then [] else [VQEC_DP_SM_EVENT_INTERNAL_ERR])"
  have "vqec_dp_sm_state_no st < 6" using wait by auto
  then have "dp_first_left c' = dp_first_left c1" using c'(1-3) c1(1) ab by (simp add: dp_first_left_def)
  moreover have "dp_first_left ?c = dp_first_left c'" by (rule dp_first_left_eq) (simp_all add: dp_frame)
  ultimately have "length ?xs + dp_potential ?c \<le> dp_potential c"
    using pot c'(1) by (auto simp: dp_potential_def dp_frame)
  moreover have "set ?xs \<subseteq> {VQEC_DP_SM_EVENT_INTERNAL_ERR, VQEC_DP_SM_EVENT_PRIMARY, VQEC_DP_SM_EVENT_REPAIR}"
    "VQEC_DP_SM_EVENT_REPAIR \<in> set ?xs \<longrightarrow> st = VQEC_DP_SM_STATE_WAIT_END_BURST"
    "(ra \<and> re) \<longleftrightarrow> VQEC_DP_SM_EVENT_INTERNAL_ERR \<notin> set ?xs"
    using q(4-6) by (cases re; simp)+
  moreover have "st \<noteq> VQEC_DP_SM_STATE_FIN_SUCCESS \<and> st \<noteq> VQEC_DP_SM_STATE_ABORT"
    "length ?xs + of_bool (\<not> dp_rx_primary c') \<le> 3" using wait q(7) c'(2) by auto
  ultimately have "dp_queued c (ra \<and> re) ?c ?xs"
    unfolding dp_queued_def dp_frame c'(1,8,9) using tr(2) by (intro conjI) (blast | simp)+
  moreover have "dp_ok env ?c"
  proof -
    have "dp_timers_within ?c" unfolding dp_timers_within_def dp_frame c'(1,6) using ti ac(1) by blast
    moreover have "\<not> dp_rcc_in_abort c" using sv ab by (auto simp: dp_serving_def dp_ok_def)
    moreover have "st \<noteq> VQEC_DP_SM_STATE_INVALID \<and> st \<noteq> VQEC_DP_SM_STATE_ABORT" using wait by auto
    ultimately show ?thesis unfolding dp_ok_def dp_frame c'(1,4,5) using c'(7) jo by blast
  qed
  moreover have "ra \<and> re \<longrightarrow> dp_timers_armed ?c"
    unfolding dp_timers_armed_def dp_frame c'(1,6) using ti ac(2) by blast
  moreover have "dp_step (dp_state c) e = st" using f g tr by (auto simp: dp_step_def)
  ultimately have "dp_served env e c (ra \<and> re) ?c" unfolding dp_served_def dp_frame c'(1) by blast
  with serve show ?thesis by blast
qed

text \<open>The actions of the first repair packet start the activity timer or queue an internal error.\<close>

lemma first_repair_ok:
  assumes c: "dp_state c \<noteq> VQEC_DP_SM_STATE_INVALID" "evq_ok (dp_event_q c)"
      "evq_items (dp_event_q c) \<noteq> []" "length (evq_items (dp_event_q c)) < 4"
    and at: "dp_activity_timer c = None"
  shows "\<exists>ra c'. vqec_dp_sm_first_repair_actions env (dp_deliver_rec (Suc d) env) st e arg c = Done (ra, c') \<and>
    (\<exists>a. dp_same (c\<lparr>dp_activity_timer := a\<rparr>) c' \<and> (a \<noteq> None \<longleftrightarrow> ra)) \<and>
    dp_rx_primary c' = dp_rx_primary c \<and> dp_rx_repair c' = dp_rx_repair c \<and>
    evq_ok (dp_event_q c') \<and> evq_head (dp_event_q c') = evq_head (dp_event_q c) \<and>
    evq_items (dp_event_q c') =
      evq_items (dp_event_q c) @ (if ra then [] else [VQEC_DP_SM_EVENT_INTERNAL_ERR])"
    (is "\<exists>ra c'. ?run ra c' \<and> ?post ra c'")
proof -
  let ?l = "vqec_dp_sm_log env VQEC_DP_SM_LOG_FIRST_REPAIR st e c"
  have fault: "\<exists>c'. bind_out (dp_post (dp_deliver_rec (Suc d) env) VQEC_DP_SM_EVENT_INTERNAL_ERR b)
      (\<lambda>c1. Done (False, c1)) = Done (False, c') \<and> ?post False c'"
    if b: "dp_same c b" "dp_event_q b = dp_event_q c" "dp_rx_primary b = dp_rx_primary c"
      "dp_rx_repair b = dp_rx_repair c" for b
  proof -
    have "dp_state b \<noteq> VQEC_DP_SM_STATE_INVALID" "evq_ok (dp_event_q b)"
      "evq_items (dp_event_q b) \<noteq> []" "length (evq_items (dp_event_q b)) < 4"
      using b c by (simp_all add: dp_same_def)
    from dp_post_nested [OF this, of VQEC_DP_SM_EVENT_INTERNAL_ERR d env] show ?thesis
      using b at by (auto simp: dp_same_def simp del: dp_deliver_rec.simps)
  qed
  have l: "dp_same c ?l" "dp_event_q ?l = dp_event_q c" "dp_rx_primary ?l = dp_rx_primary c"
    "dp_rx_repair ?l = dp_rx_repair c" by (simp_all add: dp_same_def dp_frame)
  show ?thesis
  proof (cases "dp_app_paks ?l = []")
    case True
    then have eq: "vqec_dp_sm_first_repair_actions env (dp_deliver_rec (Suc d) env) st e arg c =
        bind_out (dp_post (dp_deliver_rec (Suc d) env) VQEC_DP_SM_EVENT_INTERNAL_ERR ?l) (\<lambda>c1. Done (False, c1))"
      by (simp add: vqec_dp_sm_first_repair_actions_def Let_def del: dp_deliver_rec.simps)
    from fault [OF l] show ?thesis unfolding eq [symmetric] by (elim exE) (rule exI, rule exI)
  next
    case paks: False
    obtain fl p where p: "insert_app_paks env (dp_app_paks ?l) False ?l = (fl, p)" by fastforce
    note fr = insert_app_paks_frame [OF p]
    have ps: "dp_same c p" "dp_event_q p = dp_event_q c" "dp_rx_primary p = dp_rx_primary c"
      "dp_rx_repair p = dp_rx_repair c" using fr l by (simp_all add: dp_same_def)
    let ?p = "p\<lparr>dp_tick := Suc (dp_tick p)\<rparr>"
    show ?thesis
    proof (cases "fl \<or> \<not> dpe_event_create env (dp_tick p) \<or> \<not> dpe_event_start env (dp_tick p)")
      case True
      define b where "b = (if fl then p else ?p\<lparr>dp_activity_timer := None\<rparr>)"
      have eq: "vqec_dp_sm_first_repair_actions env (dp_deliver_rec (Suc d) env) st e arg c =
          bind_out (dp_post (dp_deliver_rec (Suc d) env) VQEC_DP_SM_EVENT_INTERNAL_ERR b) (\<lambda>c1. Done (False, c1))"
        using True paks p
        by (auto simp: vqec_dp_sm_first_repair_actions_def Let_def b_def simp del: dp_deliver_rec.simps)
      have "dp_same c b" "dp_event_q b = dp_event_q c" "dp_rx_primary b = dp_rx_primary c"
        "dp_rx_repair b = dp_rx_repair c" using ps at by (auto simp: dp_same_def b_def)
      from fault [OF this] show ?thesis unfolding eq [symmetric] by (elim exE) (rule exI, rule exI)
    next
      case False
      let ?a = "Some (rel_time_to_timeval VQEC_DP_REPAIR_ACTIVITY_POLL_INTERVAL)"
      have run: "?run True (?p\<lparr>dp_activity_timer := ?a\<rparr>)"
        using False paks p
        by (simp add: vqec_dp_sm_first_repair_actions_def Let_def del: dp_deliver_rec.simps)
      have "?post True (?p\<lparr>dp_activity_timer := ?a\<rparr>)"
        using ps c by (intro conjI exI [of _ ?a]) (simp_all add: dp_same_def)
      then show ?thesis
        by (intro exI [of _ True] exI [of _ "?p\<lparr>dp_activity_timer := ?a\<rparr>"] conjI [OF run])
    qed
  qed
qed

text \<open>The five transitions that make progress, and the events that keep the state.\<close>

lemma serve_start:
  assumes sv: "dp_serving env e c" and st: "dp_state c = VQEC_DP_SM_STATE_INIT"
    and e: "e = VQEC_DP_SM_EVENT_START_RCC"
  shows "\<exists>r c'. dp_serve_event env (dp_deliver_rec (Suc d) env) e arg c = Done (r, c') \<and> dp_served env e c r c'"
proof -
  have ok: "dp_ok env c" using sv by (simp add: dp_serving_def)
  then have w: "dp_timers_within (c\<lparr>dp_activity_timer := None\<rparr>)" "dp_activity_timer c = None"
    using st by (auto simp: dp_ok_def dp_timers_within_def)
  show ?thesis
    by (rule serve_to_wait [OF sv, where st = VQEC_DP_SM_STATE_WAIT_FIRST_SEQ and
          f = "the (s_dp_states VQEC_DP_SM_STATE_INIT)" and g = "the (s_dp_states VQEC_DP_SM_STATE_WAIT_FIRST_SEQ)" and ?c1.0 = c and ra = True and xs = "[]"])
      (use ok w st e sv in \<open>simp_all add: dp_table_defs vqec_dp_sm_null_action_def dp_ok_def dp_serving_def
         dp_potential_def dp_past_join_def\<close>)
qed

lemma serve_repair:
  assumes sv: "dp_serving env e c" and st: "dp_state c = VQEC_DP_SM_STATE_WAIT_FIRST_SEQ"
    and e: "e = VQEC_DP_SM_EVENT_REPAIR" and one: "length (evq_items (dp_event_q c)) = 1"
  shows "\<exists>r c'. dp_serve_event env (dp_deliver_rec (Suc d) env) e arg c = Done (r, c') \<and> dp_served env e c r c'"
proof -
  have ok: "dp_ok env c" and ne: "evq_items (dp_event_q c) \<noteq> []" using sv by (auto simp: dp_serving_def)
  then have w: "dp_timers_within c" "dp_activity_timer c = None" "evq_ok (dp_event_q c)"
    using st by (auto simp: dp_ok_def dp_timers_within_def)
  obtain ra c1 a where run: "vqec_dp_sm_first_repair_actions env (dp_deliver_rec (Suc d) env)
      VQEC_DP_SM_STATE_WAIT_FIRST_SEQ e arg c = Done (ra, c1)"
    and c1: "dp_same (c\<lparr>dp_activity_timer := a\<rparr>) c1" "a \<noteq> None \<longleftrightarrow> ra"
      "dp_rx_primary c1 = dp_rx_primary c" "dp_rx_repair c1 = dp_rx_repair c" "evq_ok (dp_event_q c1)"
      "evq_head (dp_event_q c1) = evq_head (dp_event_q c)"
      "evq_items (dp_event_q c1) = evq_items (dp_event_q c) @ (if ra then [] else [VQEC_DP_SM_EVENT_INTERNAL_ERR])"
    using first_repair_ok [of c env d VQEC_DP_SM_STATE_WAIT_FIRST_SEQ e arg] st w ne one by auto
  have s: "dp_state c1 = dp_state c" "dp_activity_timer c1 = a" "dp_rcc_in_abort c1 = dp_rcc_in_abort c"
    "dp_timers_within (c1\<lparr>dp_activity_timer := None\<rparr>)"
    using c1(1) w(1) by (auto simp: dp_same_def dp_timers_within_def)
  have fl: "dp_first_left c1 = dp_first_left c" using s(1) c1(3,4) by (rule dp_first_left_eq)
  show ?thesis
    by (rule serve_to_wait [OF sv, where st = VQEC_DP_SM_STATE_WAIT_JOIN and
          f = "the (s_dp_states VQEC_DP_SM_STATE_WAIT_FIRST_SEQ)" and g = "the (s_dp_states VQEC_DP_SM_STATE_WAIT_JOIN)" and ?c1.0 = c1 and ra = ra and
          xs = "if ra then [] else [VQEC_DP_SM_EVENT_INTERNAL_ERR]"])
      (use st e s c1 fl run one in \<open>simp_all add: dp_table_defs dp_potential_def dp_past_join_def
         del: dp_deliver_rec.simps\<close>)
qed

lemma serve_join:
  assumes sv: "dp_serving env e c" and st: "dp_state c = VQEC_DP_SM_STATE_WAIT_JOIN"
    and e: "e = VQEC_DP_SM_EVENT_TIME_TO_JOIN"
  shows "\<exists>r c'. dp_serve_event env (dp_deliver_rec (Suc d) env) e arg c = Done (r, c') \<and> dp_served env e c r c'"
proof -
  have ok: "dp_ok env c" using sv by (simp add: dp_serving_def)
  let ?c1 = "vqec_dp_sm_log env VQEC_DP_SM_LOG_ISSUED_JOIN VQEC_DP_SM_STATE_WAIT_JOIN e
    (vqec_dpchan_rcc_join_notify env (c\<lparr>dp_activity_timer := None\<rparr>))"
  have run: "vqec_dp_sm_primary_join env (dp_deliver_rec (Suc d) env) VQEC_DP_SM_STATE_WAIT_JOIN e arg c =
      Done (True, ?c1)"
    by (simp add: vqec_dp_sm_primary_join_def vqec_dp_sm_activity_timer_stop_def)
  have s: "dp_state ?c1 = dp_state c" "dp_activity_timer ?c1 = None" "dp_rcc_in_abort ?c1 = dp_rcc_in_abort c"
    "dp_event_q ?c1 = dp_event_q c" "dp_rx_primary ?c1 = dp_rx_primary c" "dp_rx_repair ?c1 = dp_rx_repair c"
    by (simp_all add: vqec_dpchan_rcc_join_notify_def dp_frame)
  have w: "dp_timers_within (?c1\<lparr>dp_activity_timer := None\<rparr>)"
    using ok by (simp add: vqec_dpchan_rcc_join_notify_def dp_frame dp_ok_def dp_timers_within_def)
  have j: "(\<forall>n. dpe_stream_found env n) \<longrightarrow> dp_joined_primary ?c1"
    using join_primary_joins(1) by (simp add: vqec_dpchan_rcc_join_notify_def dp_frame)
  have fl: "dp_first_left ?c1 = dp_first_left c" using s(1,5,6) by (rule dp_first_left_eq)
  show ?thesis
    by (rule serve_to_wait [OF sv, where st = VQEC_DP_SM_STATE_WAIT_EN_ER and
          f = "the (s_dp_states VQEC_DP_SM_STATE_WAIT_JOIN)" and g = "the (s_dp_states VQEC_DP_SM_STATE_WAIT_EN_ER)" and ?c1.0 = ?c1 and ra = True and xs = "[]"])
      (use st e s w j fl run ok sv in \<open>simp_all add: dp_table_defs dp_potential_def dp_past_join_def dp_ok_def
         dp_serving_def del: dp_deliver_rec.simps\<close>)
qed

lemma serve_en_er:
  assumes sv: "dp_serving env e c" and st: "dp_state c = VQEC_DP_SM_STATE_WAIT_EN_ER"
    and e: "e = VQEC_DP_SM_EVENT_TIME_TO_EN_ER" and one: "length (evq_items (dp_event_q c)) = 1"
  shows "\<exists>r c'. dp_serve_event env (dp_deliver_rec (Suc d) env) e arg c = Done (r, c') \<and> dp_served env e c r c'"
proof -
  have ok: "dp_ok env c" and ne: "evq_items (dp_event_q c) \<noteq> []" using sv by (auto simp: dp_serving_def)
  have room: "dp_room c 1" using ok ne one dp_first_left_le(1) [of c] by (simp add: dp_room_def dp_ok_def)
  obtain p xs where p: "vqec_dpchan_rcc_er_en_notify env (dp_deliver_rec (Suc d) env) c = Done p" "dp_polled c xs p"
    using er_en_notify_ok [OF room] by blast
  let ?c1 = "vqec_dp_sm_log env VQEC_DP_SM_LOG_ER_EN VQEC_DP_SM_STATE_WAIT_EN_ER e p"
  have run: "vqec_dp_sm_notify_er_en env (dp_deliver_rec (Suc d) env) VQEC_DP_SM_STATE_WAIT_EN_ER e arg c =
      Done (True, ?c1)"
    using p(1) by (simp add: vqec_dp_sm_notify_er_en_def del: dp_deliver_rec.simps)
  have fl: "dp_first_left ?c1 = dp_first_left p" by (rule dp_first_left_eq) (simp_all add: dp_frame)
  have s: "dp_state ?c1 = dp_state c" "dp_activity_timer ?c1 = dp_activity_timer c"
    "dp_rcc_in_abort ?c1 = dp_rcc_in_abort c" "dp_joined_primary ?c1 = dp_joined_primary c"
    "evq_ok (dp_event_q ?c1)" "evq_head (dp_event_q ?c1) = evq_head (dp_event_q c)"
    "evq_items (dp_event_q ?c1) = evq_items (dp_event_q c) @ xs"
    "set xs \<subseteq> {VQEC_DP_SM_EVENT_PRIMARY, VQEC_DP_SM_EVENT_REPAIR}"
    "length xs + dp_first_left ?c1 = dp_first_left c"
    using p(2) fl by (auto simp: dp_polled_def dp_same_def dp_frame)
  have w: "dp_timers_within (?c1\<lparr>dp_activity_timer := None\<rparr>)" "dp_activity_timer c = None"
    using ok p(2) st by (auto simp: dp_frame dp_ok_def dp_timers_within_def dp_polled_def dp_same_def)
  have "length xs + of_bool (\<not> dp_rx_primary ?c1) \<le> 2" "length xs \<le> 2"
    using s(9) dp_first_left_le(1) [of c] by (auto simp: dp_first_left_def)
  then show ?thesis
    by (intro serve_to_wait [OF sv, where st = VQEC_DP_SM_STATE_WAIT_END_BURST and
          f = "the (s_dp_states VQEC_DP_SM_STATE_WAIT_EN_ER)" and g = "the (s_dp_states VQEC_DP_SM_STATE_WAIT_END_BURST)" and ?c1.0 = ?c1 and ra = True
          and xs = xs])
      (use st e s w run one ok in \<open>auto simp: dp_table_defs dp_potential_def dp_past_join_def dp_ok_def
         simp del: dp_deliver_rec.simps\<close>)
qed

lemma serve_end_burst:
  assumes sv: "dp_serving env e c" and st: "dp_state c = VQEC_DP_SM_STATE_WAIT_END_BURST"
    and e: "e = VQEC_DP_SM_EVENT_TIME_END_BURST"
  shows "\<exists>r c'. dp_serve_event env (dp_deliver_rec (Suc d) env) e arg c = Done (r, c') \<and> dp_served env e c r c'"
proof -
  let ?st = VQEC_DP_SM_STATE_FIN_SUCCESS
  have ok: "dp_ok env c" using sv by (simp add: dp_serving_def)
  let ?b = "dp_between env ?st e c"
  let ?c1 = "vqec_dpchan_rcc_success_notify env (?b\<lparr>dp_activity_timer := None\<rparr>)"
  let ?c = "vqec_dp_sm_log env VQEC_DP_SM_LOG_STATE_ENTER ?st e ?c1"
  have s: "dp_state ?c = ?st" "dp_event_q ?c = dp_event_q c" "dp_rx_primary ?c = dp_rx_primary c"
    "dp_rx_repair ?c = dp_rx_repair c" "dp_rcc_in_abort ?c = dp_rcc_in_abort c"
    "dp_joined_primary ?c = dp_joined_primary c" "dp_activity_timer ?c = None"
    "dp_wait_first_timer ?c = None" "dp_join_timer ?c = None" "dp_er_timer ?c = None"
    "dp_burst_end_timer ?c = None"
    using dp_between_timers [OF dp_timers_within_activity, of c env ?st e] ok
    by (simp_all add: vqec_dpchan_rcc_success_notify_def dp_ok_def dp_frame)
  have run: "dp_serve_event env (dp_deliver_rec (Suc d) env) e arg c = Done (True \<and> True, ?c)"
    by (rule serve_moves [where f = "the (s_dp_states VQEC_DP_SM_STATE_WAIT_END_BURST)" and
          g = "the (s_dp_states ?st)" and ?c1.0 = c])
      (use st e in \<open>simp_all add: dp_table_defs vqec_dp_sm_null_action_def vqec_dp_sm_enter_success_rcc_def
         vqec_dp_sm_activity_timer_stop_def vqec_dpchan_rcc_success_notify_def dp_frame\<close>)
  have "dp_first_left ?c \<le> dp_first_left c"
    by (rule dp_first_left_mono) (simp_all add: s st)
  then have "dp_queued c True ?c []"
    using s st by (simp add: dp_queued_def dp_potential_def)
  moreover have "dp_ok env ?c" using ok s st by (simp add: dp_ok_def dp_timers_within_def dp_past_join_def)
  moreover have "dp_timers_armed ?c" using s by (simp add: dp_timers_armed_def)
  ultimately have "dp_served env e c True ?c"
    using s(1) st e by (auto simp: dp_served_def dp_step_def dp_table_defs)
  with run show ?thesis by auto
qed

lemma dp_served_same:
  assumes ok: "dp_ok env c" and st: "dp_step (dp_state c) e = dp_state c"
    and s: "dp_same c c'" "dp_event_q c' = dp_event_q c" "dp_rx_primary c' = dp_rx_primary c"
      "dp_rx_repair c' = dp_rx_repair c"
  shows "dp_served env e c True c'"
proof -
  have "dp_first_left c' = dp_first_left c" by (rule dp_first_left_eq) (use s in \<open>simp_all add: dp_same_def\<close>)
  then have "dp_queued c True c' []" using s by (simp add: dp_queued_def dp_same_def dp_potential_def)
  moreover have "dp_ok env c'" using ok s by (simp add: dp_ok_def dp_same_def dp_timers_within_def) blast
  moreover have "dp_timers_armed c \<longrightarrow> dp_timers_armed c'" "dp_state c' = dp_state c"
    using s(1) by (simp_all add: dp_timers_armed_def dp_same_def)
  ultimately show ?thesis using st by (auto simp: dp_served_def)
qed

lemma serve_stay:
  assumes sv: "dp_serving env e c" and g: "vqec_dp_sm_guard_fcn (dp_state c) e"
    and st: "dp_step (dp_state c) e = dp_state c"
  shows "\<exists>r c'. dp_serve_event env (dp_deliver_rec (Suc d) env) e arg c = Done (r, c') \<and> dp_served env e c r c'"
proof -
  have ok: "dp_ok env c" using sv by (simp add: dp_serving_def)
  then obtain f where f: "s_dp_states (dp_state c) = Some f" by (cases "dp_state c") (auto simp: dp_ok_def)
  have tf: "dtransition_fcn f e = dp_state c"
    using f g st by (simp add: dp_step_def vqec_dp_sm_guard_fcn_def split: if_splits)
  let ?n = "vqec_dp_sm_log env VQEC_DP_SM_LOG_FIRST_PRIMARY (dp_state c) e (vqec_dpchan_rcc_ncsi_notify c)"
  have n: "dp_same c ?n" "dp_event_q ?n = dp_event_q c" "dp_rx_primary ?n = dp_rx_primary c"
      "dp_rx_repair ?n = dp_rx_repair c"
    by (simp_all add: dp_same_def vqec_dpchan_rcc_ncsi_notify_def dp_frame)
  have "daction_map_fcn f e = vqec_dp_sm_null_action \<or> daction_map_fcn f e = vqec_dp_sm_send_ncsi"
    using f tf by (cases "dp_state c"; cases e) (auto simp: dp_table_defs)
  then have "daction_map_fcn f e env (dp_deliver_rec (Suc d) env) (dp_state c) e arg c = Done (True, c) \<or>
      daction_map_fcn f e env (dp_deliver_rec (Suc d) env) (dp_state c) e arg c = Done (True, ?n)"
    by (auto simp: vqec_dp_sm_null_action_def vqec_dp_sm_send_ncsi_def)
  then have "dp_serve_event env (dp_deliver_rec (Suc d) env) e arg c = Done (True, c) \<or>
      dp_serve_event env (dp_deliver_rec (Suc d) env) e arg c = Done (True, ?n)"
    using f tf n(1) by (auto simp: dp_serve_event_def dp_same_def simp del: dp_deliver_rec.simps)
  moreover have "dp_served env e c True ?n" by (rule dp_served_same [OF ok st n])
  moreover have "dp_served env e c True c" by (rule dp_served_same [OF ok st]) (simp_all add: dp_same_refl)
  ultimately show ?thesis by blast
qed

text \<open>Every event that the guard lets through is served. An event that is not alone on the queue is
  one of those that the machine queues itself.\<close>

lemma serve_ok:
  assumes sv: "dp_serving env e c" and g: "vqec_dp_sm_guard_fcn (dp_state c) e"
    and one: "length (evq_items (dp_event_q c)) = 1 \<or>
      e \<in> {VQEC_DP_SM_EVENT_INTERNAL_ERR, VQEC_DP_SM_EVENT_PRIMARY, VQEC_DP_SM_EVENT_REPAIR} \<and>
      (e = VQEC_DP_SM_EVENT_REPAIR \<longrightarrow>
         dp_state c \<in> {VQEC_DP_SM_STATE_WAIT_END_BURST, VQEC_DP_SM_STATE_ABORT})"
  shows "\<exists>r c'. dp_serve_event env (dp_deliver_rec (Suc d) env) e arg c = Done (r, c') \<and> dp_served env e c r c'"
proof -
  consider "dp_step (dp_state c) e = dp_state c"
    | "dp_step (dp_state c) e = VQEC_DP_SM_STATE_ABORT" "dp_state c \<noteq> VQEC_DP_SM_STATE_ABORT"
    | "dp_state c = VQEC_DP_SM_STATE_INIT" "e = VQEC_DP_SM_EVENT_START_RCC"
    | "dp_state c = VQEC_DP_SM_STATE_WAIT_FIRST_SEQ" "e = VQEC_DP_SM_EVENT_REPAIR"
    | "dp_state c = VQEC_DP_SM_STATE_WAIT_JOIN" "e = VQEC_DP_SM_EVENT_TIME_TO_JOIN"
    | "dp_state c = VQEC_DP_SM_STATE_WAIT_EN_ER" "e = VQEC_DP_SM_EVENT_TIME_TO_EN_ER"
    | "dp_state c = VQEC_DP_SM_STATE_WAIT_END_BURST" "e = VQEC_DP_SM_EVENT_TIME_END_BURST"
    using g by (cases "dp_state c"; cases e) (simp_all add: dp_step_def dp_table_defs)
  then show ?thesis
  proof cases
    case 1 with sv g show ?thesis by (rule serve_stay)
  next
    case 2 with serve_to_abort [OF sv g] show ?thesis by blast
  next
    case 3 with sv show ?thesis by (rule serve_start)
  next
    case 4 with sv one show ?thesis by (intro serve_repair) auto
  next
    case 5 with sv show ?thesis by (rule serve_join)
  next
    case 6 with sv one show ?thesis by (intro serve_en_er) auto
  next
    case 7 with sv show ?thesis by (rule serve_end_burst)
  qed
qed

subsection \<open>Delivery runs to completion\<close>

text \<open>A delivery either has its event still waiting, or has served it; from then on only events that
  the machine has queued itself are left, among them an internal error if and only if something
  failed and the abort is still to come.\<close>

definition dp_phase :: "vqec_dp_sm_state \<Rightarrow> vqec_dp_sm_event \<Rightarrow> bool \<Rightarrow> vqec_dpchan \<Rightarrow> bool" where
  "dp_phase st ev r c \<longleftrightarrow>
     (let items = evq_items (dp_event_q c)
      in (r \<and> items = [ev] \<and> dp_state c = st \<and> dp_timers_armed c) \<or>
         (set items \<subseteq> {VQEC_DP_SM_EVENT_INTERNAL_ERR, VQEC_DP_SM_EVENT_PRIMARY, VQEC_DP_SM_EVENT_REPAIR} \<and>
          (VQEC_DP_SM_EVENT_REPAIR \<in> set items \<longrightarrow>
             dp_state c \<in> {VQEC_DP_SM_STATE_WAIT_END_BURST, VQEC_DP_SM_STATE_ABORT}) \<and>
          length items + of_bool (\<not> dp_rx_primary c) \<le> 3 \<and>
          (r \<longrightarrow> VQEC_DP_SM_EVENT_INTERNAL_ERR \<notin> set items \<and> dp_state c = dp_step st ev \<and> dp_timers_armed c) \<and>
          (\<not> r \<longrightarrow> dp_state c = VQEC_DP_SM_STATE_ABORT \<or>
             VQEC_DP_SM_EVENT_INTERNAL_ERR \<in> set items \<and> dp_state c \<noteq> VQEC_DP_SM_STATE_FIN_SUCCESS) \<and>
          (\<not> r \<longrightarrow> dp_step st ev \<notin> {VQEC_DP_SM_STATE_FIN_SUCCESS, VQEC_DP_SM_STATE_ABORT})))"

definition dp_inv :: "dp_env \<Rightarrow> vqec_dp_sm_event \<Rightarrow> vqec_dp_sm_state \<Rightarrow> dp_loop \<Rightarrow> bool" where
  "dp_inv env ev st l \<longleftrightarrow>
     (case l of (cur, nxt, r, c) \<Rightarrow>
        dp_ok env c \<and> cur = evq_head (dp_event_q c) \<and> nxt = (cur + 1) mod SM_MAX_EVENTQ_DEPTH \<and>
        dp_phase st ev r c)"

definition dp_pending :: "dp_loop \<Rightarrow> nat" where
  "dp_pending l = (case l of (_, _, _, c) \<Rightarrow> unat (q_depth (dp_event_q c)))"

definition dp_credit :: "dp_loop \<Rightarrow> nat" where
  "dp_credit l = (case l of (_, _, _, c) \<Rightarrow> dp_potential c)"

lemma dp_step_queued:
  "dp_step st VQEC_DP_SM_EVENT_PRIMARY = st"
  "st \<noteq> VQEC_DP_SM_STATE_INVALID \<Longrightarrow> dp_step st VQEC_DP_SM_EVENT_INTERNAL_ERR =
     (if st = VQEC_DP_SM_STATE_FIN_SUCCESS then st else VQEC_DP_SM_STATE_ABORT)"
  "st \<noteq> VQEC_DP_SM_STATE_WAIT_FIRST_SEQ \<Longrightarrow> dp_step st VQEC_DP_SM_EVENT_REPAIR = st"
  by (cases st; simp add: dp_step_def dp_table_defs)+

lemma dp_step_final:
  "dp_step VQEC_DP_SM_STATE_FIN_SUCCESS ev = VQEC_DP_SM_STATE_FIN_SUCCESS"
  "dp_step VQEC_DP_SM_STATE_ABORT ev = VQEC_DP_SM_STATE_ABORT"
  by (simp_all add: dp_step_def dp_table_defs)

lemma dp_guard_step: "\<not> vqec_dp_sm_guard_fcn st e \<Longrightarrow> dp_step st e = st"
  by (cases st) (auto simp: vqec_dp_sm_guard_fcn_def dp_step_def)

lemma dp_guard_err:
  "st \<noteq> VQEC_DP_SM_STATE_INVALID \<Longrightarrow> vqec_dp_sm_guard_fcn st VQEC_DP_SM_EVENT_INTERNAL_ERR"
  by (cases st) (simp_all add: dp_table_defs)

text \<open>An event of the queue that is not served is as good as one that keeps the channel.\<close>

lemma dp_phase_served:
  assumes ph: "dp_phase st ev r c" and items: "evq_items (dp_event_q c) = e # es"
    and sv: "dp_served env e c r1 c2" and inv: "dp_state c \<noteq> VQEC_DP_SM_STATE_INVALID"
    and q: "evq_items (dp_event_q c2) = e # evq_items q"
  shows "dp_phase st ev (r \<and> r1) (c2\<lparr>dp_event_q := q\<rparr>)"
proof -
  let ?E = "VQEC_DP_SM_EVENT_INTERNAL_ERR" and ?P = "VQEC_DP_SM_EVENT_PRIMARY" and ?R = "VQEC_DP_SM_EVENT_REPAIR"
  let ?W = "VQEC_DP_SM_STATE_WAIT_END_BURST" and ?A = "VQEC_DP_SM_STATE_ABORT" and ?F = "VQEC_DP_SM_STATE_FIN_SUCCESS"
  from sv obtain xs where xs: "dp_queued c r1 c2 xs" and tr: "dp_state c2 = dp_step (dp_state c) e"
    and arm: "r1 \<and> (dp_timers_armed c \<or> dp_state c2 \<noteq> dp_state c) \<longrightarrow> dp_timers_armed c2"
    unfolding dp_served_def by blast
  have it: "evq_items q = es @ xs" using xs q items by (simp add: dp_queued_def)
  have x: "set xs \<subseteq> {?E, ?P, ?R}" "?R \<in> set xs \<longrightarrow> dp_state c2 = ?W" "r1 \<longleftrightarrow> ?E \<notin> set xs"
    "\<not> r1 \<longrightarrow> dp_state c2 \<noteq> ?F \<and> dp_state c2 \<noteq> ?A"
    "length xs + of_bool (\<not> dp_rx_primary c2) \<le>
       (if dp_state c2 = dp_state c \<or> dp_state c2 = ?A then of_bool (\<not> dp_rx_primary c) else 3)"
    using xs unfolding dp_queued_def by blast+
  have arm': "dp_timers_armed (c2\<lparr>dp_event_q := q\<rparr>) = dp_timers_armed c2" by (simp add: dp_timers_armed_def)
  from ph [unfolded dp_phase_def Let_def items] show ?thesis
  proof (elim disjE conjE, goal_cases)
    case 1
    then have e: "e = ev" "es = []" "r" "dp_state c = st" "dp_timers_armed c" by simp_all
    have "of_bool (\<not> dp_rx_primary c) \<le> (1 :: nat)" by simp
    then have "length xs + of_bool (\<not> dp_rx_primary c2) \<le> 3" using x(5) by (auto split: if_splits)
    moreover have "r \<and> r1 \<longrightarrow> ?E \<notin> set xs \<and> dp_state c2 = dp_step st ev \<and> dp_timers_armed c2"
      using x(3) arm tr e by blast
    moreover have "\<not> (r \<and> r1) \<longrightarrow> dp_state c2 = ?A \<or> ?E \<in> set xs \<and> dp_state c2 \<noteq> ?F"
      "\<not> (r \<and> r1) \<longrightarrow> dp_step st ev \<notin> {?F, ?A}" using x(3,4) tr e by auto
    ultimately show ?case
      unfolding dp_phase_def Let_def arm' using x(1,2) e(2) by (intro disjI2) (simp add: it)
  next
    case 2
    have e: "e \<in> {?E, ?P, ?R}" "?R = e \<longrightarrow> dp_state c \<in> {?W, ?A}" using 2(1,2) by auto
    have mv: "dp_state c2 = dp_state c \<or> e = ?E \<and> dp_state c2 = ?A"
      using tr e dp_step_queued [of "dp_state c"] inv by (auto split: if_splits)
    have "length (es @ xs) + of_bool (\<not> dp_rx_primary c2) \<le> 3"
      using x(5) mv 2(3) by auto
    moreover have "?R \<in> set (es @ xs) \<longrightarrow> dp_state c2 \<in> {?W, ?A}" using 2(2) x(2) mv by auto
    moreover have "r \<and> r1 \<longrightarrow> ?E \<notin> set (es @ xs) \<and> dp_state c2 = dp_step st ev \<and> dp_timers_armed c2"
      using 2(4) x(3) mv arm by auto
    moreover have "\<not> (r \<and> r1) \<longrightarrow> dp_state c2 = ?A \<or> ?E \<in> set (es @ xs) \<and> dp_state c2 \<noteq> ?F"
    proof (cases r)
      case True
      then show ?thesis using x(3,4) by auto
    next
      case False
      show ?thesis
      proof (cases "dp_state c = ?A")
        case True
        then show ?thesis using tr dp_step_final(2) by simp
      next
        case nA: False
        then have "?E \<in> set (e # es)" "dp_state c \<noteq> ?F" using 2(5) False by auto
        then show ?thesis using mv tr dp_step_queued(2) [OF inv] by auto
      qed
    qed
    moreover have "\<not> (r \<and> r1) \<longrightarrow> dp_step st ev \<notin> {?F, ?A}" using 2(4,6) x(3,4) mv by (cases r) auto
    moreover have "set (es @ xs) \<subseteq> {?E, ?P, ?R}" using 2(1) x(1) by auto
    ultimately show ?case
      unfolding dp_phase_def Let_def arm' by (intro disjI2) (simp add: it)
  qed
qed

lemma dp_body_ok:
  assumes inv: "dp_inv env ev st l" and pend: "0 < dp_pending l"
  shows "\<exists>l'. dp_loop_body env (dp_deliver_rec (Suc 0) env) l = Done l' \<and> dp_inv env ev st l' \<and>
    dp_pending l' + dp_credit l' < dp_pending l + dp_credit l"
proof -
  obtain cur nxt r c where l: "l = (cur, nxt, r, c)" by (cases l)
  let ?q = "dp_event_q c"
  have ok: "dp_ok env c" and cur: "cur = evq_head ?q" and nxt: "nxt = (cur + 1) mod SM_MAX_EVENTQ_DEPTH"
    and ph: "dp_phase st ev r c"
    using inv unfolding dp_inv_def l prod.case by blast+
  have qok: "evq_ok ?q" and stc: "dp_state c \<noteq> VQEC_DP_SM_STATE_INVALID" using ok by (auto simp: dp_ok_def)
  obtain e es where items: "evq_items ?q = e # es"
    using pend evq_depth_items [OF qok] by (cases "evq_items ?q") (auto simp: l dp_pending_def)
  let ?c1 = "vqec_dp_sm_log env VQEC_DP_SM_LOG_STATE_EVENT (dp_state c) e c"
  have same: "dp_same c ?c1" "dp_event_q ?c1 = ?q" "dp_rx_primary ?c1 = dp_rx_primary c"
    "dp_rx_repair ?c1 = dp_rx_repair c" by (simp_all add: dp_same_def dp_frame)
  have ok1: "dp_ok env ?c1" using ok by (simp add: dp_ok_def dp_timers_within_def dp_frame) blast
  have ph1: "dp_phase st ev r ?c1" using ph by (simp add: dp_phase_def dp_timers_armed_def dp_frame)
  have pot1: "dp_potential ?c1 = dp_potential c"
    by (simp add: dp_potential_def dp_frame dp_first_left_def)
  let ?arg = "sl_arg (q_slots ?q ! unat cur)"
  have "\<exists>r1 c2. (if vqec_dp_sm_guard_fcn (dp_state c) e
        then dp_serve_event env (dp_deliver_rec (Suc 0) env) e ?arg ?c1 else Done (True, ?c1)) = Done (r1, c2) \<and>
      dp_served env e ?c1 r1 c2"
  proof (cases "vqec_dp_sm_guard_fcn (dp_state c) e")
    case True
    have "length (e # es) + of_bool (\<not> dp_rx_primary c) \<le> 3"
      using ph items by (auto simp: dp_phase_def Let_def)
    then have "dp_serving env e ?c1" using ok1 items by (simp add: dp_serving_def dp_frame)
    moreover have "length (evq_items (dp_event_q ?c1)) = 1 \<or>
      e \<in> {VQEC_DP_SM_EVENT_INTERNAL_ERR, VQEC_DP_SM_EVENT_PRIMARY, VQEC_DP_SM_EVENT_REPAIR} \<and>
      (e = VQEC_DP_SM_EVENT_REPAIR \<longrightarrow>
         dp_state ?c1 \<in> {VQEC_DP_SM_STATE_WAIT_END_BURST, VQEC_DP_SM_STATE_ABORT})"
      using ph items by (auto simp: dp_phase_def Let_def dp_frame)
    ultimately show ?thesis using True serve_ok [of env e ?c1 0 ?arg] by (simp add: dp_frame del: dp_deliver_rec.simps)
  next
    case False
    have "dp_served env e ?c1 True ?c1"
      using dp_guard_step [OF False] by (intro dp_served_same [OF ok1]) (simp_all add: dp_same_refl dp_frame)
    with False show ?thesis by (auto simp del: dp_deliver_rec.simps)
  qed
  then obtain r1 c2 where run: "(if vqec_dp_sm_guard_fcn (dp_state c) e
        then dp_serve_event env (dp_deliver_rec (Suc 0) env) e ?arg ?c1 else Done (True, ?c1)) = Done (r1, c2)"
    and served: "dp_served env e ?c1 r1 c2" by blast
  obtain xs where xs: "dp_queued ?c1 r1 c2 xs" and ok2: "dp_ok env c2" using served unfolding dp_served_def by blast
  have q2: "evq_ok (dp_event_q c2)" "evq_items (dp_event_q c2) = e # (es @ xs)"
    "evq_head (dp_event_q c2) = cur" "length xs + dp_potential c2 \<le> dp_potential c"
    using xs ok2 items cur pot1 by (simp_all add: dp_queued_def dp_ok_def dp_frame)
  note sv = evq_serve_ok [OF q2(1,2), of VQEC_DP_SM_EVENT_START_RCC, unfolded q2(3)]
  let ?q3 = "evq_clear VQEC_DP_SM_EVENT_START_RCC cur (dp_event_q c2)"
  let ?c3 = "c2\<lparr>dp_event_q := ?q3\<rparr>"
  let ?l = "(nxt, (nxt + 1) mod SM_MAX_EVENTQ_DEPTH, r \<and> r1, ?c3)"
  have "dp_phase st ev (r \<and> r1) ?c3"
    using sv items q2(2) stc
    by (intro dp_phase_served [OF ph1 _ served]) (simp_all add: dp_frame)
  moreover have "dp_ok env ?c3" using ok2 sv by (simp add: dp_ok_def dp_timers_within_def) blast
  ultimately have "dp_inv env ev st ?l" using sv nxt by (simp add: dp_inv_def)
  moreover have "dp_loop_body env (dp_deliver_rec (Suc 0) env) l = Done ?l"
  proof -
    have "sl_event (q_slots ?q ! unat cur) = e" using evq_serve_ok [OF qok items] cur by blast
    with run show ?thesis
      by (cases "vqec_dp_sm_guard_fcn (dp_state c) e")
        (simp_all add: l dp_loop_body_def Let_def del: dp_deliver_rec.simps)
  qed
  moreover have "dp_pending ?l = length (es @ xs)" "dp_credit ?l = dp_potential c2"
    using sv evq_depth_items [of ?q3]
    by (simp_all add: dp_pending_def dp_credit_def dp_potential_def dp_first_left_def)
  moreover have "dp_pending l = Suc (length es)" "dp_credit l = dp_potential c"
    using evq_depth_items [OF qok] items by (simp_all add: l dp_pending_def dp_credit_def)
  ultimately show ?thesis using q2(4) by auto
qed

interpretation dp_loop: event_loop "dp_inv env ev st" dp_pending dp_credit
  "dp_loop_body env (dp_deliver_rec (Suc 0) env)" "dp_loop_run env (dp_deliver_rec (Suc 0) env)"
  for ev st env
proof unfold_locales
  show "dp_loop_run env (dp_deliver_rec (Suc 0) env) (Suc n) l =
      bind_out (dp_loop_body env (dp_deliver_rec (Suc 0) env) l)
        (\<lambda>l'. if dp_pending l' = 0 then Done l' else dp_loop_run env (dp_deliver_rec (Suc 0) env) n l')"
    for n l
    by (simp only: dp_loop_run.simps, rule arg_cong [of _ _ "bind_out _"])
      (auto simp: fun_eq_iff dp_pending_def unat_eq_0)
qed (rule dp_body_ok)

text \<open>Between two deliveries the queue is empty and the timers run exactly in their states.\<close>

definition dp_rest :: "dp_env \<Rightarrow> vqec_dpchan \<Rightarrow> bool" where
  "dp_rest env c \<longleftrightarrow> dp_ok env c \<and> evq_items (dp_event_q c) = [] \<and> dp_timers_armed c"

lemma dp_potential_bound: "dp_potential c \<le> 7"
  using dp_first_left_le(1) [of c] by (cases "dp_state c") (simp_all add: dp_potential_def)

lemma dp_deliver_total:
  assumes rest: "dp_rest env c"
  shows "\<exists>r c'. vqec_dp_sm_deliver_event env ev arg c = Done (r, c') \<and> dp_rest env c' \<and>
    dp_state c' = (if r then dp_step (dp_state c) ev else VQEC_DP_SM_STATE_ABORT) \<and>
    (\<not> r \<longrightarrow> dp_step (dp_state c) ev \<notin> {VQEC_DP_SM_STATE_FIN_SUCCESS, VQEC_DP_SM_STATE_ABORT})"
proof -
  have dok: "dp_ok env c" and em: "evq_items (dp_event_q c) = []" and arm: "dp_timers_armed c"
    using rest by (auto simp: dp_rest_def)
  have ok: "evq_ok (dp_event_q c)" and st: "dp_state c \<noteq> VQEC_DP_SM_STATE_INVALID"
    using dok by (auto simp: dp_ok_def)
  obtain q where q: "evq_lease ev arg (dp_event_q c) = Done q" "evq_ok q" "evq_items q = [ev]"
    "evq_head q = q_idx (dp_event_q c)"
    "q_idx q = (q_idx (dp_event_q c) + 1) mod SM_MAX_EVENTQ_DEPTH"
    using evq_lease_ok [OF ok, of ev arg] em evq_head_empty [OF ok em] by auto
  have d: "unat (q_depth q) = 1" using evq_depth_items [OF q(2)] q(3) by simp
  let ?c = "c\<lparr>dp_tick := Suc (dp_tick c), dp_event_q := q,
    dp_event_mask := dp_event_mask c OR push_bit (vqec_dp_sm_event_no ev) 1\<rparr>"
  let ?l = "(q_idx (dp_event_q c), q_idx q, True, ?c)"
  have "dp_ok env ?c" using dok q(2) by (simp add: dp_ok_def dp_timers_within_def) blast
  then have "dp_inv env ev (dp_state c) ?l"
    using arm q by (simp add: dp_inv_def dp_phase_def dp_timers_armed_def)
  moreover have "0 < dp_pending ?l" "dp_pending ?l + dp_credit ?l \<le> DP_LOOP_ROUNDS"
    using d dp_potential_bound [of ?c] by (simp_all add: dp_pending_def dp_credit_def DP_LOOP_ROUNDS_def)
  ultimately obtain cur nxt r c' where
    run: "dp_loop_run env (dp_deliver_rec (Suc 0) env) DP_LOOP_ROUNDS ?l = Done (cur, nxt, r, c')"
    and inv: "dp_inv env ev (dp_state c) (cur, nxt, r, c')" and em': "dp_pending (cur, nxt, r, c') = 0"
    using dp_loop.loop_ok [of env ev "dp_state c" ?l DP_LOOP_ROUNDS] by (metis prod_cases4)
  have "\<not> q_depth q > 1" using d by (simp add: word_less_nat_alt)
  moreover have "s_dp_states (dp_state c) \<noteq> None" using st by (cases "dp_state c") auto
  ultimately have del: "vqec_dp_sm_deliver_event env ev arg c = Done (r, c')"
    using q(1) run by (auto simp: vqec_dp_sm_deliver_event_def numeral_2_eq_2 dp_sys_time_def Let_def
        simp del: dp_loop_run.simps)
  have ok': "dp_ok env c'" and ph: "dp_phase (dp_state c) ev r c'" using inv by (simp_all add: dp_inv_def)
  have em2: "evq_items (dp_event_q c') = []"
    using ok' em' evq_depth_items [of "dp_event_q c'"] by (simp add: dp_ok_def dp_pending_def)
  have fin: "dp_state c' = (if r then dp_step (dp_state c) ev else VQEC_DP_SM_STATE_ABORT)"
    "\<not> r \<longrightarrow> dp_step (dp_state c) ev \<notin> {VQEC_DP_SM_STATE_FIN_SUCCESS, VQEC_DP_SM_STATE_ABORT}"
    "r \<longrightarrow> dp_timers_armed c'"
    using ph unfolding dp_phase_def Let_def em2 by simp_all
  then have "dp_timers_armed c'" by (cases r) (auto simp: dp_timers_armed_def)
  then have "dp_rest env c'" using ok' em2 by (simp add: dp_rest_def)
  then show ?thesis using del fin by blast
qed

subsection \<open>Everything that can happen to a channel\<close>

text \<open>The inputs of the machine: an event of the control plane, the expiry of one of the five timers,
  and a packet of one of the input streams.\<close>

datatype dp_input =
    In_event vqec_dp_sm_event
  | In_first_seq_timeout | In_join_timeout | In_er_timeout | In_burst_timeout | In_activity_timer
  | In_pak rx_pak_ev rx_pak abs_time

definition dp_handle :: "dp_env \<Rightarrow> dp_input \<Rightarrow> vqec_dpchan \<Rightarrow> vqec_dpchan outcome" where
  "dp_handle env i c =
     (case i of
        In_event ev \<Rightarrow> dp_post (vqec_dp_sm_deliver_event env) ev c
      | In_first_seq_timeout \<Rightarrow> vqec_dp_sm_waitfirst_timeout_handler env c
      | In_join_timeout \<Rightarrow> vqec_dp_sm_join_timeout_handler env c
      | In_er_timeout \<Rightarrow> vqec_dp_sm_er_timeout_handler env c
      | In_burst_timeout \<Rightarrow> vqec_dp_sm_waitburst_timeout_handler env c
      | In_activity_timer \<Rightarrow> vqec_dp_sm_activity_timer_handler env c
      | In_pak ev pak t \<Rightarrow>
          bind_out (vqec_dpchan_pak_event env (vqec_dp_sm_deliver_event env) ev pak t c)
            (\<lambda>(_, c1). Done c1))"

inductive dp_reach :: "dp_env \<Rightarrow> vqec_dpchan \<Rightarrow> vqec_dpchan \<Rightarrow> bool" for env c0 where
  dp_reach_init: "dp_reach env c0 (vqec_dp_sm_init c0)"
| dp_reach_step: "dp_reach env c0 c \<Longrightarrow> dp_handle env i c = Done c' \<Longrightarrow> dp_reach env c0 c'"

inductive_cases dp_reachE: "dp_reach env c0 c"

text \<open>A channel before its machine is initialised: nothing is queued, no timer runs.\<close>

definition dp_fresh :: "vqec_dpchan \<Rightarrow> bool" where
  "dp_fresh c \<longleftrightarrow> evq_ok (dp_event_q c) \<and> evq_items (dp_event_q c) = [] \<and> \<not> dp_rcc_in_abort c \<and>
     dp_wait_first_timer c = None \<and> dp_join_timer c = None \<and> dp_er_timer c = None \<and>
     dp_burst_end_timer c = None \<and> dp_activity_timer c = None"

lemma dp_fresh_rest: "dp_fresh c \<Longrightarrow> dp_rest env (vqec_dp_sm_init c)"
  by (simp add: dp_fresh_def dp_rest_def dp_ok_def dp_timers_within_def dp_timers_armed_def
      dp_past_join_def vqec_dp_sm_init_def)

text \<open>The states only go forward.\<close>

definition dp_later :: "vqec_dp_sm_state \<Rightarrow> vqec_dp_sm_state \<Rightarrow> bool" where
  "dp_later st st' \<longleftrightarrow> vqec_dp_sm_state_no st \<le> vqec_dp_sm_state_no st' \<and>
     (st = VQEC_DP_SM_STATE_FIN_SUCCESS \<longrightarrow> st' = st)"

lemma dp_step_later: "dp_later st (dp_step st ev)"
  by (cases st; cases ev) (simp_all add: dp_later_def dp_step_def dp_table_defs)

lemma dp_later_refl: "dp_later st st"
  by (simp add: dp_later_def)

lemma dp_rest_same:
  assumes "dp_rest env c" and "dp_same c c'" and "dp_event_q c' = dp_event_q c"
  shows "dp_rest env c'"
proof -
  have "dp_ok env c'"
    using assms by (simp add: dp_rest_def dp_ok_def dp_same_def dp_timers_within_def) blast
  moreover have "dp_timers_armed c'"
    using assms by (simp add: dp_rest_def dp_same_def dp_timers_armed_def)
  ultimately show ?thesis using assms by (simp add: dp_rest_def)
qed

lemma dp_post_total:
  assumes "dp_rest env c0" and "dp_same c0 c" and "dp_event_q c = dp_event_q c0"
  shows "\<exists>c'. dp_post (vqec_dp_sm_deliver_event env) ev c = Done c' \<and> dp_rest env c' \<and>
    dp_later (dp_state c0) (dp_state c') \<and>
    (dp_state c' = dp_step (dp_state c0) ev \<or> dp_state c' = VQEC_DP_SM_STATE_ABORT)"
proof -
  have rest: "dp_rest env c" using assms by (rule dp_rest_same)
  obtain r c' where d: "vqec_dp_sm_deliver_event env ev 0 c = Done (r, c')" "dp_rest env c'"
    "dp_state c' = (if r then dp_step (dp_state c) ev else VQEC_DP_SM_STATE_ABORT)"
    "\<not> r \<longrightarrow> dp_step (dp_state c) ev \<notin> {VQEC_DP_SM_STATE_FIN_SUCCESS, VQEC_DP_SM_STATE_ABORT}"
    using dp_deliver_total [OF rest, of ev 0] by blast
  have st: "dp_state c = dp_state c0" using assms(2) by (simp add: dp_same_def)
  have "dp_state c = VQEC_DP_SM_STATE_FIN_SUCCESS \<longrightarrow> r" using d(4) dp_step_final by auto
  then have "dp_later (dp_state c) (dp_state c')"
    using d(3) dp_step_later [of "dp_state c" ev] by (cases r; cases "dp_state c") (auto simp: dp_later_def)
  then show ?thesis using d st by (auto simp: dp_post_def)
qed

lemma top_update_state:
  assumes rest: "dp_rest env c"
  shows "\<exists>c'. vqec_dpchan_pak_event_update_state env (vqec_dp_sm_deliver_event env) ev pak t c = Done (True, c') \<and>
    dp_rest env c' \<and> dp_later (dp_state c) (dp_state c')"
proof -
  define p where "p = (if IS_ABS_TIME_ZERO t then dp_sys_time env c else (t, c))"
  obtain t1 c1 where p: "p = (t1, c1)" by (cases p)
  have s: "dp_same c c1" "dp_event_q c1 = dp_event_q c"
    using p by (auto simp: p_def dp_sys_time_def dp_same_def split: if_splits)
  note rest1 = dp_rest_same [OF rest s]
  have st: "dp_state c1 = dp_state c" using s by (simp add: dp_same_def)
  have upd: "\<exists>c'. bind_out (if b then dp_post (vqec_dp_sm_deliver_event env) e d else Done c1)
      (\<lambda>c1. Done (True, f c1)) = Done (True, c') \<and> dp_rest env c' \<and> dp_later (dp_state c) (dp_state c')"
    if d: "dp_same c1 d" "dp_event_q d = dp_event_q c1" and f: "\<And>x. dp_same x (f x)" "\<And>x. dp_event_q (f x) = dp_event_q x"
    for b e d f
  proof -
    obtain c2 where "(if b then dp_post (vqec_dp_sm_deliver_event env) e d else Done c1) = Done c2"
      "dp_rest env c2" "dp_later (dp_state c) (dp_state c2)"
      using dp_post_total [OF rest1 d] rest1 dp_later_refl by (cases b) (auto simp: st)
    then show ?thesis using dp_rest_same [OF _ f] f(1) by (auto simp: dp_same_def)
  qed
  show ?thesis
  proof (cases ev)
    case VQEC_DP_CHAN_RX_PRIMARY_PAK
    let ?d = "vqec_dpchan_pak_event_record_first_primary pak t1 c1"
    have "dp_same c1 ?d" "dp_event_q ?d = dp_event_q c1"
      by (simp_all add: vqec_dpchan_pak_event_record_first_primary_def dp_same_def dp_frame Let_def)
    from upd [OF this, of "\<lambda>c. c\<lparr>dp_last_primary_pak_ts := t1\<rparr>" "\<not> dp_rx_primary c1"] show ?thesis
      using VQEC_DP_CHAN_RX_PRIMARY_PAK p
      by (simp add: vqec_dpchan_pak_event_update_state_def p_def [symmetric] dp_same_def)
  next
    case VQEC_DP_CHAN_RX_REPAIR_PAK
    let ?d = "c1\<lparr>dp_first_repair_seq := rp_seq_num pak, dp_first_repair_ts := rp_rcv_ts pak,
        dp_first_repair_ev_ts := t1, dp_rx_repair := True, dp_process_first_repair := False\<rparr>"
    have "dp_same c1 ?d" "dp_event_q ?d = dp_event_q c1" by (simp_all add: dp_same_def)
    from upd [OF this, of "\<lambda>c. c\<lparr>dp_last_repair_pak_ts := t1\<rparr>"
        "\<not> dp_rx_repair c1 \<and> dp_process_first_repair c1"] show ?thesis
      using VQEC_DP_CHAN_RX_REPAIR_PAK p
      by (simp add: vqec_dpchan_pak_event_update_state_def p_def [symmetric] dp_same_def)
  next
    case VQEC_DP_CHAN_RX_FEC_PAK
    then show ?thesis
      using p rest1 dp_later_refl by (simp add: vqec_dpchan_pak_event_update_state_def p_def [symmetric] st)
  qed
qed

lemma dp_handle_total:
  assumes rest: "dp_rest env c"
  shows "\<exists>c'. dp_handle env i c = Done c' \<and> dp_rest env c' \<and> dp_later (dp_state c) (dp_state c')"
proof -
  note defs = vqec_dp_sm_waitfirst_timeout_handler_def vqec_dp_sm_join_timeout_handler_def
    vqec_dp_sm_er_timeout_handler_def vqec_dp_sm_waitburst_timeout_handler_def
    vqec_dp_sm_activity_timer_handler_def dp_sys_time_def Let_def
  note post = dp_post_total [OF rest]
  have tick: "dp_same c (c\<lparr>dp_tick := n\<rparr>)" "dp_event_q (c\<lparr>dp_tick := n\<rparr>) = dp_event_q c"
    "dp_same c (c\<lparr>dp_tick := n, dp_burst_end_time := t\<rparr>)"
    "dp_event_q (c\<lparr>dp_tick := n, dp_burst_end_time := t\<rparr>) = dp_event_q c" for n t
    by (simp_all add: dp_same_def)
  show ?thesis
  proof (cases i)
    case (In_pak ev pak t)
    from top_update_state [OF rest, of ev pak t] show ?thesis
      using In_pak rest dp_later_refl
      by (cases ev) (auto simp: dp_handle_def vqec_dpchan_pak_event_def)
  next
    case In_activity_timer
    then show ?thesis
      using post [OF tick(1,2) [where n = "Suc (dp_tick c)"], of VQEC_DP_SM_EVENT_ACTIVITY_TIMEOUT] dp_rest_same [OF rest tick(1,2)] dp_later_refl
      by (auto simp: dp_handle_def defs)
  next
    case In_burst_timeout
    then show ?thesis
      using post [OF tick(3,4) [where n = "Suc (dp_tick c)" and t = "dpe_time env (dp_tick c)"], of VQEC_DP_SM_EVENT_TIME_END_BURST]
      by (auto simp: dp_handle_def defs)
  qed (use post [OF dp_same_refl refl] in \<open>simp add: dp_handle_def defs; blast\<close>)+
qed

lemma dp_reach_rest:
  assumes "dp_reach env c0 c" and "dp_fresh c0"
  shows "dp_rest env c"
  using assms
proof (induction rule: dp_reach.induct)
  case dp_reach_init
  then show ?case by (rule dp_fresh_rest)
next
  case (dp_reach_step c i c')
  then show ?case using dp_handle_total [of env c i] by auto
qed

text \<open>An idle channel and environments in which everything succeeds or everything fails.\<close>

definition vqec_dpchan_zero :: vqec_dpchan where
  "vqec_dpchan_zero =
     \<lparr>dp_state = VQEC_DP_SM_STATE_INVALID, dp_event_mask = 0,
      dp_event_q = evq_empty VQEC_DP_SM_EVENT_START_RCC,
      dp_sm_log = replicate 16 \<lparr>dlg_log_event = VQEC_DP_SM_LOG_STATE_EVENT,
        dlg_state = VQEC_DP_SM_STATE_INVALID, dlg_event = VQEC_DP_SM_EVENT_START_RCC, dlg_timestamp = 0\<rparr>,
      dp_sm_log_tail = 0, dp_sm_log_head = 0, dp_rcc_enabled = True, dp_fec_enabled = False,
      dp_rcc_in_abort = False, dp_joined_primary = False, dp_joined_fec = False,
      dp_join_issue_time = 0, dp_app_paks = [1], dp_wait_first_timer = None, dp_join_timer = None,
      dp_er_timer = None, dp_burst_end_timer = None, dp_activity_timer = None,
      dp_first_repair_deadline = 0, dp_first_repair_ts = 0, dp_first_repair_seq = 0,
      dp_first_repair_ev_ts = 0, dp_first_primary_ts = 0, dp_first_primary_seq = 0,
      dp_first_primary_ev_ts = 0, dp_dt_earliest_join = 0, dp_er_holdoff_time = 0,
      dp_dt_repair_end = 0, dp_burst_end_time = 0, dp_er_enable_time = 0, dp_last_repair_pak_ts = 0,
      dp_last_primary_pak_ts = 0, dp_rx_primary = False, dp_rx_repair = False,
      dp_process_first_repair = True, dp_streams = [IS_PRIMARY, IS_REPAIR],
      dp_pcm_fast_fill_time = 0, dp_pcm_rcc_post_abort_process = False, dp_calls = [], dp_tick = 0\<rparr>"

definition dp_env_all :: "bool \<Rightarrow> dp_env" where
  "dp_env_all b = \<lparr>dpe_time = (\<lambda>n. of_nat n), dpe_event_create = (\<lambda>_. b), dpe_event_start = (\<lambda>_. b),
     dpe_pcm_insert = (\<lambda>_. b), dpe_stream_found = (\<lambda>_. True),
     dpe_poll = (\<lambda>_. [(VQEC_DP_CHAN_RX_PRIMARY_PAK, \<lparr>rp_seq_num = 7, rp_rcv_ts = 3\<rparr>)])\<rparr>"

lemma vqec_dpchan_zero_fresh: "dp_fresh vqec_dpchan_zero"
  by (simp add: dp_fresh_def vqec_dpchan_zero_def evq_empty_ok)

lemma dp_first_two_steps:
  "case bind_out (dp_handle (dp_env_all True) (In_event VQEC_DP_SM_EVENT_START_RCC) (vqec_dp_sm_init vqec_dpchan_zero))
     (dp_handle (dp_env_all True) (In_pak VQEC_DP_CHAN_RX_REPAIR_PAK \<lparr>rp_seq_num = 7, rp_rcv_ts = 3\<rparr> 5)) of
     Done c \<Rightarrow> dp_activity_timer c \<noteq> None | _ \<Rightarrow> False"
  by code_simp

subsection \<open>Properties\<close>

text \<open>C1: on a data-plane channel at rest every delivery of an event returns, whatever the clock, the
  timers, the packet cache and the polled packets do: no assertion fails, the four slots of the event
  queue are enough for the events that actions and polled packets add, the recursion stays within two
  levels and the loop within eight rounds. The channel is at rest again; its state is the one of the
  transition table, or the abort state if and only if the result is false.\<close>

theorem rcc_dp_deliver_returns:
  assumes "dp_rest env c"
  shows "\<exists>r c'. vqec_dp_sm_deliver_event env ev arg c = Done (r, c') \<and> dp_rest env c' \<and>
    dp_state c' = (if r then dp_step (dp_state c) ev else VQEC_DP_SM_STATE_ABORT) \<and>
    (\<not> r \<longrightarrow> dp_step (dp_state c) ev \<noteq> VQEC_DP_SM_STATE_ABORT)"
  using dp_deliver_total [OF assms, of ev arg] by blast

theorem rcc_dp_deliver_returns_witness:
  "\<exists>r c'. vqec_dp_sm_deliver_event (dp_env_all False) VQEC_DP_SM_EVENT_START_RCC 0
     (vqec_dp_sm_init vqec_dpchan_zero) = Done (r, c') \<and> dp_rest (dp_env_all False) c'"
  using rcc_dp_deliver_returns [OF dp_fresh_rest [OF vqec_dpchan_zero_fresh], of "dp_env_all False"] by blast



text \<open>C28: a reachable channel handles every input, and its state only goes forward: no state is
  entered twice, success is final, and nothing but an abort follows an abort.\<close>

theorem rcc_dp_progress:
  assumes "dp_reach env c0 c" and "dp_fresh c0"
  shows "\<exists>c'. dp_handle env i c = Done c' \<and>
    vqec_dp_sm_state_no (dp_state c) \<le> vqec_dp_sm_state_no (dp_state c') \<and>
    (dp_state c = VQEC_DP_SM_STATE_FIN_SUCCESS \<longrightarrow> dp_state c' = VQEC_DP_SM_STATE_FIN_SUCCESS)"
  using dp_handle_total [OF dp_reach_rest [OF assms], of i] by (auto simp: dp_later_def)

theorem rcc_dp_progress_witness:
  "\<exists>c'. dp_handle (dp_env_all True) (In_event VQEC_DP_SM_EVENT_START_RCC)
     (vqec_dp_sm_init vqec_dpchan_zero) = Done c'"
  using rcc_dp_progress [OF dp_reach_init vqec_dpchan_zero_fresh, of "dp_env_all True"
      "In_event VQEC_DP_SM_EVENT_START_RCC"] by blast

text \<open>While the machine waits to join, the recurring activity check aborts the RCC if and only if
  no repair packet has come for more than 200 milliseconds; otherwise only the clock is read.\<close>

lemma rcc_dp_activity_check:
  assumes "dp_reach env c0 c" and "dp_fresh c0" and "dp_activity_timer c \<noteq> None"
  shows "\<exists>c'. vqec_dp_sm_activity_timer_handler env c = Done c' \<and>
    (if rel_time_gt (abs_minus_abs_time (dpe_time env (dp_tick c)) (dp_last_repair_pak_ts c)) (MSECS 200)
     then dp_state c' = VQEC_DP_SM_STATE_ABORT \<and> dp_rcc_in_abort c'
     else c' = c\<lparr>dp_tick := Suc (dp_tick c)\<rparr>)"
proof -
  have rest: "dp_rest env c" by (rule dp_reach_rest [OF assms(1,2)])
  then have "dp_state c = VQEC_DP_SM_STATE_WAIT_JOIN"
    using assms(3) by (simp add: dp_rest_def dp_ok_def dp_timers_within_def)
  then have "dp_step (dp_state c) VQEC_DP_SM_EVENT_ACTIVITY_TIMEOUT = VQEC_DP_SM_STATE_ABORT"
    by (simp add: dp_step_def dp_table_defs)
  then obtain c' where c': "dp_post (vqec_dp_sm_deliver_event env) VQEC_DP_SM_EVENT_ACTIVITY_TIMEOUT
      (c\<lparr>dp_tick := Suc (dp_tick c)\<rparr>) = Done c'" "dp_rest env c'" "dp_state c' = VQEC_DP_SM_STATE_ABORT"
    using dp_post_total [OF rest, of "c\<lparr>dp_tick := Suc (dp_tick c)\<rparr>" VQEC_DP_SM_EVENT_ACTIVITY_TIMEOUT]
    by (auto simp: dp_same_def)
  moreover from c'(2,3) have "dp_rcc_in_abort c'" by (simp add: dp_rest_def dp_ok_def)
  ultimately show ?thesis
    by (simp add: vqec_dp_sm_activity_timer_handler_def dp_sys_time_def VQEC_DP_REPAIR_ACTIVITY_TIMEOUT_def)
qed

end
