(* ===== verification/Token_Bucket.thy ===== *)
theory Token_Bucket
  imports Vam_Time
begin

text \<open>
  The token bucket of \<^verbatim>\<open>utils/vqe_token_bucket.c\<close>, which polices error-repair requests. The bucket
  is credited a quantum of tokens for every replenish period that has passed, up to its depth, and
  drained on demand. A null pointer is \<open>None\<close>; the reading of the system clock is the argument
  \<open>now\<close>, used where the caller passes the time 0.

  Sequences of operations are an instance of the interface \<open>metered_flow\<close>: what flows out is bounded
  by the level at the start and by the time that has passed.
\<close>

definition TB_RATE_MAX :: u32 where "TB_RATE_MAX = 150000"
definition TB_BURST_MAX :: u32 where "TB_BURST_MAX = 65535"
definition TB_QUANTUM_MAX :: u32 where "TB_QUANTUM_MAX = 4096"
definition TB_QUANTUM_DEFAULT :: u32 where "TB_QUANTUM_DEFAULT = 1"
definition MICROSECONDS_PER_SECOND :: u32 where "MICROSECONDS_PER_SECOND = 1000000"

datatype tb_retval =
    TB_RETVAL_OK
  | TB_RETVAL_INTERNAL_ERROR
  | TB_RETVAL_TB_INVALID
  | TB_RETVAL_RATE_INVALID
  | TB_RETVAL_BURST_INVALID
  | TB_RETVAL_QUANTUM_INVALID
  | TB_RETVAL_INSUFFICIENT_TOKENS

record token_bucket_info =
  tb_rate :: u32
  tb_burst :: u32
  tb_quantum_size :: u32
  tb_replenish_period :: u32
  tb_last_token_replenish_time :: abs_time
  tb_tokens_in_bucket :: u32

primrec tb_retval_to_str :: "tb_retval \<Rightarrow> string" where
  "tb_retval_to_str TB_RETVAL_OK = ''Token bucket request succeeded''"
| "tb_retval_to_str TB_RETVAL_INTERNAL_ERROR = ''Internal error, operation failed''"
| "tb_retval_to_str TB_RETVAL_TB_INVALID = ''Invalid token bucket supplied''"
| "tb_retval_to_str TB_RETVAL_RATE_INVALID = ''Invalid token bucket rate supplied''"
| "tb_retval_to_str TB_RETVAL_BURST_INVALID = ''Invalid token bucket burst supplied''"
| "tb_retval_to_str TB_RETVAL_QUANTUM_INVALID = ''Invalid token bucket quantum supplied''"
| "tb_retval_to_str TB_RETVAL_INSUFFICIENT_TOKENS = ''Insufficient tokens in bucket for request''"

subsection \<open>Operations\<close>

definition tb_init_common ::
  "abs_time \<Rightarrow> token_bucket_info option \<Rightarrow> u32 \<Rightarrow> u32 \<Rightarrow> u32 \<Rightarrow> abs_time \<Rightarrow>
   tb_retval \<times> token_bucket_info option" where
  "tb_init_common now tbp rate burst quantum_size curr_time =
     (case tbp of
        None \<Rightarrow> (TB_RETVAL_TB_INVALID, None)
      | Some tb \<Rightarrow>
          if rate > TB_RATE_MAX then (TB_RETVAL_RATE_INVALID, tbp)
          else if burst > TB_BURST_MAX then (TB_RETVAL_BURST_INVALID, tbp)
          else if quantum_size = 0 \<or> quantum_size > TB_QUANTUM_MAX then (TB_RETVAL_QUANTUM_INVALID, tbp)
          else (TB_RETVAL_OK, Some (tb
            \<lparr>tb_rate := rate, tb_burst := burst, tb_quantum_size := quantum_size,
             tb_replenish_period :=
               (if rate \<noteq> 0 then quantum_size * MICROSECONDS_PER_SECOND div rate else 0),
             tb_last_token_replenish_time :=
               (if abs_time_eq curr_time ABS_TIME_0 then now else curr_time),
             tb_tokens_in_bucket := burst\<rparr>)))"

definition tb_init_simple ::
  "abs_time \<Rightarrow> token_bucket_info option \<Rightarrow> u32 \<Rightarrow> u32 \<Rightarrow> tb_retval \<times> token_bucket_info option" where
  "tb_init_simple now tbp rate burst =
     (let (retval, tbp') = tb_init_common now tbp rate burst TB_QUANTUM_DEFAULT ABS_TIME_0
      in (if retval \<in> {TB_RETVAL_OK, TB_RETVAL_TB_INVALID, TB_RETVAL_RATE_INVALID, TB_RETVAL_BURST_INVALID}
          then retval else TB_RETVAL_INTERNAL_ERROR, tbp'))"

definition tb_init ::
  "abs_time \<Rightarrow> token_bucket_info option \<Rightarrow> u32 \<Rightarrow> u32 \<Rightarrow> u32 \<Rightarrow> abs_time \<Rightarrow>
   tb_retval \<times> token_bucket_info option" where
  "tb_init now tbp rate burst quantum_size curr_time =
     tb_init_common now tbp rate burst quantum_size curr_time"

text \<open>The result is the return value, the bucket and the number of tokens that is reported.\<close>

definition tb_credit_tokens_internal ::
  "abs_time \<Rightarrow> token_bucket_info option \<Rightarrow> abs_time \<Rightarrow> tb_retval \<times> token_bucket_info option \<times> u32" where
  "tb_credit_tokens_internal now tbp curr_time0 =
     (case tbp of
        None \<Rightarrow> (TB_RETVAL_TB_INVALID, None, 0)
      | Some tb \<Rightarrow>
          if tb_replenish_period tb = 0 then (TB_RETVAL_OK, tbp, tb_tokens_in_bucket tb)
          else
            let curr_time = (if abs_time_eq curr_time0 ABS_TIME_0 then now else curr_time0);
                delta_time = rel_time_to_usec
                  (abs_minus_abs_time curr_time (tb_last_token_replenish_time tb)) :: u64;
                elapsed_replenish_periods = delta_time div ucast (tb_replenish_period tb)
            in if elapsed_replenish_periods \<noteq> 0 then
                 let new_total_tokens = elapsed_replenish_periods * ucast (tb_quantum_size tb) +
                       ucast (tb_tokens_in_bucket tb);
                     use_bucket_max = (elapsed_replenish_periods \<ge> 0xFFFFFFFF \<or>
                       new_total_tokens > ucast (tb_burst tb));
                     tb' = tb\<lparr>tb_tokens_in_bucket :=
                             (if use_bucket_max then tb_burst tb else ucast new_total_tokens),
                           tb_last_token_replenish_time :=
                             (if use_bucket_max then curr_time
                              else abs_plus_rel_time (tb_last_token_replenish_time tb)
                                (usec_to_rel_time
                                   (elapsed_replenish_periods * ucast (tb_replenish_period tb))))\<rparr>
                 in (TB_RETVAL_OK, Some tb', tb_tokens_in_bucket tb')
               else (TB_RETVAL_OK, tbp, tb_tokens_in_bucket tb))"

definition tb_credit_tokens ::
  "abs_time \<Rightarrow> token_bucket_info option \<Rightarrow> abs_time \<Rightarrow> tb_retval \<times> token_bucket_info option \<times> u32" where
  "tb_credit_tokens now tbp curr_time = tb_credit_tokens_internal now tbp curr_time"

definition tb_drain_tokens ::
  "token_bucket_info option \<Rightarrow> u32 \<Rightarrow> tb_retval \<times> token_bucket_info option" where
  "tb_drain_tokens tbp number_of_tokens =
     (case tbp of
        None \<Rightarrow> (TB_RETVAL_TB_INVALID, None)
      | Some tb \<Rightarrow>
          if number_of_tokens > tb_tokens_in_bucket tb then (TB_RETVAL_INSUFFICIENT_TOKENS, tbp)
          else (TB_RETVAL_OK, Some (tb\<lparr>tb_tokens_in_bucket := tb_tokens_in_bucket tb - number_of_tokens\<rparr>)))"

definition tb_conform ::
  "abs_time \<Rightarrow> token_bucket_info option \<Rightarrow> abs_time \<Rightarrow> u32 \<Rightarrow> tb_retval \<times> token_bucket_info option" where
  "tb_conform now tbp curr_time number_of_tokens =
     (let (retval, tbp', curr_tokens) = tb_credit_tokens_internal now tbp curr_time
      in if retval \<noteq> TB_RETVAL_OK then (retval, tbp')
         else (if number_of_tokens > curr_tokens then TB_RETVAL_INSUFFICIENT_TOKENS else TB_RETVAL_OK, tbp'))"

definition tb_get_properties ::
  "token_bucket_info option \<Rightarrow> tb_retval \<times> (u32 \<times> u32 \<times> u32 \<times> u32) option" where
  "tb_get_properties tbp =
     (case tbp of
        None \<Rightarrow> (TB_RETVAL_TB_INVALID, None)
      | Some tb \<Rightarrow> (TB_RETVAL_OK, Some (tb_rate tb, tb_burst tb, tb_quantum_size tb, tb_tokens_in_bucket tb)))"

subsection \<open>The invariant and the effect in plain numbers\<close>

definition tb_ok :: "token_bucket_info \<Rightarrow> bool" where
  "tb_ok tb \<longleftrightarrow> unat (tb_rate tb) \<le> 150000 \<and> unat (tb_burst tb) \<le> 65535 \<and>
     1 \<le> unat (tb_quantum_size tb) \<and> unat (tb_quantum_size tb) \<le> 4096 \<and>
     tb_tokens_in_bucket tb \<le> tb_burst tb \<and>
     unat (tb_replenish_period tb) =
       (if tb_rate tb = 0 then 0 else unat (tb_quantum_size tb) * 1000000 div unat (tb_rate tb))"

text \<open>The credit as it is meant: whole periods since the last credit, a quantum for each, not more
  than the depth; the time of the last credit moves by whole periods, or to the present when the
  bucket overflows.\<close>

definition credit_spec :: "nat \<Rightarrow> nat \<Rightarrow> nat \<Rightarrow> nat \<Rightarrow> nat \<times> nat \<Rightarrow> nat \<times> nat" where
  "credit_spec period quantum burst t s =
     (let (tokens, last) = s; k = (t - last) div period
      in if period = 0 \<or> k = 0 then s
         else if tokens + k * quantum > burst then (burst, t)
         else (tokens + k * quantum, last + k * period))"

definition tb_abs :: "token_bucket_info \<Rightarrow> nat \<times> nat" where
  "tb_abs tb = (unat (tb_tokens_in_bucket tb), unat (tb_last_token_replenish_time tb))"

definition tb_same_props :: "token_bucket_info \<Rightarrow> token_bucket_info \<Rightarrow> bool" where
  "tb_same_props tb tb' \<longleftrightarrow> tb_rate tb' = tb_rate tb \<and> tb_burst tb' = tb_burst tb \<and>
     tb_quantum_size tb' = tb_quantum_size tb \<and> tb_replenish_period tb' = tb_replenish_period tb"

lemma unat_ucast_32_64: "unat (ucast (w :: u32) :: u64) = unat w"
proof -
  have "unat w < 2 ^ 32" using unat_less_pow [of w] by simp
  then show ?thesis by (simp add: unsigned_ucast_eq take_bit_nat_eq_self)
qed

lemma unat_ucast_64_32: "unat (w :: u64) < 2 ^ 32 \<Longrightarrow> unat (ucast w :: u32) = unat w"
  by (simp add: unsigned_ucast_eq take_bit_nat_eq_self)

lemma unat_mult_small:
  fixes x y :: "'a::len word"
  assumes "unat x * unat y < 2 ^ LENGTH('a)"
  shows "unat (x * y) = unat x * unat y"
  using assms by (simp add: unat_word_ariths)

lemma tb_init_ok:
  assumes "tb_init_common now (Some tb0) rate burst quantum t = (TB_RETVAL_OK, Some tb)"
  shows "tb_ok tb \<and> tb_tokens_in_bucket tb = tb_burst tb"
proof -
  have q: "unat quantum \<le> 4096" "unat quantum \<noteq> 0" "unat rate \<le> 150000" "unat burst \<le> 65535"
    using assms by (auto simp: tb_init_common_def TB_RATE_MAX_def TB_BURST_MAX_def TB_QUANTUM_MAX_def
        word_less_nat_alt unat_eq_0 split: if_splits)
  then have "unat (quantum * MICROSECONDS_PER_SECOND) = unat quantum * 1000000"
    by (subst unat_mult_small) (simp_all add: MICROSECONDS_PER_SECOND_def)
  then show ?thesis
    using q assms by (auto simp: tb_init_common_def tb_ok_def unat_div_distrib split: if_splits)
qed

text \<open>The code computes the intended credit as long as the clock does not go back.\<close>

lemma tb_credit_refines_aux:
  assumes ok: "tb_ok tb" and t: "t \<noteq> 0" and le: "tb_last_token_replenish_time tb \<le> t"
  shows "\<exists>tb'. tb_credit_tokens_internal now (Some tb) t =
      (TB_RETVAL_OK, Some tb', tb_tokens_in_bucket tb') \<and> tb_ok tb' \<and> tb_same_props tb tb' \<and>
    tb_abs tb' = credit_spec (unat (tb_replenish_period tb)) (unat (tb_quantum_size tb))
      (unat (tb_burst tb)) (unat t) (tb_abs tb)"
proof (cases "tb_replenish_period tb = 0")
  case True
  then show ?thesis
    using ok by (simp add: tb_credit_tokens_internal_def credit_spec_def tb_same_props_def tb_abs_def)
next
  case False
  let ?p = "unat (tb_replenish_period tb)" and ?q = "unat (tb_quantum_size tb)"
    and ?n = "unat (tb_tokens_in_bucket tb)" and ?b = "unat (tb_burst tb)"
    and ?l = "unat (tb_last_token_replenish_time tb)"
  let ?e = "(t - tb_last_token_replenish_time tb) div ucast (tb_replenish_period tb)"
  let ?new = "?e * ucast (tb_quantum_size tb) + ucast (tb_tokens_in_bucket tb)"
  define k where "k = (unat t - ?l) div ?p"
  have lt: "?l \<le> unat t" using le by (simp add: word_le_nat_alt)
  have e: "unat ?e = k" using le by (simp add: k_def unat_div_distrib unat_ucast_32_64 unat_sub)
  have q: "1 \<le> ?q" "?q \<le> 4096" "?n \<le> ?b" "?b \<le> 65535" using ok by (auto simp: tb_ok_def word_le_nat_alt)
  have e0: "?e \<noteq> 0 \<longleftrightarrow> k \<noteq> 0" using e by (metis unat_eq_0)
  have big: "?e \<ge> 0xFFFFFFFF \<longleftrightarrow> k \<ge> 0xFFFFFFFF" using e by (simp add: word_le_nat_alt)
  have kp: "k * ?p \<le> unat t - ?l" by (simp add: k_def)
  have "unat t < 2 ^ 64" using unat_less_pow [of t] by simp
  have kp64: "unat (?e * ucast (tb_replenish_period tb)) = k * ?p"
    using kp \<open>unat t < 2 ^ 64\<close> by (subst unat_mult_small) (simp_all add: e unat_ucast_32_64)
  then have last: "unat (tb_last_token_replenish_time tb + ?e * ucast (tb_replenish_period tb)) = ?l + k * ?p"
    using kp lt \<open>unat t < 2 ^ 64\<close> by (subst unat_add_small) simp_all
  let ?max = "?e \<ge> 0xFFFFFFFF \<or> ?new > ucast (tb_burst tb)"
  have max: "?max \<longleftrightarrow> ?n + k * ?q > ?b" and new: "\<not> ?max \<longrightarrow> unat ?new = ?n + k * ?q"
  proof -
    have *: "unat ?new = ?n + k * ?q" if "k < 0xFFFFFFFF"
    proof -
      have "k * ?q \<le> 0xFFFFFFFF * 4096" using that q(2) by (intro mult_mono) simp_all
      moreover from this have "unat (?e * ucast (tb_quantum_size tb)) = k * ?q"
        by (subst unat_mult_small) (simp_all add: e unat_ucast_32_64)
      ultimately show ?thesis using q by (subst unat_add_small) (simp_all add: unat_ucast_32_64)
    qed
    show "?max \<longleftrightarrow> ?n + k * ?q > ?b"
    proof (cases "k \<ge> 0xFFFFFFFF")
      case True
      then have "0xFFFFFFFF * 1 \<le> k * ?q" using q(1) by (intro mult_mono) simp_all
      then have "?n + k * ?q > ?b" using q(4) by simp
      then show ?thesis using True big by simp
    next
      case False
      then show ?thesis using * big by (simp add: word_less_nat_alt unat_ucast_32_64)
    qed
    show "\<not> ?max \<longrightarrow> unat ?new = ?n + k * ?q" using * big by simp
  qed
  show ?thesis
  proof (cases "?e = 0")
    case True
    then show ?thesis
      using ok t False e0
      by (simp add: tb_credit_tokens_internal_def credit_spec_def tb_same_props_def tb_abs_def k_def
          abs_time_eq_def ABS_TIME_0_def abs_minus_abs_time_def rel_time_to_usec_def)
  next
    case e1: False
    define tb' where "tb' = tb\<lparr>tb_tokens_in_bucket := (if ?max then tb_burst tb else ucast ?new),
      tb_last_token_replenish_time := (if ?max then t
        else tb_last_token_replenish_time tb + ?e * ucast (tb_replenish_period tb))\<rparr>"
    have run: "tb_credit_tokens_internal now (Some tb) t = (TB_RETVAL_OK, Some tb', tb_tokens_in_bucket tb')"
      using t False e1
      by (simp add: tb_credit_tokens_internal_def tb'_def abs_time_eq_def ABS_TIME_0_def Let_def
          abs_minus_abs_time_def rel_time_to_usec_def abs_plus_rel_time_def usec_to_rel_time_def)
    have tok: "unat (tb_tokens_in_bucket tb') = (if ?n + k * ?q > ?b then ?b else ?n + k * ?q)"
    proof (cases ?max)
      case True
      then show ?thesis using max by (simp add: tb'_def)
    next
      case nmax: False
      then have "unat ?new \<le> ?b" using max new by auto
      then have "unat (ucast ?new :: u32) = unat ?new" using q(4) by (intro unat_ucast_64_32) simp
      then show ?thesis using nmax max new unfolding tb'_def by auto
    qed
    have lst: "unat (tb_last_token_replenish_time tb') =
        (if ?n + k * ?q > ?b then unat t else ?l + k * ?p)"
      using max last unfolding tb'_def by auto
    have pr: "tb_same_props tb tb'" by (simp add: tb_same_props_def tb'_def)
    moreover have "tb_ok tb'" using ok pr tok by (auto simp: tb_ok_def tb_same_props_def word_le_nat_alt)
    moreover have "k \<noteq> 0" using e0 e1 by blast
    ultimately show ?thesis
      using run tok lst False
      by (intro exI [of _ tb']) (simp add: tb_abs_def credit_spec_def unat_eq_0 Let_def flip: k_def)
  qed
qed

subsection \<open>What flows out over time\<close>

primrec all_allowed :: "('o \<Rightarrow> 's \<Rightarrow> bool) \<Rightarrow> ('o \<Rightarrow> 's \<Rightarrow> 's) \<Rightarrow> 'o list \<Rightarrow> 's \<Rightarrow> bool" where
  "all_allowed allowed step [] s = True"
| "all_allowed allowed step (x # xs) s = (allowed x s \<and> all_allowed allowed step xs (step x s))"

primrec total_out :: "('o \<Rightarrow> 's \<Rightarrow> nat) \<Rightarrow> ('o \<Rightarrow> 's \<Rightarrow> 's) \<Rightarrow> 'o list \<Rightarrow> 's \<Rightarrow> nat" where
  "total_out out step [] s = 0"
| "total_out out step (x # xs) s = out x s + total_out out step xs (step x s)"

text \<open>A meter: every step may raise the level by as much as the clock moves, and what goes out
  lowers it.\<close>

locale metered_flow =
  fixes ok :: "'s \<Rightarrow> bool"
    and step :: "'o \<Rightarrow> 's \<Rightarrow> 's"
    and allowed :: "'o \<Rightarrow> 's \<Rightarrow> bool"
    and out :: "'o \<Rightarrow> 's \<Rightarrow> nat"
    and weight :: nat
    and level :: "'s \<Rightarrow> nat"
    and clock :: "'s \<Rightarrow> nat"
  assumes step_ok: "ok s \<Longrightarrow> allowed x s \<Longrightarrow> ok (step x s)"
    and step_flow: "ok s \<Longrightarrow> allowed x s \<Longrightarrow>
      weight * out x s + level (step x s) + clock s \<le> level s + clock (step x s)"
begin

lemma run_ok: "ok s \<Longrightarrow> all_allowed allowed step xs s \<Longrightarrow> ok (fold step xs s)"
  by (induction xs arbitrary: s) (auto simp: step_ok)

lemma run_flow:
  "ok s \<Longrightarrow> all_allowed allowed step xs s \<Longrightarrow>
   weight * total_out out step xs s + level (fold step xs s) + clock s \<le> level s + clock (fold step xs s)"
proof (induction xs arbitrary: s)
  case (Cons x xs)
  then have "weight * out x s + level (step x s) + clock s \<le> level s + clock (step x s)"
    "weight * total_out out step xs (step x s) + level (fold step xs (step x s)) + clock (step x s) \<le>
      level (step x s) + clock (fold step xs (step x s))"
    using step_flow [of s x] step_ok [of s x] by simp_all
  then show ?case by (simp add: add_mult_distrib2)
qed simp

end

text \<open>An operation on a bucket in use; the time of a credit is not 0 and not before the last
  credit.\<close>

datatype tb_op = Credit abs_time | Drain u32 | Conform abs_time u32

definition tb_step :: "tb_op \<Rightarrow> token_bucket_info \<Rightarrow> token_bucket_info" where
  "tb_step x tb =
     (case x of
        Credit t \<Rightarrow> the (fst (snd (tb_credit_tokens 0 (Some tb) t)))
      | Drain n \<Rightarrow> the (snd (tb_drain_tokens (Some tb) n))
      | Conform t n \<Rightarrow> the (snd (tb_conform 0 (Some tb) t n)))"

definition tb_drained :: "tb_op \<Rightarrow> token_bucket_info \<Rightarrow> nat" where
  "tb_drained x tb =
     (case x of Drain n \<Rightarrow> if fst (tb_drain_tokens (Some tb) n) = TB_RETVAL_OK then unat n else 0
      | _ \<Rightarrow> 0)"

definition tb_timely :: "tb_op \<Rightarrow> token_bucket_info \<Rightarrow> bool" where
  "tb_timely x tb =
     (case x of Credit t \<Rightarrow> t \<noteq> 0 \<and> tb_last_token_replenish_time tb \<le> t
      | Drain n \<Rightarrow> True
      | Conform t n \<Rightarrow> t \<noteq> 0 \<and> tb_last_token_replenish_time tb \<le> t)"

lemma credit_spec_metered:
  assumes "credit_spec p q b t (n, l) = (n', l')" and "l \<le> t" and "0 < p"
  shows "p * n' + q * l \<le> p * n + q * l'"
proof -
  define k where "k = (t - l) div p"
  have kp: "k * p \<le> t - l" by (simp add: k_def)
  have "(n', l') = (if p = 0 \<or> k = 0 then (n, l) else if n + k * q > b then (b, t)
      else (n + k * q, l + k * p))"
    using assms(1) unfolding credit_spec_def Let_def prod.case k_def by simp
  then consider "n' = n" "l' = l" | "n + k * q > b" "n' = b" "l' = t"
    | "n' = n + k * q" "l' = l + k * p"
    by (simp split: if_splits)
  then show ?thesis
  proof cases
    case 2
    have "p * b \<le> p * (n + k * q)" using 2 by simp
    moreover have "k * p + l \<le> t" using kp assms(2) by simp
    then have "q * (k * p + l) \<le> q * t" by (rule mult_le_mono2)
    ultimately show ?thesis using 2 by (simp add: algebra_simps)
  next
    case 3
    then show ?thesis by (simp add: algebra_simps)
  qed simp
qed

definition tb_class :: "nat \<Rightarrow> nat \<Rightarrow> token_bucket_info \<Rightarrow> bool" where
  "tb_class p q tb \<longleftrightarrow> tb_ok tb \<and> unat (tb_replenish_period tb) = p \<and> unat (tb_quantum_size tb) = q \<and> 0 < p"

lemma tb_credit_metered:
  assumes tb: "tb_class p q tb" and t: "t \<noteq> 0" "tb_last_token_replenish_time tb \<le> t"
    and tb': "tb' = the (fst (snd (tb_credit_tokens_internal 0 (Some tb) t)))"
  shows "tb_class p q tb'" "p * unat (tb_tokens_in_bucket tb') + q * unat (tb_last_token_replenish_time tb) \<le>
      p * unat (tb_tokens_in_bucket tb) + q * unat (tb_last_token_replenish_time tb')"
proof -
  have "tb_ok tb" using tb by (simp add: tb_class_def)
  from tb_credit_refines_aux [OF this t, of 0] tb' tb
  have c: "tb_ok tb'" "tb_same_props tb tb'"
    and s: "tb_abs tb' = credit_spec p q (unat (tb_burst tb)) (unat t) (tb_abs tb)"
    by (auto simp: tb_class_def)
  then show "tb_class p q tb'" using tb by (simp add: tb_class_def tb_same_props_def)
  show "p * unat (tb_tokens_in_bucket tb') + q * unat (tb_last_token_replenish_time tb) \<le>
      p * unat (tb_tokens_in_bucket tb) + q * unat (tb_last_token_replenish_time tb')"
    by (rule credit_spec_metered [OF s [symmetric, unfolded tb_abs_def]])
      (use tb t(2) in \<open>simp_all add: tb_class_def word_le_nat_alt\<close>)
qed

lemma tb_step_Conform: "tb_step (Conform t n) tb = the (fst (snd (tb_credit_tokens_internal 0 (Some tb) t)))"
  by (auto simp: tb_step_def tb_conform_def split: prod.splits)

lemma tb_step_Credit: "tb_step (Credit t) tb = the (fst (snd (tb_credit_tokens_internal 0 (Some tb) t)))"
  by (simp add: tb_step_def tb_credit_tokens_def)

lemma tb_step_Drain:
  assumes "tb_class p q tb"
  shows "tb_class p q (tb_step (Drain n) tb)"
    "tb_drained (Drain n) tb + unat (tb_tokens_in_bucket (tb_step (Drain n) tb)) = unat (tb_tokens_in_bucket tb)"
    "tb_last_token_replenish_time (tb_step (Drain n) tb) = tb_last_token_replenish_time tb"
proof -
  have "unat (tb_tokens_in_bucket tb - n) = unat (tb_tokens_in_bucket tb) - unat n"
    if "\<not> tb_tokens_in_bucket tb < n" using that by (simp add: unat_sub)
  then show "tb_class p q (tb_step (Drain n) tb)"
    "tb_drained (Drain n) tb + unat (tb_tokens_in_bucket (tb_step (Drain n) tb)) = unat (tb_tokens_in_bucket tb)"
    "tb_last_token_replenish_time (tb_step (Drain n) tb) = tb_last_token_replenish_time tb"
    using assms
    by (auto simp: tb_step_def tb_drained_def tb_drain_tokens_def tb_class_def tb_ok_def word_less_nat_alt
        word_le_nat_alt)
qed

text \<open>The level of a bucket counts its tokens in units of the period, its clock the time of the last
  credit in units of the quantum.\<close>

interpretation tb: metered_flow "tb_class p q" tb_step tb_timely tb_drained p
  "\<lambda>tb. p * unat (tb_tokens_in_bucket tb)" "\<lambda>tb. q * unat (tb_last_token_replenish_time tb)" for p q
proof (unfold_locales, goal_cases)
  case (1 tb x)
  then show ?case
    using tb_credit_metered(1) [OF 1(1) _ _ refl] tb_step_Drain(1) [OF 1(1)]
    by (cases x) (auto simp: tb_timely_def tb_step_Conform tb_step_Credit)
next
  case (2 tb x)
  show ?case
  proof (cases x)
    case (Credit t)
    then show ?thesis
      using tb_credit_metered(2) [OF 2(1) _ _ refl, of t] 2(2)
      by (simp add: tb_timely_def tb_drained_def tb_step_Credit)
  next
    case (Drain n)
    have "p * (tb_drained x tb + unat (tb_tokens_in_bucket (tb_step x tb))) =
        p * unat (tb_tokens_in_bucket tb)"
      using tb_step_Drain(2) [OF 2(1), of n] Drain by (metis)
    then show ?thesis using tb_step_Drain(3) [OF 2(1), of n] Drain by (simp add: algebra_simps)
  next
    case (Conform t n)
    then show ?thesis
      using tb_credit_metered(2) [OF 2(1) _ _ refl, of t] 2(2)
      by (simp add: tb_timely_def tb_drained_def tb_step_Conform)
  qed
qed

subsection \<open>Properties\<close>

text \<open>C20: crediting a bucket computes exactly the intended credit: a quantum for each whole period
  since the last credit, capped at the depth, with the fraction of a period kept for the next credit
  unless the bucket overflows. No step of the computation overflows, for any clock that does not go
  back, and the invariant of the bucket is kept.\<close>

theorem tb_credit_refines:
  assumes "tb_ok tb" and "t \<noteq> 0" and "tb_last_token_replenish_time tb \<le> t"
  shows "\<exists>tb'. tb_credit_tokens now (Some tb) t = (TB_RETVAL_OK, Some tb', tb_tokens_in_bucket tb') \<and>
    tb_ok tb' \<and>
    tb_abs tb' = credit_spec (unat (tb_replenish_period tb)) (unat (tb_quantum_size tb))
      (unat (tb_burst tb)) (unat t) (tb_abs tb)"
  using tb_credit_refines_aux [OF assms, of now] by (auto simp: tb_credit_tokens_def)

definition tb_sample :: token_bucket_info where
  "tb_sample = \<lparr>tb_rate = 100, tb_burst = 50, tb_quantum_size = 2, tb_replenish_period = 20000,
     tb_last_token_replenish_time = 1000000, tb_tokens_in_bucket = 10\<rparr>"

theorem tb_credit_refines_witness:
  "\<exists>tb'. tb_credit_tokens 0 (Some tb_sample) 1050000 = (TB_RETVAL_OK, Some tb', tb_tokens_in_bucket tb') \<and>
    tb_abs tb' = (14, 1040000)"
  using tb_credit_refines [of tb_sample 1050000 0]
  by (auto simp: tb_sample_def tb_ok_def tb_abs_def credit_spec_def)

text \<open>C24: over any sequence of credits, drains and conformance checks with a clock that does not go
  back, the tokens taken out of a bucket are at most those in it at the start plus a quantum for each
  period between the first and the last credit.\<close>

theorem tb_outflow_bound:
  assumes "tb_ok tb" and "0 < tb_replenish_period tb" and "all_allowed tb_timely tb_step ops tb"
  shows "unat (tb_replenish_period tb) * total_out tb_drained tb_step ops tb +
      unat (tb_quantum_size tb) * unat (tb_last_token_replenish_time tb) \<le>
    unat (tb_replenish_period tb) * unat (tb_tokens_in_bucket tb) +
      unat (tb_quantum_size tb) * unat (tb_last_token_replenish_time (fold tb_step ops tb))"
  using tb.run_flow [of "unat (tb_replenish_period tb)" "unat (tb_quantum_size tb)" tb ops] assms
  by (simp add: tb_class_def word_gt_0 unat_gt_0)

theorem tb_outflow_bound_witness:
  "20000 * total_out tb_drained tb_step [Drain 8, Credit 1050000, Drain 3] tb_sample + 2 * 1000000 \<le>
     (20000 * 10 + 2 * 1040000 :: nat)"
proof -
  have "all_allowed tb_timely tb_step [Drain 8, Credit 1050000, Drain 3] tb_sample" by code_simp
  moreover have "tb_last_token_replenish_time (fold tb_step [Drain 8, Credit 1050000, Drain 3] tb_sample) =
      1040000" by code_simp
  ultimately show ?thesis
    using tb_outflow_bound [of tb_sample "[Drain 8, Credit 1050000, Drain 3]"]
    by (simp add: tb_sample_def tb_ok_def)
qed

text \<open>A bucket set up by the initialisation satisfies the invariant and is full, and its period
  is the configured one rounded down, so that the bucket is never slower than its rate, and faster by
  less than one microsecond per quantum.\<close>

lemma tb_init_rate:
  assumes "tb_init now (Some tb0) rate burst quantum t = (TB_RETVAL_OK, Some tb)" and "rate \<noteq> 0"
  shows "tb_ok tb \<and> tb_tokens_in_bucket tb = burst \<and>
    unat rate * unat (tb_replenish_period tb) \<le> unat quantum * 1000000 \<and>
    unat quantum * 1000000 < unat rate * (unat (tb_replenish_period tb) + 1)"
proof -
  have ok: "tb_ok tb" using tb_init_ok assms(1) unfolding tb_init_def by blast
  have f: "tb_rate tb = rate" "tb_burst tb = burst" "tb_quantum_size tb = quantum" "tb_tokens_in_bucket tb = burst"
    using assms(1) by (auto simp: tb_init_def tb_init_common_def split: if_splits)
  have "0 < unat rate" using assms(2) by (simp add: unat_gt_0)
  then show ?thesis
    using ok f assms(2) dividend_less_times_div [of "unat rate" "unat quantum * 1000000"]
    by (simp add: tb_ok_def)
qed

text \<open>At the largest rate the rounding shows: an empty bucket of 150000 tokens per second is
  credited 50000 tokens in three tenths of a second, not 45000.\<close>

lemma tb_rate_exceeded:
  "fst (snd (tb_credit_tokens 0
     (snd (tb_drain_tokens (snd (tb_init 0 (Some tb_sample) 150000 65535 1 1000000)) 65535)) 1300000)) =
   Some \<lparr>tb_rate = 150000, tb_burst = 65535, tb_quantum_size = 1, tb_replenish_period = 6,
     tb_last_token_replenish_time = 1300000, tb_tokens_in_bucket = 50000\<rparr>"
  by code_simp

text \<open>When the clock goes back, by up to 71 minutes, the unsigned difference is huge, and the next
  credit fills the bucket.\<close>

lemma tb_clock_back_fills:
  assumes "tb_ok tb" and "tb_replenish_period tb \<noteq> 0" and "t \<noteq> 0" and "t < tb_last_token_replenish_time tb"
    and "unat (tb_last_token_replenish_time tb) - unat t \<le> 2 ^ 32"
  shows "\<exists>tb'. tb_credit_tokens now (Some tb) t = (TB_RETVAL_OK, Some tb', tb_burst tb) \<and>
    tb_tokens_in_bucket tb' = tb_burst tb \<and> tb_last_token_replenish_time tb' = t"
proof -
  let ?p = "unat (tb_replenish_period tb)"
  let ?e = "(t - tb_last_token_replenish_time tb) div ucast (tb_replenish_period tb)"
  have p: "0 < ?p" "?p < 2 ^ 32" using assms(2) unat_less_pow [of "tb_replenish_period tb"] by (simp_all add: unat_gt_0)
  have "unat (t - tb_last_token_replenish_time tb) = 2 ^ 64 - (unat (tb_last_token_replenish_time tb) - unat t)"
    using unat_minus_swap [of t "tb_last_token_replenish_time tb"] assms(4) less_imp_neq [OF assms(4)]
    by (simp add: unat_sub word_less_nat_alt word_le_nat_alt)
  then have "0xFFFFFFFF * ?p \<le> unat (t - tb_last_token_replenish_time tb)" using p assms(5) by simp
  then have "0xFFFFFFFF \<le> unat (t - tb_last_token_replenish_time tb) div ?p"
    using p(1) by (simp add: less_eq_div_iff_mult_less_eq)
  then have "0xFFFFFFFF \<le> unat ?e" by (simp add: unat_div_distrib unat_ucast_32_64)
  then have e: "?e \<ge> 0xFFFFFFFF" "?e \<noteq> 0" by (auto simp: word_le_nat_alt)
  show ?thesis
    using assms(2,3) e
    by (simp add: tb_credit_tokens_def tb_credit_tokens_internal_def abs_time_eq_def ABS_TIME_0_def
        abs_minus_abs_time_def rel_time_to_usec_def Let_def)
qed

end
