(* ===== verification/Nll.thy ===== *)
theory Nll
  imports Vam_Time
begin

text \<open>
  The numeric lock loop of \<^verbatim>\<open>eva/vqec-dp/channel/vqec_nll.c\<close>, which predicts the time at which a packet
  of the sender's clock is due. In non-tracking mode the prediction follows the RTP timestamps alone;
  in tracking mode the difference between prediction and arrival is averaged and a small part of it
  corrected with every sample. Pointers that may be null are options, the reading of the system clock
  is the argument \<open>now\<close> and the debug flag that turns statistics on is the argument \<open>stats\<close>.
\<close>

definition MAX_ARRIVAL_ERROR :: rel_time where "MAX_ARRIVAL_ERROR = MSECS 100"
definition MAX_NLL_DISCONTINUITY_THRESHOLD :: rel_time where
  "MAX_NLL_DISCONTINUITY_THRESHOLD = MSECS 100"
definition SHIFT_1024X1024 :: nat where "SHIFT_1024X1024 = 20"
definition MV_AVG_SHIFT :: nat where "MV_AVG_SHIFT = SHIFT_1024X1024"
definition MV_AVG_MULT :: s32 where
  "MV_AVG_MULT = push_bit MV_AVG_SHIFT 1 - push_bit MV_AVG_SHIFT 1 div 20"
definition SLEW_SHIFT :: nat where "SLEW_SHIFT = 10"
definition MV_AVG_ERROR_CORR :: s32 where
  "MV_AVG_ERROR_CORR = push_bit MV_AVG_SHIFT 1 div (push_bit MV_AVG_SHIFT 1 - MV_AVG_MULT)"

datatype nll_mode = VQEC_NLL_MODE_NONTRACKING | VQEC_NLL_MODE_TRACKING

record vqec_nll =
  nl_mode :: nll_mode
  nl_pred_base :: abs_time
  nl_pcr32_base :: u32
  nl_error_avg :: rel_time
  nl_last_actual_time :: abs_time
  nl_num_obs :: u32
  nl_total_adj :: rel_time
  nl_got_first :: bool
  nl_primary_offset :: rel_time
  nl_resets :: u32
  nl_predict_in_past :: u32
  nl_switch_to_tracking :: bool
  nl_num_exp_disc :: u32
  nl_num_imp_disc :: u32
  nl_reset_base_no_act_time :: u32

definition nll_zero :: vqec_nll where
  "nll_zero = \<lparr>nl_mode = VQEC_NLL_MODE_NONTRACKING, nl_pred_base = 0, nl_pcr32_base = 0,
     nl_error_avg = 0, nl_last_actual_time = 0, nl_num_obs = 0, nl_total_adj = 0,
     nl_got_first = False, nl_primary_offset = 0, nl_resets = 0, nl_predict_in_past = 0,
     nl_switch_to_tracking = False, nl_num_exp_disc = 0, nl_num_imp_disc = 0,
     nl_reset_base_no_act_time = 0\<rparr>"

subsection \<open>Operations\<close>

definition vqec_nll_init :: "vqec_nll option \<Rightarrow> vqec_nll option" where
  "vqec_nll_init nllp = map_option (\<lambda>_. nll_zero) nllp"

definition vqec_nll_reset :: "vqec_nll option \<Rightarrow> vqec_nll option" where
  "vqec_nll_reset nllp = map_option (\<lambda>nll. nll_zero\<lparr>nl_resets := nl_resets nll + 1\<rparr>) nllp"

definition vqec_nll_set_tracking_mode :: "vqec_nll option \<Rightarrow> vqec_nll option" where
  "vqec_nll_set_tracking_mode nllp = map_option (\<lambda>nll. nll\<lparr>nl_switch_to_tracking := True\<rparr>) nllp"

definition vqec_nll_rtp_delta :: "u32 \<Rightarrow> u32 \<Rightarrow> rel_time" where
  "vqec_nll_rtp_delta pcr32_base pcr32 =
     (let pcr32_diff = pcr32 - pcr32_base;
          pcr32_diff_neg = pcr32_base - pcr32;
          pcr64_diff = (if pcr32_diff < pcr32_diff_neg then ucast pcr32_diff
                        else - (ucast pcr32_diff_neg)) :: s64
      in pcr_to_rel_time pcr64_diff)"

definition vqec_nll_update_error :: "bool \<Rightarrow> rel_time \<Rightarrow> vqec_nll \<Rightarrow> rel_time \<times> vqec_nll" where
  "vqec_nll_update_error stats arrival_error nll =
     (let nll1 = nll\<lparr>nl_error_avg := rel_plus_rel_time
            (rel_time_rshift (rel_time_mult_int (nl_error_avg nll) MV_AVG_MULT) (of_nat MV_AVG_SHIFT))
            arrival_error\<rparr>;
          correction = rel_time_neg (rel_time_rshift
            (rel_time_mult_int (nl_error_avg nll1) (push_bit MV_AVG_SHIFT 1 - MV_AVG_MULT))
            (of_nat (MV_AVG_SHIFT + SLEW_SHIFT)));
          nll2 = (if stats then nll1\<lparr>nl_total_adj := rel_plus_rel_time (nl_total_adj nll1) correction\<rparr>
                  else nll1)
      in (correction, nll2\<lparr>nl_error_avg := rel_plus_rel_time (nl_error_avg nll2)
            (rel_time_mult_int correction MV_AVG_ERROR_CORR)\<rparr>))"

definition nll_beyond :: "rel_time \<Rightarrow> bool" where
  "nll_beyond time_delta \<longleftrightarrow> rel_time_gt time_delta MAX_NLL_DISCONTINUITY_THRESHOLD \<or>
     rel_time_gt (rel_time_neg time_delta) MAX_NLL_DISCONTINUITY_THRESHOLD"

text \<open>The first sample of either mode.\<close>

definition nll_first_sample :: "abs_time \<Rightarrow> abs_time \<Rightarrow> vqec_nll \<Rightarrow> vqec_nll" where
  "nll_first_sample now actual_time nll =
     nll\<lparr>nl_got_first := True,
         nl_pred_base := (if \<not> IS_ABS_TIME_ZERO actual_time then actual_time else now)\<rparr>"

text \<open>The prediction does not go back.\<close>

definition nll_no_fold :: "abs_time \<Rightarrow> vqec_nll \<Rightarrow> vqec_nll" where
  "nll_no_fold prev_pred_base nll =
     (if abs_time_lt (nl_pred_base nll) prev_pred_base
      then nll\<lparr>nl_pred_base := prev_pred_base, nl_predict_in_past := nl_predict_in_past nll + 1\<rparr>
      else nll)"

text \<open>A sample in non-tracking mode: the loop, the discontinuity flag and the prediction.\<close>

definition nll_nontracking ::
  "abs_time \<Rightarrow> abs_time \<Rightarrow> u32 \<Rightarrow> rel_time \<Rightarrow> bool \<Rightarrow> vqec_nll \<Rightarrow> vqec_nll \<times> bool \<times> abs_time" where
  "nll_nontracking now actual_time pcr32 est_rtp_delta disc nll =
     (let prev_pred_base = nl_pred_base nll;
          (nll1, disc1) =
            (if \<not> nl_got_first nll then (nll_first_sample now actual_time nll, True)
             else
               let time_delta = (if \<not> disc then vqec_nll_rtp_delta (nl_pcr32_base nll) pcr32 else REL_TIME_0)
               in if disc \<or> nll_beyond time_delta
                  then let nll' = nll\<lparr>nl_pred_base := abs_plus_rel_time (nl_pred_base nll) est_rtp_delta\<rparr>
                       in (if \<not> disc then nll'\<lparr>nl_num_imp_disc := nl_num_imp_disc nll' + 1\<rparr> else nll', True)
                  else (nll\<lparr>nl_pred_base := abs_plus_rel_time (nl_pred_base nll) time_delta\<rparr>, disc));
          nll2 = (nll_no_fold prev_pred_base nll1)\<lparr>nl_pcr32_base := pcr32\<rparr>;
          predicted_time = nl_pred_base nll2;
          nll3 = (if nl_switch_to_tracking nll2 then
                    let act = (if IS_ABS_TIME_ZERO actual_time then nl_pred_base nll2 else actual_time)
                    in nll2\<lparr>nl_primary_offset := abs_minus_abs_time (nl_pred_base nll2) act,
                            nl_pred_base := act, nl_last_actual_time := act,
                            nl_switch_to_tracking := False, nl_mode := VQEC_NLL_MODE_TRACKING\<rparr>
                  else nll2)
      in (nll3, disc1, predicted_time))"

text \<open>A sample in tracking mode after the first: the sender's time since the last sample, from the
  RTP timestamps or, at a discontinuity, from the receive times.\<close>

definition nll_tracking_delta :: "abs_time \<Rightarrow> u32 \<Rightarrow> bool \<Rightarrow> vqec_nll \<Rightarrow> rel_time \<times> bool" where
  "nll_tracking_delta actual_time pcr32 disc nll =
     (if \<not> disc then (vqec_nll_rtp_delta (nl_pcr32_base nll) pcr32, False)
      else if \<not> IS_ABS_TIME_ZERO actual_time \<and> \<not> IS_ABS_TIME_ZERO (nl_last_actual_time nll)
      then let time_delta = abs_minus_abs_time actual_time (nl_last_actual_time nll)
           in (time_delta, nll_beyond time_delta)
      else (REL_TIME_0, False))"

definition nll_tracking_next ::
  "bool \<Rightarrow> abs_time \<Rightarrow> u32 \<Rightarrow> bool \<Rightarrow> vqec_nll \<Rightarrow> vqec_nll \<times> bool" where
  "nll_tracking_next stats actual_time pcr32 disc nll =
     (let (time_delta, reset_base0) = nll_tracking_delta actual_time pcr32 disc nll;
          (nll1, reset_base) =
            (if \<not> reset_base0 then
               let act = (if IS_ABS_TIME_ZERO actual_time
                          then abs_plus_rel_time (nl_pred_base nll) time_delta else actual_time);
                   pred_arrival = abs_plus_rel_time (nl_pred_base nll) time_delta;
                   arrival_error = abs_minus_abs_time pred_arrival act
               in if rel_time_lt arrival_error MAX_ARRIVAL_ERROR \<and>
                     rel_time_lt (rel_time_neg arrival_error) MAX_ARRIVAL_ERROR
                  then let (correction, nll') = vqec_nll_update_error stats arrival_error nll
                       in (nll'\<lparr>nl_pred_base := abs_plus_rel_time pred_arrival correction\<rparr>, False)
                  else (nll, True)
             else (nll, True))
      in if reset_base then
           let nll2 = (if \<not> disc then nll1\<lparr>nl_num_imp_disc := nl_num_imp_disc nll1 + 1\<rparr> else nll1);
               nll3 = (if \<not> IS_ABS_TIME_ZERO actual_time then nll2\<lparr>nl_pred_base := actual_time\<rparr>
                       else nll2\<lparr>nl_reset_base_no_act_time := nl_reset_base_no_act_time nll2 + 1\<rparr>)
           in (nll3\<lparr>nl_error_avg := REL_TIME_0\<rparr>, True)
         else (nll1, disc))"

definition nll_tracking ::
  "abs_time \<Rightarrow> bool \<Rightarrow> abs_time \<Rightarrow> u32 \<Rightarrow> bool \<Rightarrow> vqec_nll \<Rightarrow> vqec_nll \<times> bool \<times> abs_time" where
  "nll_tracking now stats actual_time pcr32 disc nll =
     (let (nll1, disc1) = (if \<not> nl_got_first nll then (nll_first_sample now actual_time nll, True)
                           else nll_tracking_next stats actual_time pcr32 disc nll);
          nll2 = (nll_no_fold (nl_pred_base nll) nll1)\<lparr>nl_pcr32_base := pcr32,
                    nl_last_actual_time := actual_time\<rparr>
      in (nll2, disc1, abs_plus_rel_time (nl_pred_base nll2) (nl_primary_offset nll2)))"

definition nll_sample ::
  "abs_time \<Rightarrow> bool \<Rightarrow> abs_time \<Rightarrow> u32 \<Rightarrow> rel_time \<Rightarrow> bool \<Rightarrow> vqec_nll \<Rightarrow> vqec_nll \<times> bool \<times> abs_time" where
  "nll_sample now stats actual_time pcr32 est_rtp_delta disc nll =
     (let nll0 = (if disc then nll\<lparr>nl_num_exp_disc := nl_num_exp_disc nll + 1\<rparr> else nll);
          (nll1, disc1, predicted_time) =
            (case nl_mode nll0 of
               VQEC_NLL_MODE_NONTRACKING \<Rightarrow> nll_nontracking now actual_time pcr32 est_rtp_delta disc nll0
             | VQEC_NLL_MODE_TRACKING \<Rightarrow> nll_tracking now stats actual_time pcr32 disc nll0)
      in (if stats then nll1\<lparr>nl_num_obs := nl_num_obs nll1 + 1\<rparr> else nll1, disc1, predicted_time))"

text \<open>The whole function, with its three pointers.\<close>

definition vqec_nll_adjust ::
  "abs_time \<Rightarrow> bool \<Rightarrow> vqec_nll option \<Rightarrow> abs_time \<Rightarrow> u32 \<Rightarrow> rel_time \<Rightarrow> bool option \<Rightarrow> abs_time option \<Rightarrow>
   vqec_nll option \<times> bool option \<times> abs_time option" where
  "vqec_nll_adjust now stats nllp actual_time pcr32 est_rtp_delta discp predp =
     (case (nllp, discp, predp) of
        (Some nll, Some disc, Some _) \<Rightarrow>
          (let (nll', disc', pred') = nll_sample now stats actual_time pcr32 est_rtp_delta disc nll
           in (Some nll', Some disc', Some pred'))
      | _ \<Rightarrow> (nllp, discp, map_option (\<lambda>_. now) predp))"

record vqec_dp_nll_status =
  ns_mode :: nll_mode
  ns_pred_base :: abs_time
  ns_pcr32_base :: u32
  ns_num_exp_disc :: u32
  ns_num_imp_disc :: u32
  ns_num_obs :: u32
  ns_total_adj :: rel_time
  ns_predict_in_past :: u32
  ns_resets :: u32
  ns_last_actual_time :: abs_time
  ns_primary_offset :: rel_time
  ns_reset_base_no_act_time :: u32

text \<open>The last field is assigned to itself, after the structure has been zeroed.\<close>

definition vqec_nll_get_info :: "vqec_nll \<Rightarrow> vqec_dp_nll_status" where
  "vqec_nll_get_info nll =
     \<lparr>ns_mode = nl_mode nll, ns_pred_base = nl_pred_base nll, ns_pcr32_base = nl_pcr32_base nll,
      ns_num_exp_disc = nl_num_exp_disc nll, ns_num_imp_disc = nl_num_imp_disc nll,
      ns_num_obs = nl_num_obs nll, ns_total_adj = nl_total_adj nll,
      ns_predict_in_past = nl_predict_in_past nll, ns_resets = nl_resets nll,
      ns_last_actual_time = nl_last_actual_time nll, ns_primary_offset = nl_primary_offset nll,
      ns_reset_base_no_act_time = 0\<rparr>"

subsection \<open>Signed arithmetic without overflow\<close>

lemma sint_mult64:
  assumes "- (2 ^ 63) \<le> sint a * sint b" "sint a * sint b < 2 ^ 63"
  shows "sint (a * b :: s64) = sint a * sint b"
proof -
  have "a * b = word_of_int (sint a * sint b)" by simp
  then show ?thesis using sint_word_of_int64 [OF assms] by metis
qed

lemma sint_add64:
  assumes "- (2 ^ 63) \<le> sint a + sint b" "sint a + sint b < 2 ^ 63"
  shows "sint (a + b :: s64) = sint a + sint b"
proof -
  have "a + b = word_of_int (sint a + sint b)" by simp
  then show ?thesis using sint_word_of_int64 [OF assms] by metis
qed

lemma sint_neg64:
  assumes "- (2 ^ 63) < sint a"
  shows "sint (- a :: s64) = - sint a"
proof -
  have "- a = word_of_int (- sint a)" by simp
  moreover have "sint a < 2 ^ 63" using sint_less [of a] by simp
  ultimately show ?thesis using sint_word_of_int64 [of "- sint a"] assms by simp
qed

lemma nll_constants:
  "scast MV_AVG_MULT = (996148 :: s64)" "scast (push_bit MV_AVG_SHIFT 1 - MV_AVG_MULT :: s32) = (52428 :: s64)"
  "scast MV_AVG_ERROR_CORR = (20 :: s64)" "unat (of_nat MV_AVG_SHIFT :: u8) = 20"
  "unat (of_nat (MV_AVG_SHIFT + SLEW_SHIFT) :: u8) = 30"
  by (simp_all add: MV_AVG_MULT_def MV_AVG_SHIFT_def SHIFT_1024X1024_def MV_AVG_ERROR_CORR_def SLEW_SHIFT_def)

text \<open>The average error stays within two seconds and the correction within 98 microseconds, in plain
  integers.\<close>

lemma nll_error_step:
  fixes E e :: int
  assumes "\<bar>E\<bar> \<le> 2000040" and "\<bar>e\<bar> < 100000"
  defines "E1 \<equiv> E * 996148 div 1048576 + e"
  defines "c \<equiv> - (E1 * 52428 div 1073741824)"
  shows "\<bar>E1\<bar> \<le> 2000040" "\<bar>c\<bar> \<le> 98" "\<bar>E1 + c * 20\<bar> \<le> 2000040"
proof -
  have E: "- 2000040 \<le> E" "E \<le> 2000040" "- 100000 < e" "e < 100000" using assms(1,2) by auto
  have "1048576 * (E * 996148 div 1048576) \<le> E * 996148"
    "E * 996148 < 1048576 * (E * 996148 div 1048576) + 1048576" by simp_all
  then have "1048576 * E1 \<le> 1048576 * e + E * 996148" "1048576 * e + E * 996148 < 1048576 * E1 + 1048576"
    unfolding E1_def by (simp_all add: algebra_simps)
  then have E1: "- 2000040 \<le> E1" "E1 \<le> 2000040" using E by linarith+
  have "1073741824 * (- c) \<le> E1 * 52428" "E1 * 52428 < 1073741824 * (- c) + 1073741824"
    unfolding c_def by simp_all
  then have "- 98 \<le> c" "c \<le> 98" "- 2000040 \<le> E1 + c * 20" "E1 + c * 20 \<le> 2000040"
    using E1 by linarith+
  then show "\<bar>E1\<bar> \<le> 2000040" "\<bar>c\<bar> \<le> 98" "\<bar>E1 + c * 20\<bar> \<le> 2000040" using E1 by auto
qed

definition nll_err_ok :: "vqec_nll \<Rightarrow> bool" where
  "nll_err_ok nll \<longleftrightarrow> \<bar>sint (nl_error_avg nll)\<bar> \<le> 2000040"

lemma update_error_bounds:
  assumes E: "nll_err_ok nll" and e: "\<bar>sint arrival_error\<bar> < 100000"
    and u: "vqec_nll_update_error stats arrival_error nll = (correction, nll')"
  shows "nll_err_ok nll' \<and> \<bar>sint correction\<bar> \<le> 98"
proof -
  let ?E = "nl_error_avg nll"
  define E1 where "E1 = signed_drop_bit 20 (?E * 996148) + arrival_error"
  define c where "c = - signed_drop_bit 30 (E1 * 52428)"
  have E': "\<bar>sint ?E\<bar> \<le> 2000040" using E by (simp add: nll_err_ok_def)
  note st = nll_error_step [OF E' e]
  have m: "sint (?E * 996148) = sint ?E * 996148" using E' by (subst sint_mult64) simp_all
  have s1: "sint E1 = sint ?E * 996148 div 1048576 + sint arrival_error"
    unfolding E1_def using st(1) by (subst sint_add64) (simp_all add: sint_signed_drop_bit_eq drop_bit_eq_div m)
  have m2: "sint (E1 * 52428) = sint E1 * 52428"
    using st(1) by (subst sint_mult64) (simp_all add: s1)
  have s2: "sint c = - (sint E1 * 52428 div 1073741824)"
    unfolding c_def using st(2)
    by (subst sint_neg64) (simp_all add: sint_signed_drop_bit_eq drop_bit_eq_div m2 s1)
  have s3: "sint (E1 + c * 20) = sint E1 + sint c * 20"
  proof -
    have "sint (c * 20) = sint c * 20" using st(2) by (subst sint_mult64) (simp_all add: s1 s2)
    then show ?thesis using st(3) by (subst sint_add64) (simp_all add: s1 s2)
  qed
  have "correction = c" "nl_error_avg nll' = E1 + c * 20"
    using u unfolding vqec_nll_update_error_def Let_def rel_time_mult_int_def rel_time_rshift_def
      rel_plus_rel_time_def rel_time_neg_def nll_constants
    by (auto simp: E1_def c_def split: if_splits)
  then show ?thesis using st(2,3) by (simp add: nll_err_ok_def s1 s2 s3)
qed

subsection \<open>Predictions do not go back\<close>

text \<open>The prediction for the last sample.\<close>

definition nll_due :: "vqec_nll \<Rightarrow> abs_time" where
  "nll_due nll = abs_plus_rel_time (nl_pred_base nll) (nl_primary_offset nll)"

definition nll_ok :: "vqec_nll \<Rightarrow> bool" where
  "nll_ok nll \<longleftrightarrow> (nl_mode nll = VQEC_NLL_MODE_NONTRACKING \<longrightarrow> nl_primary_offset nll = 0)"

lemma no_fold_frame [simp]:
  "p \<le> nl_pred_base (nll_no_fold p nll)" "nl_mode (nll_no_fold p nll) = nl_mode nll"
  "nl_primary_offset (nll_no_fold p nll) = nl_primary_offset nll"
  "nl_error_avg (nll_no_fold p nll) = nl_error_avg nll"
  "nl_switch_to_tracking (nll_no_fold p nll) = nl_switch_to_tracking nll"
  by (auto simp: nll_no_fold_def abs_time_lt_def)

lemma update_error_frame:
  assumes "vqec_nll_update_error stats e nll = (c, nll')"
  shows "nl_mode nll' = nl_mode nll" "nl_primary_offset nll' = nl_primary_offset nll"
  using assms by (auto simp: vqec_nll_update_error_def Let_def split: if_splits)

lemma tracking_next_frame:
  assumes "nll_tracking_next stats a pcr disc nll = (nll', d')"
  shows "nl_mode nll' = nl_mode nll" "nl_primary_offset nll' = nl_primary_offset nll"
  using assms
  by (auto simp: nll_tracking_next_def Let_def update_error_frame split: if_splits prod.splits)

lemma nontracking_due:
  assumes "nl_primary_offset nll = 0" "nl_mode nll = VQEC_NLL_MODE_NONTRACKING"
    and "nll_nontracking now a pcr est disc nll = (nll', d', pt)"
  shows "nl_pred_base nll \<le> pt" "nll_due nll' = pt" "nll_ok nll'"
proof -
  obtain n1 d1 where n1: "(if \<not> nl_got_first nll then (nll_first_sample now a nll, True)
             else
               let time_delta = (if \<not> disc then vqec_nll_rtp_delta (nl_pcr32_base nll) pcr else REL_TIME_0)
               in if disc \<or> nll_beyond time_delta
                  then let nll' = nll\<lparr>nl_pred_base := abs_plus_rel_time (nl_pred_base nll) est\<rparr>
                       in (if \<not> disc then nll'\<lparr>nl_num_imp_disc := nl_num_imp_disc nll' + 1\<rparr> else nll', True)
                  else (nll\<lparr>nl_pred_base := abs_plus_rel_time (nl_pred_base nll) time_delta\<rparr>, disc)) = (n1, d1)"
    by (metis surj_pair)
  have f: "nl_mode n1 = nl_mode nll" "nl_primary_offset n1 = nl_primary_offset nll"
    using n1 by (auto simp: nll_first_sample_def Let_def split: if_splits)
  show "nl_pred_base nll \<le> pt" "nll_due nll' = pt" "nll_ok nll'"
    using assms f unfolding nll_nontracking_def n1
    by (auto simp: Let_def nll_due_def nll_ok_def time_defs split: if_splits)
qed

lemma tracking_due:
  assumes "nl_mode nll = VQEC_NLL_MODE_TRACKING" and "nll_tracking now stats a pcr disc nll = (nll', d', pt)"
  shows "nl_pred_base nll \<le> nl_pred_base nll'" "nl_primary_offset nll' = nl_primary_offset nll"
    "nll_due nll' = pt" "nl_mode nll' = VQEC_NLL_MODE_TRACKING"
proof -
  obtain n1 d1 where n1: "(if \<not> nl_got_first nll then (nll_first_sample now a nll, True)
      else nll_tracking_next stats a pcr disc nll) = (n1, d1)" by (metis surj_pair)
  have f: "nl_mode n1 = nl_mode nll" "nl_primary_offset n1 = nl_primary_offset nll"
    using n1 tracking_next_frame by (auto simp: nll_first_sample_def split: if_splits)
  show "nl_pred_base nll \<le> nl_pred_base nll'" "nl_primary_offset nll' = nl_primary_offset nll"
    "nll_due nll' = pt" "nl_mode nll' = VQEC_NLL_MODE_TRACKING"
    using assms f unfolding nll_tracking_def n1 by (auto simp: Let_def nll_due_def)
qed

text \<open>Adding the same offset to a base that has gone forward gives a time that has gone forward, as
  long as it stays below the end of the clock.\<close>

lemma due_forward:
  fixes b b' o' :: u64
  assumes "b \<le> b'" and "unat (b + o') + (unat b' - unat b) < 2 ^ 64"
  shows "b + o' \<le> b' + o'"
proof -
  have d: "unat (b' - b) = unat b' - unat b" using assms(1) by (rule unat_sub)
  have "unat (b + o' + (b' - b)) = unat (b + o') + unat (b' - b)"
    by (rule unat_add_small) (use assms(2) in \<open>simp add: d\<close>)
  then have "unat (b + o') \<le> unat (b + o' + (b' - b))" by (simp only:)
  moreover have "b + o' + (b' - b) = b' + o'" by (simp only: algebra_simps)
  ultimately show ?thesis by (simp only: word_le_nat_alt)
qed

lemma nll_sample_cases:
  assumes "nll_sample now stats a pcr est disc nll = (nll', d', pt)"
  obtains n0 n1 where "n0 = (if disc then nll\<lparr>nl_num_exp_disc := nl_num_exp_disc nll + 1\<rparr> else nll)"
    "nll' = (if stats then n1\<lparr>nl_num_obs := nl_num_obs n1 + 1\<rparr> else n1)"
    "(n1, d', pt) = (case nl_mode nll of
       VQEC_NLL_MODE_NONTRACKING \<Rightarrow> nll_nontracking now a pcr est disc n0
     | VQEC_NLL_MODE_TRACKING \<Rightarrow> nll_tracking now stats a pcr disc n0)"
proof -
  define n0 where "n0 = (if disc then nll\<lparr>nl_num_exp_disc := nl_num_exp_disc nll + 1\<rparr> else nll)"
  obtain n1 d1 p1 where n1: "(case nl_mode n0 of
       VQEC_NLL_MODE_NONTRACKING \<Rightarrow> nll_nontracking now a pcr est disc n0
     | VQEC_NLL_MODE_TRACKING \<Rightarrow> nll_tracking now stats a pcr disc n0) = (n1, d1, p1)"
    by (metis prod_cases3)
  have m: "nl_mode n0 = nl_mode nll" by (simp add: n0_def)
  have "nll' = (if stats then n1\<lparr>nl_num_obs := nl_num_obs n1 + 1\<rparr> else n1)" "d' = d1" "pt = p1"
    using assms n1 unfolding nll_sample_def Let_def n0_def [symmetric] by simp_all
  then show thesis using that [OF n0_def] n1 m by simp
qed

text \<open>The difference between the predicted and the actual arrival of a sample. The test against the
  100 millisecond limit negates it, and the most negative value is its own negation.\<close>

definition nll_arrival_error :: "abs_time \<Rightarrow> u32 \<Rightarrow> bool \<Rightarrow> vqec_nll \<Rightarrow> rel_time" where
  "nll_arrival_error actual_time pcr32 disc nll = abs_minus_abs_time
     (abs_plus_rel_time (nl_pred_base nll) (fst (nll_tracking_delta actual_time pcr32 disc nll))) actual_time"

lemma within_arrival_limit:
  assumes "rel_time_lt e MAX_ARRIVAL_ERROR" "rel_time_lt (rel_time_neg e) MAX_ARRIVAL_ERROR"
    and "e \<noteq> 0x8000000000000000"
  shows "\<bar>sint e\<bar> < 100000"
proof -
  have *: "sint e < 100000" "sint (- e) < 100000"
    using assms by (simp_all add: rel_time_lt_sint MAX_ARRIVAL_ERROR_def MSECS_def rel_time_neg_def)
  have "sint e \<noteq> - (2 ^ 63)"
  proof
    assume "sint e = - (2 ^ 63)"
    then have "e = 0x8000000000000000" by (intro signed_word_eqI) simp
    then show False using assms(3) by simp
  qed
  then have "- (2 ^ 63) < sint e" using sint_ge [of e] by simp
  then show ?thesis using * sint_neg64 by simp
qed

lemma nll_tracking_err_ok:
  assumes ok: "nll_err_ok nll" and run: "nll_tracking now stats a pcr disc nll = (nll', d', pt)"
    and e: "nll_arrival_error a pcr disc nll \<noteq> 0x8000000000000000"
  shows "nll_err_ok nll'"
proof -
  have "nll_err_ok n1" if next1: "nll_tracking_next stats a pcr disc nll = (n1, d1)" for n1 d1
  proof -
    obtain td rb where td: "nll_tracking_delta a pcr disc nll = (td, rb)" by fastforce
    let ?act = "if IS_ABS_TIME_ZERO a then abs_plus_rel_time (nl_pred_base nll) td else a"
    let ?e = "abs_minus_abs_time (abs_plus_rel_time (nl_pred_base nll) td) ?act"
    have "?e \<noteq> 0x8000000000000000"
      using e td by (simp add: nll_arrival_error_def abs_minus_abs_time_def)
    note lim = within_arrival_limit [OF _ _ this]
    obtain c m where u: "vqec_nll_update_error stats ?e nll = (c, m)" by fastforce
    note b = update_error_bounds [OF ok lim u]
    show ?thesis
    proof (cases "\<not> rb \<and> rel_time_lt ?e MAX_ARRIVAL_ERROR \<and> rel_time_lt (rel_time_neg ?e) MAX_ARRIVAL_ERROR")
      case True
      then show ?thesis
        using next1 td u b unfolding nll_tracking_next_def Let_def by (auto simp: nll_err_ok_def)
    next
      case False
      then have "nl_error_avg n1 = 0"
        using next1 td unfolding nll_tracking_next_def Let_def
        by (auto simp: REL_TIME_0_def split: if_splits)
      then show ?thesis by (simp add: nll_err_ok_def)
    qed
  qed
  then show ?thesis
    using ok run by (auto simp: nll_tracking_def Let_def nll_err_ok_def nll_first_sample_def split: if_splits prod.splits)
qed

lemma nll_nontracking_error:
  assumes "nll_nontracking now a pcr est disc nll = (nll', d', pt)"
  shows "nl_error_avg nll' = nl_error_avg nll"
  using assms by (auto simp: nll_nontracking_def Let_def nll_first_sample_def split: if_splits)

lemma nll_nontracking_no_act:
  assumes "nll_nontracking now a pcr est disc nll = (nll', d', pt)"
  shows "nl_reset_base_no_act_time nll' = nl_reset_base_no_act_time nll"
  using assms by (auto simp: nll_nontracking_def nll_no_fold_def Let_def nll_first_sample_def split: if_splits)

lemma nll_tracking_next_no_act:
  assumes "nll_tracking_next stats a pcr disc nll = (nll', d')"
  shows "nl_reset_base_no_act_time nll' = nl_reset_base_no_act_time nll"
proof -
  obtain td rb where td: "nll_tracking_delta a pcr disc nll = (td, rb)" by fastforce
  have rb: "\<not> rb" if "IS_ABS_TIME_ZERO a"
    using td that by (auto simp: nll_tracking_delta_def split: if_splits)
  have upd: "nl_reset_base_no_act_time m = nl_reset_base_no_act_time nll"
    if "vqec_nll_update_error stats e nll = (c, m)" for e c m
    using that by (auto simp: vqec_nll_update_error_def Let_def split: if_splits)
  have zero: "rel_time_lt (abs_minus_abs_time x x) MAX_ARRIVAL_ERROR"
    "rel_time_lt (rel_time_neg (abs_minus_abs_time x x)) MAX_ARRIVAL_ERROR" for x
    by (simp_all add: rel_time_lt_sint MAX_ARRIVAL_ERROR_def MSECS_def rel_time_neg_def abs_minus_abs_time_def)
  show ?thesis
    using assms rb zero unfolding nll_tracking_next_def td Let_def
    by (cases "IS_ABS_TIME_ZERO a") (auto split: if_splits prod.splits dest: upd)
qed

lemma nll_tracking_no_act:
  assumes "nll_tracking now stats a pcr disc nll = (nll', d', pt)"
  shows "nl_reset_base_no_act_time nll' = nl_reset_base_no_act_time nll"
  using assms nll_tracking_next_no_act
  by (auto simp: nll_tracking_def nll_no_fold_def nll_first_sample_def Let_def split: if_splits prod.splits)

subsection \<open>Properties\<close>

text \<open>C21: the predicted times do not go back. In either mode, and over the switch from one mode to
  the other, the prediction for a sample is not before the prediction for the sample before it, as
  long as the prediction stays below the end of the 64-bit clock; and the offset between the repair
  burst and the primary stream is zero until the switch.\<close>

theorem nll_predictions_monotone:
  assumes "nll_ok nll" and "nll_sample now stats actual_time pcr32 est_rtp_delta disc nll = (nll', disc', pred')"
    and "nl_mode nll = VQEC_NLL_MODE_TRACKING \<longrightarrow>
      unat (nll_due nll) + (unat (nl_pred_base nll') - unat (nl_pred_base nll)) < 2 ^ 64"
  shows "nll_ok nll' \<and> pred' = nll_due nll' \<and> nll_due nll \<le> pred'"
proof -
  obtain n0 n1 where n0: "n0 = (if disc then nll\<lparr>nl_num_exp_disc := nl_num_exp_disc nll + 1\<rparr> else nll)"
    and n1: "nll' = (if stats then n1\<lparr>nl_num_obs := nl_num_obs n1 + 1\<rparr> else n1)"
    and run: "(n1, disc', pred') = (case nl_mode nll of
       VQEC_NLL_MODE_NONTRACKING \<Rightarrow> nll_nontracking now actual_time pcr32 est_rtp_delta disc n0
     | VQEC_NLL_MODE_TRACKING \<Rightarrow> nll_tracking now stats actual_time pcr32 disc n0)"
    by (rule nll_sample_cases [OF assms(2)])
  have n: "nl_mode n0 = nl_mode nll" "nl_pred_base n0 = nl_pred_base nll"
    "nl_primary_offset n0 = nl_primary_offset nll" "nl_pred_base nll' = nl_pred_base n1"
    by (simp_all add: n0 n1)
  have due: "nll_due nll' = nll_due n1" "nll_ok nll' = nll_ok n1" by (simp_all add: n1 nll_due_def nll_ok_def)
  show ?thesis
  proof (cases "nl_mode nll")
    case VQEC_NLL_MODE_NONTRACKING
    then have o: "nl_primary_offset n0 = 0" using assms(1) n by (simp add: nll_ok_def)
    note * = nontracking_due [OF o _ run [unfolded VQEC_NLL_MODE_NONTRACKING nll_mode.case, symmetric]]
    then show ?thesis
      using VQEC_NLL_MODE_NONTRACKING n o due by (simp add: nll_due_def abs_plus_rel_time_def)
  next
    case VQEC_NLL_MODE_TRACKING
    note * = tracking_due [OF _ run [unfolded VQEC_NLL_MODE_TRACKING nll_mode.case, symmetric]]
    have "nll_due nll \<le> nll_due n1"
      using * VQEC_NLL_MODE_TRACKING n assms(3) due_forward [of "nl_pred_base nll" "nl_pred_base n1" "nl_primary_offset nll"]
      by (simp add: nll_due_def abs_plus_rel_time_def)
    then show ?thesis using * VQEC_NLL_MODE_TRACKING n due by (simp add: nll_ok_def)
  qed
qed

definition nll_sample_state :: vqec_nll where
  "nll_sample_state = nll_zero\<lparr>nl_mode := VQEC_NLL_MODE_TRACKING, nl_pred_base := 5000000,
     nl_got_first := True, nl_primary_offset := 300, nl_pcr32_base := 0xFFFFFF00,
     nl_last_actual_time := 4999000\<rparr>"

theorem nll_predictions_monotone_witness:
  "nll_due nll_sample_state \<le>
     snd (snd (nll_sample 0 False 5010000 0x300 0 False nll_sample_state))"
proof -
  obtain n d p where r: "nll_sample 0 False 5010000 0x300 0 False nll_sample_state = (n, d, p)"
    by (metis prod_cases3)
  have "nl_pred_base (fst (nll_sample 0 False 5010000 0x300 0 False nll_sample_state)) < 6000000"
    by code_simp
  then have *: "unat (nl_pred_base n) - 5000000 < 18446744073704551316" using r by (simp add: word_less_nat_alt)
  have "nll_ok nll_sample_state" by (simp add: nll_ok_def nll_sample_state_def)
  then have "nll_due nll_sample_state \<le> p"
    using nll_predictions_monotone [OF _ r] *
    by (force simp: nll_sample_state_def nll_due_def abs_plus_rel_time_def)
  then show ?thesis using r by simp
qed

text \<open>C29: the average error of the loop stays within plus or minus 2000040 microseconds over every
  sample whose arrival error is not the most negative integer (which is its own negation and would pass
  the test against the limit), so that none of its 64-bit products overflows, and the correction of one sample is at most
  98 microseconds.\<close>

theorem nll_error_bounded:
  assumes "nll_err_ok nll" and "nll_arrival_error actual_time pcr32 disc nll \<noteq> 0x8000000000000000"
  shows "nll_err_ok (fst (nll_sample now stats actual_time pcr32 est_rtp_delta disc nll)) \<and>
    (\<bar>sint arrival_error\<bar> < 100000 \<longrightarrow>
       \<bar>sint (fst (vqec_nll_update_error stats arrival_error nll))\<bar> \<le> 98)"
proof -
  obtain nll' d' p' where s: "nll_sample now stats actual_time pcr32 est_rtp_delta disc nll = (nll', d', p')"
    by (metis prod_cases3)
  obtain n0 n1 where n0: "n0 = (if disc then nll\<lparr>nl_num_exp_disc := nl_num_exp_disc nll + 1\<rparr> else nll)"
    and n1: "nll' = (if stats then n1\<lparr>nl_num_obs := nl_num_obs n1 + 1\<rparr> else n1)"
    and run: "(n1, d', p') = (case nl_mode nll of
       VQEC_NLL_MODE_NONTRACKING \<Rightarrow> nll_nontracking now actual_time pcr32 est_rtp_delta disc n0
     | VQEC_NLL_MODE_TRACKING \<Rightarrow> nll_tracking now stats actual_time pcr32 disc n0)"
    by (rule nll_sample_cases [OF s])
  have "nll_arrival_error actual_time pcr32 disc n0 = nll_arrival_error actual_time pcr32 disc nll"
    by (cases disc) (simp_all add: n0 nll_arrival_error_def nll_tracking_delta_def)
  then have "nll_err_ok n1"
    using run assms nll_nontracking_error [of now actual_time pcr32 est_rtp_delta disc n0 n1 d' p']
      nll_tracking_err_ok [of n0 now stats actual_time pcr32 disc n1 d' p']
    by (cases "nl_mode nll") (simp_all add: nll_err_ok_def n0 split: if_splits)
  then have "nll_err_ok nll'" by (simp add: n1 nll_err_ok_def)
  moreover obtain c m where "vqec_nll_update_error stats arrival_error nll = (c, m)" by fastforce
  ultimately show ?thesis using s update_error_bounds [OF assms(1)] by auto
qed

theorem nll_error_bounded_witness:
  "\<bar>sint (fst (vqec_nll_update_error False 99999 (nll_zero\<lparr>nl_error_avg := 2000000\<rparr>)))\<bar> \<le> 98"
proof -
  have "nll_arrival_error 0 0 False (nll_zero\<lparr>nl_error_avg := 2000000\<rparr>) \<noteq> 0x8000000000000000"
    by code_simp
  then show ?thesis
    using nll_error_bounded [where nll = "nll_zero\<lparr>nl_error_avg := 2000000\<rparr>" and arrival_error = 99999
        and stats = False] by (simp add: nll_err_ok_def)
qed

text \<open>The loop is never reset without a receive time. A base is only reset when the receive time
  of the sample is known, since without one the arrival error is zero: the counter of such resets does
  not move, whatever the sample, and the zero that the status report gives for it (the field is assigned
  to itself in the zeroed report) is the count of a loop that was initialised or reset.\<close>

lemma nll_no_reset_without_time:
  "nl_reset_base_no_act_time (fst (nll_sample now stats actual_time pcr32 est_rtp_delta disc nll))
     = nl_reset_base_no_act_time nll \<and>
   ns_reset_base_no_act_time (vqec_nll_get_info nll) = 0 \<and>
   map_option nl_reset_base_no_act_time (vqec_nll_reset (Some nll)) = Some 0"
proof -
  obtain nll' d' p' where s: "nll_sample now stats actual_time pcr32 est_rtp_delta disc nll = (nll', d', p')"
    by (metis prod_cases3)
  obtain n0 n1 where n0: "n0 = (if disc then nll\<lparr>nl_num_exp_disc := nl_num_exp_disc nll + 1\<rparr> else nll)"
    and n1: "nll' = (if stats then n1\<lparr>nl_num_obs := nl_num_obs n1 + 1\<rparr> else n1)"
    and run: "(n1, d', p') = (case nl_mode nll of
       VQEC_NLL_MODE_NONTRACKING \<Rightarrow> nll_nontracking now actual_time pcr32 est_rtp_delta disc n0
     | VQEC_NLL_MODE_TRACKING \<Rightarrow> nll_tracking now stats actual_time pcr32 disc n0)"
    by (rule nll_sample_cases [OF s])
  have "nl_reset_base_no_act_time n1 = nl_reset_base_no_act_time n0"
    using run nll_nontracking_no_act [of now actual_time pcr32 est_rtp_delta disc n0 n1 d' p']
      nll_tracking_no_act [of now stats actual_time pcr32 disc n0 n1 d' p']
    by (cases "nl_mode nll") simp_all
  then show ?thesis using s by (simp add: n0 n1 vqec_nll_get_info_def vqec_nll_reset_def nll_zero_def)
qed
end
