(* ===== verification/Zone_Mgr.thy ===== *)
theory Zone_Mgr
  imports Vqe_Prelude "HOL-Library.Sublist"
begin

text \<open>
  The zone manager of \<^verbatim>\<open>utils/zone_mgr.c\<close> for zones in local memory: named pools of fixed-size items
  with a free list. Items are known by their addresses; the contents of an item's data area belong to
  the user of the zone, and so do the constructor and destructor that only touch those. A zone is known
  to its users by a pointer, here its id, which \<open>++g_zid\<close> makes unique. Failed assertions are outcomes,
  what \<open>malloc\<close> returns is an argument, and the zone lock is held throughout every operation.
\<close>

subsection \<open>The operations\<close>

type_synonym item_ptr = int
type_synonym zone_ptr = int

record zone_item =
  zi_chunk_magic :: u32
  zi_refcnt :: int

record vqe_zone =
  z_magic :: u32
  z_key :: int
  z_id :: zone_ptr
  z_el_size :: int
  z_el_size_pad :: int
  z_max :: int
  z_flags :: u32
  z_allocated :: int
  z_used :: int
  z_hiwat :: int
  z_alloc_fail :: s32
  z_name :: string
  z_freelist :: "item_ptr list"
  z_chunklist :: "item_ptr list"
  z_items :: "item_ptr \<Rightarrow> zone_item"

record zones_list =
  zl_z :: vqe_zone
  zl_refcnt :: int
  zl_id :: int

record zone_mgr =
  g_zonelist :: "zones_list list"
  g_zid :: int
  g_zinit :: int

definition ALIGN_BYTES :: int where "ALIGN_BYTES = 8"
definition SIZEOF_ZONE_ITEM :: int where "SIZEOF_ZONE_ITEM = 16"
definition CHUNKMAGIC :: u32 where "CHUNKMAGIC = 0x15A3C78B"
definition FREECHUNKMAGIC :: u32 where "FREECHUNKMAGIC = 0xEF4321CD"
definition ZONEMAGIC :: u32 where "ZONEMAGIC = 0xCAFEFEED"
definition ZONE_MAX_NAME_LEN :: nat where "ZONE_MAX_NAME_LEN = 32"
definition O_APPEND :: u32 where "O_APPEND = 0x400"

definition ALIGN :: "int \<Rightarrow> int \<Rightarrow> int" where
  "ALIGN sz align = (sz + align - 1) AND NOT (align - 1)"

definition zone_item_size :: "int \<Rightarrow> int" where
  "zone_item_size sz = ALIGN (sz + ALIGN SIZEOF_ZONE_ITEM ALIGN_BYTES) ALIGN_BYTES"

primrec zone_populate_freelist :: "nat \<Rightarrow> item_ptr \<Rightarrow> vqe_zone \<Rightarrow> vqe_zone" where
  "zone_populate_freelist 0 zi z = z"
| "zone_populate_freelist (Suc cnt) zi z =
     zone_populate_freelist cnt (zi + z_el_size_pad z)
       (z\<lparr>z_items := (z_items z)(zi := (z_items z zi)\<lparr>zi_chunk_magic := FREECHUNKMAGIC\<rparr>),
          z_freelist := zi # z_freelist z,
          z_allocated := z_allocated z + 1\<rparr>)"

text \<open>The address of a chunk of memory for one item, zeroed, when there is memory for it.\<close>

definition zone_create_chunk_dynamic :: "item_ptr option \<Rightarrow> vqe_zone \<Rightarrow> item_ptr option \<times> vqe_zone" where
  "zone_create_chunk_dynamic chunk z =
     (case chunk of
        None \<Rightarrow> (None, z)
      | Some c \<Rightarrow> (Some c, z\<lparr>z_items := (z_items z)(c := \<lparr>zi_chunk_magic = 0, zi_refcnt = 0\<rparr>),
                              z_chunklist := c # z_chunklist z\<rparr>))"

text \<open>A zone is found when its own name is a beginning of the name asked for:
  \<open>strncmp(zl->z->name, zone_name, strlen(zl->z->name)) == 0\<close>.\<close>

definition zm_get_zone :: "string \<Rightarrow> int \<Rightarrow> zones_list list \<Rightarrow> zones_list option" where
  "zm_get_zone zone_name key zonelist =
     find (\<lambda>zl. prefix (z_name (zl_z zl)) zone_name \<and> key = z_key (zl_z zl)) zonelist"

definition zl_update :: "int \<Rightarrow> (zones_list \<Rightarrow> zones_list) \<Rightarrow> zones_list list \<Rightarrow> zones_list list" where
  "zl_update i f zonelist = map (\<lambda>zl. if zl_id zl = i then f zl else zl) zonelist"

text \<open>The arguments \<open>zmem\<close> and \<open>zlmem\<close> are the results of the two allocations: the address of the
  items of the new zone, and whether there is memory for its list entry.\<close>

definition zm_loc_alloc ::
  "item_ptr option \<Rightarrow> bool \<Rightarrow> string \<Rightarrow> int \<Rightarrow> int \<Rightarrow> u32 \<Rightarrow> int \<Rightarrow> zone_mgr \<Rightarrow> zone_ptr option \<times> zone_mgr" where
  "zm_loc_alloc zmem zlmem zone_name sz mx flags key zm =
     (case zm_get_zone zone_name key (g_zonelist zm) of
        Some zl \<Rightarrow> (Some (z_id (zl_z zl)), zm\<lparr>g_zonelist :=
            zl_update (zl_id zl) (\<lambda>e. e\<lparr>zl_refcnt := zl_refcnt e + 1\<rparr>) (g_zonelist zm)\<rparr>)
      | None \<Rightarrow>
          (case (zmem, zlmem) of
             (Some item, True) \<Rightarrow>
               let i = g_zid zm + 1;
                   z = \<lparr>z_magic = ZONEMAGIC, z_key = 0, z_id = i, z_el_size = sz,
                        z_el_size_pad = zone_item_size sz, z_max = mx, z_flags = flags,
                        z_allocated = 0, z_used = 0, z_hiwat = 0, z_alloc_fail = 0,
                        z_name = take (ZONE_MAX_NAME_LEN - 1) zone_name,
                        z_freelist = [], z_chunklist = [],
                        z_items = (\<lambda>_. \<lparr>zi_chunk_magic = 0, zi_refcnt = 0\<rparr>)\<rparr>;
                   zl = \<lparr>zl_z = zone_populate_freelist (nat mx) item z, zl_refcnt = 1, zl_id = i\<rparr>
               in (Some i, zm\<lparr>g_zid := i, g_zonelist := zl # g_zonelist zm\<rparr>)
           | _ \<Rightarrow> (None, zm)))"

definition zm_loc_acq :: "item_ptr option \<Rightarrow> vqe_zone \<Rightarrow> (item_ptr option \<times> vqe_zone) outcome" where
  "zm_loc_acq chunk z =
     (let (avail, z1) =
            (if z_freelist z \<noteq> [] then (True, z)
             else if z_flags z AND O_APPEND = 0 then (False, z)
             else case zone_create_chunk_dynamic chunk z of
                    (None, z') \<Rightarrow> (False, z')
                  | (Some data, z') \<Rightarrow> (True, zone_populate_freelist 1 data z'))
      in if \<not> avail then Done (None, z1)
         else
           let zi = hd (z_freelist z1);
               z2 = z1\<lparr>z_freelist := tl (z_freelist z1), z_used := z_used z1 + 1,
                       z_hiwat := max (z_hiwat z1) (z_used z1 + 1)\<rparr>;
               it = z_items z2 zi
           in if zi_chunk_magic it \<noteq> FREECHUNKMAGIC then Assert_failed
              else if zi_refcnt it \<noteq> 0 then Assert_failed
              else Done (Some zi, z2\<lparr>z_items := (z_items z2)
                     (zi := \<lparr>zi_chunk_magic = CHUNKMAGIC, zi_refcnt = zi_refcnt it + 1\<rparr>)\<rparr>))"

definition zm_loc_rel :: "vqe_zone \<Rightarrow> item_ptr \<Rightarrow> vqe_zone outcome" where
  "zm_loc_rel z zi =
     (let it = z_items z zi
      in if zi_chunk_magic it \<noteq> CHUNKMAGIC then Assert_failed
         else if zi_refcnt it \<noteq> 1 then Assert_failed
         else Done (z\<lparr>z_items := (z_items z)
                        (zi := \<lparr>zi_chunk_magic = FREECHUNKMAGIC, zi_refcnt = zi_refcnt it - 1\<rparr>),
                      z_freelist := zi # z_freelist z, z_used := z_used z - 1\<rparr>))"

text \<open>The zone is looked up again by its name; what is taken out of the list and freed is the entry
  that is found, and the memory that is freed is the memory of the zone itself.\<close>

definition zm_loc_destroy :: "vqe_zone \<Rightarrow> zone_mgr \<Rightarrow> (int \<times> zone_mgr) outcome" where
  "zm_loc_destroy z zm =
     (case zm_get_zone (z_name z) (z_key z) (g_zonelist zm) of
        None \<Rightarrow> Assert_failed
      | Some zl \<Rightarrow>
          if zl_refcnt zl - 1 \<noteq> 0
          then Done (- 1, zm\<lparr>g_zonelist :=
                 zl_update (zl_id zl) (\<lambda>e. e\<lparr>zl_refcnt := zl_refcnt e - 1\<rparr>) (g_zonelist zm)\<rparr>)
          else Done (0, zm\<lparr>g_zonelist := filter (\<lambda>e. zl_id e \<noteq> zl_id zl) (g_zonelist zm)\<rparr>))"

definition zm_elem_size :: "zone_mgr \<Rightarrow> vqe_zone \<Rightarrow> int outcome" where
  "zm_elem_size zm z =
     (if z_magic z \<noteq> ZONEMAGIC \<or> g_zinit zm = 0 then Assert_failed else Done (z_el_size z))"

definition zone_instance_get_loc ::
  "item_ptr option \<Rightarrow> bool \<Rightarrow> string \<Rightarrow> u32 \<Rightarrow> int \<Rightarrow> int \<Rightarrow> zone_mgr \<Rightarrow> (zone_ptr option \<times> zone_mgr) outcome" where
  "zone_instance_get_loc zmem zlmem zone_name flags sz mx zm =
     (if \<not> (sz \<noteq> 0 \<or> sz = 0 \<and> flags = 0) then Assert_failed
      else if \<not> (mx \<noteq> 0 \<or> mx = 0 \<and> flags AND O_APPEND = 0) then Assert_failed
      else
        let zm1 = zm\<lparr>g_zinit := g_zinit zm + 1\<rparr>;
            zm2 = (if g_zinit zm = 0 then zm1\<lparr>g_zonelist := []\<rparr> else zm1)
        in Done (zm_loc_alloc zmem zlmem zone_name sz mx flags 0 zm2))"

definition zone_instance_put :: "vqe_zone \<Rightarrow> zone_mgr \<Rightarrow> (int \<times> zone_mgr) outcome" where
  "zone_instance_put z zm =
     (if z_magic z \<noteq> ZONEMAGIC \<or> g_zinit zm = 0 then Assert_failed else zm_loc_destroy z zm)"

definition zone_acquire ::
  "zone_mgr \<Rightarrow> item_ptr option \<Rightarrow> vqe_zone option \<Rightarrow> (item_ptr option \<times> vqe_zone option) outcome" where
  "zone_acquire zm chunk zp =
     (case zp of
        None \<Rightarrow> Done (None, None)
      | Some z \<Rightarrow>
          if z_magic z \<noteq> ZONEMAGIC \<or> g_zinit zm = 0 then Assert_failed
          else bind_out (zm_loc_acq chunk z) (\<lambda>(p, z').
                 Done (p, Some (if p = None then z'\<lparr>z_alloc_fail := z_alloc_fail z' + 1\<rparr> else z'))))"

definition zone_release :: "zone_mgr \<Rightarrow> vqe_zone \<Rightarrow> item_ptr \<Rightarrow> vqe_zone outcome" where
  "zone_release zm z data =
     (if z_magic z \<noteq> ZONEMAGIC \<or> g_zinit zm = 0 then Assert_failed else zm_loc_rel z data)"

record zone_info =
  zo_max :: int
  zo_used :: int
  zo_hiwat :: int
  zo_alloc_fail :: s32

definition zm_zone_get_info :: "vqe_zone option \<Rightarrow> zone_info option \<Rightarrow> int \<times> zone_info option" where
  "zm_zone_get_info zp info =
     (case (zp, info) of
        (Some z, Some _) \<Rightarrow> (0, Some \<lparr>zo_max = z_max z, zo_used = z_used z, zo_hiwat = z_hiwat z,
                                      zo_alloc_fail = z_alloc_fail z\<rparr>)
      | _ \<Rightarrow> (- 1, info))"

subsection \<open>Well-formed zones\<close>

definition zone_in_use :: "vqe_zone \<Rightarrow> item_ptr set" where
  "zone_in_use z = {i. zi_chunk_magic (z_items z i) = CHUNKMAGIC}"

text \<open>Every item of the free list is marked free, every other marked item is in use with one
  reference, and the counters count them.\<close>

definition zone_ok :: "vqe_zone \<Rightarrow> bool" where
  "zone_ok z \<longleftrightarrow> z_magic z = ZONEMAGIC \<and> distinct (z_freelist z) \<and> finite (zone_in_use z) \<and>
     (\<forall>i\<in>set (z_freelist z). z_items z i = \<lparr>zi_chunk_magic = FREECHUNKMAGIC, zi_refcnt = 0\<rparr>) \<and>
     (\<forall>i\<in>zone_in_use z. zi_refcnt (z_items z i) = 1) \<and>
     z_used z = int (card (zone_in_use z)) \<and>
     z_allocated z = z_used z + int (length (z_freelist z)) \<and>
     z_used z \<le> z_hiwat z \<and> z_hiwat z \<le> z_allocated z"

lemma zone_okI:
  assumes "z_magic z = ZONEMAGIC" "distinct (z_freelist z)" "finite (zone_in_use z)"
    "\<And>i. i \<in> set (z_freelist z) \<Longrightarrow> z_items z i = \<lparr>zi_chunk_magic = FREECHUNKMAGIC, zi_refcnt = 0\<rparr>"
    "\<And>i. i \<in> zone_in_use z \<Longrightarrow> zi_refcnt (z_items z i) = 1"
    "z_used z = int (card (zone_in_use z))" "z_allocated z = z_used z + int (length (z_freelist z))"
    "z_used z \<le> z_hiwat z" "z_hiwat z \<le> z_allocated z"
  shows "zone_ok z"
  unfolding zone_ok_def using assms by blast

lemma zone_okD:
  assumes "zone_ok z"
  shows "z_magic z = ZONEMAGIC" "distinct (z_freelist z)" "finite (zone_in_use z)"
    "i \<in> set (z_freelist z) \<Longrightarrow> z_items z i = \<lparr>zi_chunk_magic = FREECHUNKMAGIC, zi_refcnt = 0\<rparr>"
    "i \<in> zone_in_use z \<Longrightarrow> zi_refcnt (z_items z i) = 1"
    "z_used z = int (card (zone_in_use z))" "z_allocated z = z_used z + int (length (z_freelist z))"
    "z_used z \<le> z_hiwat z" "z_hiwat z \<le> z_allocated z"
  using assms unfolding zone_ok_def by blast+

text \<open>A chunk of memory for a dynamic zone is none of its items.\<close>

definition chunk_fresh :: "item_ptr option \<Rightarrow> vqe_zone \<Rightarrow> bool" where
  "chunk_fresh chunk z \<longleftrightarrow> (\<forall>c. chunk = Some c \<longrightarrow> c \<notin> zone_in_use z \<and> c \<notin> set (z_freelist z))"

lemma magic_differ [simp]: "FREECHUNKMAGIC \<noteq> CHUNKMAGIC" "CHUNKMAGIC \<noteq> FREECHUNKMAGIC" "CHUNKMAGIC \<noteq> 0"
  by (simp_all add: FREECHUNKMAGIC_def CHUNKMAGIC_def)

lemma in_use_upd [simp]:
  "zone_in_use (z\<lparr>z_items := (z_items z)(i := it)\<rparr>) =
     (if zi_chunk_magic it = CHUNKMAGIC then insert i (zone_in_use z) else zone_in_use z - {i})"
  by (auto simp: zone_in_use_def)

lemma in_use_frame [simp]:
  "zone_in_use (z\<lparr>z_freelist := f\<rparr>) = zone_in_use z" "zone_in_use (z\<lparr>z_used := n\<rparr>) = zone_in_use z"
  "zone_in_use (z\<lparr>z_hiwat := n\<rparr>) = zone_in_use z" "zone_in_use (z\<lparr>z_allocated := n\<rparr>) = zone_in_use z"
  "zone_in_use (z\<lparr>z_alloc_fail := w\<rparr>) = zone_in_use z" "zone_in_use (z\<lparr>z_chunklist := f\<rparr>) = zone_in_use z"
  by (simp_all add: zone_in_use_def)

lemma free_not_in_use: "zone_ok z \<Longrightarrow> i \<in> set (z_freelist z) \<Longrightarrow> i \<notin> zone_in_use z"
  by (auto simp: zone_ok_def zone_in_use_def)

lemma acq_from_free:
  assumes ok: "zone_ok z" and free: "z_freelist z = i # rest"
  shows "\<exists>z'. zm_loc_acq chunk z = Done (Some i, z') \<and> zone_ok z' \<and>
    zone_in_use z' = insert i (zone_in_use z) \<and> z_freelist z' = rest"
proof -
  let ?z0 = "z\<lparr>z_items := (z_items z)(i := \<lparr>zi_chunk_magic = CHUNKMAGIC, zi_refcnt = 1\<rparr>)\<rparr>"
  let ?z = "?z0\<lparr>z_freelist := rest, z_used := z_used z + 1, z_hiwat := max (z_hiwat z) (z_used z + 1)\<rparr>"
  note d = zone_okD [OF ok]
  have "z_items z i = \<lparr>zi_chunk_magic = FREECHUNKMAGIC, zi_refcnt = 0\<rparr>" by (rule d(4)) (simp add: free)
  then have acq: "zm_loc_acq chunk z = Done (Some i, ?z)"
    using free by (simp add: zm_loc_acq_def)
  have i: "i \<notin> zone_in_use z" "i \<notin> set rest" using free_not_in_use [OF ok, of i] free d(2) by auto
  have "zone_ok ?z"
  proof (rule zone_okI)
    show "z_items ?z j = \<lparr>zi_chunk_magic = FREECHUNKMAGIC, zi_refcnt = 0\<rparr>" if "j \<in> set (z_freelist ?z)" for j
      using that d(4) [of j] i by (auto simp: free)
    show "zi_refcnt (z_items ?z j) = 1" if "j \<in> zone_in_use ?z" for j
      using that d(5) [of j] by auto
  qed (use d(1-3,6-9) i free in \<open>simp_all\<close>)
  then show ?thesis using acq by (intro exI [of _ ?z]) simp
qed

lemma add_chunk_ok:
  assumes "zone_ok z" "chunk_fresh (Some c) z" "z_freelist z = []"
  shows "zone_ok (zone_populate_freelist 1 c (snd (zone_create_chunk_dynamic (Some c) z)))"
    "zone_in_use (zone_populate_freelist 1 c (snd (zone_create_chunk_dynamic (Some c) z))) = zone_in_use z"
    "z_freelist (zone_populate_freelist 1 c (snd (zone_create_chunk_dynamic (Some c) z))) = [c]"
proof -
  let ?z = "zone_populate_freelist 1 c (snd (zone_create_chunk_dynamic (Some c) z))"
  show u: "zone_in_use ?z = zone_in_use z"
    using assms(2) by (auto simp: zone_create_chunk_dynamic_def chunk_fresh_def zone_in_use_def)
  show "z_freelist ?z = [c]" using assms(3) by (simp add: zone_create_chunk_dynamic_def)
  show "zone_ok ?z"
    unfolding zone_ok_def u using assms
    by (auto simp: zone_create_chunk_dynamic_def chunk_fresh_def zone_ok_def)
qed

lemma acq_cases:
  assumes ok: "zone_ok z" and fresh: "chunk_fresh chunk z"
  shows "\<exists>p z'. zm_loc_acq chunk z = Done (p, z') \<and> zone_ok z' \<and>
    (case p of
       Some i \<Rightarrow> i \<notin> zone_in_use z \<and> zone_in_use z' = insert i (zone_in_use z)
     | None \<Rightarrow> z' = z \<and> z_freelist z = [] \<and> (z_flags z AND O_APPEND = 0 \<or> chunk = None))"
proof (cases "z_freelist z")
  case (Cons i rest)
  have "i \<notin> zone_in_use z" using free_not_in_use [OF ok, of i] Cons by simp
  moreover obtain z' where "zm_loc_acq chunk z = Done (Some i, z')" "zone_ok z'"
      "zone_in_use z' = insert i (zone_in_use z)"
    using acq_from_free [OF ok Cons, of chunk] by blast
  ultimately show ?thesis by (intro exI [of _ "Some i"] exI [of _ z']) simp
next
  case Nil
  show ?thesis
  proof (cases "z_flags z AND O_APPEND = 0 \<or> chunk = None")
    case True
    then have "zm_loc_acq chunk z = Done (None, z)"
      using Nil by (auto simp: zm_loc_acq_def zone_create_chunk_dynamic_def)
    then show ?thesis using ok Nil True by (intro exI [of _ None] exI [of _ z]) simp
  next
    case False
    then obtain c where c: "chunk = Some c" "z_flags z AND O_APPEND \<noteq> 0" by auto
    let ?z = "zone_populate_freelist 1 c (snd (zone_create_chunk_dynamic (Some c) z))"
    note add = add_chunk_ok [OF ok fresh [unfolded c(1)] Nil]
    have "zm_loc_acq chunk z = zm_loc_acq chunk ?z"
      using c Nil add(3) by (simp add: zm_loc_acq_def zone_create_chunk_dynamic_def)
    moreover have "c \<notin> zone_in_use z" using fresh c(1) by (simp add: chunk_fresh_def)
    moreover obtain z' where "zm_loc_acq chunk ?z = Done (Some c, z')" "zone_ok z'"
        "zone_in_use z' = insert c (zone_in_use ?z)"
      using acq_from_free [OF add(1) add(3), of chunk] by blast
    ultimately show ?thesis
      using add(2) by (intro exI [of _ "Some c"] exI [of _ z']) (simp only: option.case simp_thms)
  qed
qed

lemma rel_ok:
  assumes ok: "zone_ok z" and i: "i \<in> zone_in_use z"
  shows "\<exists>z'. zm_loc_rel z i = Done z' \<and> zone_ok z' \<and> zone_in_use z' = zone_in_use z - {i} \<and>
    z_freelist z' = i # z_freelist z"
proof -
  let ?z0 = "z\<lparr>z_items := (z_items z)(i := \<lparr>zi_chunk_magic = FREECHUNKMAGIC, zi_refcnt = 0\<rparr>)\<rparr>"
  let ?z = "?z0\<lparr>z_freelist := i # z_freelist z, z_used := z_used z - 1\<rparr>"
  note d = zone_okD [OF ok]
  have it: "zi_chunk_magic (z_items z i) = CHUNKMAGIC" "zi_refcnt (z_items z i) = 1"
    using i d(5) [OF i] by (simp_all add: zone_in_use_def)
  have ni: "i \<notin> set (z_freelist z)" using free_not_in_use [OF ok, of i] i by blast
  have c: "int (card (zone_in_use z)) = int (card (zone_in_use z - {i})) + 1"
    using i d(3) card.remove [of "zone_in_use z" i] by simp
  have "zone_ok ?z"
  proof (rule zone_okI)
    show "z_items ?z j = \<lparr>zi_chunk_magic = FREECHUNKMAGIC, zi_refcnt = 0\<rparr>" if "j \<in> set (z_freelist ?z)" for j
      using that d(4) [of j] by auto
    show "zi_refcnt (z_items ?z j) = 1" if "j \<in> zone_in_use ?z" for j
      using that d(5) [of j] by auto
  qed (use d(1-3,6-9) c ni in \<open>simp_all\<close>)
  then show ?thesis using it by (intro exI [of _ ?z]) (simp add: zm_loc_rel_def)
qed

lemma rel_twice_fails: "i \<notin> zone_in_use z \<Longrightarrow> zm_loc_rel z i = Assert_failed"
  by (simp add: zm_loc_rel_def zone_in_use_def)



definition zone_addrs :: "nat \<Rightarrow> item_ptr \<Rightarrow> int \<Rightarrow> item_ptr list" where
  "zone_addrs n base pad = map (\<lambda>i. base + int i * pad) [0..<n]"

lemma zone_addrs_Suc: "zone_addrs (Suc n) base pad = base # zone_addrs n (base + pad) pad"
  unfolding zone_addrs_def map_upt_Suc by (simp add: algebra_simps)

lemma zone_addrs_distinct: "0 < pad \<Longrightarrow> distinct (zone_addrs n base pad)"
  by (auto simp: zone_addrs_def distinct_map inj_on_def)

lemma populate_fields:
  "z_freelist (zone_populate_freelist n base z) = rev (zone_addrs n base (z_el_size_pad z)) @ z_freelist z"
  "z_allocated (zone_populate_freelist n base z) = z_allocated z + int n"
  "z_used (zone_populate_freelist n base z) = z_used z"
  "z_hiwat (zone_populate_freelist n base z) = z_hiwat z"
  "z_magic (zone_populate_freelist n base z) = z_magic z"
  "z_el_size (zone_populate_freelist n base z) = z_el_size z"
  "z_name (zone_populate_freelist n base z) = z_name z"
  "z_id (zone_populate_freelist n base z) = z_id z"
  "z_key (zone_populate_freelist n base z) = z_key z"
  by (induction n arbitrary: base z) (simp_all add: zone_addrs_Suc, simp add: zone_addrs_def)

lemma populate_items:
  "z_items (zone_populate_freelist n base z) i =
     (if i \<in> set (zone_addrs n base (z_el_size_pad z))
      then (z_items z i)\<lparr>zi_chunk_magic := FREECHUNKMAGIC\<rparr> else z_items z i)"
  by (induction n arbitrary: base z) (auto simp: zone_addrs_Suc, auto simp: zone_addrs_def)

lemma length_zone_addrs [simp]: "length (zone_addrs n base pad) = n"
  by (simp add: zone_addrs_def)

lemma populate_ok:
  assumes "z_magic z = ZONEMAGIC" "z_freelist z = []" "z_used z = 0" "z_hiwat z = 0" "z_allocated z = 0"
    "z_items z = (\<lambda>_. \<lparr>zi_chunk_magic = 0, zi_refcnt = 0\<rparr>)" "0 < z_el_size_pad z"
  shows "zone_ok (zone_populate_freelist n base z)" "zone_in_use (zone_populate_freelist n base z) = {}"
proof -
  show u: "zone_in_use (zone_populate_freelist n base z) = {}"
    unfolding zone_in_use_def populate_items assms(6) by auto
  show "zone_ok (zone_populate_freelist n base z)"
    using assms by (intro zone_okI) (simp_all add: u populate_fields populate_items zone_addrs_distinct)
qed

subsection \<open>The interface\<close>

text \<open>What the users of a pool rely on: an item that is handed out is not in use, an item can be given
  back exactly once.\<close>

locale item_pool =
  fixes ok :: "'z \<Rightarrow> bool"
    and live :: "'z \<Rightarrow> 'i set"
    and acq :: "'z \<Rightarrow> ('i option \<times> 'z) outcome"
    and rel :: "'z \<Rightarrow> 'i \<Rightarrow> 'z outcome"
  assumes acq_law: "ok z \<Longrightarrow> \<exists>p z'. acq z = Done (p, z') \<and> ok z' \<and>
      (case p of None \<Rightarrow> live z' = live z | Some i \<Rightarrow> i \<notin> live z \<and> live z' = insert i (live z))"
    and rel_law: "ok z \<Longrightarrow> i \<in> live z \<Longrightarrow> \<exists>z'. rel z i = Done z' \<and> ok z' \<and> live z' = live z - {i}"
    and rel_dead: "i \<notin> live z \<Longrightarrow> rel z i = Assert_failed"
begin

lemma acq_Some:
  assumes "ok z" "acq z = Done (Some i, z')"
  shows "ok z' \<and> i \<notin> live z \<and> live z' = insert i (live z)"
  using acq_law [OF assms(1)] assms(2) by auto

lemma acq_twice:
  assumes "ok z" "acq z = Done (Some i, z1)" "acq z1 = Done (Some j, z2)"
  shows "i \<noteq> j"
  using acq_Some [OF assms(1,2)] acq_Some [of z1 j z2] assms(3) by auto

lemma acq_rel:
  assumes "ok z" "acq z = Done (Some i, z1)"
  shows "\<exists>z2. rel z1 i = Done z2 \<and> ok z2 \<and> live z2 = live z \<and> rel z2 i = Assert_failed"
proof -
  note a = acq_Some [OF assms]
  then obtain z2 where z2: "rel z1 i = Done z2" "ok z2" "live z2 = live z1 - {i}"
    using rel_law [of z1 i] by blast
  moreover have "live z2 = live z" using a z2(3) by auto
  ultimately show ?thesis using a rel_dead [of i z2] by auto
qed

end

interpretation zone: item_pool zone_ok zone_in_use "zm_loc_acq None" zm_loc_rel
proof unfold_locales
  show "\<exists>p z'. zm_loc_acq None z = Done (p, z') \<and> zone_ok z' \<and>
      (case p of None \<Rightarrow> zone_in_use z' = zone_in_use z
       | Some i \<Rightarrow> i \<notin> zone_in_use z \<and> zone_in_use z' = insert i (zone_in_use z))"
    if "zone_ok z" for z
  proof -
    have "chunk_fresh None z" by (simp add: chunk_fresh_def)
    from acq_cases [OF that this] obtain p z' where "zm_loc_acq None z = Done (p, z')" "zone_ok z'"
      "case p of None \<Rightarrow> z' = z \<and> z_freelist z = [] \<and> (z_flags z AND O_APPEND = 0 \<or> (None :: item_ptr option) = None)
       | Some i \<Rightarrow> i \<notin> zone_in_use z \<and> zone_in_use z' = insert i (zone_in_use z)" by blast
    then show ?thesis by (intro exI [of _ p] exI [of _ z']) (auto split: option.splits)
  qed
  show "\<exists>z'. zm_loc_rel z i = Done z' \<and> zone_ok z' \<and> zone_in_use z' = zone_in_use z - {i}"
    if "zone_ok z" "i \<in> zone_in_use z" for z i using rel_ok [OF that] by blast
qed (rule rel_twice_fails)

subsection \<open>Properties\<close>

text \<open>C22: acquiring from a well-formed zone never fails an assertion. It gives an item that is not in
  use, or NULL when the free list is empty and the zone is static or there is no memory, which is
  counted; the zone stays well-formed, and exactly the item given out becomes used.\<close>

theorem zone_acquire_fresh:
  assumes "zone_ok z" and "g_zinit zm \<noteq> 0" and "chunk_fresh chunk z"
  shows "\<exists>p z'. zone_acquire zm chunk (Some z) = Done (p, Some z') \<and> zone_ok z' \<and>
    (case p of
       Some i \<Rightarrow> i \<notin> zone_in_use z \<and> zone_in_use z' = insert i (zone_in_use z)
     | None \<Rightarrow> z_freelist z = [] \<and> (z_flags z AND O_APPEND = 0 \<or> chunk = None) \<and>
               zone_in_use z' = zone_in_use z \<and> z_alloc_fail z' = z_alloc_fail z + 1)"
proof -
  obtain p z1 where a: "zm_loc_acq chunk z = Done (p, z1)" "zone_ok z1"
    and p: "case p of
       Some i \<Rightarrow> i \<notin> zone_in_use z \<and> zone_in_use z1 = insert i (zone_in_use z)
     | None \<Rightarrow> z1 = z \<and> z_freelist z = [] \<and> (z_flags z AND O_APPEND = 0 \<or> chunk = None)"
    using acq_cases [OF assms(1,3)] by blast
  let ?z = "if p = None then z1\<lparr>z_alloc_fail := z_alloc_fail z1 + 1\<rparr> else z1"
  have "zone_acquire zm chunk (Some z) = Done (p, Some ?z)"
    using a(1) assms(2) zone_okD(1) [OF assms(1)] by (simp add: zone_acquire_def)
  moreover have "zone_ok ?z" using a(2) by (auto simp: zone_ok_def)
  ultimately show ?thesis
    using p by (intro exI [of _ p] exI [of _ ?z]) (auto split: option.splits)
qed

definition zone_sample :: vqe_zone where
  "zone_sample = zone_populate_freelist 3 4096
     \<lparr>z_magic = ZONEMAGIC, z_key = 0, z_id = 1, z_el_size = 40, z_el_size_pad = 56, z_max = 3, z_flags = 0,
      z_allocated = 0, z_used = 0, z_hiwat = 0, z_alloc_fail = 0, z_name = ''paks'',
      z_freelist = [], z_chunklist = [], z_items = (\<lambda>_. \<lparr>zi_chunk_magic = 0, zi_refcnt = 0\<rparr>)\<rparr>"

lemma zone_sample_ok: "zone_ok zone_sample" "zone_in_use zone_sample = {}"
  unfolding zone_sample_def by (rule populate_ok; simp)+

theorem zone_acquire_fresh_witness:
  "\<exists>p z'. zone_acquire \<lparr>g_zonelist = [], g_zid = 1, g_zinit = 1\<rparr> None (Some zone_sample) = Done (p, Some z') \<and>
     zone_ok z'"
  using zone_acquire_fresh [OF zone_sample_ok(1), of "\<lparr>g_zonelist = [], g_zid = 1, g_zinit = 1\<rparr>" None]
  by (auto simp: chunk_fresh_def)

text \<open>Two items acquired one after the other are different; an item that is acquired can be
  released, after which the items in use are those from before; releasing it a second time fails an
  assertion.\<close>

lemma zone_release_once:
  assumes "zone_ok z" and "zm_loc_acq None z = Done (Some i, z1)"
  shows "(\<forall>j z2. zm_loc_acq None z1 = Done (Some j, z2) \<longrightarrow> j \<noteq> i) \<and>
    (\<exists>z2. zm_loc_rel z1 i = Done z2 \<and> zone_ok z2 \<and> zone_in_use z2 = zone_in_use z \<and>
          zm_loc_rel z2 i = Assert_failed)"
  using zone.acq_twice [OF assms] zone.acq_rel [OF assms] by blast



text \<open>A zone is found by any name that its own name begins. Asking for a zone \<open>abc\<close> of 1000-byte
  items when a zone \<open>ab\<close> of 8-byte items exists gives that zone; and when \<open>abc\<close> was created before
  \<open>ab\<close>, putting back \<open>abc\<close> takes the entry of \<open>ab\<close> out of the list and leaves its own.\<close>

lemma zone_name_prefix_confused:
  "let zm0 = \<lparr>g_zonelist = [], g_zid = 0, g_zinit = 1\<rparr>;
       get = (\<lambda>base nm sz zm. case zone_instance_get_loc (Some base) True nm 64 sz 2 zm of
                Done (p, zm') \<Rightarrow> (p, zm') | _ \<Rightarrow> (None, zm));
       (p1, zm1) = get 4096 ''ab'' 8 zm0; (p2, zm2) = get 8192 ''abc'' 1000 zm1;
       (q1, zm3) = get 4096 ''abc'' 1000 zm0; (q2, zm4) = get 8192 ''ab'' 8 zm3
   in p2 = p1 \<and> map (z_el_size \<circ> zl_z) (g_zonelist zm2) = [8] \<and>
      map (z_name \<circ> zl_z) (g_zonelist zm4) = [''ab'', ''abc''] \<and>
      (case zone_instance_put (zl_z (g_zonelist zm4 ! 1)) zm4 of
         Done (rv, zm5) \<Rightarrow> rv = 0 \<and> map (z_name \<circ> zl_z) (g_zonelist zm5) = [''abc'']
       | _ \<Rightarrow> False)"
  by (simp add: zone_instance_get_loc_def zm_loc_alloc_def zm_get_zone_def zl_update_def
      zone_instance_put_def zm_loc_destroy_def ZONE_MAX_NAME_LEN_def populate_fields)
end
