(* ===== verification/Pak_Seq.thy ===== *)
theory Pak_Seq
  imports Zone_Mgr Seq_Num Vam_Time
begin

text \<open>
  Packets and the packet sequencer: \<^verbatim>\<open>vqecutils/vqec_pak.c\<close>, \<^verbatim>\<open>vqec_pak.h\<close>, \<^verbatim>\<open>vqec_pak_hdr.h\<close> and
  \<^verbatim>\<open>vqecutils/vqec_pak_seq.c\<close>. A packet is known by its address in the pool of packets; the heap is the
  zone of the pool and the packet headers in it, which live in static memory and so can be read at any
  time. The fields of a header that no function of the development reads (addresses and ports, list
  links, kernel buffers) are left out.

  The sequencer is an array of buckets indexed by the low bits of the sequence number. It refines a
  finite map from sequence numbers to packets in which no two numbers share their low bits.
\<close>

subsection \<open>Packets\<close>

datatype pak_type =
    VQEC_PAK_TYPE_APP | VQEC_PAK_TYPE_PRIMARY | VQEC_PAK_TYPE_REPAIR | VQEC_PAK_TYPE_FEC
  | VQEC_PAK_TYPE_UDP

definition VQEC_PAK_FLAGS_RX_REORDERED :: nat where "VQEC_PAK_FLAGS_RX_REORDERED = 0"
definition VQEC_PAK_FLAGS_RX_DISCONTINUITY :: nat where "VQEC_PAK_FLAGS_RX_DISCONTINUITY = 1"
definition VQEC_PAK_FLAGS_ON_INORDER_Q :: nat where "VQEC_PAK_FLAGS_ON_INORDER_Q = 2"
definition VQEC_PAK_FLAGS_AFTER_EC :: nat where "VQEC_PAK_FLAGS_AFTER_EC = 3"

definition VQEC_PAK_FLAGS_MASK :: "nat \<Rightarrow> u16" where
  "VQEC_PAK_FLAGS_MASK pos = push_bit pos 1"
definition VQEC_PAK_FLAGS_ISSET :: "u16 \<Rightarrow> nat \<Rightarrow> bool" where
  "VQEC_PAK_FLAGS_ISSET fl pos \<longleftrightarrow> fl AND push_bit pos 1 \<noteq> 0"
definition VQEC_PAK_FLAGS_SET :: "u16 \<Rightarrow> nat \<Rightarrow> u16" where
  "VQEC_PAK_FLAGS_SET fl pos = fl OR push_bit pos 1"
definition VQEC_PAK_FLAGS_RESET :: "u16 \<Rightarrow> nat \<Rightarrow> u16" where
  "VQEC_PAK_FLAGS_RESET fl pos = fl AND NOT (push_bit pos 1)"

type_synonym pak_ptr = item_ptr

record vqec_pak =
  pk_alloc_len :: u32
  pk_ref_count :: s32
  pk_buff_len :: u32
  pk_seq_num :: vqec_seq_num
  pk_mpeg_payload_offset :: u32
  pk_type :: pak_type
  pk_flags :: u16
  pk_rtp_ts :: u32
  pk_rcv_ts :: abs_time
  pk_pred_ts :: abs_time
  pk_app_cpy_delay :: rel_time
  pk_head_offset :: u16
  pk_fec_touched :: u16
  pk_buff :: "u8 list option"

definition pak_zero :: vqec_pak where
  "pak_zero = \<lparr>pk_alloc_len = 0, pk_ref_count = 0, pk_buff_len = 0, pk_seq_num = 0,
     pk_mpeg_payload_offset = 0, pk_type = VQEC_PAK_TYPE_APP, pk_flags = 0, pk_rtp_ts = 0, pk_rcv_ts = 0,
     pk_pred_ts = 0, pk_app_cpy_delay = 0, pk_head_offset = 0, pk_fec_touched = 0, pk_buff = None\<rparr>"

record pak_heap =
  ph_zm :: zone_mgr
  ph_pool :: "vqe_zone option"
  ph_mem :: "pak_ptr \<Rightarrow> vqec_pak"

definition pak_upd :: "pak_ptr \<Rightarrow> (vqec_pak \<Rightarrow> vqec_pak) \<Rightarrow> pak_heap \<Rightarrow> pak_heap" where
  "pak_upd p f h = h\<lparr>ph_mem := (ph_mem h)(p := f (ph_mem h p))\<rparr>"

text \<open>The header is cleared and counts one reference. The room for data is what the size \<open>hdr\<close> of the
  header leaves of an element of the pool.\<close>

definition vqec_pak_alloc_internal :: "int \<Rightarrow> pak_heap \<Rightarrow> (pak_ptr option \<times> pak_heap) outcome" where
  "vqec_pak_alloc_internal hdr h =
     (case ph_pool h of
        None \<Rightarrow> Done (None, h)
      | Some z \<Rightarrow>
          bind_out (zone_acquire (ph_zm h) None (Some z)) (\<lambda>(p, zp).
            let h1 = h\<lparr>ph_pool := zp\<rparr>
            in case p of
                 None \<Rightarrow> Done (None, h1)
               | Some a \<Rightarrow>
                   bind_out (zm_elem_size (ph_zm h) z) (\<lambda>el.
                     Done (Some a, pak_upd a
                       (\<lambda>_. pak_zero\<lparr>pk_ref_count := 1, pk_alloc_len := word_of_int (el - hdr)\<rparr>) h1))))"

definition vqec_pak_alloc_no_particle :: "int \<Rightarrow> pak_heap \<Rightarrow> (pak_ptr option \<times> pak_heap) outcome" where
  "vqec_pak_alloc_no_particle hdr h = vqec_pak_alloc_internal hdr h"

text \<open>The buffer of the packet is the memory behind its header, whose contents \<open>junk\<close> are unknown.\<close>

definition vqec_pak_alloc_with_particle ::
  "int \<Rightarrow> u8 list \<Rightarrow> pak_heap \<Rightarrow> (pak_ptr option \<times> pak_heap) outcome" where
  "vqec_pak_alloc_with_particle hdr junk h =
     bind_out (vqec_pak_alloc_no_particle hdr h) (\<lambda>(p, h').
       Done (p, case p of None \<Rightarrow> h' | Some a \<Rightarrow> pak_upd a (\<lambda>pak. pak\<lparr>pk_buff := Some junk\<rparr>) h'))"

definition vqec_pak_add_buffer :: "pak_ptr option \<Rightarrow> u8 list option \<Rightarrow> pak_heap \<Rightarrow> bool \<times> pak_heap" where
  "vqec_pak_add_buffer pakp buf h =
     (case (pakp, buf) of
        (Some p, Some b) \<Rightarrow>
          if pk_buff (ph_mem h p) \<noteq> None then (False, h)
          else (True, pak_upd p (\<lambda>pak. pak\<lparr>pk_buff := Some b, pk_head_offset := 0\<rparr>) h)
      | _ \<Rightarrow> (False, h))"

text \<open>A reference is given up, and with the last one the packet goes back to its pool.\<close>

definition vqec_pak_free :: "pak_ptr option \<Rightarrow> pak_heap \<Rightarrow> pak_heap outcome" where
  "vqec_pak_free pakp h =
     (case pakp of
        None \<Rightarrow> Done h
      | Some p \<Rightarrow>
          let h1 = pak_upd p (\<lambda>pak. pak\<lparr>pk_ref_count := pk_ref_count pak - 1\<rparr>) h
          in if sint (pk_ref_count (ph_mem h1 p)) \<le> 0
             then (case ph_pool h1 of
                     None \<Rightarrow> Assert_failed
                   | Some z \<Rightarrow> bind_out (zone_release (ph_zm h1) z p) (\<lambda>z'. Done (h1\<lparr>ph_pool := Some z'\<rparr>)))
             else Done h1)"

definition vqec_pak_ref :: "pak_ptr option \<Rightarrow> pak_heap \<Rightarrow> pak_heap" where
  "vqec_pak_ref pakp h =
     (case pakp of
        None \<Rightarrow> h
      | Some p \<Rightarrow> pak_upd p (\<lambda>pak. pak\<lparr>pk_ref_count := pk_ref_count pak + 1\<rparr>) h)"

definition vqec_pak_get_content_len :: "vqec_pak \<Rightarrow> u32" where
  "vqec_pak_get_content_len pak = pk_buff_len pak - ucast (pk_head_offset pak)"

definition vqec_pak_set_content_len :: "vqec_pak \<Rightarrow> u32 \<Rightarrow> bool \<times> vqec_pak" where
  "vqec_pak_set_content_len pak len =
     (let buflen = ucast (pk_head_offset pak) + len
      in if buflen > pk_alloc_len pak then (False, pak) else (True, pak\<lparr>pk_buff_len := buflen\<rparr>))"

text \<open>The comparison of \<open>ABS_VAL(offset)\<close>, an \<open>int\<close>, with the length is made on unsigned numbers.\<close>

definition vqec_pak_adjust_head_ptr :: "vqec_pak \<Rightarrow> u16 \<Rightarrow> bool \<times> vqec_pak" where
  "vqec_pak_adjust_head_ptr pak offset =
     (let new_offset = pk_head_offset pak + offset
      in if ucast new_offset < pk_buff_len pak \<and> word_of_int \<bar>sint offset\<bar> < pk_buff_len pak
         then (True, pak\<lparr>pk_head_offset := new_offset\<rparr>)
         else (False, pak))"

subsection \<open>The sequencer\<close>

definition VQEC_PAK_SEQ_MAX_BUCKET_BITS :: nat where "VQEC_PAK_SEQ_MAX_BUCKET_BITS = 16"

definition INVALID_SEQ_NUM_FOR_BUCKET :: "nat \<Rightarrow> vqec_seq_num" where
  "INVALID_SEQ_NUM_FOR_BUCKET bucket = (if bucket \<noteq> 0 then 0 else 1)"

record vqec_pak_seq_bucket =
  bk_pak :: "pak_ptr option"
  bk_seq_num :: vqec_seq_num

record vqec_pak_seq =
  ps_bucket_mask :: u32
  ps_num_buckets :: u32
  ps_num_paks :: u32
  ps_bucket_bits :: nat
  ps_num_dups :: u32
  ps_buckets :: "vqec_pak_seq_bucket list"

text \<open>The flag says whether there is memory, or an item in the pool, for the structure.\<close>

definition vqec_pak_seq_create_in_pool :: "bool \<Rightarrow> nat \<Rightarrow> vqec_pak_seq option" where
  "vqec_pak_seq_create_in_pool mem bucket_bits =
     (let num_buckets = push_bit bucket_bits 1 :: u32
      in if bucket_bits = 0 \<or> bucket_bits > VQEC_PAK_SEQ_MAX_BUCKET_BITS then None
         else if \<not> mem then None
         else Some \<lparr>ps_bucket_mask = num_buckets - 1, ps_num_buckets = num_buckets, ps_num_paks = 0,
                    ps_bucket_bits = bucket_bits, ps_num_dups = 0,
                    ps_buckets = map (\<lambda>b. \<lparr>bk_pak = None, bk_seq_num = INVALID_SEQ_NUM_FOR_BUCKET b\<rparr>)
                      [0..< unat num_buckets]\<rparr>)"

definition vqec_pak_seq_create :: "bool \<Rightarrow> nat \<Rightarrow> vqec_pak_seq option" where
  "vqec_pak_seq_create mem bucket_bits = vqec_pak_seq_create_in_pool mem bucket_bits"

definition vqec_pak_seq_find_bucket :: "vqec_pak_seq \<Rightarrow> vqec_seq_num \<Rightarrow> nat" where
  "vqec_pak_seq_find_bucket s n = unat (n AND ps_bucket_mask s)"

definition vqec_pak_seq_get_num_paks :: "vqec_pak_seq \<Rightarrow> u32" where
  "vqec_pak_seq_get_num_paks s = ps_num_paks s"

definition vqec_pak_seq_get_num_buckets :: "vqec_pak_seq \<Rightarrow> u32" where
  "vqec_pak_seq_get_num_buckets s = ps_num_buckets s"

definition vqec_pak_seq_get_bucket_bits :: "vqec_pak_seq \<Rightarrow> nat" where
  "vqec_pak_seq_get_bucket_bits s = ps_bucket_bits s"

definition vqec_pak_seq_insert :: "vqec_pak_seq \<Rightarrow> pak_ptr \<Rightarrow> pak_heap \<Rightarrow> bool \<times> vqec_pak_seq \<times> pak_heap" where
  "vqec_pak_seq_insert s pak h =
     (let n = pk_seq_num (ph_mem h pak);
          b = vqec_pak_seq_find_bucket s n;
          old = ps_buckets s ! b
      in if bk_pak old \<noteq> None \<and> n \<noteq> bk_seq_num old then (False, s, h)
         else if bk_pak old \<noteq> None then (False, s\<lparr>ps_num_dups := ps_num_dups s + 1\<rparr>, h)
         else (True,
               s\<lparr>ps_buckets := (ps_buckets s)[b := \<lparr>bk_pak = Some pak, bk_seq_num = n\<rparr>],
                 ps_num_paks := ps_num_paks s + 1\<rparr>,
               vqec_pak_ref (Some pak) h))"

definition vqec_pak_seq_find :: "vqec_pak_seq \<Rightarrow> vqec_seq_num \<Rightarrow> pak_ptr option" where
  "vqec_pak_seq_find s n =
     (let b = vqec_pak_seq_find_bucket s n
      in if bk_seq_num (ps_buckets s ! b) = n then bk_pak (ps_buckets s ! b) else None)"

definition seq_clear_bucket :: "nat \<Rightarrow> vqec_pak_seq \<Rightarrow> vqec_pak_seq" where
  "seq_clear_bucket b s =
     s\<lparr>ps_buckets := (ps_buckets s)[b := \<lparr>bk_pak = None, bk_seq_num = INVALID_SEQ_NUM_FOR_BUCKET b\<rparr>],
       ps_num_paks := ps_num_paks s - 1\<rparr>"

definition vqec_pak_seq_delete ::
  "vqec_pak_seq \<Rightarrow> vqec_seq_num \<Rightarrow> pak_heap \<Rightarrow> (bool \<times> vqec_pak_seq \<times> pak_heap) outcome" where
  "vqec_pak_seq_delete s n h =
     (let b = vqec_pak_seq_find_bucket s n
      in if bk_seq_num (ps_buckets s ! b) = n
         then bind_out (vqec_pak_free (bk_pak (ps_buckets s ! b)) h)
                (\<lambda>h'. Done (True, seq_clear_bucket b s, h'))
         else Done (False, s, h))"

text \<open>The loop of the destructor over the buckets.\<close>

fun seq_destroy_loop :: "nat list \<Rightarrow> vqec_pak_seq \<Rightarrow> pak_heap \<Rightarrow> (vqec_pak_seq \<times> pak_heap) outcome" where
  "seq_destroy_loop [] s h = Done (s, h)"
| "seq_destroy_loop (b # bs) s h =
     (if bk_pak (ps_buckets s ! b) \<noteq> None
      then bind_out (vqec_pak_free (bk_pak (ps_buckets s ! b)) h)
             (\<lambda>h'. seq_destroy_loop bs (seq_clear_bucket b s) h')
      else seq_destroy_loop bs s h)"

definition vqec_pak_seq_destroy_in_pool :: "vqec_pak_seq \<Rightarrow> pak_heap \<Rightarrow> pak_heap outcome" where
  "vqec_pak_seq_destroy_in_pool s h =
     bind_out (seq_destroy_loop [0..< unat (ps_num_buckets s)] s h) (\<lambda>(s', h').
       if ps_num_paks s' \<noteq> 0 then Assert_failed else Done h')"

definition vqec_pak_seq_destroy :: "vqec_pak_seq \<Rightarrow> pak_heap \<Rightarrow> pak_heap outcome" where
  "vqec_pak_seq_destroy s h = vqec_pak_seq_destroy_in_pool s h"

subsection \<open>The sequencer as a map\<close>

definition seq_cap :: "vqec_pak_seq \<Rightarrow> nat" where
  "seq_cap s = 2 ^ ps_bucket_bits s"

definition seq_full :: "vqec_pak_seq \<Rightarrow> nat \<Rightarrow> bool" where
  "seq_full s b \<longleftrightarrow> b < seq_cap s \<and> bk_pak (ps_buckets s ! b) \<noteq> None"

definition seq_ok :: "vqec_pak_seq \<Rightarrow> bool" where
  "seq_ok s \<longleftrightarrow> 1 \<le> ps_bucket_bits s \<and> ps_bucket_bits s \<le> 16 \<and>
     ps_num_buckets s = 2 ^ ps_bucket_bits s \<and> ps_bucket_mask s = 2 ^ ps_bucket_bits s - 1 \<and>
     length (ps_buckets s) = seq_cap s \<and> unat (ps_num_paks s) = card {b. seq_full s b} \<and>
     (\<forall>b < seq_cap s. case bk_pak (ps_buckets s ! b) of
        None \<Rightarrow> bk_seq_num (ps_buckets s ! b) = INVALID_SEQ_NUM_FOR_BUCKET b
      | Some p \<Rightarrow> unat (bk_seq_num (ps_buckets s ! b)) mod seq_cap s = b)"

lemma seq_okD:
  assumes "seq_ok s"
  shows "1 \<le> ps_bucket_bits s" "ps_bucket_bits s \<le> 16"
    "ps_num_buckets s = 2 ^ ps_bucket_bits s" "ps_bucket_mask s = 2 ^ ps_bucket_bits s - 1"
    "length (ps_buckets s) = seq_cap s" "unat (ps_num_paks s) = card {b. seq_full s b}"
    "b < seq_cap s \<Longrightarrow> bk_pak (ps_buckets s ! b) = None \<Longrightarrow>
       bk_seq_num (ps_buckets s ! b) = INVALID_SEQ_NUM_FOR_BUCKET b"
    "seq_full s b \<Longrightarrow> unat (bk_seq_num (ps_buckets s ! b)) mod seq_cap s = b"
  using assms by (auto simp: seq_ok_def seq_full_def split: option.splits)

lemma seq_okI:
  assumes "1 \<le> ps_bucket_bits s" "ps_bucket_bits s \<le> 16"
    "ps_num_buckets s = 2 ^ ps_bucket_bits s" "ps_bucket_mask s = 2 ^ ps_bucket_bits s - 1"
    "length (ps_buckets s) = seq_cap s" "unat (ps_num_paks s) = card {b. seq_full s b}"
    "\<And>b. b < seq_cap s \<Longrightarrow> bk_pak (ps_buckets s ! b) = None \<Longrightarrow>
       bk_seq_num (ps_buckets s ! b) = INVALID_SEQ_NUM_FOR_BUCKET b"
    "\<And>b. seq_full s b \<Longrightarrow> unat (bk_seq_num (ps_buckets s ! b)) mod seq_cap s = b"
  shows "seq_ok s"
  using assms by (auto simp: seq_ok_def seq_full_def split: option.splits)

lemma seq_cap_bounds:
  assumes "seq_ok s"
  shows "2 \<le> seq_cap s" "seq_cap s \<le> 65536" "seq_cap s dvd 2 ^ 32"
proof -
  note d = seq_okD [OF assms]
  have "(2::nat) ^ 1 \<le> 2 ^ ps_bucket_bits s" using d(1) by (intro power_increasing) auto
  then show "2 \<le> seq_cap s" by (simp add: seq_cap_def)
  have "(2::nat) ^ ps_bucket_bits s \<le> 2 ^ 16" using d(2) by (intro power_increasing) auto
  then show "seq_cap s \<le> 65536" by (simp add: seq_cap_def)
  show "seq_cap s dvd 2 ^ 32" using d(2) unfolding seq_cap_def by (intro le_imp_power_dvd) simp
qed

lemma find_bucket_mod:
  assumes "seq_ok s"
  shows "vqec_pak_seq_find_bucket s n = unat n mod seq_cap s"
    and "vqec_pak_seq_find_bucket s n < seq_cap s"
proof -
  have "ps_bucket_mask s = mask (ps_bucket_bits s)"
    using seq_okD(4) [OF assms] by (simp add: mask_eq_decr_exp)
  then show "vqec_pak_seq_find_bucket s n = unat n mod seq_cap s"
    by (simp only: vqec_pak_seq_find_bucket_def unat_and_mask seq_cap_def)
  then show "vqec_pak_seq_find_bucket s n < seq_cap s" using seq_cap_bounds(1) [OF assms] by simp
qed

text \<open>The number of an empty bucket never matches: a number falls into another bucket than the one
  whose invalid number it is.\<close>

lemma invalid_no_match:
  assumes "seq_ok s"
  shows "INVALID_SEQ_NUM_FOR_BUCKET (unat n mod seq_cap s) \<noteq> n"
proof (cases "unat n mod seq_cap s = 0")
  case True
  have "1 mod seq_cap s = 1" using seq_cap_bounds(1) [OF assms] by simp
  then show ?thesis using True by (auto simp: INVALID_SEQ_NUM_FOR_BUCKET_def)
next
  case False
  then show ?thesis by (auto simp: INVALID_SEQ_NUM_FOR_BUCKET_def)
qed

lemma find_iff:
  assumes "seq_ok s"
  shows "vqec_pak_seq_find s n = Some p \<longleftrightarrow>
    ps_buckets s ! (unat n mod seq_cap s) = \<lparr>bk_pak = Some p, bk_seq_num = n\<rparr>"
  by (auto simp: vqec_pak_seq_find_def find_bucket_mod(1) [OF assms] Let_def split: if_splits)

lemma find_full:
  assumes ok: "seq_ok s"
  shows "vqec_pak_seq_find s n \<noteq> None \<longleftrightarrow>
    seq_full s (unat n mod seq_cap s) \<and> bk_seq_num (ps_buckets s ! (unat n mod seq_cap s)) = n"
  using seq_cap_bounds(1) [OF ok]
  by (auto simp: vqec_pak_seq_find_def find_bucket_mod(1) [OF ok] seq_full_def Let_def split: if_splits)

text \<open>The first test of the two functions that look at the number alone finds an occupied bucket.\<close>

lemma match_full:
  assumes ok: "seq_ok s" and "bk_seq_num (ps_buckets s ! (unat n mod seq_cap s)) = n"
  shows "seq_full s (unat n mod seq_cap s)"
proof (rule ccontr)
  have b: "unat n mod seq_cap s < seq_cap s" using seq_cap_bounds(1) [OF ok] by simp
  assume "\<not> ?thesis"
  then have "bk_pak (ps_buckets s ! (unat n mod seq_cap s)) = None" using b by (simp add: seq_full_def)
  from seq_okD(7) [OF ok b this] assms(2) invalid_no_match [OF ok, of n] show False by simp
qed

lemma finite_full: "finite {b. seq_full s b}"
  by (rule finite_subset [of _ "{..< seq_cap s}"]) (auto simp: seq_full_def)

lemma dom_find:
  assumes ok: "seq_ok s"
  shows "dom (vqec_pak_seq_find s) = (\<lambda>b. bk_seq_num (ps_buckets s ! b)) ` {b. seq_full s b}"
    "inj_on (\<lambda>b. bk_seq_num (ps_buckets s ! b)) {b. seq_full s b}"
    "finite (dom (vqec_pak_seq_find s))"
    "unat (ps_num_paks s) = card (dom (vqec_pak_seq_find s))"
proof -
  show d: "dom (vqec_pak_seq_find s) = (\<lambda>b. bk_seq_num (ps_buckets s ! b)) ` {b. seq_full s b}"
  proof (intro set_eqI iffI)
    fix n assume "n \<in> dom (vqec_pak_seq_find s)"
    then have "vqec_pak_seq_find s n \<noteq> None" by blast
    then show "n \<in> (\<lambda>b. bk_seq_num (ps_buckets s ! b)) ` {b. seq_full s b}"
      unfolding find_full [OF ok] by force
  next
    fix n assume "n \<in> (\<lambda>b. bk_seq_num (ps_buckets s ! b)) ` {b. seq_full s b}"
    then obtain b where b: "seq_full s b" "n = bk_seq_num (ps_buckets s ! b)" by auto
    then have "unat n mod seq_cap s = b" using seq_okD(8) [OF ok] by simp
    then have "vqec_pak_seq_find s n \<noteq> None" using b find_full [OF ok, of n] by simp
    then show "n \<in> dom (vqec_pak_seq_find s)" by blast
  qed
  show i: "inj_on (\<lambda>b. bk_seq_num (ps_buckets s ! b)) {b. seq_full s b}"
    by (rule inj_onI) (metis mem_Collect_eq ok seq_okD(8))
  show "finite (dom (vqec_pak_seq_find s))" unfolding d using finite_full by (rule finite_imageI)
  show "unat (ps_num_paks s) = card (dom (vqec_pak_seq_find s))"
    unfolding d card_image [OF i] by (rule seq_okD(6) [OF ok])
qed

subsection \<open>Updates\<close>

definition seq_put :: "vqec_pak_seq \<Rightarrow> vqec_seq_num \<Rightarrow> pak_ptr \<Rightarrow> vqec_pak_seq" where
  "seq_put s n p = s\<lparr>ps_buckets := (ps_buckets s)[vqec_pak_seq_find_bucket s n := \<lparr>bk_pak = Some p, bk_seq_num = n\<rparr>],
     ps_num_paks := ps_num_paks s + 1\<rparr>"

definition seq_del :: "vqec_pak_seq \<Rightarrow> vqec_seq_num \<Rightarrow> vqec_pak_seq" where
  "seq_del s n = seq_clear_bucket (vqec_pak_seq_find_bucket s n) s"

lemma seq_upd_cap [simp]: "seq_cap (seq_put s n p) = seq_cap s" "seq_cap (seq_clear_bucket b s) = seq_cap s"
  "seq_cap (seq_del s n) = seq_cap s"
  by (simp_all add: seq_put_def seq_clear_bucket_def seq_del_def seq_cap_def)

lemma full_card_le: "seq_ok s \<Longrightarrow> card {b. seq_full s b} \<le> 65536"
  using card_mono [of "{..< seq_cap s}" "{b. seq_full s b}"] seq_cap_bounds(2)
  by (force simp: seq_full_def)

lemma put_ok:
  assumes ok: "seq_ok s" and free: "\<not> seq_full s (unat n mod seq_cap s)"
  shows "seq_ok (seq_put s n p)"
    "vqec_pak_seq_find (seq_put s n p) m = (if m = n then Some p else vqec_pak_seq_find s m)"
proof -
  let ?b = "unat n mod seq_cap s" and ?s = "seq_put s n p"
  note d = seq_okD [OF ok] and fb = find_bucket_mod [OF ok, of n]
  have b: "?b < seq_cap s" using fb by simp
  have bk: "ps_buckets ?s = (ps_buckets s)[?b := \<lparr>bk_pak = Some p, bk_seq_num = n\<rparr>]"
    by (simp add: seq_put_def fb)
  have full: "{c. seq_full ?s c} = insert ?b {c. seq_full s c}"
    using b d(5) unfolding seq_full_def bk seq_upd_cap by (auto simp: nth_list_update)
  have "unat (ps_num_paks s + 1) = unat (ps_num_paks s) + 1"
    using d(6) full_card_le [OF ok] by (subst unat_add_small) simp_all
  then have num: "unat (ps_num_paks ?s) = card {c. seq_full ?s c}"
    unfolding full using free finite_full [of s] d(6) by (simp add: seq_put_def)
  show ok': "seq_ok ?s"
  proof (rule seq_okI)
    show "bk_seq_num (ps_buckets ?s ! c) = INVALID_SEQ_NUM_FOR_BUCKET c"
      if "c < seq_cap ?s" "bk_pak (ps_buckets ?s ! c) = None" for c
      using that d(5) d(7) [of c] by (auto simp: bk nth_list_update split: if_splits)
    show "unat (bk_seq_num (ps_buckets ?s ! c)) mod seq_cap ?s = c" if "seq_full ?s c" for c
      using that d(5) d(8) [of c] b by (auto simp: seq_full_def bk nth_list_update split: if_splits)
  qed (use d num in \<open>simp_all add: bk, simp_all add: seq_put_def\<close>)
  have "vqec_pak_seq_find ?s m = Some q \<longleftrightarrow> (if m = n then Some p else vqec_pak_seq_find s m) = Some q" for q
    using b d(5) free
    by (auto simp: find_iff [OF ok'] find_iff [OF ok] bk nth_list_update seq_full_def)
  then show "vqec_pak_seq_find ?s m = (if m = n then Some p else vqec_pak_seq_find s m)"
    by (metis option.exhaust)
qed

lemma clear_ok:
  assumes ok: "seq_ok s" and full: "seq_full s b"
  shows "seq_ok (seq_clear_bucket b s)"
    "vqec_pak_seq_find (seq_clear_bucket b s) m =
       (if m = bk_seq_num (ps_buckets s ! b) then None else vqec_pak_seq_find s m)"
proof -
  let ?s = "seq_clear_bucket b s"
  note d = seq_okD [OF ok]
  have b: "b < seq_cap s" using full by (simp add: seq_full_def)
  have bk: "ps_buckets ?s = (ps_buckets s)[b := \<lparr>bk_pak = None, bk_seq_num = INVALID_SEQ_NUM_FOR_BUCKET b\<rparr>]"
    by (simp add: seq_clear_bucket_def)
  have f: "{c. seq_full ?s c} = {c. seq_full s c} - {b}"
    using b d(5) unfolding seq_full_def bk seq_upd_cap by (auto simp: nth_list_update split: if_splits)
  have c: "card {c. seq_full s c} = card ({c. seq_full s c} - {b}) + 1"
    using finite_full [of s] full card.remove [of "{c. seq_full s c}" b] by simp
  then have "1 \<le> ps_num_paks s" using d(6) by (simp add: word_le_nat_alt)
  then have "unat (ps_num_paks s - 1) = unat (ps_num_paks s) - 1" by (simp add: unat_sub)
  then have num: "unat (ps_num_paks ?s) = card {c. seq_full ?s c}"
    unfolding f using c d(6) by (simp add: seq_clear_bucket_def)
  show ok': "seq_ok ?s"
  proof (rule seq_okI)
    show "bk_seq_num (ps_buckets ?s ! c) = INVALID_SEQ_NUM_FOR_BUCKET c"
      if "c < seq_cap ?s" "bk_pak (ps_buckets ?s ! c) = None" for c
      using that d(5) d(7) [of c] b by (auto simp: bk nth_list_update split: if_splits)
    show "unat (bk_seq_num (ps_buckets ?s ! c)) mod seq_cap ?s = c" if "seq_full ?s c" for c
      using that d(5) d(8) [of c] b by (auto simp: seq_full_def bk nth_list_update split: if_splits)
  qed (use d num in \<open>simp_all add: bk, simp_all add: seq_clear_bucket_def\<close>)
  have e: "unat (bk_seq_num (ps_buckets s ! b)) mod seq_cap s = b" using seq_okD(8) [OF ok full] .
  have "vqec_pak_seq_find ?s m = Some q \<longleftrightarrow>
      (if m = bk_seq_num (ps_buckets s ! b) then None else vqec_pak_seq_find s m) = Some q" for q
    using b d(5) e
    by (auto simp: find_iff [OF ok'] find_iff [OF ok] bk nth_list_update split: if_splits)
  then show "vqec_pak_seq_find ?s m =
      (if m = bk_seq_num (ps_buckets s ! b) then None else vqec_pak_seq_find s m)"
    by (metis option.exhaust)
qed

lemma del_ok:
  assumes ok: "seq_ok s" and look: "vqec_pak_seq_find s n \<noteq> None"
  shows "seq_ok (seq_del s n)"
    "vqec_pak_seq_find (seq_del s n) m = (if m = n then None else vqec_pak_seq_find s m)"
  using look clear_ok [OF ok] unfolding find_full [OF ok] seq_del_def find_bucket_mod(1) [OF ok] by auto

subsection \<open>The interface\<close>

text \<open>What the packet cache relies on: a finite map from sequence numbers in which two numbers with
  the same low bits are never both present, with updates at free and at present numbers.\<close>

locale seq_store =
  fixes ok :: "'s \<Rightarrow> bool"
    and cap :: "'s \<Rightarrow> nat"
    and look :: "'s \<Rightarrow> u32 \<Rightarrow> 'p option"
    and count :: "'s \<Rightarrow> nat"
    and put :: "'s \<Rightarrow> u32 \<Rightarrow> 'p \<Rightarrow> 's"
    and del :: "'s \<Rightarrow> u32 \<Rightarrow> 's"
  assumes cap_dvd: "ok s \<Longrightarrow> cap s dvd 2 ^ 32"
    and finite_look: "ok s \<Longrightarrow> finite (dom (look s))"
    and count_look: "ok s \<Longrightarrow> count s = card (dom (look s))"
    and look_slot: "ok s \<Longrightarrow> look s m \<noteq> None \<Longrightarrow> look s n \<noteq> None \<Longrightarrow>
      unat m mod cap s = unat n mod cap s \<Longrightarrow> m = n"
    and put_law: "ok s \<Longrightarrow> (\<And>m. unat m mod cap s = unat n mod cap s \<Longrightarrow> look s m = None) \<Longrightarrow>
      ok (put s n p) \<and> cap (put s n p) = cap s \<and> look (put s n p) = (look s)(n \<mapsto> p)"
    and del_law: "ok s \<Longrightarrow> look s n \<noteq> None \<Longrightarrow>
      ok (del s n) \<and> cap (del s n) = cap s \<and> look (del s n) = (look s)(n := None)"
begin

lemma count_zero: "ok s \<Longrightarrow> count s = 0 \<longleftrightarrow> look s = Map.empty"
  using finite_look [of s] count_look [of s] by simp

lemma count_one:
  assumes "ok s" "look s n \<noteq> None" "count s = 1"
  shows "dom (look s) = {n}"
proof -
  obtain x where x: "dom (look s) = {x}" using assms(1,3) count_look [of s] by (auto simp: card_1_singleton_iff)
  moreover have "n \<in> dom (look s)" using assms(2) by auto
  ultimately show ?thesis by simp
qed

lemma count_put:
  assumes "ok s" "\<And>m. unat m mod cap s = unat n mod cap s \<Longrightarrow> look s m = None"
  shows "count (put s n p) = count s + 1"
proof -
  note l = put_law [OF assms, where p = p]
  have "n \<notin> dom (look s)" using assms(2) [of n] by auto
  then show ?thesis
    using l finite_look [OF assms(1)] by (simp add: count_look assms(1))
qed

lemma count_del:
  assumes "ok s" "look s n \<noteq> None"
  shows "count s = count (del s n) + 1"
proof -
  note l = del_law [OF assms]
  have "n \<in> dom (look s)" using assms(2) by auto
  then show ?thesis
    using l finite_look [OF assms(1)] card.remove [of "dom (look s)" n] by (simp add: count_look assms(1))
qed

lemma put_del:
  assumes "ok s" "\<And>m. unat m mod cap s = unat n mod cap s \<Longrightarrow> look s m = None"
  shows "look (del (put s n p) n) = look s"
  using put_law [OF assms, where p = p] del_law [of "put s n p" n] assms(2) [of n] by (auto simp: fun_eq_iff)

text \<open>Two numbers in a window that is not longer than the capacity share their low bits only when
  they are the same, so an absent number of the window has a free slot.\<close>

lemma window_slot:
  fixes h m n :: u32
  assumes "ok s" "unat (m - h) < cap s" "unat (n - h) < cap s" "unat m mod cap s = unat n mod cap s"
  shows "m = n"
proof -
  have d: "unat (x - y) = 0"
    if "unat (y - h) \<le> unat (x - h)" "unat (x - h) < cap s" "unat x mod cap s = unat y mod cap s" for x y
  proof -
    have "unat (x - y) mod cap s = 0"
      using unat_add_mod_same [OF cap_dvd [OF assms(1)], of y "x - y"] that(3) by simp
    moreover have "unat (x - y) < cap s" using unat_window_diff [OF that(1)] that(2) by simp
    ultimately show ?thesis by simp
  qed
  show ?thesis
    using d [of n m] d [of m n] assms(2-4) by (cases "unat (n - h) \<le> unat (m - h)") (auto simp: unat_eq_0)
qed

lemma window_free:
  assumes "ok s" "\<And>m. look s m \<noteq> None \<Longrightarrow> unat (m - h) < cap s" "unat (n - h) < cap s" "look s n = None"
    and "unat m mod cap s = unat n mod cap s"
  shows "look s m = None"
  using window_slot [OF assms(1) assms(2) assms(3,5)] assms(4) by blast

end

interpretation seqs: seq_store seq_ok seq_cap vqec_pak_seq_find "\<lambda>s. unat (ps_num_paks s)" seq_put seq_del
proof unfold_locales
  fix s m n p
  assume ok: "seq_ok s"
  show "seq_cap s dvd 2 ^ 32" using seq_cap_bounds [OF ok] by simp
  show "finite (dom (vqec_pak_seq_find s))" "unat (ps_num_paks s) = card (dom (vqec_pak_seq_find s))"
    using dom_find [OF ok] by simp_all
  show "m = n" if "vqec_pak_seq_find s m \<noteq> None" "vqec_pak_seq_find s n \<noteq> None"
    "unat m mod seq_cap s = unat n mod seq_cap s"
    using that unfolding find_full [OF ok] by metis
  show "seq_ok (seq_put s n p) \<and> seq_cap (seq_put s n p) = seq_cap s \<and>
      vqec_pak_seq_find (seq_put s n p) = (vqec_pak_seq_find s)(n \<mapsto> p)"
    if free: "\<And>m. unat m mod seq_cap s = unat n mod seq_cap s \<Longrightarrow> vqec_pak_seq_find s m = None"
  proof -
    have "\<not> seq_full s (unat n mod seq_cap s)"
    proof
      assume full: "seq_full s (unat n mod seq_cap s)"
      let ?m = "bk_seq_num (ps_buckets s ! (unat n mod seq_cap s))"
      have "unat ?m mod seq_cap s = unat n mod seq_cap s" by (rule seq_okD(8) [OF ok full])
      then show False using free [of ?m] find_full [OF ok, of ?m] full by simp
    qed
    then show ?thesis using put_ok [OF ok] by (auto simp: fun_eq_iff)
  qed
  show "seq_ok (seq_del s n) \<and> seq_cap (seq_del s n) = seq_cap s \<and>
      vqec_pak_seq_find (seq_del s n) = (vqec_pak_seq_find s)(n := None)"
    if "vqec_pak_seq_find s n \<noteq> None"
    using del_ok [OF ok that] by (auto simp: fun_eq_iff)
qed

subsection \<open>References to packets\<close>

definition heap_ok :: "pak_heap \<Rightarrow> bool" where
  "heap_ok h \<longleftrightarrow> g_zinit (ph_zm h) \<noteq> 0 \<and> (\<exists>z. ph_pool h = Some z \<and> zone_ok z)"

definition heap_live :: "pak_heap \<Rightarrow> pak_ptr set" where
  "heap_live h = (case ph_pool h of None \<Rightarrow> {} | Some z \<Rightarrow> zone_in_use z)"

definition pak_refs :: "pak_heap \<Rightarrow> pak_ptr \<Rightarrow> int" where
  "pak_refs h p = sint (pk_ref_count (ph_mem h p))"

text \<open>A packet that somebody holds is allocated and counts at least one reference.\<close>

definition pak_held :: "pak_heap \<Rightarrow> pak_ptr \<Rightarrow> bool" where
  "pak_held h p \<longleftrightarrow> p \<in> heap_live h \<and> 1 \<le> pak_refs h p"

text \<open>The sequencer holds its packets, under the numbers in their headers.\<close>

definition seq_held :: "pak_heap \<Rightarrow> vqec_pak_seq \<Rightarrow> bool" where
  "seq_held h s \<longleftrightarrow> (\<forall>n p. vqec_pak_seq_find s n = Some p \<longrightarrow> pk_seq_num (ph_mem h p) = n \<and> pak_held h p)"

lemma pak_upd_frame [simp]:
  "ph_zm (pak_upd p f h) = ph_zm h" "ph_pool (pak_upd p f h) = ph_pool h"
  "heap_live (pak_upd p f h) = heap_live h" "heap_ok (pak_upd p f h) = heap_ok h"
  "ph_mem (pak_upd p f h) q = (if q = p then f (ph_mem h p) else ph_mem h q)"
  by (simp_all add: pak_upd_def heap_live_def heap_ok_def)

lemma sint32_bounds: "- (2 ^ 31) \<le> sint (w :: s32)" "sint w < 2 ^ 31"
  using sint_ge [of w] sint_less [of w] by simp_all

lemma sint32_add_one: "sint (w :: s32) < 2 ^ 31 - 1 \<Longrightarrow> sint (w + 1) = sint w + 1"
  using sint32_bounds [of w] signed_take_bit_int_eq_self [of 31 "sint w + 1"]
  by (simp add: sint_word_ariths)

lemma sint32_sub_one: "- (2 ^ 31) < sint (w :: s32) \<Longrightarrow> sint (w - 1) = sint w - 1"
  using sint32_bounds [of w] signed_take_bit_int_eq_self [of 31 "sint w - 1"]
  by (simp add: sint_word_ariths)

lemma ref_ok:
  assumes "pak_refs h p < 2 ^ 31 - 1"
  shows "pak_refs (vqec_pak_ref (Some p) h) q = pak_refs h q + (if q = p then 1 else 0)"
    "heap_live (vqec_pak_ref (Some p) h) = heap_live h" "heap_ok (vqec_pak_ref (Some p) h) = heap_ok h"
    "pk_seq_num (ph_mem (vqec_pak_ref (Some p) h) q) = pk_seq_num (ph_mem h q)"
  using assms by (simp_all add: vqec_pak_ref_def pak_refs_def sint32_add_one)

text \<open>Giving up a reference that is held never fails an assertion, and only the last one releases the
  packet.\<close>

lemma free_held:
  assumes ok: "heap_ok h" and held: "pak_held h p"
  shows "\<exists>h'. vqec_pak_free (Some p) h = Done h' \<and> heap_ok h' \<and>
    heap_live h' = (if pak_refs h p = 1 then heap_live h - {p} else heap_live h) \<and>
    (\<forall>q. pak_refs h' q = pak_refs h q - (if q = p then 1 else 0)) \<and>
    (\<forall>q. (ph_mem h' q)\<lparr>pk_ref_count := 0\<rparr> = (ph_mem h q)\<lparr>pk_ref_count := 0\<rparr>)"
proof -
  let ?h1 = "pak_upd p (\<lambda>pak. pak\<lparr>pk_ref_count := pk_ref_count pak - 1\<rparr>) h"
  obtain z where z: "ph_pool h = Some z" "zone_ok z" and zi: "g_zinit (ph_zm h) \<noteq> 0"
    using ok by (auto simp: heap_ok_def)
  have r: "pak_refs ?h1 q = pak_refs h q - (if q = p then 1 else 0)" for q
    using held by (auto simp: pak_held_def pak_refs_def sint32_sub_one)
  have live: "heap_live h = zone_in_use z" using z by (simp add: heap_live_def)
  show ?thesis
  proof (cases "pak_refs h p = 1")
    case True
    have "p \<in> zone_in_use z" using held live by (simp add: pak_held_def)
    then obtain z' where z': "zm_loc_rel z p = Done z'" "zone_ok z'" "zone_in_use z' = zone_in_use z - {p}"
      using rel_ok [OF z(2)] by blast
    let ?h = "?h1\<lparr>ph_pool := Some z'\<rparr>"
    have "sint (pk_ref_count (ph_mem ?h1 p)) \<le> 0" using r [of p] True by (simp add: pak_refs_def)
    then have "vqec_pak_free (Some p) h = Done ?h"
      unfolding vqec_pak_free_def option.case Let_def
      using z zi z' zone_okD(1) [OF z(2)] by (simp add: zone_release_def)
    moreover have "pak_refs ?h q = pak_refs ?h1 q" for q by (simp add: pak_refs_def)
    ultimately show ?thesis
      using z' zi True live r by (intro exI [of _ ?h]) (simp add: heap_ok_def heap_live_def)
  next
    case False
    then have "\<not> sint (pk_ref_count (ph_mem ?h1 p)) \<le> 0"
      using r [of p] held by (simp add: pak_refs_def pak_held_def)
    then have "vqec_pak_free (Some p) h = Done ?h1"
      unfolding vqec_pak_free_def option.case Let_def by simp
    then show ?thesis using ok False r by (intro exI [of _ ?h1]) simp
  qed
qed

lemma same_header:
  assumes "\<forall>q. (ph_mem h' q)\<lparr>pk_ref_count := 0\<rparr> = (ph_mem h q)\<lparr>pk_ref_count := 0\<rparr>"
  shows "pk_seq_num (ph_mem h' q) = pk_seq_num (ph_mem h q)"
proof -
  have "pk_seq_num ((ph_mem h' q)\<lparr>pk_ref_count := 0\<rparr>) = pk_seq_num ((ph_mem h q)\<lparr>pk_ref_count := 0\<rparr>)"
    using assms by simp
  then show ?thesis by simp
qed

lemma seq_held_inj:
  assumes "seq_held h s" "vqec_pak_seq_find s m = Some p" "vqec_pak_seq_find s n = Some p"
  shows "m = n"
  using assms by (auto simp: seq_held_def)

lemma clear_held:
  assumes ok: "seq_ok s" and held: "seq_held h s" and n: "vqec_pak_seq_find s n = Some p"
    and find': "\<And>m. vqec_pak_seq_find s' m = (if m = n then None else vqec_pak_seq_find s m)"
    and live: "heap_live h' = (if pak_refs h p = 1 then heap_live h - {p} else heap_live h)"
    and refs: "\<forall>q. pak_refs h' q = pak_refs h q - (if q = p then 1 else 0)"
    and hdr: "\<forall>q. (ph_mem h' q)\<lparr>pk_ref_count := 0\<rparr> = (ph_mem h q)\<lparr>pk_ref_count := 0\<rparr>"
  shows "seq_held h' s'"
proof -
  have "pk_seq_num (ph_mem h' q) = m \<and> pak_held h' q" if f: "vqec_pak_seq_find s' m = Some q" for m q
  proof -
    have m: "m \<noteq> n" "vqec_pak_seq_find s m = Some q" using f find' [of m] by (auto split: if_splits)
    then have "q \<noteq> p" using seq_held_inj [OF held m(2)] n by blast
    then show ?thesis
      using held m(2) live refs same_header [OF hdr, of q] by (auto simp: seq_held_def pak_held_def)
  qed
  then show ?thesis unfolding seq_held_def by blast
qed

lemma insert_cases:
  assumes ok: "seq_ok s" and n_def: "n = pk_seq_num (ph_mem h p)"
  shows "vqec_pak_seq_insert s p h =
    (if \<not> seq_full s (unat n mod seq_cap s) then (True, seq_put s n p, vqec_pak_ref (Some p) h)
     else if vqec_pak_seq_find s n = None then (False, s, h)
     else (False, s\<lparr>ps_num_dups := ps_num_dups s + 1\<rparr>, h))"
  using find_bucket_mod [OF ok, of n] find_full [OF ok, of n]
  by (auto simp: vqec_pak_seq_insert_def n_def seq_put_def seq_full_def Let_def)

lemma slot_free_iff:
  fixes n :: vqec_seq_num
  assumes ok: "seq_ok s"
  shows "\<not> seq_full s (unat n mod seq_cap s) \<longleftrightarrow>
    (\<forall>m. unat m mod seq_cap s = unat n mod seq_cap s \<longrightarrow> vqec_pak_seq_find s m = None)"
proof
  assume "\<not> seq_full s (unat n mod seq_cap s)"
  then show "\<forall>m. unat m mod seq_cap s = unat n mod seq_cap s \<longrightarrow> vqec_pak_seq_find s m = None"
    using find_full [OF ok] by metis
next
  assume all: "\<forall>m. unat m mod seq_cap s = unat n mod seq_cap s \<longrightarrow> vqec_pak_seq_find s m = None"
  show "\<not> seq_full s (unat n mod seq_cap s)"
  proof
    assume full: "seq_full s (unat n mod seq_cap s)"
    let ?m = "bk_seq_num (ps_buckets s ! (unat n mod seq_cap s))"
    have "unat ?m mod seq_cap s = unat n mod seq_cap s" by (rule seq_okD(8) [OF ok full])
    then show False using all find_full [OF ok, of ?m] full by auto
  qed
qed

lemma dups_frame [simp]:
  "seq_cap (s\<lparr>ps_num_dups := k\<rparr>) = seq_cap s" "seq_full (s\<lparr>ps_num_dups := k\<rparr>) = seq_full s"
  "vqec_pak_seq_find (s\<lparr>ps_num_dups := k\<rparr>) = vqec_pak_seq_find s"
  "seq_ok (s\<lparr>ps_num_dups := k\<rparr>) = seq_ok s"
proof -
  show c: "seq_cap (s\<lparr>ps_num_dups := k\<rparr>) = seq_cap s" by (simp add: seq_cap_def)
  show f: "seq_full (s\<lparr>ps_num_dups := k\<rparr>) = seq_full s" by (simp add: seq_full_def fun_eq_iff c)
  show "vqec_pak_seq_find (s\<lparr>ps_num_dups := k\<rparr>) = vqec_pak_seq_find s"
    by (simp add: vqec_pak_seq_find_def vqec_pak_seq_find_bucket_def fun_eq_iff Let_def)
  show "seq_ok (s\<lparr>ps_num_dups := k\<rparr>) = seq_ok s"
    unfolding seq_ok_def c f by (simp split: option.split)
qed

lemma insert_put_held:
  assumes ok: "seq_ok s" and held: "seq_held h s" and p: "pak_held h p" "pak_refs h p < 2 ^ 31 - 1"
    and free: "\<not> seq_full s (unat (pk_seq_num (ph_mem h p)) mod seq_cap s)"
  shows "seq_held (vqec_pak_ref (Some p) h) (seq_put s (pk_seq_num (ph_mem h p)) p)"
  using held p(1) unfolding seq_held_def pak_held_def put_ok(2) [OF ok free] ref_ok [OF p(2)]
  by (auto split: if_splits)

lemma delete_cases:
  assumes ok: "seq_ok s" and hok: "heap_ok h" and held: "seq_held h s"
  shows "\<exists>h'. vqec_pak_seq_delete s n h =
      (case vqec_pak_seq_find s n of None \<Rightarrow> Done (False, s, h) | Some p \<Rightarrow> Done (True, seq_del s n, h')) \<and>
    (\<forall>p. vqec_pak_seq_find s n = Some p \<longrightarrow> heap_ok h' \<and> seq_held h' (seq_del s n) \<and>
       heap_live h' = (if pak_refs h p = 1 then heap_live h - {p} else heap_live h) \<and>
       (\<forall>q. pak_refs h' q = pak_refs h q - (if q = p then 1 else 0)) \<and>
       (\<forall>q. (ph_mem h' q)\<lparr>pk_ref_count := 0\<rparr> = (ph_mem h q)\<lparr>pk_ref_count := 0\<rparr>))"
proof (cases "vqec_pak_seq_find s n")
  case None
  have "bk_seq_num (ps_buckets s ! (unat n mod seq_cap s)) \<noteq> n"
    using match_full [OF ok, of n] None find_full [OF ok, of n] by auto
  then show ?thesis using None by (simp add: vqec_pak_seq_delete_def find_bucket_mod(1) [OF ok])
next
  case (Some p)
  have b: "ps_buckets s ! (unat n mod seq_cap s) = \<lparr>bk_pak = Some p, bk_seq_num = n\<rparr>"
    using Some find_iff [OF ok] by blast
  have "pak_held h p" using held Some by (simp add: seq_held_def)
  from free_held [OF hok this] obtain h' where h': "vqec_pak_free (Some p) h = Done h'" "heap_ok h'"
    "heap_live h' = (if pak_refs h p = 1 then heap_live h - {p} else heap_live h)"
    "\<forall>q. pak_refs h' q = pak_refs h q - (if q = p then 1 else 0)"
    "\<forall>q. (ph_mem h' q)\<lparr>pk_ref_count := 0\<rparr> = (ph_mem h q)\<lparr>pk_ref_count := 0\<rparr>"
    by (elim exE conjE) (rule that)
  have "vqec_pak_seq_delete s n h = Done (True, seq_del s n, h')"
    by (simp add: vqec_pak_seq_delete_def find_bucket_mod(1) [OF ok] b h'(1) seq_del_def)
  moreover have "seq_held h' (seq_del s n)"
    using clear_held [OF ok held Some _ h'(3-5)] del_ok(2) [OF ok] Some by simp
  ultimately show ?thesis using Some h'(2-5) by (intro exI [of _ h']) simp
qed

lemma ran_without:
  assumes "f n = Some p" "\<And>m. g m = (if m = n then None else f m)"
  shows "ran f = insert p (ran g)"
proof -
  have "f = g(n \<mapsto> p)" using assms by (auto simp: fun_eq_iff)
  moreover have "g n = None" using assms(2) by simp
  ultimately show ?thesis by simp
qed

text \<open>The loop of the destructor empties the buckets it visits.\<close>

lemma destroy_loop_ok:
  assumes "seq_ok s" "heap_ok h" "seq_held h s" "\<forall>b. seq_full s b \<longrightarrow> b \<in> set bs" "set bs \<subseteq> {..< seq_cap s}"
  shows "\<exists>s' h'. seq_destroy_loop bs s h = Done (s', h') \<and> seq_ok s' \<and> heap_ok h' \<and>
    (\<forall>b. \<not> seq_full s' b) \<and>
    (\<forall>q. pak_refs h' q = pak_refs h q - (if q \<in> ran (vqec_pak_seq_find s) then 1 else 0)) \<and>
    heap_live h' = heap_live h - {p \<in> ran (vqec_pak_seq_find s). pak_refs h p = 1} \<and>
    (\<forall>q. (ph_mem h' q)\<lparr>pk_ref_count := 0\<rparr> = (ph_mem h q)\<lparr>pk_ref_count := 0\<rparr>)"
  using assms
proof (induction bs arbitrary: s h)
  case Nil
  then have "vqec_pak_seq_find s n = None" for n using find_full [of s n] by fastforce
  then have "ran (vqec_pak_seq_find s) = {}" by (auto simp: ran_def)
  then show ?case using Nil by (intro exI [of _ s] exI [of _ h]) auto
next
  case (Cons b bs)
  note d = seq_okD [OF Cons.prems(1)]
  have b: "b < seq_cap s" using Cons.prems(5) by simp
  show ?case
  proof (cases "bk_pak (ps_buckets s ! b)")
    case None
    then have "\<not> seq_full s b" by (simp add: seq_full_def)
    then have "\<forall>c. seq_full s c \<longrightarrow> c \<in> set bs" using Cons.prems(4) by force
    then show ?thesis using Cons.IH [OF Cons.prems(1-3)] Cons.prems(5) None by simp
  next
    case (Some p)
    let ?n = "bk_seq_num (ps_buckets s ! b)" and ?s = "seq_clear_bucket b s"
    have full: "seq_full s b" using b Some by (simp add: seq_full_def)
    have e: "unat ?n mod seq_cap s = b" by (rule d(8) [OF full])
    have n: "vqec_pak_seq_find s ?n = Some p"
      by (simp add: vqec_pak_seq_find_def find_bucket_mod(1) [OF Cons.prems(1)] e Some)
    have "pak_held h p" using Cons.prems(3) n by (simp add: seq_held_def)
    from free_held [OF Cons.prems(2) this] obtain h1 where h1: "vqec_pak_free (Some p) h = Done h1" "heap_ok h1"
      "heap_live h1 = (if pak_refs h p = 1 then heap_live h - {p} else heap_live h)"
      "\<forall>q. pak_refs h1 q = pak_refs h q - (if q = p then 1 else 0)"
      "\<forall>q. (ph_mem h1 q)\<lparr>pk_ref_count := 0\<rparr> = (ph_mem h q)\<lparr>pk_ref_count := 0\<rparr>"
      by (elim exE conjE) (rule that)
    note c = clear_ok [OF Cons.prems(1) full]
    have held1: "seq_held h1 ?s" by (rule clear_held [OF Cons.prems(1,3) n c(2) h1(3-5)])
    have f1: "\<forall>c. seq_full ?s c \<longrightarrow> c \<in> set bs"
    proof (intro allI impI)
      fix x assume x: "seq_full ?s x"
      have "x \<noteq> b" using x b d(5) by (auto simp: seq_full_def seq_clear_bucket_def)
      moreover have "seq_full s x"
        using x \<open>x \<noteq> b\<close> by (simp add: seq_full_def) (simp add: seq_clear_bucket_def)
      ultimately show "x \<in> set bs" using Cons.prems(4) by force
    qed
    have "set bs \<subseteq> {..< seq_cap ?s}" using Cons.prems(5) by simp
    from Cons.IH [OF c(1) h1(2) held1 f1 this] obtain s' h' where r:
      "seq_destroy_loop bs ?s h1 = Done (s', h')" "seq_ok s'" "heap_ok h'" "\<forall>b. \<not> seq_full s' b"
      "\<forall>q. pak_refs h' q = pak_refs h1 q - (if q \<in> ran (vqec_pak_seq_find ?s) then 1 else 0)"
      "heap_live h' = heap_live h1 - {p \<in> ran (vqec_pak_seq_find ?s). pak_refs h1 p = 1}"
      "\<forall>q. (ph_mem h' q)\<lparr>pk_ref_count := 0\<rparr> = (ph_mem h1 q)\<lparr>pk_ref_count := 0\<rparr>"
      by (elim exE conjE) (rule that)
    have np: "p \<notin> ran (vqec_pak_seq_find ?s)"
      using seq_held_inj [OF Cons.prems(3) _ n] c(2) by (auto simp: ran_def split: if_splits)
    have ran: "ran (vqec_pak_seq_find s) = insert p (ran (vqec_pak_seq_find ?s))"
      by (rule ran_without [OF n c(2)])
    have refs: "\<forall>q. pak_refs h' q = pak_refs h q - (if q \<in> ran (vqec_pak_seq_find s) then 1 else 0)"
      using r(5) h1(4) np ran by auto
    have "{q \<in> ran (vqec_pak_seq_find ?s). pak_refs h1 q = 1} = {q \<in> ran (vqec_pak_seq_find ?s). pak_refs h q = 1}"
      using h1(4) np by auto
    then have live: "heap_live h' = heap_live h - {q \<in> ran (vqec_pak_seq_find s). pak_refs h q = 1}"
      using r(6) h1(3) ran by auto
    show ?thesis
      using Some h1(1,5) r(1-4,7) refs live by (intro exI [of _ s'] exI [of _ h']) simp
  qed
qed

lemma seq_destroy_ok:
  assumes "seq_ok s" and "heap_ok h" and "seq_held h s"
  shows "\<exists>h'. vqec_pak_seq_destroy_in_pool s h = Done h' \<and> heap_ok h' \<and>
    (\<forall>q. pak_refs h' q = pak_refs h q - (if q \<in> ran (vqec_pak_seq_find s) then 1 else 0)) \<and>
    heap_live h' = heap_live h - {p \<in> ran (vqec_pak_seq_find s). pak_refs h p = 1} \<and>
    (\<forall>q. (ph_mem h' q)\<lparr>pk_ref_count := 0\<rparr> = (ph_mem h q)\<lparr>pk_ref_count := 0\<rparr>)"
proof -
  have u: "unat (ps_num_buckets s) = seq_cap s"
  proof -
    have "seq_cap s < 2 ^ 32" using seq_cap_bounds(2) [OF assms(1)] by simp
    then show ?thesis
      using seq_okD(3) [OF assms(1)] unat_of_nat_small [of "seq_cap s", where 'a = 32] by (simp add: seq_cap_def)
  qed
  have b: "\<forall>b. seq_full s b \<longrightarrow> b \<in> set [0..< seq_cap s]" "set [0..< seq_cap s] \<subseteq> {..< seq_cap s}"
    by (auto simp: seq_full_def)
  obtain s' h' where r: "seq_destroy_loop [0..< seq_cap s] s h = Done (s', h')" "seq_ok s'"
    "heap_ok h'" "\<forall>b. \<not> seq_full s' b"
    "\<forall>q. pak_refs h' q = pak_refs h q - (if q \<in> ran (vqec_pak_seq_find s) then 1 else 0)"
    "heap_live h' = heap_live h - {p \<in> ran (vqec_pak_seq_find s). pak_refs h p = 1}"
    "\<forall>q. (ph_mem h' q)\<lparr>pk_ref_count := 0\<rparr> = (ph_mem h q)\<lparr>pk_ref_count := 0\<rparr>"
    using destroy_loop_ok [OF assms b] by (elim exE conjE) (rule that)
  have "unat (ps_num_paks s') = 0" using seq_okD(6) [OF r(2)] r(4) by simp
  then have "ps_num_paks s' = 0" by (simp add: unat_eq_0)
  then show ?thesis
    using r u by (intro exI [of _ h']) (simp add: vqec_pak_seq_destroy_in_pool_def)
qed

lemma create_seq_ok:
  assumes "1 \<le> bits" "bits \<le> 16"
  shows "\<exists>s. vqec_pak_seq_create_in_pool True bits = Some s \<and> seq_ok s \<and> ps_bucket_bits s = bits \<and>
    vqec_pak_seq_find s = Map.empty \<and> ps_num_paks s = 0"
proof -
  have lt: "(2::nat) ^ bits \<le> 2 ^ 16" using assms by (intro power_increasing) auto
  have u: "unat (2 ^ bits :: u32) = 2 ^ bits"
    using unat_of_nat_small [of "2 ^ bits", where 'a = 32] lt by simp
  let ?s = "\<lparr>ps_bucket_mask = 2 ^ bits - 1, ps_num_buckets = 2 ^ bits, ps_num_paks = 0,
    ps_bucket_bits = bits, ps_num_dups = 0,
    ps_buckets = map (\<lambda>b. \<lparr>bk_pak = None, bk_seq_num = INVALID_SEQ_NUM_FOR_BUCKET b\<rparr>) [0..< 2 ^ bits]\<rparr>"
  have "vqec_pak_seq_create_in_pool True bits = Some ?s"
    using assms by (simp add: vqec_pak_seq_create_in_pool_def VQEC_PAK_SEQ_MAX_BUCKET_BITS_def Let_def
        push_bit_eq_mult u)
  moreover have nf: "\<not> seq_full ?s b" for b by (simp add: seq_full_def seq_cap_def)
  moreover have ok: "seq_ok ?s"
    using assms nf by (intro seq_okI) (simp_all add: seq_cap_def)
  moreover have "vqec_pak_seq_find ?s = Map.empty"
    using find_full [OF ok] nf by (auto simp: fun_eq_iff)
  ultimately show ?thesis by (intro exI [of _ ?s]) simp
qed

subsection \<open>Properties\<close>

text \<open>C18: the sequencer implements a map. Inserting a packet succeeds exactly when no number with the
  same low bits is present; then the packet is found under its number, every other number finds what it
  found before, and the packet has one reference more. A failed insertion changes neither the map nor
  the packets.\<close>

theorem pak_seq_insert_refines:
  assumes "seq_ok s" and "seq_held h s" and "pak_held h p" and "pak_refs h p < 2 ^ 31 - 1"
    and "vqec_pak_seq_insert s p h = (success, s', h')"
  shows "seq_ok s' \<and> seq_held h' s' \<and>
    success = (\<forall>m. unat m mod seq_cap s = unat (pk_seq_num (ph_mem h p)) mod seq_cap s \<longrightarrow>
                  vqec_pak_seq_find s m = None) \<and>
    vqec_pak_seq_find s' = (if success then (vqec_pak_seq_find s)(pk_seq_num (ph_mem h p) \<mapsto> p)
                            else vqec_pak_seq_find s) \<and>
    (\<forall>q. pak_refs h' q = pak_refs h q + (if success \<and> q = p then 1 else 0))"
proof -
  let ?n = "pk_seq_num (ph_mem h p)"
  note sf = slot_free_iff [OF assms(1), of ?n] and cs = insert_cases [OF assms(1) refl, of p h]
  show ?thesis
  proof (cases "seq_full s (unat ?n mod seq_cap s)")
    case True
    then have "\<not> success" "h' = h" "s' = s \<or> s' = s\<lparr>ps_num_dups := ps_num_dups s + 1\<rparr>"
      using cs assms(5) by (auto split: if_splits)
    then show ?thesis using True sf assms(1,2) by (auto simp: seq_held_def)
  next
    case False
    then have r: "success" "s' = seq_put s ?n p" "h' = vqec_pak_ref (Some p) h" using cs assms(5) by auto
    have "vqec_pak_seq_find s' = (vqec_pak_seq_find s)(?n \<mapsto> p)"
      using put_ok(2) [OF assms(1) False] r(2) by (auto simp: fun_eq_iff)
    then show ?thesis
      using r sf False put_ok(1) [OF assms(1) False] insert_put_held [OF assms(1-4) False] ref_ok(1) [OF assms(4)]
      by simp
  qed
qed

definition heap_sample :: pak_heap where
  "heap_sample = \<lparr>ph_zm = \<lparr>g_zonelist = [], g_zid = 1, g_zinit = 1\<rparr>,
     ph_pool = Some (zone_sample\<lparr>z_freelist := [4152, 4096], z_used := 1, z_hiwat := 1,
       z_items := (z_items zone_sample)(4208 := \<lparr>zi_chunk_magic = CHUNKMAGIC, zi_refcnt = 1\<rparr>)\<rparr>),
     ph_mem = (\<lambda>_. pak_zero)(4208 := pak_zero\<lparr>pk_ref_count := 1, pk_seq_num := 70000\<rparr>)\<rparr>"

lemma zone_sample_free: "z_freelist zone_sample = [4208, 4152, 4096]"
  by (simp add: zone_sample_def populate_fields zone_addrs_def upt_rec)

lemma heap_sample_ok: "heap_ok heap_sample" "pak_held heap_sample 4208" "pak_refs heap_sample 4208 = 1"
proof -
  have it: "z_items zone_sample 4208 = \<lparr>zi_chunk_magic = FREECHUNKMAGIC, zi_refcnt = 0\<rparr>"
    using zone_okD(4) [OF zone_sample_ok(1), of 4208] by (simp add: zone_sample_free)
  have n: "z_used zone_sample = 0" "z_hiwat zone_sample = 0" by (simp_all add: zone_sample_def populate_fields)
  obtain z where z: "zm_loc_acq None zone_sample = Done (Some 4208, z)" "zone_ok z"
      "zone_in_use z = insert 4208 (zone_in_use zone_sample)"
    using acq_from_free [OF zone_sample_ok(1) zone_sample_free, of None] by blast
  have e: "ph_pool heap_sample = Some z"
    using z(1) by (simp add: zm_loc_acq_def zone_sample_free it n heap_sample_def)
  then show "heap_ok heap_sample" using z(2) by (simp add: heap_ok_def) (simp add: heap_sample_def)
  show r: "pak_refs heap_sample 4208 = 1" by (simp add: pak_refs_def heap_sample_def)
  show "pak_held heap_sample 4208" using e z(3) r by (simp add: pak_held_def heap_live_def)
qed

definition seq_sample :: vqec_pak_seq where
  "seq_sample = the (vqec_pak_seq_create_in_pool True 3)"

lemma seq_sample_ok: "seq_ok seq_sample" "vqec_pak_seq_find seq_sample = Map.empty" "seq_held h seq_sample"
  using create_seq_ok [of 3] by (auto simp: seq_sample_def seq_held_def)

lemma seq_sample_insert:
  "vqec_pak_seq_insert seq_sample 4208 heap_sample =
     (True, seq_put seq_sample 70000 4208, vqec_pak_ref (Some 4208) heap_sample)"
proof -
  have "pk_seq_num (ph_mem heap_sample 4208) = 70000" by (simp add: heap_sample_def)
  moreover have "\<not> seq_full seq_sample (unat (70000 :: u32) mod seq_cap seq_sample)"
    using slot_free_iff [OF seq_sample_ok(1), of 70000] seq_sample_ok(2) by simp
  ultimately show ?thesis using insert_cases [OF seq_sample_ok(1) refl, of 4208 heap_sample] by simp
qed

theorem pak_seq_insert_refines_witness:
  "vqec_pak_seq_find (fst (snd (vqec_pak_seq_insert seq_sample 4208 heap_sample))) 70000 = Some 4208"
proof -
  have "pk_seq_num (ph_mem heap_sample 4208) = 70000" by (simp add: heap_sample_def)
  then show ?thesis
    using pak_seq_insert_refines [OF seq_sample_ok(1,3) heap_sample_ok(2) _ seq_sample_insert] heap_sample_ok(3)
      seq_sample_insert by simp
qed

text \<open>C19: deleting a number takes exactly that number out of the map and gives up one reference to its
  packet, which goes back to its pool when that was the last one; it reports whether the number was
  present, never fails an assertion, and the sequencer still holds its other packets.\<close>

theorem pak_seq_delete_refines:
  assumes "seq_ok s" and "heap_ok h" and "seq_held h s"
  shows "\<exists>s' h'. vqec_pak_seq_delete s n h = Done (vqec_pak_seq_find s n \<noteq> None, s', h') \<and>
    seq_ok s' \<and> heap_ok h' \<and> seq_held h' s' \<and>
    vqec_pak_seq_find s' = (vqec_pak_seq_find s)(n := None) \<and>
    (\<forall>q. pak_refs h' q = pak_refs h q - (if vqec_pak_seq_find s n = Some q then 1 else 0)) \<and>
    heap_live h' = heap_live h - {q. vqec_pak_seq_find s n = Some q \<and> pak_refs h q = 1}"
proof (cases "vqec_pak_seq_find s n")
  case None
  then show ?thesis using delete_cases [OF assms, of n] assms
    by (intro exI [of _ s] exI [of _ h]) (auto simp: fun_eq_iff)
next
  case (Some p)
  from delete_cases [OF assms, of n] obtain h' where
    r: "vqec_pak_seq_delete s n h = Done (True, seq_del s n, h')" and h':
    "heap_ok h'" "seq_held h' (seq_del s n)"
    "heap_live h' = (if pak_refs h p = 1 then heap_live h - {p} else heap_live h)"
    "\<forall>q. pak_refs h' q = pak_refs h q - (if q = p then 1 else 0)" using Some by auto
  have "vqec_pak_seq_find s n \<noteq> None" using Some by simp
  note l = seqs.del_law [OF assms(1) this]
  show ?thesis
    using r h' l Some by (intro exI [of _ "seq_del s n"] exI [of _ h']) auto
qed

theorem pak_seq_delete_refines_witness:
  "\<exists>s' h'. vqec_pak_seq_delete (seq_put seq_sample 70000 4208) 70000 (vqec_pak_ref (Some 4208) heap_sample)
      = Done (True, s', h') \<and> vqec_pak_seq_find s' = Map.empty"
proof -
  have n: "pk_seq_num (ph_mem heap_sample 4208) = 70000" by (simp add: heap_sample_def)
  have r: "pak_refs heap_sample 4208 < 2 ^ 31 - 1" by (simp add: heap_sample_ok(3))
  have f: "\<not> seq_full seq_sample (unat (70000 :: u32) mod seq_cap seq_sample)"
    using slot_free_iff [OF seq_sample_ok(1), of 70000] seq_sample_ok(2) by simp
  note ok = put_ok [OF seq_sample_ok(1) f, where p = 4208]
    and held = insert_put_held [OF seq_sample_ok(1,3) heap_sample_ok(2) r, unfolded n, OF f]
  have hok: "heap_ok (vqec_pak_ref (Some 4208) heap_sample)" using ref_ok(3) [OF r] heap_sample_ok(1) by simp
  show ?thesis
    using pak_seq_delete_refines [OF ok(1) hok held, of 70000] ok(2) seq_sample_ok(2)
    by (auto simp: fun_eq_iff)
qed

end
