(* ===== verification/Pcm_Cand.thy ===== *)
theory Pcm_Cand
  imports Vam_Time Seq_Num
begin

text \<open>
  The candidate array of the packet cache, \<^verbatim>\<open>eva/vqec-dp/channel/vqec_pcm.c\<close> lines 40 to 264: a ring of the
  ten last packets that were at the tail of the cache, at distances of at least a tenth of the gap hold
  time. The oldest candidate bounds the numbers for which repairs are requested. The fields of the
  packet cache that these functions use are one record. The ring refines a queue that keeps its ten
  newest entries.
\<close>

subsection \<open>The operations\<close>

definition VQEC_PCM_MAX_CANDIDATES :: u16 where "VQEC_PCM_MAX_CANDIDATES = 10"

record vqec_pcm_candidate =
  ca_seq_num :: vqec_seq_num
  ca_rcv_ts :: abs_time

record pcm_cands =
  cd_candidates :: "vqec_pcm_candidate list"
  cd_first_candidate :: u16
  cd_last_candidate :: u16
  cd_next_candidate :: u16
  cd_candidate_bucket_width :: rel_time
  cd_candidates_recently_checked :: bool
  cd_gap_hold_time :: rel_time
  cd_highest_er_seq_num :: vqec_seq_num

definition vqec_pcm_flush_all_candidates :: "pcm_cands \<Rightarrow> pcm_cands" where
  "vqec_pcm_flush_all_candidates pcm =
     pcm\<lparr>cd_first_candidate := 0, cd_next_candidate := 0, cd_last_candidate := 0,
         cd_candidates := replicate (unat VQEC_PCM_MAX_CANDIDATES) \<lparr>ca_seq_num = 0, ca_rcv_ts = 0\<rparr>\<rparr>"

definition cand_succ :: "u16 \<Rightarrow> u16" where
  "cand_succ i = (if i = VQEC_PCM_MAX_CANDIDATES - 1 then 0 else i + 1)"

definition vqec_pcm_add_new_candidate :: "pcm_cands \<Rightarrow> vqec_seq_num \<Rightarrow> abs_time \<Rightarrow> pcm_cands" where
  "vqec_pcm_add_new_candidate pcm seq_num rcv_ts =
     (let first = cd_first_candidate pcm; last = cd_last_candidate pcm; next = cd_next_candidate pcm
      in pcm\<lparr>cd_candidates := (cd_candidates pcm)[unat next := \<lparr>ca_seq_num = seq_num, ca_rcv_ts = rcv_ts\<rparr>],
             cd_first_candidate := (if first = next \<and> first \<noteq> last then cand_succ first else first),
             cd_last_candidate := next,
             cd_next_candidate := cand_succ next\<rparr>)"

definition vqec_pcm_get_first_candidate :: "pcm_cands \<Rightarrow> vqec_pcm_candidate option" where
  "vqec_pcm_get_first_candidate pcm =
     (if \<not> (cd_first_candidate pcm = cd_last_candidate pcm \<and> cd_first_candidate pcm = cd_next_candidate pcm)
      then Some (cd_candidates pcm ! unat (cd_first_candidate pcm)) else None)"

definition vqec_pcm_remove_first_candidate :: "pcm_cands \<Rightarrow> pcm_cands" where
  "vqec_pcm_remove_first_candidate pcm =
     (if cd_first_candidate pcm \<noteq> cd_last_candidate pcm
      then pcm\<lparr>cd_first_candidate := cand_succ (cd_first_candidate pcm)\<rparr>
      else vqec_pcm_flush_all_candidates pcm)"

definition vqec_pcm_get_last_candidate :: "pcm_cands \<Rightarrow> vqec_pcm_candidate option" where
  "vqec_pcm_get_last_candidate pcm =
     (if cd_last_candidate pcm \<noteq> cd_next_candidate pcm
      then Some (cd_candidates pcm ! unat (cd_last_candidate pcm)) else None)"

text \<open>The loop of the time-out has fuel for the ten candidates and the last look.\<close>

primrec timeout_loop :: "nat \<Rightarrow> abs_time \<Rightarrow> pcm_cands \<Rightarrow> pcm_cands outcome" where
  "timeout_loop 0 cur_time pcm = Out_of_fuel"
| "timeout_loop (Suc fuel) cur_time pcm =
     (case vqec_pcm_get_first_candidate pcm of
        None \<Rightarrow> Done pcm
      | Some first_candidate \<Rightarrow>
          let pcm1 = pcm\<lparr>cd_highest_er_seq_num := ca_seq_num first_candidate\<rparr>
          in if abs_time_gt cur_time (abs_plus_rel_time (ca_rcv_ts first_candidate) (cd_gap_hold_time pcm))
             then timeout_loop fuel cur_time (vqec_pcm_remove_first_candidate pcm1)
             else Done pcm1)"

definition vqec_pcm_timeout_old_candidates :: "pcm_cands \<Rightarrow> abs_time \<Rightarrow> pcm_cands outcome" where
  "vqec_pcm_timeout_old_candidates pcm cur_time = timeout_loop 11 cur_time pcm"

definition vqec_pcm_update_gap_hold_time :: "pcm_cands \<Rightarrow> rel_time \<Rightarrow> pcm_cands outcome" where
  "vqec_pcm_update_gap_hold_time pcm new_hold_time =
     (let pcm1 = pcm\<lparr>cd_gap_hold_time := new_hold_time,
                     cd_candidate_bucket_width := rel_time_div_int new_hold_time (ucast VQEC_PCM_MAX_CANDIDATES)\<rparr>
      in case vqec_pcm_get_last_candidate pcm1 of
           None \<Rightarrow> Done pcm1
         | Some last_cand \<Rightarrow> vqec_pcm_timeout_old_candidates pcm1 (ca_rcv_ts last_cand))"

text \<open>The packet at the tail of the cache, by its number and its time of reception.\<close>

definition vqec_pcm_update_candidates :: "pcm_cands \<Rightarrow> vqec_seq_num \<Rightarrow> abs_time \<Rightarrow> pcm_cands outcome" where
  "vqec_pcm_update_candidates pcm seq_num rcv_ts =
     (let first_candidate = vqec_pcm_get_first_candidate pcm;
          last_candidate = vqec_pcm_get_last_candidate pcm;
          pcm1 = (if first_candidate = None then vqec_pcm_add_new_candidate pcm seq_num rcv_ts else pcm)
      in bind_out
           (case last_candidate of
              None \<Rightarrow> Done pcm1
            | Some lc \<Rightarrow>
                if abs_time_gt rcv_ts (abs_plus_rel_time (ca_rcv_ts lc) (cd_candidate_bucket_width pcm1))
                then bind_out (vqec_pcm_timeout_old_candidates pcm1 rcv_ts)
                       (\<lambda>pcm2. Done (vqec_pcm_add_new_candidate pcm2 seq_num rcv_ts))
                else Done pcm1)
           (\<lambda>pcm3. Done (pcm3\<lparr>cd_candidates_recently_checked := True\<rparr>)))"

subsection \<open>Rings as lists\<close>

definition ring_list :: "nat \<Rightarrow> 'a list \<Rightarrow> nat \<Rightarrow> nat \<Rightarrow> 'a list" where
  "ring_list N a f n = map (\<lambda>i. a ! ((f + i) mod N)) [0..< n]"

lemma ring_list_0 [simp]: "ring_list N a f 0 = []"
  by (simp add: ring_list_def)

lemma length_ring_list [simp]: "length (ring_list N a f n) = n"
  by (simp add: ring_list_def)

lemma ring_list_Suc: "ring_list N a f (Suc n) = a ! (f mod N) # ring_list N a (Suc f mod N) n"
  unfolding ring_list_def map_upt_Suc by (simp add: mod_simps)

lemma ring_list_last: "ring_list N a f (Suc n) = ring_list N a f n @ [a ! ((f + n) mod N)]"
  by (simp add: ring_list_def)

lemma ring_pos_ne: "i < n \<Longrightarrow> n < N \<Longrightarrow> (f + i) mod N \<noteq> (f + n) mod (N :: nat)"
proof
  assume "i < n" "n < N" "(f + i) mod N = (f + n) mod N"
  then have "N dvd (f + n) - (f + i)" using mod_eq_dvd_iff_nat [of "f + i" "f + n" N] by simp
  then show False using \<open>i < n\<close> \<open>n < N\<close> by (simp add: nat_dvd_not_less)
qed

lemma ring_list_snoc:
  assumes "n < N" "length a = N"
  shows "ring_list N (a[(f + n) mod N := x]) f (Suc n) = ring_list N a f n @ [x]"
proof -
  have "(f + n) mod N < length a" using assms by simp
  moreover have "ring_list N (a[(f + n) mod N := x]) f n = ring_list N a f n"
    unfolding ring_list_def
  proof (rule map_cong [OF refl])
    fix i assume "i \<in> set [0..< n]"
    then have "(f + n) mod N \<noteq> (f + i) mod N" using ring_pos_ne [of i n N f] assms(1) by simp
    then show "a[(f + n) mod N := x] ! ((f + i) mod N) = a ! ((f + i) mod N)" by simp
  qed
  ultimately show ?thesis by (simp add: ring_list_last)
qed

text \<open>A full ring whose oldest entry is overwritten.\<close>

lemma ring_list_shift:
  assumes "0 < N" "f < N" "length a = N"
  shows "ring_list N (a[f := x]) (Suc f mod N) N = tl (ring_list N a f N) @ [x]"
proof -
  obtain m where m: "N = Suc m" using assms(1) by (cases N) auto
  have "(Suc f mod N + m) mod N = (Suc f + m) mod N" by (rule mod_add_left_eq)
  also have "\<dots> = (f + N) mod N" using m by simp
  also have "\<dots> = f" using assms(2) by simp
  finally have p: "(Suc f mod N + m) mod N = f" .
  have "ring_list N (a[f := x]) (Suc f mod N) N = ring_list N a (Suc f mod N) m @ [x]"
    using ring_list_snoc [of m N a "Suc f mod N" x] assms m p by simp
  moreover have "tl (ring_list N a f N) = ring_list N a (Suc f mod N) m"
    using ring_list_Suc [of N a f m] m by simp
  ultimately show ?thesis by simp
qed
subsection \<open>The candidates as a queue\<close>

definition cand_empty :: "pcm_cands \<Rightarrow> bool" where
  "cand_empty c \<longleftrightarrow> cd_first_candidate c = cd_last_candidate c \<and> cd_first_candidate c = cd_next_candidate c"

definition cand_ok :: "pcm_cands \<Rightarrow> bool" where
  "cand_ok c \<longleftrightarrow> length (cd_candidates c) = 10 \<and> unat (cd_first_candidate c) < 10 \<and>
     unat (cd_last_candidate c) < 10 \<and> unat (cd_next_candidate c) < 10 \<and>
     (cand_empty c \<or> cd_next_candidate c = cand_succ (cd_last_candidate c))"

definition cand_n :: "pcm_cands \<Rightarrow> nat" where
  "cand_n c = (if cand_empty c then 0
     else (unat (cd_last_candidate c) + 10 - unat (cd_first_candidate c)) mod 10 + 1)"

definition cand_list :: "pcm_cands \<Rightarrow> vqec_pcm_candidate list" where
  "cand_list c = ring_list 10 (cd_candidates c) (unat (cd_first_candidate c)) (cand_n c)"

text \<open>The queue that the ring stands for keeps its ten newest entries.\<close>

definition push10 :: "'a list \<Rightarrow> 'a \<Rightarrow> 'a list" where
  "push10 xs x = (if length xs = 10 then tl xs else xs) @ [x]"

lemma unat_cand_succ: "unat i < 10 \<Longrightarrow> unat (cand_succ i) = Suc (unat i) mod 10"
proof -
  assume i: "unat i < 10"
  have "i = 9 \<longleftrightarrow> unat i = 9" by (simp add: word_unat_eq_iff)
  moreover have "unat (i + 1) = unat i + 1" using i by (subst unat_add_small) simp_all
  ultimately show ?thesis using i by (auto simp: cand_succ_def VQEC_PCM_MAX_CANDIDATES_def)
qed

lemma cand_succ_ne: "unat i < 10 \<Longrightarrow> cand_succ i \<noteq> i"
  using unat_cand_succ [of i] by (cases "unat i = 9") auto

lemma sub_mod10: "a < 10 \<Longrightarrow> b < 10 \<Longrightarrow> (a + 10 - b) mod 10 = (if b \<le> a then a - b else a + 10 - (b :: nat))"
  by (auto simp: mod_if)

lemma Suc_mod10: "a < 10 \<Longrightarrow> Suc a mod 10 = (if a = 9 then 0 else Suc a)"
  by auto

lemma ring_count_arith:
  fixes f l n :: nat
  assumes "f < 10" "l < 10" and n: "n = (l + 10 - f) mod 10 + 1"
  shows "(f + n) mod 10 = Suc l mod 10" "n \<le> 10" "n = 10 \<longleftrightarrow> f = Suc l mod 10"
    "n < 10 \<Longrightarrow> (Suc l mod 10 + 10 - f) mod 10 + 1 = Suc n"
    "n = 10 \<Longrightarrow> (Suc l mod 10 + 10 - Suc f mod 10) mod 10 + 1 = 10"
    "f \<noteq> l \<Longrightarrow> (l + 10 - Suc f mod 10) mod 10 + 2 = n" "f = l \<Longrightarrow> n = 1"
  using assms by (auto simp: sub_mod10 Suc_mod10 mod_if split: if_splits)

lemma cand_okD:
  assumes "cand_ok c"
  shows "length (cd_candidates c) = 10" "unat (cd_first_candidate c) < 10" "unat (cd_last_candidate c) < 10"
    "unat (cd_next_candidate c) < 10" "\<not> cand_empty c \<Longrightarrow> cd_next_candidate c = cand_succ (cd_last_candidate c)"
  using assms by (auto simp: cand_ok_def)

lemma add_candidate_fields:
  "cd_candidates (vqec_pcm_add_new_candidate c s t) =
     (cd_candidates c)[unat (cd_next_candidate c) := \<lparr>ca_seq_num = s, ca_rcv_ts = t\<rparr>]"
  "cd_first_candidate (vqec_pcm_add_new_candidate c s t) =
     (if cd_first_candidate c = cd_next_candidate c \<and> cd_first_candidate c \<noteq> cd_last_candidate c
      then cand_succ (cd_first_candidate c) else cd_first_candidate c)"
  "cd_last_candidate (vqec_pcm_add_new_candidate c s t) = cd_next_candidate c"
  "cd_next_candidate (vqec_pcm_add_new_candidate c s t) = cand_succ (cd_next_candidate c)"
  by (simp_all add: vqec_pcm_add_new_candidate_def Let_def)

lemma add_candidate_ok:
  assumes ok: "cand_ok c"
  shows "cand_ok (vqec_pcm_add_new_candidate c s t)"
    "cand_list (vqec_pcm_add_new_candidate c s t) = push10 (cand_list c) \<lparr>ca_seq_num = s, ca_rcv_ts = t\<rparr>"
proof -
  let ?c = "vqec_pcm_add_new_candidate c s t" and ?x = "\<lparr>ca_seq_num = s, ca_rcv_ts = t\<rparr>"
  let ?f = "unat (cd_first_candidate c)" and ?l = "unat (cd_last_candidate c)" and ?n = "cand_n c"
  note d = cand_okD [OF ok]
  have nx: "unat (cand_succ (cd_next_candidate c)) = Suc (unat (cd_next_candidate c)) mod 10"
    by (rule unat_cand_succ [OF d(4)])
  have ne: "\<not> cand_empty ?c"
    using cand_succ_ne [OF d(4)] by (auto simp: cand_empty_def add_candidate_fields)
  show "cand_ok ?c"
    using d ne nx unat_cand_succ [OF d(2)]
    by (auto simp: cand_ok_def add_candidate_fields)
  show "cand_list ?c = push10 (cand_list c) ?x"
  proof (cases "cand_empty c")
    case True
    then have e: "cd_last_candidate c = cd_first_candidate c" "cd_next_candidate c = cd_first_candidate c"
      by (auto simp: cand_empty_def)
    have "cand_n ?c = 1" using ne d(2) by (simp add: cand_n_def add_candidate_fields e)
    then show ?thesis
      using ring_list_snoc [of 0 10 "cd_candidates c" ?f ?x] d True
      by (simp add: cand_list_def push10_def cand_n_def) (simp add: add_candidate_fields e)
  next
    case False
    let ?n = "(?l + 10 - ?f) mod 10 + 1"
    have n: "cand_n c = ?n" using False by (simp add: cand_n_def)
    have next1: "unat (cd_next_candidate c) = Suc ?l mod 10"
      using d(5) [OF False] unat_cand_succ [OF d(3)] by simp
    note ar = ring_count_arith [OF d(2,3) refl]
    show ?thesis
    proof (cases "?n = 10")
      case True
      then have fn: "cd_first_candidate c = cd_next_candidate c"
        using ar(3) next1 by (simp only: word_unat_eq_iff)
      then have fl: "cd_first_candidate c \<noteq> cd_last_candidate c" using False by (auto simp: cand_empty_def)
      have f': "unat (cd_first_candidate ?c) = Suc ?f mod 10"
        using fn fl unat_cand_succ [OF d(2)] by (simp add: add_candidate_fields)
      have "cand_n ?c = 10"
        using ne ar(5) [OF True] next1 f' by (simp add: cand_n_def add_candidate_fields)
      then show ?thesis
        using ring_list_shift [of 10 ?f "cd_candidates c" ?x] d fn True n f'
        by (simp add: cand_list_def push10_def) (simp add: add_candidate_fields)
    next
      case n10: False
      then have "?n < 10" using ar(2) by linarith
      then have fn: "cd_first_candidate c \<noteq> cd_next_candidate c" using ar(3) next1 by auto
      have "cand_n ?c = Suc ?n"
        using ne fn ar(4) [OF \<open>?n < 10\<close>] next1 by (simp add: cand_n_def add_candidate_fields)
      then show ?thesis
        using ring_list_snoc [of ?n 10 "cd_candidates c" ?f ?x] d fn n10 n ar(1) next1 \<open>?n < 10\<close>
        by (simp add: cand_list_def push10_def) (simp add: add_candidate_fields)
    qed
  qed
qed

lemma first_candidate_list:
  assumes ok: "cand_ok c"
  shows "vqec_pcm_get_first_candidate c = (case cand_list c of [] \<Rightarrow> None | x # xs \<Rightarrow> Some x)"
  using cand_okD(2) [OF ok]
  by (auto simp: vqec_pcm_get_first_candidate_def cand_list_def cand_n_def cand_empty_def ring_list_Suc)

lemma last_candidate_list:
  assumes ok: "cand_ok c"
  shows "vqec_pcm_get_last_candidate c = (if cand_list c = [] then None else Some (last (cand_list c)))"
proof (cases "cand_empty c")
  case True
  then show ?thesis
    by (auto simp: vqec_pcm_get_last_candidate_def cand_list_def cand_n_def cand_empty_def)
next
  case False
  note d = cand_okD [OF ok] and ar = ring_count_arith [OF cand_okD(2,3) [OF ok] refl]
  let ?m = "(unat (cd_last_candidate c) + 10 - unat (cd_first_candidate c)) mod 10"
  have "(unat (cd_first_candidate c) + ?m) mod 10 = unat (cd_last_candidate c)"
    using d(2,3) by (auto simp: sub_mod10 mod_if)
  then have "last (cand_list c) = cd_candidates c ! unat (cd_last_candidate c)" "cand_list c \<noteq> []"
    using False ring_list_last [of 10 "cd_candidates c" "unat (cd_first_candidate c)" ?m]
    by (simp_all add: cand_list_def cand_n_def)
  moreover have "cd_last_candidate c \<noteq> cd_next_candidate c"
    using d(5) [OF False] cand_succ_ne [OF d(3)] by auto
  ultimately show ?thesis by (simp add: vqec_pcm_get_last_candidate_def)
qed

lemma remove_candidate_ok:
  assumes ok: "cand_ok c" and ne: "cand_list c \<noteq> []"
  shows "cand_ok (vqec_pcm_remove_first_candidate c)"
    "cand_list (vqec_pcm_remove_first_candidate c) = tl (cand_list c)"
proof -
  let ?c = "vqec_pcm_remove_first_candidate c"
  let ?f = "unat (cd_first_candidate c)" and ?l = "unat (cd_last_candidate c)"
  note d = cand_okD [OF ok] and ar = ring_count_arith [OF cand_okD(2,3) [OF ok] refl]
  have e: "\<not> cand_empty c" using ne by (auto simp: cand_list_def cand_n_def)
  have n: "cand_n c = (?l + 10 - ?f) mod 10 + 1" using e by (simp add: cand_n_def)
  have "cand_ok ?c \<and> cand_list ?c = tl (cand_list c)"
  proof (cases "cd_first_candidate c = cd_last_candidate c")
    case True
    then have "?c = vqec_pcm_flush_all_candidates c" by (simp add: vqec_pcm_remove_first_candidate_def)
    moreover have "cand_n c = 1" using n ar(7) True by simp
    ultimately show ?thesis
      by (simp add: cand_ok_def cand_empty_def cand_list_def cand_n_def ring_list_Suc
          vqec_pcm_flush_all_candidates_def VQEC_PCM_MAX_CANDIDATES_def)
  next
    case False
    then have c: "?c = c\<lparr>cd_first_candidate := cand_succ (cd_first_candidate c)\<rparr>"
      by (simp add: vqec_pcm_remove_first_candidate_def)
    have "?f \<noteq> ?l" using False by (simp add: word_unat_eq_iff)
    have e': "\<not> cand_empty ?c"
      using d(5) [OF e] cand_succ_ne [OF d(3)] unfolding c cand_empty_def by auto
    then have n': "Suc (cand_n ?c) = cand_n c"
      using n ar(6) [OF \<open>?f \<noteq> ?l\<close>] unat_cand_succ [OF d(2)] unfolding cand_n_def by (simp add: c)
    have "cand_ok ?c"
      using e' d unat_cand_succ [OF d(2)] d(5) [OF e] unfolding cand_ok_def by (simp add: c)
    moreover have "cand_list ?c = tl (cand_list c)"
      unfolding cand_list_def n' [symmetric] ring_list_Suc
      using unat_cand_succ [OF d(2)] by (simp add: c)
    ultimately show ?thesis ..
  qed
  then show "cand_ok ?c" "cand_list ?c = tl (cand_list c)" by simp_all
qed

lemma cand_cong:
  assumes "cd_candidates c' = cd_candidates c" "cd_first_candidate c' = cd_first_candidate c"
    "cd_last_candidate c' = cd_last_candidate c" "cd_next_candidate c' = cd_next_candidate c"
  shows "cand_list c' = cand_list c" "cand_ok c' = cand_ok c"
  unfolding cand_list_def cand_n_def cand_empty_def cand_ok_def assms by (rule refl)+

lemma cand_list_frame [simp]:
  "cand_list (c\<lparr>cd_highest_er_seq_num := h\<rparr>) = cand_list c" "cand_ok (c\<lparr>cd_highest_er_seq_num := h\<rparr>) = cand_ok c"
  "cand_list (c\<lparr>cd_candidates_recently_checked := b\<rparr>) = cand_list c"
  "cand_ok (c\<lparr>cd_candidates_recently_checked := b\<rparr>) = cand_ok c"
  "cand_list (c\<lparr>cd_gap_hold_time := t, cd_candidate_bucket_width := w\<rparr>) = cand_list c"
  "cand_ok (c\<lparr>cd_gap_hold_time := t, cd_candidate_bucket_width := w\<rparr>) = cand_ok c"
  by (rule cand_cong; simp)+

lemma cand_list_le:
  assumes "cand_ok c"
  shows "length (cand_list c) \<le> 10"
  using ring_count_arith(2) [OF cand_okD(2,3) [OF assms] refl] by (simp add: cand_list_def cand_n_def)

text \<open>A candidate is stale when its hold time is over.\<close>

definition cand_stale :: "abs_time \<Rightarrow> rel_time \<Rightarrow> vqec_pcm_candidate \<Rightarrow> bool" where
  "cand_stale cur_time hold x \<longleftrightarrow> abs_time_gt cur_time (abs_plus_rel_time (ca_rcv_ts x) hold)"

text \<open>The number up to which repairs may be requested after a time-out: that of the oldest candidate
  that is left, or of the newest when none is left.\<close>

definition cand_highest :: "(vqec_pcm_candidate \<Rightarrow> bool) \<Rightarrow> vqec_pcm_candidate list \<Rightarrow> vqec_seq_num \<Rightarrow> vqec_seq_num" where
  "cand_highest stale xs old = (if xs = [] then old
     else ca_seq_num (case dropWhile stale xs of [] \<Rightarrow> last xs | y # ys \<Rightarrow> y))"

lemma cand_highest_Cons:
  assumes "stale x"
  shows "cand_highest stale (x # xs) old = cand_highest stale xs (ca_seq_num x)"
proof (cases xs)
  case (Cons y ys)
  then have "last (x # xs) = last xs" by simp
  then show ?thesis using assms Cons unfolding cand_highest_def by (simp only: dropWhile.simps if_True list.distinct if_False)
qed (simp add: cand_highest_def assms)

lemma remove_frame [simp]:
  "cd_gap_hold_time (vqec_pcm_remove_first_candidate c) = cd_gap_hold_time c"
  "cd_highest_er_seq_num (vqec_pcm_remove_first_candidate c) = cd_highest_er_seq_num c"
  "cd_candidate_bucket_width (vqec_pcm_remove_first_candidate c) = cd_candidate_bucket_width c"
  by (simp_all add: vqec_pcm_remove_first_candidate_def vqec_pcm_flush_all_candidates_def)

lemma timeout_loop_ok:
  assumes "cand_ok c" "length (cand_list c) < fuel"
  shows "\<exists>c'. timeout_loop fuel cur c = Done c' \<and> cand_ok c' \<and>
    cand_list c' = dropWhile (cand_stale cur (cd_gap_hold_time c)) (cand_list c) \<and>
    cd_highest_er_seq_num c' = cand_highest (cand_stale cur (cd_gap_hold_time c)) (cand_list c) (cd_highest_er_seq_num c) \<and>
    cd_gap_hold_time c' = cd_gap_hold_time c \<and> cd_candidate_bucket_width c' = cd_candidate_bucket_width c"
  using assms
proof (induction fuel arbitrary: c)
  case (Suc fuel)
  let ?st = "cand_stale cur (cd_gap_hold_time c)"
  show ?case
  proof (cases "cand_list c")
    case Nil
    then have "timeout_loop (Suc fuel) cur c = Done c" using first_candidate_list [OF Suc.prems(1)] by simp
    then show ?thesis using Suc.prems Nil by (intro exI [of _ c]) (simp add: cand_highest_def)
  next
    case (Cons x xs)
    let ?c1 = "c\<lparr>cd_highest_er_seq_num := ca_seq_num x\<rparr>"
    let ?c2 = "vqec_pcm_remove_first_candidate ?c1"
    have f: "vqec_pcm_get_first_candidate c = Some x" using first_candidate_list [OF Suc.prems(1)] Cons by simp
    show ?thesis
    proof (cases "?st x")
      case False
      then have "timeout_loop (Suc fuel) cur c = Done ?c1" using f by (simp add: cand_stale_def)
      then show ?thesis using Suc.prems Cons False by (intro exI [of _ ?c1]) (simp add: cand_highest_def)
    next
      case True
      have c1: "cand_ok ?c1" "cand_list ?c1 \<noteq> []" using Suc.prems Cons by simp_all
      note r = remove_candidate_ok [OF c1]
      have l: "cand_list ?c2 = xs" using r(2) Cons by simp
      obtain c' where c': "timeout_loop fuel cur ?c2 = Done c'" "cand_ok c'"
          "cand_list c' = dropWhile (cand_stale cur (cd_gap_hold_time ?c2)) (cand_list ?c2)"
          "cd_highest_er_seq_num c' = cand_highest (cand_stale cur (cd_gap_hold_time ?c2)) (cand_list ?c2) (cd_highest_er_seq_num ?c2)"
          "cd_gap_hold_time c' = cd_gap_hold_time ?c2" "cd_candidate_bucket_width c' = cd_candidate_bucket_width ?c2"
        using Suc.IH [OF r(1)] Suc.prems(2) l Cons by (elim meta_impE exE conjE) (auto intro: that)
      have "timeout_loop (Suc fuel) cur c = Done c'" using f True c'(1) by (simp add: cand_stale_def)
      then show ?thesis
        using c' l Cons True by (intro exI [of _ c']) (simp add: cand_highest_Cons)
    qed
  qed
qed simp

lemma timeout_ok:
  assumes "cand_ok c"
  shows "\<exists>c'. vqec_pcm_timeout_old_candidates c cur = Done c' \<and> cand_ok c' \<and>
    cand_list c' = dropWhile (cand_stale cur (cd_gap_hold_time c)) (cand_list c) \<and>
    cd_highest_er_seq_num c' = cand_highest (cand_stale cur (cd_gap_hold_time c)) (cand_list c) (cd_highest_er_seq_num c) \<and>
    cd_gap_hold_time c' = cd_gap_hold_time c \<and> cd_candidate_bucket_width c' = cd_candidate_bucket_width c"
proof -
  have "length (cand_list c) < 11" using cand_list_le [OF assms] by simp
  from timeout_loop_ok [OF assms this] show ?thesis unfolding vqec_pcm_timeout_old_candidates_def .
qed

subsection \<open>Properties\<close>

definition cands_sample :: pcm_cands where
  "cands_sample = \<lparr>cd_candidates = replicate 10 \<lparr>ca_seq_num = 7, ca_rcv_ts = 1000\<rparr>, cd_first_candidate = 8,
     cd_last_candidate = 1, cd_next_candidate = 2, cd_candidate_bucket_width = 10,
     cd_candidates_recently_checked = False, cd_gap_hold_time = 100, cd_highest_er_seq_num = 3\<rparr>"

lemma cands_sample_ok: "cand_ok cands_sample"
  by (simp add: cand_ok_def cands_sample_def cand_empty_def cand_succ_def VQEC_PCM_MAX_CANDIDATES_def)

lemma update_candidates_ok:
  assumes "cand_ok c"
  shows "\<exists>c'. vqec_pcm_update_candidates c seq_num rcv_ts = Done c' \<and> cand_ok c' \<and>
    cand_list c' =
      (if cand_list c = [] then [\<lparr>ca_seq_num = seq_num, ca_rcv_ts = rcv_ts\<rparr>]
       else if abs_time_gt rcv_ts (abs_plus_rel_time (ca_rcv_ts (last (cand_list c))) (cd_candidate_bucket_width c))
       then push10 (dropWhile (cand_stale rcv_ts (cd_gap_hold_time c)) (cand_list c))
              \<lparr>ca_seq_num = seq_num, ca_rcv_ts = rcv_ts\<rparr>
       else cand_list c)"
proof -
  note f = first_candidate_list [OF assms] and l = last_candidate_list [OF assms]
    and a = add_candidate_ok [OF assms, of seq_num rcv_ts]
  obtain c1 where c1: "vqec_pcm_timeout_old_candidates c rcv_ts = Done c1" "cand_ok c1"
    "cand_list c1 = dropWhile (cand_stale rcv_ts (cd_gap_hold_time c)) (cand_list c)"
    using timeout_ok [OF assms, of rcv_ts] by blast
  note b = add_candidate_ok [OF c1(2), of seq_num rcv_ts]
  show ?thesis
  proof (cases "cand_list c")
    case Nil
    then show ?thesis using f l a by (simp add: vqec_pcm_update_candidates_def push10_def)
  next
    case (Cons x xs)
    then have "vqec_pcm_get_first_candidate c = Some x" using f by simp
    then show ?thesis
      using Cons l assms c1 b by (simp add: vqec_pcm_update_candidates_def)
  qed
qed

text \<open>C31: the candidate array refines a queue of the ten newest candidates. A packet at the tail of the
  cache enters an empty queue; it enters a queue that is not empty when it was received more than a bucket
  width after the newest candidate, after the stale candidates have left at the old end, and pushes out
  the oldest of ten; otherwise the queue stays.\<close>

theorem pcm_update_candidates_refines:
  assumes "cand_ok c"
  shows "\<exists>c'. vqec_pcm_update_candidates c seq_num rcv_ts = Done c' \<and> cand_ok c' \<and>
    cand_list c' =
      (if cand_list c = [] then [\<lparr>ca_seq_num = seq_num, ca_rcv_ts = rcv_ts\<rparr>]
       else if abs_time_gt rcv_ts (abs_plus_rel_time (ca_rcv_ts (last (cand_list c))) (cd_candidate_bucket_width c))
       then push10 (dropWhile (cand_stale rcv_ts (cd_gap_hold_time c)) (cand_list c))
              \<lparr>ca_seq_num = seq_num, ca_rcv_ts = rcv_ts\<rparr>
       else cand_list c)"
  by (rule update_candidates_ok [OF assms])

theorem pcm_update_candidates_refines_witness:
  "\<exists>c'. vqec_pcm_update_candidates cands_sample 9 1050 = Done c' \<and> length (cand_list c') = 5"
proof -
  have "cand_list cands_sample = replicate 4 \<lparr>ca_seq_num = 7, ca_rcv_ts = 1000\<rparr>" by code_simp
  moreover have "\<not> cand_stale 1050 (cd_gap_hold_time cands_sample) \<lparr>ca_seq_num = 7, ca_rcv_ts = 1000\<rparr>"
    "abs_time_gt 1050 (abs_plus_rel_time 1000 (cd_candidate_bucket_width cands_sample))"
    by code_simp+
  ultimately show ?thesis
    using pcm_update_candidates_refines [OF cands_sample_ok, of 9 1050]
    by (auto simp: push10_def numeral_eq_Suc)
qed
end
