(* ===== verification/Pcm_Log.thy ===== *)
theory Pcm_Log
  imports Vam_Time Seq_Num
begin

text \<open>
  The event log of the packet cache, \<^verbatim>\<open>eva/vqec-dp/channel/vqec_log.c\<close>: rings of the last ten repaired
  numbers and of the last ten gaps of input and output, the first ten primary numbers, three points in
  time, and the copies of them that go to the control plane. An index into a ring is an \<open>int\<close>.
\<close>

subsection \<open>The operations\<close>

definition VQEC_LOG_SIZE :: int where "VQEC_LOG_SIZE = 10"

record vqec_log_seq =
  ls_seq_num :: "vqec_seq_num list"
  ls_cur_pos :: int

record vqec_log_gap =
  lg_start :: vqec_seq_num
  lg_end :: vqec_seq_num
  lg_time :: abs_time

record vqec_log_gaps =
  lgs_seq_num :: "vqec_log_gap list"
  lgs_cur_pos :: int

record vqec_log =
  log_last_n_repair_seq :: vqec_log_seq
  log_last_n_fec_repair_seq :: vqec_log_seq
  log_first_n_primary_seq :: vqec_log_seq
  log_output_gaps :: vqec_log_gaps
  log_input_gaps :: vqec_log_gaps
  log_proxy_join_time :: abs_time
  log_vam_actual_join_time :: abs_time
  log_vam_desired_join_time :: abs_time

definition log_seq_zero :: vqec_log_seq where
  "log_seq_zero = \<lparr>ls_seq_num = replicate (nat VQEC_LOG_SIZE) 0, ls_cur_pos = 0\<rparr>"

definition log_gap_zero :: vqec_log_gap where
  "log_gap_zero = \<lparr>lg_start = 0, lg_end = 0, lg_time = 0\<rparr>"

text \<open>The two rings of gaps are cleared with the size of one gap, which is the first entry of the array;
  the other entries and the position stay.\<close>

definition vqec_log_init :: "vqec_log \<Rightarrow> vqec_log" where
  "vqec_log_init log =
     log\<lparr>log_last_n_repair_seq := log_seq_zero, log_last_n_fec_repair_seq := log_seq_zero,
         log_first_n_primary_seq := log_seq_zero,
         log_output_gaps := (log_output_gaps log)\<lparr>lgs_seq_num := (lgs_seq_num (log_output_gaps log))[0 := log_gap_zero]\<rparr>,
         log_input_gaps := (log_input_gaps log)\<lparr>lgs_seq_num := (lgs_seq_num (log_input_gaps log))[0 := log_gap_zero]\<rparr>,
         log_proxy_join_time := 0, log_vam_desired_join_time := 0, log_vam_actual_join_time := 0\<rparr>"

definition vqec_log_clear :: "vqec_log \<Rightarrow> vqec_log" where
  "vqec_log_clear log = vqec_log_init log"

definition log_seq_push :: "vqec_log_seq \<Rightarrow> vqec_seq_num \<Rightarrow> vqec_log_seq" where
  "log_seq_push l seq =
     (let i = ls_cur_pos l
      in l\<lparr>ls_seq_num := (ls_seq_num l)[nat i := seq], ls_cur_pos := (i + 1) mod VQEC_LOG_SIZE\<rparr>)"

definition vqec_log_insert_repair_seq :: "vqec_log \<Rightarrow> vqec_seq_num \<Rightarrow> vqec_log" where
  "vqec_log_insert_repair_seq log seq =
     log\<lparr>log_last_n_repair_seq := log_seq_push (log_last_n_repair_seq log) seq\<rparr>"

definition vqec_log_insert_fec_repair_seq :: "vqec_log \<Rightarrow> vqec_seq_num \<Rightarrow> vqec_log" where
  "vqec_log_insert_fec_repair_seq log seq =
     log\<lparr>log_last_n_fec_repair_seq := log_seq_push (log_last_n_fec_repair_seq log) seq\<rparr>"

definition vqec_log_insert_primary_seq :: "vqec_log \<Rightarrow> vqec_seq_num \<Rightarrow> vqec_log" where
  "vqec_log_insert_primary_seq log seq =
     (let l = log_first_n_primary_seq log; i = ls_cur_pos l
      in if i = VQEC_LOG_SIZE then log
         else log\<lparr>log_first_n_primary_seq := l\<lparr>ls_seq_num := (ls_seq_num l)[nat i := seq], ls_cur_pos := i + 1\<rparr>\<rparr>)"

definition vqec_log_insert_output_gap_direct ::
  "vqec_log_gaps \<Rightarrow> vqec_seq_num \<Rightarrow> vqec_seq_num \<Rightarrow> abs_time \<Rightarrow> vqec_log_gaps" where
  "vqec_log_insert_output_gap_direct output_gaps start_num end_num time =
     (let i = lgs_cur_pos output_gaps
      in if i = VQEC_LOG_SIZE then output_gaps
         else output_gaps\<lparr>lgs_seq_num := (lgs_seq_num output_gaps)
                  [nat i := \<lparr>lg_start = start_num, lg_end = end_num, lg_time = time\<rparr>],
                lgs_cur_pos := (i + 1) mod VQEC_LOG_SIZE\<rparr>)"

definition vqec_log_insert_output_gap ::
  "vqec_log \<Rightarrow> vqec_seq_num \<Rightarrow> vqec_seq_num \<Rightarrow> abs_time \<Rightarrow> vqec_log" where
  "vqec_log_insert_output_gap log start_num end_num time =
     log\<lparr>log_output_gaps := vqec_log_insert_output_gap_direct (log_output_gaps log) start_num end_num time\<rparr>"

definition vqec_log_insert_input_gap :: "vqec_log \<Rightarrow> vqec_seq_num \<Rightarrow> vqec_seq_num \<Rightarrow> vqec_log" where
  "vqec_log_insert_input_gap log start_num end_num =
     (let g = log_input_gaps log; i = lgs_cur_pos g
      in if i \<ge> VQEC_LOG_SIZE then log
         else log\<lparr>log_input_gaps :=
           g\<lparr>lgs_seq_num := (lgs_seq_num g)
               [nat i := (lgs_seq_num g ! nat i)\<lparr>lg_start := start_num, lg_end := end_num\<rparr>],
             lgs_cur_pos := (i + 1) mod VQEC_LOG_SIZE\<rparr>\<rparr>)"

definition vqec_log_proxy_join_time :: "vqec_log \<Rightarrow> abs_time \<Rightarrow> vqec_log" where
  "vqec_log_proxy_join_time log time =
     (if IS_ABS_TIME_ZERO (log_proxy_join_time log) then log\<lparr>log_proxy_join_time := time\<rparr> else log)"

definition vqec_log_vam_desired_join_time :: "vqec_log \<Rightarrow> abs_time \<Rightarrow> vqec_log" where
  "vqec_log_vam_desired_join_time log time =
     (if IS_ABS_TIME_ZERO (log_vam_desired_join_time log) then log\<lparr>log_vam_desired_join_time := time\<rparr> else log)"

definition vqec_log_vam_actual_join_time :: "vqec_log \<Rightarrow> abs_time \<Rightarrow> vqec_log" where
  "vqec_log_vam_actual_join_time log time =
     (if IS_ABS_TIME_ZERO (log_vam_actual_join_time log) then log\<lparr>log_vam_actual_join_time := time\<rparr> else log)"

subsection \<open>The copies for the control plane\<close>

definition VQEC_DP_GAPLOG_ARRAY_SIZE :: nat where "VQEC_DP_GAPLOG_ARRAY_SIZE = 10"
definition VQEC_DP_SEQLOG_ARRAY_SIZE :: nat where "VQEC_DP_SEQLOG_ARRAY_SIZE = 10"

record vqec_dp_gaplog =
  dgl_num_entries :: u32
  dgl_gaps :: "vqec_log_gap list"

record vqec_dp_seqlog =
  dsl_prim :: "vqec_seq_num list"
  dsl_repair :: "vqec_seq_num list"
  dsl_fec :: "vqec_seq_num list"

text \<open>The entries are copied in the order of the ring from the current position on.\<close>

primrec gaplog_copy :: "nat \<Rightarrow> int \<Rightarrow> vqec_log_gap list \<Rightarrow> vqec_log_gap list" where
  "gaplog_copy 0 i gaps = []"
| "gaplog_copy (Suc n) i gaps = gaps ! nat i # gaplog_copy n ((i + 1) mod VQEC_LOG_SIZE) gaps"

definition vqec_log_to_dp_gaplog :: "vqec_log_gaps \<Rightarrow> vqec_dp_gaplog" where
  "vqec_log_to_dp_gaplog gap_log =
     (let i = lgs_cur_pos gap_log;
          gap_entries = (if int VQEC_DP_GAPLOG_ARRAY_SIZE > VQEC_LOG_SIZE then nat VQEC_LOG_SIZE
                         else VQEC_DP_GAPLOG_ARRAY_SIZE)
      in if i = VQEC_LOG_SIZE
         then \<lparr>dgl_num_entries = 0, dgl_gaps = replicate VQEC_DP_GAPLOG_ARRAY_SIZE log_gap_zero\<rparr>
         else \<lparr>dgl_num_entries = of_nat gap_entries,
               dgl_gaps = gaplog_copy gap_entries i (lgs_seq_num gap_log) @
                 replicate (VQEC_DP_GAPLOG_ARRAY_SIZE - gap_entries) log_gap_zero\<rparr>)"

definition vqec_log_to_dp_seqlog :: "vqec_log \<Rightarrow> vqec_dp_seqlog" where
  "vqec_log_to_dp_seqlog log =
     (let seq_entries = (if int VQEC_DP_SEQLOG_ARRAY_SIZE > VQEC_LOG_SIZE then nat VQEC_LOG_SIZE
                         else VQEC_DP_SEQLOG_ARRAY_SIZE);
          copy = (\<lambda>l. take seq_entries (ls_seq_num l) @ replicate (VQEC_DP_SEQLOG_ARRAY_SIZE - seq_entries) 0)
      in \<lparr>dsl_prim = copy (log_first_n_primary_seq log), dsl_repair = copy (log_last_n_repair_seq log),
          dsl_fec = copy (log_last_n_fec_repair_seq log)\<rparr>)"

subsection \<open>Rings as lists\<close>

definition log_gaps_ok :: "vqec_log_gaps \<Rightarrow> bool" where
  "log_gaps_ok g \<longleftrightarrow> length (lgs_seq_num g) = 10 \<and> 0 \<le> lgs_cur_pos g \<and> lgs_cur_pos g < 10"

text \<open>The ring from its oldest entry on.\<close>

definition log_gaps_list :: "vqec_log_gaps \<Rightarrow> vqec_log_gap list" where
  "log_gaps_list g = rotate (nat (lgs_cur_pos g)) (lgs_seq_num g)"

lemma gaplog_copy_nth:
  assumes "0 \<le> i" "i < 10" "j < n"
  shows "gaplog_copy n i gaps ! j = gaps ! ((nat i + j) mod 10)"
  using assms
proof (induction n arbitrary: i j)
  case (Suc n)
  show ?case
  proof (cases j)
    case 0
    then show ?thesis using Suc.prems by (simp add: nat_less_iff)
  next
    case (Suc k)
    have "nat ((i + 1) mod 10) = (nat i + 1) mod 10" using Suc.prems(1) by (simp add: nat_mod_distrib nat_add_distrib)
    then have "(nat ((i + 1) mod 10) + k) mod 10 = (nat i + j) mod 10" using Suc by (simp add: mod_simps)
    then show ?thesis
      using Suc.IH [of "(i + 1) mod 10" k] Suc.prems Suc by (simp add: VQEC_LOG_SIZE_def)
  qed
qed simp

lemma length_gaplog_copy [simp]: "length (gaplog_copy n i gaps) = n"
  by (induction n arbitrary: i) simp_all

lemma gaplog_copy_rotate:
  assumes "0 \<le> i" "i < 10" "length gaps = 10"
  shows "gaplog_copy 10 i gaps = rotate (nat i) gaps"
  using assms by (intro nth_equalityI) (simp_all add: gaplog_copy_nth nth_rotate)

lemma rotate_update_next:
  assumes "i < length xs"
  shows "rotate (Suc i mod length xs) (xs[i := x]) = tl (rotate i xs) @ [x]"
proof -
  have "rotate i (xs[i := x]) = x # tl (rotate i xs)"
    using assms by (simp add: rotate_drop_take upd_conv_take_nth_drop drop_Suc tl_drop flip: drop_drop)
  then have "rotate1 (rotate i (xs[i := x])) = tl (rotate i xs) @ [x]" by simp
  moreover have "rotate (Suc i mod length xs) (xs[i := x]) = rotate (Suc i) (xs[i := x])"
    using rotate_conv_mod [of "Suc i" "xs[i := x]"] by simp
  ultimately show ?thesis by simp
qed

lemma log_gaps_list_length: "log_gaps_ok g \<Longrightarrow> length (log_gaps_list g) = 10"
  by (simp add: log_gaps_ok_def log_gaps_list_def)

lemma insert_output_gap_list:
  assumes "log_gaps_ok g"
  shows "log_gaps_ok (vqec_log_insert_output_gap_direct g s e t)"
    "log_gaps_list (vqec_log_insert_output_gap_direct g s e t) =
       tl (log_gaps_list g) @ [\<lparr>lg_start = s, lg_end = e, lg_time = t\<rparr>]"
proof -
  have b: "length (lgs_seq_num g) = 10" "0 \<le> lgs_cur_pos g" "lgs_cur_pos g < 10" using assms by (simp_all add: log_gaps_ok_def)
  have n: "nat ((lgs_cur_pos g + 1) mod 10) = Suc (nat (lgs_cur_pos g)) mod 10"
    using b by (simp add: nat_mod_distrib nat_add_distrib)
  show "log_gaps_ok (vqec_log_insert_output_gap_direct g s e t)"
    using b by (simp add: vqec_log_insert_output_gap_direct_def log_gaps_ok_def VQEC_LOG_SIZE_def Let_def)
  show "log_gaps_list (vqec_log_insert_output_gap_direct g s e t) =
       tl (log_gaps_list g) @ [\<lparr>lg_start = s, lg_end = e, lg_time = t\<rparr>]"
    using b n rotate_update_next [of "nat (lgs_cur_pos g)" "lgs_seq_num g"]
    by (simp add: vqec_log_insert_output_gap_direct_def log_gaps_list_def VQEC_LOG_SIZE_def Let_def)
qed

lemma to_dp_gaplog_list: "log_gaps_ok g \<Longrightarrow> dgl_gaps (vqec_log_to_dp_gaplog g) = log_gaps_list g"
  by (simp add: vqec_log_to_dp_gaplog_def log_gaps_ok_def log_gaps_list_def gaplog_copy_rotate
      VQEC_LOG_SIZE_def VQEC_DP_GAPLOG_ARRAY_SIZE_def)

lemma fold_push_last: "xs \<noteq> [] \<Longrightarrow> fold (\<lambda>y zs. tl zs @ [y]) ys xs = drop (length ys) (xs @ ys)"
proof (induction ys arbitrary: xs)
  case (Cons y ys)
  obtain x xs' where xs: "xs = x # xs'" using Cons.prems by (cases xs) auto
  have "fold (\<lambda>y zs. tl zs @ [y]) ys (xs' @ [y]) = drop (length ys) ((xs' @ [y]) @ ys)" by (rule Cons.IH) simp
  then show ?case by (simp add: xs del: drop_append)
qed simp

lemma insert_output_gaps_list:
  assumes "log_gaps_ok g"
  shows "log_gaps_ok (fold (\<lambda>(s, e, t) g. vqec_log_insert_output_gap_direct g s e t) gs g) \<and>
    log_gaps_list (fold (\<lambda>(s, e, t) g. vqec_log_insert_output_gap_direct g s e t) gs g) =
      fold (\<lambda>y zs. tl zs @ [y]) (map (\<lambda>(s, e, t). \<lparr>lg_start = s, lg_end = e, lg_time = t\<rparr>) gs) (log_gaps_list g)"
  using assms by (induction gs arbitrary: g) (auto simp: insert_output_gap_list)

subsection \<open>Properties\<close>

text \<open>After any number of output gaps has been logged, the copy of the log for the control plane has
  ten entries: the ten newest gaps, oldest first, preceded by older entries of the ring when there were
  fewer than ten.\<close>

lemma gaplog_reports_newest:
  assumes "log_gaps_ok g"
  shows "dgl_gaps (vqec_log_to_dp_gaplog (fold (\<lambda>(s, e, t) g. vqec_log_insert_output_gap_direct g s e t) gs g)) =
    drop (length gs) (dgl_gaps (vqec_log_to_dp_gaplog g) @
      map (\<lambda>(s, e, t). \<lparr>lg_start = s, lg_end = e, lg_time = t\<rparr>) gs)"
proof -
  have "log_gaps_list g \<noteq> []" using log_gaps_list_length [OF assms] by auto
  from fold_push_last [OF this] show ?thesis
    using insert_output_gaps_list [OF assms, of gs] by (simp add: to_dp_gaplog_list assms)
qed

text \<open>Clearing the log keeps the position and nine of the ten entries of a ring of gaps.\<close>

lemma log_clear_gaps:
  "lgs_cur_pos (log_output_gaps (vqec_log_clear log)) = lgs_cur_pos (log_output_gaps log)"
  "0 < i \<Longrightarrow> lgs_seq_num (log_output_gaps (vqec_log_clear log)) ! i = lgs_seq_num (log_output_gaps log) ! i"
  by (simp_all add: vqec_log_clear_def vqec_log_init_def)
end
