(* ===== verification/Tr135.thy ===== *)
theory Tr135
  imports Seq_Num
begin

text \<open>
  The TR-135 loss statistics, \<^verbatim>\<open>vqec_pcm_update_tr135_stats\<close> and its helpers in
  \<^verbatim>\<open>eva/vqec-dp/channel/vqec_pcm.c\<close>, with the structures of \<^verbatim>\<open>eva/vqec-dp/vqec_dp_api_types.h\<close>: counters
  of packets and a machine of two states that groups losses into loss events. Counters are 64 bits wide.
\<close>

subsection \<open>The structures\<close>

datatype vqec_tr135_stats_error_state = VQEC_STATS_STATE_OK | VQEC_STATS_STATE_ENTER_LOSS_EVENT

record vqec_tr135_stream_sample_stats =
  ts_maximum_loss_period :: u64
  ts_minimum_loss_distance :: u64

record vqec_tr135_stream_total_stats =
  tt_mld_low_water_mark :: u64
  tt_minimum_loss_distance :: u64
  tt_maximum_loss_period :: u64
  tt_mlp_high_water_mark :: u64
  tt_packets_received :: u64
  tt_packets_lost :: u64
  tt_packets_expected :: u64
  tt_loss_events :: u64
  tt_severe_loss_index_count :: u64
  tt_state :: vqec_tr135_stats_error_state
  tt_num_good_consec_packets :: u64
  tt_num_bad_consec_packets :: u64
  tt_last_pak_seq :: u32
  tt_start_flag :: bool
  tt_loss_period :: u64

record vqec_ifclient_tr135_params =
  tp_gmin :: u32
  tp_severe_loss_min_distance :: u32

record vqec_tr135_mainstream_stats =
  tm_tr135_params :: vqec_ifclient_tr135_params
  tm_overruns :: u64
  tm_underruns :: u64
  tm_total_stats_before_ec :: vqec_tr135_stream_total_stats
  tm_total_stats_after_ec :: vqec_tr135_stream_total_stats
  tm_sample_stats_before_ec :: vqec_tr135_stream_sample_stats
  tm_sample_stats_after_ec :: vqec_tr135_stream_sample_stats

record vqec_tr135_stats =
  tr_buffer_size :: u64
  tr_mainstream_stats :: vqec_tr135_mainstream_stats

type_synonym tr135_pair = "vqec_tr135_stream_total_stats \<times> vqec_tr135_stream_sample_stats"

definition INFINITY_U64 :: u64 where "INFINITY_U64 = - 1"

subsection \<open>The update\<close>

definition tr135_start :: "vqec_seq_num \<Rightarrow> tr135_pair \<Rightarrow> tr135_pair" where
  "tr135_start seq_num = (\<lambda>(t, s).
     if \<not> tt_start_flag t
     then (t\<lparr>tt_last_pak_seq := seq_num - 1, tt_packets_received := 0, tt_packets_expected := 0,
             tt_packets_lost := 0, tt_start_flag := True, tt_minimum_loss_distance := INFINITY_U64,
             tt_maximum_loss_period := 0, tt_mld_low_water_mark := INFINITY_U64,
             tt_mlp_high_water_mark := 0, tt_loss_period := 0\<rparr>,
           s\<lparr>ts_minimum_loss_distance := INFINITY_U64, ts_maximum_loss_period := 0\<rparr>)
     else (t, s))"

definition tr135_missing :: "vqec_seq_num \<Rightarrow> vqec_tr135_stream_total_stats \<Rightarrow> s32" where
  "tr135_missing seq_num t = vqec_seq_num_sub seq_num (tt_last_pak_seq t) - 1"

text \<open>The count of missing packets is an \<open>int32_t\<close>, extended with its sign where it is added.\<close>

definition tr135_count :: "s32 \<Rightarrow> vqec_tr135_stream_total_stats \<Rightarrow> vqec_tr135_stream_total_stats" where
  "tr135_count num_missing_pkts t =
     t\<lparr>tt_packets_received := tt_packets_received t + 1,
       tt_packets_lost := tt_packets_lost t + scast num_missing_pkts,
       tt_packets_expected := tt_packets_expected t + scast (num_missing_pkts + 1)\<rparr>"

definition tr135_in_ok :: "bool \<Rightarrow> s32 \<Rightarrow> u32 \<Rightarrow> tr135_pair \<Rightarrow> tr135_pair" where
  "tr135_in_ok error_event num_missing_pkts severe_loss_min_distance = (\<lambda>(t, s).
     let good = tt_num_good_consec_packets t
     in if error_event
        then let severe = good \<le> ucast severe_loss_min_distance \<and> tt_loss_events t > 0;
                 mld = min good (tt_minimum_loss_distance t)
             in (t\<lparr>tt_state := VQEC_STATS_STATE_ENTER_LOSS_EVENT,
                   tt_severe_loss_index_count := tt_severe_loss_index_count t + (if severe then 1 else 0),
                   tt_minimum_loss_distance := mld,
                   tt_mld_low_water_mark := min mld (tt_mld_low_water_mark t),
                   tt_loss_period := tt_loss_period t + scast num_missing_pkts\<rparr>,
                 s\<lparr>ts_minimum_loss_distance := min good (ts_minimum_loss_distance s)\<rparr>)
        else (t\<lparr>tt_num_good_consec_packets := good + 1\<rparr>, s))"

definition tr135_close_event :: "tr135_pair \<Rightarrow> tr135_pair" where
  "tr135_close_event = (\<lambda>(t, s).
     let lp = tt_loss_period t;
         longest = lp > tt_maximum_loss_period t;
         mlp = (if longest then lp else tt_maximum_loss_period t)
     in (t\<lparr>tt_loss_events := tt_loss_events t + 1, tt_state := VQEC_STATS_STATE_OK,
           tt_maximum_loss_period := mlp,
           tt_num_bad_consec_packets := (if longest then 0 else tt_num_bad_consec_packets t),
           tt_mlp_high_water_mark := max mlp (tt_mlp_high_water_mark t),
           tt_loss_period := 0\<rparr>,
         s\<lparr>ts_maximum_loss_period := max lp (ts_maximum_loss_period s)\<rparr>))"

definition tr135_in_loss :: "bool \<Rightarrow> s32 \<Rightarrow> u32 \<Rightarrow> tr135_pair \<Rightarrow> tr135_pair" where
  "tr135_in_loss error_event num_missing_pkts gmin = (\<lambda>(t, s).
     if error_event
     then (t\<lparr>tt_num_good_consec_packets := 0,
             tt_num_bad_consec_packets := tt_num_bad_consec_packets t + scast num_missing_pkts,
             tt_loss_period := tt_loss_period t + scast num_missing_pkts\<rparr>, s)
     else let t1 = t\<lparr>tt_num_good_consec_packets := tt_num_good_consec_packets t + 1\<rparr>
          in if tt_num_good_consec_packets t1 \<ge> ucast gmin then tr135_close_event (t1, s)
             else (t1\<lparr>tt_loss_period := tt_loss_period t1 + 1\<rparr>, s))"

definition vqec_pcm_update_tr135_stats ::
  "tr135_pair \<Rightarrow> vqec_seq_num \<Rightarrow> u32 \<Rightarrow> u32 \<Rightarrow> tr135_pair" where
  "vqec_pcm_update_tr135_stats ts0 seq_num gmin severe_loss_min_distance =
     (if gmin > 0
      then let (t1, s1) = tr135_start seq_num ts0;
               num_missing_pkts = tr135_missing seq_num t1;
               error_event = sint num_missing_pkts \<ge> 1;
               t2 = tr135_count num_missing_pkts t1;
               (t3, s3) = (case tt_state t2 of
                   VQEC_STATS_STATE_OK \<Rightarrow> tr135_in_ok error_event num_missing_pkts severe_loss_min_distance (t2, s1)
                 | VQEC_STATS_STATE_ENTER_LOSS_EVENT \<Rightarrow> tr135_in_loss error_event num_missing_pkts gmin (t2, s1))
           in (t3\<lparr>tt_last_pak_seq := seq_num\<rparr>, s3)
      else ts0)"

definition subtract_tr135_total_stats ::
  "vqec_tr135_stream_total_stats \<Rightarrow> vqec_tr135_stream_total_stats \<Rightarrow> vqec_tr135_stream_total_stats" where
  "subtract_tr135_total_stats a b =
     a\<lparr>tt_severe_loss_index_count := tt_severe_loss_index_count a - tt_severe_loss_index_count b,
       tt_packets_received := tt_packets_received a - tt_packets_received b,
       tt_packets_expected := tt_packets_expected a - tt_packets_expected b,
       tt_packets_lost := tt_packets_lost a - tt_packets_lost b,
       tt_loss_events := tt_loss_events a - tt_loss_events b\<rparr>"

definition vqec_pcm_tr135_reinit :: "vqec_tr135_stats \<Rightarrow> vqec_tr135_stats" where
  "vqec_pcm_tr135_reinit tr135 =
     (let m = tr_mainstream_stats tr135;
          clear = (\<lambda>t. t\<lparr>tt_minimum_loss_distance := INFINITY_U64, tt_maximum_loss_period := 0\<rparr>)
      in tr135\<lparr>tr_mainstream_stats := m\<lparr>tm_total_stats_before_ec := clear (tm_total_stats_before_ec m),
           tm_total_stats_after_ec := clear (tm_total_stats_after_ec m)\<rparr>\<rparr>)"

subsection \<open>What the counters count\<close>

abbreviation tr135_run ::
  "u32 \<Rightarrow> u32 \<Rightarrow> vqec_seq_num list \<Rightarrow> tr135_pair \<Rightarrow> tr135_pair" where
  "tr135_run gmin severe ns ts0 \<equiv> fold (\<lambda>n ts1. vqec_pcm_update_tr135_stats ts1 n gmin severe) ns ts0"

text \<open>Neither state of the machine touches the three counters, the start flag or the last number.\<close>

definition tr135_counters :: "vqec_tr135_stream_total_stats \<Rightarrow> u64 \<times> u64 \<times> u64 \<times> u32 \<times> bool" where
  "tr135_counters t = (tt_packets_received t, tt_packets_lost t, tt_packets_expected t, tt_last_pak_seq t, tt_start_flag t)"

lemma tr135_in_ok_counters: "tr135_counters (fst (tr135_in_ok e n d (t, s))) = tr135_counters t"
  by (simp add: tr135_in_ok_def tr135_counters_def Let_def)

lemma tr135_in_loss_counters: "tr135_counters (fst (tr135_in_loss e n g (t, s))) = tr135_counters t"
  by (simp add: tr135_in_loss_def tr135_close_event_def tr135_counters_def Let_def)

lemma tr135_update_counters:
  assumes "0 < gmin" "tt_start_flag t"
  shows "tr135_counters (fst (vqec_pcm_update_tr135_stats (t, s) n gmin d)) =
    (tt_packets_received t + 1, tt_packets_lost t + scast (tr135_missing n t),
     tt_packets_expected t + scast (tr135_missing n t + 1), n, True)"
proof -
  let ?m = "tr135_missing n t"
  let ?t2 = "tr135_count ?m t"
  let ?r = "case tt_state ?t2 of VQEC_STATS_STATE_OK \<Rightarrow> tr135_in_ok (sint ?m \<ge> 1) ?m d (?t2, s)
     | VQEC_STATS_STATE_ENTER_LOSS_EVENT \<Rightarrow> tr135_in_loss (sint ?m \<ge> 1) ?m gmin (?t2, s)"
  have "tr135_counters (fst ?r) = tr135_counters ?t2"
    by (simp add: tr135_in_ok_counters tr135_in_loss_counters split: vqec_tr135_stats_error_state.split)
  then have "tr135_counters ((fst ?r)\<lparr>tt_last_pak_seq := n\<rparr>) =
      (tt_packets_received t + 1, tt_packets_lost t + scast ?m, tt_packets_expected t + scast (?m + 1), n, True)"
    using assms(2) by (simp add: tr135_counters_def tr135_count_def)
  then show ?thesis
    using assms
    by (cases "tt_state ?t2") (simp_all add: vqec_pcm_update_tr135_stats_def tr135_start_def Let_def case_prod_beta)
qed

lemma tr135_update_start:
  assumes "\<not> tt_start_flag t"
  shows "vqec_pcm_update_tr135_stats (t, s) n gmin d =
    (if 0 < gmin then vqec_pcm_update_tr135_stats (tr135_start n (t, s)) n gmin d else (t, s))"
proof -
  have "tr135_start n (tr135_start n (t, s)) = tr135_start n (t, s)" using assms by (simp add: tr135_start_def)
  then show ?thesis by (simp add: vqec_pcm_update_tr135_stats_def)
qed

lemma scast_small_64:
  assumes "unat (w :: s32) < 2 ^ 31"
  shows "(scast w :: u64) = of_nat (unat w)"
proof -
  have "uint w < 2 ^ 31" using assms by (simp add: nat_less_iff flip: nat_uint_eq)
  then have "signed_take_bit 31 (uint w) = uint w" by (intro signed_take_bit_int_eq_self) (simp_all add: order_trans [OF _ uint_ge_0])
  then have "sint w = int (unat w)" by (simp add: sint_uint)
  then show ?thesis by (metis of_int_of_nat_eq scast_eq)
qed

lemma tr135_missing_forward:
  assumes "0 < fdist m n" "fdist m n < 2 ^ 31" "tt_last_pak_seq t = m"
  shows "(scast (tr135_missing n t + 1) :: u64) = of_nat (fdist m n)"
    "(scast (tr135_missing n t) :: u64) = of_nat (fdist m n) - 1"
proof -
  have e: "tr135_missing n t = (n - m) - 1" using assms(3) by (simp add: tr135_missing_def vqec_seq_num_sub_def)
  have "unat ((n - m) - 1) = fdist m n - 1"
    using assms(1) unat_sub_if' [of "n - m" 1] by simp
  then have "(scast (n - m - 1) :: u64) = of_nat (fdist m n - 1)" using assms(2) by (subst scast_small_64) simp_all
  then show "(scast (tr135_missing n t) :: u64) = of_nat (fdist m n) - 1"
    using assms(1) e by simp
  show "(scast (tr135_missing n t + 1) :: u64) = of_nat (fdist m n)"
    using assms(2) e by (simp add: scast_small_64)
qed

lemma tr135_run_counters:
  assumes "0 < gmin" "tt_start_flag t" "tt_last_pak_seq t = m"
    and "sorted_wrt (<) (map (fdist b) (m # ns))" "\<forall>n \<in> set (m # ns). fdist b n < 2 ^ 31"
  shows "tr135_counters (fst (tr135_run gmin d ns (t, s))) =
    (tt_packets_received t + of_nat (length ns),
     tt_packets_lost t + of_nat (fdist m (last (m # ns))) - of_nat (length ns),
     tt_packets_expected t + of_nat (fdist m (last (m # ns))), last (m # ns), True)"
  using assms
proof (induction ns arbitrary: t s m)
  case Nil
  then show ?case by (simp add: tr135_counters_def)
next
  case (Cons x ns)
  obtain t1 s1 where u: "vqec_pcm_update_tr135_stats (t, s) x gmin d = (t1, s1)" by fastforce
  have "fdist b m < fdist b x" "fdist b x < 2 ^ 31" using Cons.prems by simp_all
  then have d: "fdist m x = fdist b x - fdist b m" using unat_window_diff [of m b x] by simp
  then have mx: "0 < fdist m x" "fdist m x < 2 ^ 31" using \<open>fdist b m < fdist b x\<close> \<open>fdist b x < 2 ^ 31\<close> by simp_all
  have c: "tr135_counters t1 = (tt_packets_received t + 1, tt_packets_lost t + of_nat (fdist m x) - 1,
      tt_packets_expected t + of_nat (fdist m x), x, True)"
    using tr135_update_counters [OF Cons.prems(1,2), of s x d] u
      tr135_missing_forward [OF mx Cons.prems(3)] by simp
  have l: "fdist b x \<le> fdist b (last (x # ns))" "fdist b (last (x # ns)) < 2 ^ 31"
    using Cons.prems(4,5) by (auto simp: less_imp_le)
  then have "fdist x (last (x # ns)) = fdist b (last (x # ns)) - fdist b x"
    "fdist m (last (x # ns)) = fdist b (last (x # ns)) - fdist b m"
    using unat_window_diff [of x b "last (x # ns)"] unat_window_diff [of m b "last (x # ns)"] \<open>fdist b m < fdist b x\<close>
    by simp_all
  then have s: "fdist m (last (x # ns)) = fdist m x + fdist x (last (x # ns))"
    using d l \<open>fdist b m < fdist b x\<close> by simp
  have "tr135_counters (fst (tr135_run gmin d ns (t1, s1))) =
    (tt_packets_received t1 + of_nat (length ns),
     tt_packets_lost t1 + of_nat (fdist x (last (x # ns))) - of_nat (length ns),
     tt_packets_expected t1 + of_nat (fdist x (last (x # ns))), last (x # ns), True)"
    by (rule Cons.IH) (use Cons.prems c in \<open>simp_all add: tr135_counters_def\<close>)
  then show ?case using c s u by (simp add: tr135_counters_def)
qed

subsection \<open>Properties\<close>

text \<open>C32: from a fresh start, for packets in increasing order over less than half of the circle, the
  received counter counts the packets, the expected counter is the span from the first to the last number,
  and the lost counter is their difference: the numbers of the span that did not come.\<close>

theorem tr135_accounting:
  assumes "0 < gmin" "\<not> tt_start_flag t"
    and "sorted_wrt (<) (map (fdist n) (n # ns))" "\<forall>m \<in> set ns. fdist n m < 2 ^ 31"
  shows "tr135_counters (fst (tr135_run gmin d (n # ns) (t, s))) =
    (of_nat (length (n # ns)), of_nat (fdist n (last (n # ns)) + 1) - of_nat (length (n # ns)),
     of_nat (fdist n (last (n # ns)) + 1), last (n # ns), True)"
proof -
  obtain t1 s1 where u: "vqec_pcm_update_tr135_stats (t, s) n gmin d = (t1, s1)" by fastforce
  obtain t0 s0 where t0: "tr135_start n (t, s) = (t0, s0)" by fastforce
  then have f: "tt_start_flag t0" "tt_last_pak_seq t0 = n - 1" "tt_packets_received t0 = 0"
    "tt_packets_lost t0 = 0" "tt_packets_expected t0 = 0"
    using assms(2) by (auto simp: tr135_start_def)
  have m0: "tr135_missing n t0 = 0" using f by (simp add: tr135_missing_def vqec_seq_num_sub_def)
  have "vqec_pcm_update_tr135_stats (t0, s0) n gmin d = (t1, s1)"
    using tr135_update_start [OF assms(2), of s n gmin d] assms(1) t0 u by simp
  then have c: "tr135_counters t1 = (1, 0, 1, n, True)"
    using tr135_update_counters [OF assms(1) f(1), of s0 n d] f m0 by simp
  show ?thesis
    using tr135_run_counters [of gmin t1 n n ns d s1] assms c u by (simp add: tr135_counters_def)
qed

definition tr135_zero :: vqec_tr135_stream_total_stats where
  "tr135_zero = \<lparr>tt_mld_low_water_mark = 0, tt_minimum_loss_distance = 0, tt_maximum_loss_period = 0,
     tt_mlp_high_water_mark = 0, tt_packets_received = 0, tt_packets_lost = 0, tt_packets_expected = 0,
     tt_loss_events = 0, tt_severe_loss_index_count = 0, tt_state = VQEC_STATS_STATE_OK,
     tt_num_good_consec_packets = 0, tt_num_bad_consec_packets = 0, tt_last_pak_seq = 0,
     tt_start_flag = False, tt_loss_period = 0\<rparr>"

definition tr135_sample_zero :: vqec_tr135_stream_sample_stats where
  "tr135_sample_zero = \<lparr>ts_maximum_loss_period = 0, ts_minimum_loss_distance = 0\<rparr>"

theorem tr135_accounting_witness:
  "tr135_counters (fst (tr135_run 2 3 [0xfffffffe, 0xffffffff, 2, 5] (tr135_zero, tr135_sample_zero))) = (4, 4, 8, 5, True)"
proof -
  have "sorted_wrt (<) (map (fdist 0xfffffffe) [0xfffffffe, 0xffffffff, 2, 5])" by simp
  then show ?thesis
    using tr135_accounting [of 2 tr135_zero "0xfffffffe" "[0xffffffff, 2, 5]" 3 tr135_sample_zero]
    by (simp add: tr135_zero_def)
qed
end
