(* ===== verification/Pcm_State.thy ===== *)
theory Pcm_State
  imports Pcm_Cand Pcm_Log Tr135 Vqe_Bitmap Pak_Seq Nll
begin

text \<open>
  The state of the packet cache, \<^verbatim>\<open>eva/vqec-dp/channel/vqec_pcm.h\<close>, with the output scheduler that it
  contains, \<^verbatim>\<open>vqec_oscheduler.h\<close>, and the small functions of both headers. The fields of the candidate
  array form the record \<open>pcm_cands\<close>. The callback at the end of the burst is its presence; the channel,
  the memory of the streams and the fields that no function reads are left out.
\<close>

subsection \<open>The output scheduler\<close>

record osched_outp_log =
  ol_first_pak_sent :: bool
  ol_first_prim_pak_sent :: bool
  ol_first_pak_ts :: abs_time
  ol_first_pak_rcv_ts :: abs_time
  ol_first_prim_pak_ts :: abs_time

record vqec_dp_oscheduler =
  os_nll :: vqec_nll
  os_run_osched :: bool
  os_pak_pend :: "pak_ptr option"
  os_last_pak_ts :: abs_time
  os_last_pak_pred_ts :: abs_time
  os_last_pak_seq :: vqec_seq_num
  os_last_pak_seq_valid :: bool
  os_last_inorder_pak_ts :: abs_time
  os_last_inorder_pak_seq :: vqec_seq_num
  os_last_inorder_pak_seq_valid :: bool
  os_rcc_burst_done :: bool
  os_state :: u32
  os_max_post_er_rle_size :: u32
  os_outp_log :: osched_outp_log

record vqec_pcm_stats =
  st_head_ge_last_seq :: u64
  st_repair_packet_counter :: u64
  st_primary_packet_counter :: u64
  st_pcm_insert_drops :: u64
  st_late_packet_counter :: u64
  st_duplicate_packet_counter :: u64
  st_seq_bad_range_packet_counter :: u64
  st_pak_seq_insert_fail_counter :: u64
  st_input_loss_pak_counter :: u64
  st_input_loss_hole_counter :: u64
  st_output_loss_pak_counter :: u64
  st_output_loss_hole_counter :: u64
  st_under_run_counter :: u64
  st_total_tx_paks :: u64
  st_bad_rcv_ts :: u64
  st_duplicate_repairs :: u64
  st_output_loss_paks_first_prim :: u32
  st_output_loss_holes_first_prim :: u32
  st_dup_paks_first_prim :: u32
  st_tr135 :: vqec_tr135_stats
  st_first_prim_to_last_rcc_seq_diff :: u64

datatype fec_order =
    VQEC_DP_FEC_SENDING_ORDER_NOT_DECIDED | VQEC_DP_FEC_SENDING_ORDER_ANNEXA | VQEC_DP_FEC_SENDING_ORDER_ANNEXB
  | VQEC_DP_FEC_SENDING_ORDER_OTHER

record vqec_fec_info =
  fi_fec_l_value :: u8
  fi_fec_d_value :: u8
  fi_fec_order :: fec_order
  fi_rtp_ts_pkt_time :: rel_time

record vqec_pcm =
  pcm_gapmap :: "vqe_bitmap option"
  pcm_pak_seq :: "vqec_pak_seq option"
  pcm_head :: vqec_seq_num
  pcm_tail :: vqec_seq_num
  pcm_er_enable :: bool
  pcm_cfg_er_enable :: bool
  pcm_rcc_enable :: bool
  pcm_fec_enable :: bool
  pcm_underrun_reset_dis :: bool
  pcm_dyn_jitter_buf_act :: bool
  pcm_strip_rtp :: bool
  pcm_primary_received :: bool
  pcm_repair_received :: bool
  pcm_stats :: vqec_pcm_stats
  pcm_stats_snapshot :: vqec_pcm_stats
  pcm_log :: vqec_log
  pcm_first_prim_log :: vqec_log_gaps
  pcm_delay_from_apps :: rel_time
  pcm_repair_trigger_time :: rel_time
  pcm_reorder_delay :: rel_time
  pcm_last_requested_er_seq_num :: vqec_seq_num
  pcm_pktflow_src_seq_num_start_set :: bool
  pcm_pktflow_src_seq_num_start :: vqec_seq_num
  pcm_inorder_q :: "pak_ptr list"
  pcm_avg_pkt_time :: rel_time
  pcm_default_delay :: rel_time
  pcm_fec_delay :: rel_time
  pcm_cfg_delay :: rel_time
  pcm_last_rx_seq_num :: vqec_seq_num
  pcm_osched :: vqec_dp_oscheduler
  pcm_candidates :: pcm_cands
  pcm_first_er_poll_done :: bool
  pcm_fec_info :: vqec_fec_info
  pcm_fec_default_block_size :: u16
  pcm_prev_seq_num :: vqec_seq_num
  pcm_prev_rtp_timestamp :: u32
  pcm_new_rtp_ts_pkt_time :: rel_time
  pcm_ts_calculation_done :: bool
  pcm_rcc_post_abort_process :: bool
  pcm_first_primary_seq :: vqec_seq_num
  pcm_fast_fill_time :: rel_time
  pcm_max_fastfill :: rel_time
  pcm_min_backfill :: rel_time
  pcm_fast_fill_end_time :: abs_time
  pcm_dt_repair_end :: rel_time
  pcm_total_fast_fill_bytes :: u32
  pcm_repairs_done_cb :: bool
  pcm_repairs_done_notified :: bool
  pcm_pre_prim_outp_stats_done :: bool
  pcm_er_en_ts :: abs_time
  pcm_tr135_params :: vqec_ifclient_tr135_params

definition VQEC_PCM_GAPMAP_SIZE :: u32 where "VQEC_PCM_GAPMAP_SIZE = 8192"
definition VQEC_PCM_RING_BUFFER_BUCKET_BITS :: nat where "VQEC_PCM_RING_BUFFER_BUCKET_BITS = 13"
definition VQEC_PCM_MAX_GAP_SIZE :: u32 where "VQEC_PCM_MAX_GAP_SIZE = 6000"
definition VQEC_PCM_MAX_HEAD_TAIL_SPREAD :: u32 where "VQEC_PCM_MAX_HEAD_TAIL_SPREAD = VQEC_PCM_GAPMAP_SIZE"

subsection \<open>Functions of the output scheduler that the cache calls\<close>

definition vqec_dp_oscheduler_last_pak_ts_get :: "vqec_dp_oscheduler \<Rightarrow> abs_time" where
  "vqec_dp_oscheduler_last_pak_ts_get osched = os_last_pak_ts osched"

definition vqec_dp_oscheduler_last_pak_seq_get :: "vqec_dp_oscheduler \<Rightarrow> vqec_seq_num" where
  "vqec_dp_oscheduler_last_pak_seq_get osched = os_last_pak_seq osched"

definition vqec_dp_oscheduler_last_pak_seq_valid :: "vqec_dp_oscheduler \<Rightarrow> bool" where
  "vqec_dp_oscheduler_last_pak_seq_valid osched = os_last_pak_seq_valid osched"

definition vqec_dp_oscheduler_outp_log_first_pak_ts :: "vqec_dp_oscheduler \<Rightarrow> abs_time" where
  "vqec_dp_oscheduler_outp_log_first_pak_ts osched = ol_first_pak_ts (os_outp_log osched)"

definition vqec_dp_oscheduler_outp_log_first_prim_pak_ts :: "vqec_dp_oscheduler \<Rightarrow> abs_time" where
  "vqec_dp_oscheduler_outp_log_first_prim_pak_ts osched = ol_first_prim_pak_ts (os_outp_log osched)"

definition vqec_dp_oscheduler_rcc_burst_done_notify :: "vqec_dp_oscheduler \<Rightarrow> vqec_dp_oscheduler" where
  "vqec_dp_oscheduler_rcc_burst_done_notify osched = osched\<lparr>os_rcc_burst_done := True\<rparr>"

definition vqec_dp_oscheduler_outp_init :: "vqec_dp_oscheduler \<Rightarrow> vqec_dp_oscheduler" where
  "vqec_dp_oscheduler_outp_init osched =
     osched\<lparr>os_last_pak_seq_valid := False, os_last_inorder_pak_seq_valid := False\<rparr>"

definition vqec_dp_oscheduler_outp_reset ::
  "vqec_dp_oscheduler \<Rightarrow> bool \<Rightarrow> pak_heap \<Rightarrow> (vqec_dp_oscheduler \<times> pak_heap) outcome" where
  "vqec_dp_oscheduler_outp_reset osched free_pend h =
     bind_out (if free_pend \<and> os_pak_pend osched \<noteq> None
               then bind_out (vqec_pak_free (os_pak_pend osched) h)
                      (\<lambda>h1. Done (osched\<lparr>os_pak_pend := None\<rparr>, h1))
               else Done (osched, h))
       (\<lambda>(os1, h1). Done (vqec_dp_oscheduler_outp_init
          (os1\<lparr>os_last_pak_ts := ABS_TIME_0, os_last_pak_seq := 0, os_last_pak_seq_valid := False,
              os_last_inorder_pak_ts := ABS_TIME_0, os_last_inorder_pak_seq := 0,
              os_last_inorder_pak_seq_valid := False, os_state := 0,
              os_nll := the (vqec_nll_reset (Some (os_nll os1)))\<rparr>), h1))"

subsection \<open>Small functions of the cache\<close>

definition vqec_pcm_set_last_rx_seq_num :: "vqec_pcm \<Rightarrow> vqec_seq_num \<Rightarrow> vqec_pcm" where
  "vqec_pcm_set_last_rx_seq_num pcm seq_num = pcm\<lparr>pcm_last_rx_seq_num := seq_num\<rparr>"

definition vqec_pcm_get_last_rx_seq_num :: "vqec_pcm \<Rightarrow> vqec_seq_num" where
  "vqec_pcm_get_last_rx_seq_num pcm = pcm_last_rx_seq_num pcm"

definition vqec_pcm_get_highest_rx_seq_num :: "vqec_pcm \<Rightarrow> vqec_seq_num" where
  "vqec_pcm_get_highest_rx_seq_num pcm = pcm_tail pcm"

definition vqec_pcm_set_pktflow_src_seq_num_start :: "vqec_pcm \<Rightarrow> vqec_pcm" where
  "vqec_pcm_set_pktflow_src_seq_num_start pcm =
     pcm\<lparr>pcm_pktflow_src_seq_num_start_set := True,
         pcm_pktflow_src_seq_num_start := vqec_next_seq_num (vqec_pcm_get_highest_rx_seq_num pcm)\<rparr>"

definition vqec_pcm_clear_pktflow_src_seq_num_start :: "vqec_pcm \<Rightarrow> vqec_pcm" where
  "vqec_pcm_clear_pktflow_src_seq_num_start pcm = pcm\<lparr>pcm_pktflow_src_seq_num_start_set := False\<rparr>"

definition vqec_pcm_candidates_recently_checked_get :: "vqec_pcm \<Rightarrow> bool" where
  "vqec_pcm_candidates_recently_checked_get pcm = cd_candidates_recently_checked (pcm_candidates pcm)"

definition vqec_pcm_candidates_recently_checked_reset :: "vqec_pcm \<Rightarrow> vqec_pcm" where
  "vqec_pcm_candidates_recently_checked_reset pcm =
     pcm\<lparr>pcm_candidates := (pcm_candidates pcm)\<lparr>cd_candidates_recently_checked := False\<rparr>\<rparr>"

definition vqec_pcm_avg_pkt_time_get :: "vqec_pcm \<Rightarrow> rel_time" where
  "vqec_pcm_avg_pkt_time_get pcm =
     (if pcm_ts_calculation_done pcm \<and> rel_time_lt (pcm_avg_pkt_time pcm) (pcm_new_rtp_ts_pkt_time pcm)
      then pcm_new_rtp_ts_pkt_time pcm else pcm_avg_pkt_time pcm)"

definition vqec_pcm_default_delay_get :: "vqec_pcm \<Rightarrow> rel_time" where
  "vqec_pcm_default_delay_get pcm = pcm_default_delay pcm"

definition vqec_pcm_cache_state_first_prim :: "vqec_pcm \<Rightarrow> vqec_pcm" where
  "vqec_pcm_cache_state_first_prim pcm = pcm\<lparr>pcm_pre_prim_outp_stats_done := True\<rparr>"

definition vqec_pcm_total_tx_paks_bump :: "vqec_pcm \<Rightarrow> vqec_pcm" where
  "vqec_pcm_total_tx_paks_bump pcm =
     pcm\<lparr>pcm_stats := (pcm_stats pcm)\<lparr>st_total_tx_paks := st_total_tx_paks (pcm_stats pcm) + 1\<rparr>\<rparr>"

definition vqec_pcm_bad_rcv_ts_bump :: "vqec_pcm \<Rightarrow> vqec_pcm" where
  "vqec_pcm_bad_rcv_ts_bump pcm =
     pcm\<lparr>pcm_stats := (pcm_stats pcm)\<lparr>st_bad_rcv_ts := st_bad_rcv_ts (pcm_stats pcm) + 1\<rparr>\<rparr>"

definition vqec_pcm_output_gap_counter_bump :: "vqec_pcm \<Rightarrow> u32 \<Rightarrow> vqec_pcm" where
  "vqec_pcm_output_gap_counter_bump pcm num_lost =
     (let st = pcm_stats pcm
      in if pcm_pre_prim_outp_stats_done pcm
         then pcm\<lparr>pcm_stats := st\<lparr>st_output_loss_pak_counter := st_output_loss_pak_counter st + ucast num_lost,
                st_output_loss_hole_counter := st_output_loss_hole_counter st + 1\<rparr>\<rparr>
         else pcm\<lparr>pcm_stats := st\<lparr>st_output_loss_paks_first_prim := st_output_loss_paks_first_prim st + num_lost,
                st_output_loss_holes_first_prim := st_output_loss_holes_first_prim st + 1\<rparr>\<rparr>)"

definition vqec_pcm_output_gap_log :: "vqec_pcm \<Rightarrow> vqec_seq_num \<Rightarrow> vqec_seq_num \<Rightarrow> abs_time \<Rightarrow> vqec_pcm" where
  "vqec_pcm_output_gap_log pcm start_num end_num time =
     (if pcm_pre_prim_outp_stats_done pcm
      then pcm\<lparr>pcm_log := vqec_log_insert_output_gap (pcm_log pcm) (vqec_next_seq_num start_num)
             (vqec_pre_seq_num end_num) time\<rparr>
      else pcm\<lparr>pcm_first_prim_log := vqec_log_insert_output_gap_direct (pcm_first_prim_log pcm)
             (vqec_next_seq_num start_num) (vqec_pre_seq_num end_num) time\<rparr>)"

definition vqec_pcm_gap_log_ptr :: "vqec_pcm \<Rightarrow> vqec_log" where
  "vqec_pcm_gap_log_ptr pcm = pcm_log pcm"

definition vqec_pcm_gap_list_insert_check :: "vqec_pcm \<Rightarrow> bool \<Rightarrow> bool" where
  "vqec_pcm_gap_list_insert_check pcm is_primary_session = (is_primary_session \<and> pcm_primary_received pcm)"

definition vqec_pcm_gap_update_stats :: "vqec_pcm \<Rightarrow> vqec_seq_num \<Rightarrow> vqec_seq_num \<Rightarrow> vqec_pcm" where
  "vqec_pcm_gap_update_stats pcm seq1 seq2 =
     (let st = pcm_stats pcm
      in pcm\<lparr>pcm_stats := st\<lparr>st_input_loss_pak_counter :=
                 st_input_loss_pak_counter st + scast (vqec_seq_num_sub seq2 seq1 + 1),
               st_input_loss_hole_counter := st_input_loss_hole_counter st + 1\<rparr>,
             pcm_log := vqec_log_insert_input_gap (pcm_log pcm) seq1 seq2\<rparr>)"

definition pcm_mainstream_upd ::
  "(vqec_tr135_mainstream_stats \<Rightarrow> vqec_tr135_mainstream_stats) \<Rightarrow> vqec_pcm \<Rightarrow> vqec_pcm" where
  "pcm_mainstream_upd f pcm =
     (let st = pcm_stats pcm; tr = st_tr135 st
      in pcm\<lparr>pcm_stats := st\<lparr>st_tr135 := tr\<lparr>tr_mainstream_stats := f (tr_mainstream_stats tr)\<rparr>\<rparr>\<rparr>)"

definition vqec_pcm_log_tr135_overrun :: "vqec_pcm \<Rightarrow> s32 \<Rightarrow> vqec_pcm" where
  "vqec_pcm_log_tr135_overrun pcm increment =
     pcm_mainstream_upd (\<lambda>m. m\<lparr>tm_overruns := tm_overruns m + scast increment\<rparr>) pcm"

definition vqec_pcm_log_tr135_underrun :: "vqec_pcm \<Rightarrow> s32 \<Rightarrow> vqec_pcm" where
  "vqec_pcm_log_tr135_underrun pcm increment =
     pcm_mainstream_upd (\<lambda>m. m\<lparr>tm_underruns := tm_underruns m + scast increment\<rparr>) pcm"

definition vqec_pcm_set_tr135_params :: "vqec_pcm \<Rightarrow> vqec_ifclient_tr135_params \<Rightarrow> vqec_pcm" where
  "vqec_pcm_set_tr135_params pcm params =
     pcm_mainstream_upd (\<lambda>m. m\<lparr>tm_tr135_params := params\<rparr>) (pcm\<lparr>pcm_tr135_params := params\<rparr>)"

definition vqec_pcm_counter_clear :: "vqec_pcm \<Rightarrow> vqec_pcm" where
  "vqec_pcm_counter_clear pcm =
     pcm\<lparr>pcm_stats_snapshot := pcm_stats pcm,
         pcm_stats := (pcm_stats pcm)\<lparr>st_tr135 := vqec_pcm_tr135_reinit (st_tr135 (pcm_stats pcm))\<rparr>\<rparr>"

text \<open>The system time \<open>now\<close> is an argument.\<close>

definition vqec_pcm_set_er_en_ts :: "abs_time \<Rightarrow> vqec_pcm \<Rightarrow> vqec_pcm" where
  "vqec_pcm_set_er_en_ts now pcm =
     (if IS_ABS_TIME_ZERO (pcm_er_en_ts pcm) then pcm\<lparr>pcm_er_en_ts := now\<rparr> else pcm)"

definition vqec_pcm_notify_rcc_en_er :: "abs_time \<Rightarrow> vqec_pcm \<Rightarrow> vqec_pcm" where
  "vqec_pcm_notify_rcc_en_er now pcm =
     (let pcm1 = pcm\<lparr>pcm_underrun_reset_dis := False, pcm_er_enable := pcm_cfg_er_enable pcm\<rparr>
      in if pcm_er_enable pcm1
         then vqec_pcm_set_er_en_ts now
                (pcm1\<lparr>pcm_last_requested_er_seq_num := pcm_head pcm1,
                      pcm_candidates := (pcm_candidates pcm1)\<lparr>cd_highest_er_seq_num := pcm_tail pcm1\<rparr>\<rparr>)
         else pcm1)"

definition vqec_pcm_update_fec_delay :: "vqec_pcm \<Rightarrow> rel_time \<Rightarrow> vqec_pcm outcome" where
  "vqec_pcm_update_fec_delay pcm fec_delay =
     (let pcm1 = (if rel_time_le fec_delay (pcm_fec_delay pcm) then pcm\<lparr>pcm_fec_delay := fec_delay\<rparr> else pcm);
          pcm2 = (if \<not> pcm_dyn_jitter_buf_act pcm1
                  then pcm1\<lparr>pcm_default_delay := rel_plus_rel_time (pcm_cfg_delay pcm1) (pcm_fec_delay pcm1)\<rparr>
                  else pcm1)
      in bind_out (vqec_pcm_update_gap_hold_time (pcm_candidates pcm2)
                     (rel_plus_rel_time (pcm_fec_delay pcm2) (pcm_reorder_delay pcm2)))
           (\<lambda>c. Done (pcm2\<lparr>pcm_candidates := c\<rparr>)))"

definition vqec_pcm_get_rcc_post_abort_process :: "vqec_pcm \<Rightarrow> bool" where
  "vqec_pcm_get_rcc_post_abort_process pcm = pcm_rcc_post_abort_process pcm"

definition vqec_pcm_update_rcc_post_abort_process :: "vqec_pcm \<Rightarrow> vqec_pcm" where
  "vqec_pcm_update_rcc_post_abort_process pcm =
     (if pcm_rcc_post_abort_process pcm \<and> pcm_primary_received pcm \<and> os_last_pak_seq_valid (pcm_osched pcm) \<and>
         vqec_seq_num_le (pcm_first_primary_seq pcm) (os_last_pak_seq (pcm_osched pcm))
      then pcm\<lparr>pcm_rcc_post_abort_process := False\<rparr> else pcm)"

definition vqec_pcm_rcc_post_abort_process :: "vqec_pcm \<Rightarrow> vqec_pak \<Rightarrow> bool" where
  "vqec_pcm_rcc_post_abort_process pcm pak =
     (pcm_rcc_post_abort_process pcm \<and>
      (\<not> pcm_primary_received pcm \<or> vqec_seq_num_le (pk_seq_num pak) (pcm_first_primary_seq pcm)))"

definition vqec_pcm_estimate_pkt_time :: "vqec_pcm \<Rightarrow> vqec_pak \<Rightarrow> vqec_pcm" where
  "vqec_pcm_estimate_pkt_time pcm pak =
     (let restart = pcm\<lparr>pcm_prev_seq_num := pk_seq_num pak, pcm_prev_rtp_timestamp := pk_rtp_ts pak\<rparr>
      in if pk_type pak = VQEC_PAK_TYPE_PRIMARY \<or> pk_type pak = VQEC_PAK_TYPE_REPAIR
         then if pcm_prev_seq_num pcm = 0 \<and> pcm_prev_rtp_timestamp pcm = 0 then restart
              else if pk_seq_num pak = vqec_next_seq_num (pcm_prev_seq_num pcm) \<and>
                      \<not> VQEC_PAK_FLAGS_ISSET (pk_flags pak) VQEC_PAK_FLAGS_RX_DISCONTINUITY
              then if pk_rtp_ts pak > pcm_prev_rtp_timestamp pcm
                   then pcm\<lparr>pcm_new_rtp_ts_pkt_time :=
                              pcr_to_rel_time (ucast (pk_rtp_ts pak - pcm_prev_rtp_timestamp pcm)),
                            pcm_ts_calculation_done := True\<rparr>
                   else restart
              else restart
         else pcm)"

subsection \<open>A cleared cache\<close>

definition pcm_stats_zero :: vqec_pcm_stats where
  "pcm_stats_zero =
     \<lparr>st_head_ge_last_seq = 0, st_repair_packet_counter = 0, st_primary_packet_counter = 0,
          st_pcm_insert_drops = 0, st_late_packet_counter = 0, st_duplicate_packet_counter = 0,
          st_seq_bad_range_packet_counter = 0, st_pak_seq_insert_fail_counter = 0,
          st_input_loss_pak_counter = 0, st_input_loss_hole_counter = 0, st_output_loss_pak_counter = 0,
          st_output_loss_hole_counter = 0, st_under_run_counter = 0, st_total_tx_paks = 0, st_bad_rcv_ts = 0,
          st_duplicate_repairs = 0, st_output_loss_paks_first_prim = 0, st_output_loss_holes_first_prim = 0,
          st_dup_paks_first_prim = 0,
          st_tr135 = \<lparr>tr_buffer_size = 0, tr_mainstream_stats =
            \<lparr>tm_tr135_params = \<lparr>tp_gmin = 0, tp_severe_loss_min_distance = 0\<rparr>, tm_overruns = 0, tm_underruns = 0,
             tm_total_stats_before_ec = tr135_zero, tm_total_stats_after_ec = tr135_zero,
             tm_sample_stats_before_ec = tr135_sample_zero, tm_sample_stats_after_ec = tr135_sample_zero\<rparr>\<rparr>,
          st_first_prim_to_last_rcc_seq_diff = 0\<rparr>"

definition osched_zero :: vqec_dp_oscheduler where
  "osched_zero = \<lparr>os_nll = nll_zero, os_run_osched = False, os_pak_pend = None, os_last_pak_ts = 0,
     os_last_pak_pred_ts = 0, os_last_pak_seq = 0, os_last_pak_seq_valid = False, os_last_inorder_pak_ts = 0,
     os_last_inorder_pak_seq = 0, os_last_inorder_pak_seq_valid = False, os_rcc_burst_done = False,
     os_state = 0, os_max_post_er_rle_size = 0,
     os_outp_log = \<lparr>ol_first_pak_sent = False, ol_first_prim_pak_sent = False, ol_first_pak_ts = 0,
       ol_first_pak_rcv_ts = 0, ol_first_prim_pak_ts = 0\<rparr>\<rparr>"

definition log_gaps_zero :: vqec_log_gaps where
  "log_gaps_zero = \<lparr>lgs_seq_num = replicate (nat VQEC_LOG_SIZE) log_gap_zero, lgs_cur_pos = 0\<rparr>"

definition pcm_log_zero :: vqec_log where
  "pcm_log_zero = \<lparr>log_last_n_repair_seq = log_seq_zero, log_last_n_fec_repair_seq = log_seq_zero,
     log_first_n_primary_seq = log_seq_zero, log_output_gaps = log_gaps_zero, log_input_gaps = log_gaps_zero,
     log_proxy_join_time = 0, log_vam_actual_join_time = 0, log_vam_desired_join_time = 0\<rparr>"

definition pcm_cands_zero :: pcm_cands where
  "pcm_cands_zero = \<lparr>cd_candidates = replicate (unat VQEC_PCM_MAX_CANDIDATES) \<lparr>ca_seq_num = 0, ca_rcv_ts = 0\<rparr>,
     cd_first_candidate = 0, cd_last_candidate = 0, cd_next_candidate = 0, cd_candidate_bucket_width = 0,
     cd_candidates_recently_checked = False, cd_gap_hold_time = 0, cd_highest_er_seq_num = 0\<rparr>"

text \<open>The memory of a cache after \<open>memset\<close>.\<close>

definition pcm_zero :: vqec_pcm where
  "pcm_zero = \<lparr>pcm_gapmap = None, pcm_pak_seq = None, pcm_head = 0, pcm_tail = 0, pcm_er_enable = False,
     pcm_cfg_er_enable = False, pcm_rcc_enable = False, pcm_fec_enable = False, pcm_underrun_reset_dis = False,
     pcm_dyn_jitter_buf_act = False, pcm_strip_rtp = False, pcm_primary_received = False,
     pcm_repair_received = False, pcm_stats = pcm_stats_zero, pcm_stats_snapshot = pcm_stats_zero,
     pcm_log = pcm_log_zero, pcm_first_prim_log = log_gaps_zero, pcm_delay_from_apps = 0,
     pcm_repair_trigger_time = 0, pcm_reorder_delay = 0, pcm_last_requested_er_seq_num = 0,
     pcm_pktflow_src_seq_num_start_set = False, pcm_pktflow_src_seq_num_start = 0, pcm_inorder_q = [],
     pcm_avg_pkt_time = 0, pcm_default_delay = 0, pcm_fec_delay = 0, pcm_cfg_delay = 0,
     pcm_last_rx_seq_num = 0, pcm_osched = osched_zero, pcm_candidates = pcm_cands_zero,
     pcm_first_er_poll_done = False,
     pcm_fec_info = \<lparr>fi_fec_l_value = 0, fi_fec_d_value = 0,
       fi_fec_order = VQEC_DP_FEC_SENDING_ORDER_NOT_DECIDED, fi_rtp_ts_pkt_time = 0\<rparr>,
     pcm_fec_default_block_size = 0, pcm_prev_seq_num = 0, pcm_prev_rtp_timestamp = 0,
     pcm_new_rtp_ts_pkt_time = 0, pcm_ts_calculation_done = False, pcm_rcc_post_abort_process = False,
     pcm_first_primary_seq = 0, pcm_fast_fill_time = 0, pcm_max_fastfill = 0, pcm_min_backfill = 0,
     pcm_fast_fill_end_time = 0, pcm_dt_repair_end = 0, pcm_total_fast_fill_bytes = 0,
     pcm_repairs_done_cb = False, pcm_repairs_done_notified = False, pcm_pre_prim_outp_stats_done = False,
     pcm_er_en_ts = 0, pcm_tr135_params = \<lparr>tp_gmin = 0, tp_severe_loss_min_distance = 0\<rparr>\<rparr>"

lemma pcm_cands_zero_ok: "cand_ok pcm_cands_zero"
  by (simp add: pcm_cands_zero_def cand_ok_def cand_empty_def VQEC_PCM_MAX_CANDIDATES_def)

end
