(* ===== verification/Pcm_Gaps.thy ===== *)
theory Pcm_Gaps
  imports Pcm_State
begin

text \<open>
  The reports of missing packets, \<^verbatim>\<open>eva/vqec-dp/channel/vqec_pcm.c\<close> lines 267 to 571: a walk over the
  gapmap of the packet cache, which reads 32-bit blocks, skips blocks that are all missing or all
  present, and collects runs of missing numbers in a buffer of limited length; the report of gaps to the
  control plane, which resumes where the last one stopped; and the search with a stride that forward
  error correction uses.
\<close>

subsection \<open>The walk\<close>

record vqec_dp_gap =
  start_seq :: u32
  extent :: u32

definition VQEC_DP_GAP_BUFFER_MAX_GAPS :: u32 where "VQEC_DP_GAP_BUFFER_MAX_GAPS = 32"

record vqec_dp_gap_buffer =
  num_gaps :: u32
  gap_list :: "vqec_dp_gap list"

text \<open>The local variables of the walk that live across rounds, and the output arguments it writes.\<close>

record gap_walk =
  gw_gap_array :: "vqec_dp_gap list"
  gw_buf_idx :: u16
  gw_gap_count :: u16
  gw_midgap :: bool
  gw_first_block :: bool
  gw_cur_block :: u32
  gw_highest_seq :: vqec_seq_num

definition gap_bit_offset :: "u32 \<Rightarrow> u8" where
  "gap_bit_offset gap_idx = ucast (gap_idx AND 0x1f)"

definition gap_fetch_block :: "vqe_bitmap option \<Rightarrow> u32 \<Rightarrow> gap_walk \<Rightarrow> gap_walk option" where
  "gap_fetch_block gapmap gap_idx w =
     (if gw_first_block w \<or> gap_bit_offset gap_idx = 0
      then (case vqe_bitmap_get_block gapmap True gap_idx of
              (VQE_BITMAP_OK, Some b) \<Rightarrow> Some (w\<lparr>gw_cur_block := b, gw_first_block := False\<rparr>)
            | _ \<Rightarrow> None)
      else Some w)"

definition gap_cur_bit :: "u32 \<Rightarrow> gap_walk \<Rightarrow> bool" where
  "gap_cur_bit gap_idx w = (drop_bit (31 - unat (gap_bit_offset gap_idx)) (gw_cur_block w) AND 1 \<noteq> 0)"

text \<open>Whether the rest of a block, which starts at \<open>bit_offset\<close> 0, lies in the range and is all \<open>v\<close>.\<close>

definition whole_block :: "u8 \<Rightarrow> u32 \<Rightarrow> vqec_seq_num \<Rightarrow> u32 \<Rightarrow> u32 \<Rightarrow> bool" where
  "whole_block bit_offset gap_idx seq2 cur_block v =
     (bit_offset = 0 \<and> vqec_seq_num_le (vqec_seq_num_add gap_idx 31) seq2 \<and> cur_block = v)"

text \<open>A missing number starts a gap or extends the current one, by a block or by one number.\<close>

definition gap_extend :: "u32 \<Rightarrow> vqec_seq_num \<Rightarrow> gap_walk \<Rightarrow> u32 \<times> gap_walk" where
  "gap_extend gap_idx seq2 w =
     (let bi = unat (gw_buf_idx w); gaps = gw_gap_array w;
          whole = whole_block (gap_bit_offset gap_idx) gap_idx seq2 (gw_cur_block w) 0
      in if \<not> gw_midgap w
         then let ext = (if whole then 31 else 0)
              in (if whole then vqec_seq_num_add gap_idx 31 else gap_idx,
                  w\<lparr>gw_gap_array := gaps[bi := \<lparr>start_seq = gap_idx, extent = ext\<rparr>],
                    gw_highest_seq := (if whole then vqec_seq_num_add gap_idx ext else gap_idx),
                    gw_gap_count := gw_gap_count w + 1, gw_midgap := True\<rparr>)
         else let step = (if whole then 32 else 1)
              in (if whole then vqec_seq_num_add gap_idx 31 else gap_idx,
                  w\<lparr>gw_gap_array := gaps[bi := (gaps ! bi)\<lparr>extent := extent (gaps ! bi) + step\<rparr>],
                    gw_highest_seq := vqec_seq_num_add (gw_highest_seq w) step\<rparr>))"

datatype gap_step = Gap_error | Gap_full gap_walk | Gap_assert | Gap_next u32 gap_walk

definition gap_round :: "vqe_bitmap option \<Rightarrow> vqec_seq_num \<Rightarrow> u32 \<Rightarrow> u32 \<Rightarrow> gap_walk \<Rightarrow> gap_step" where
  "gap_round gapmap seq2 array_len gap_idx0 w0 =
     (case gap_fetch_block gapmap gap_idx0 w0 of
        None \<Rightarrow> Gap_error
      | Some w1 \<Rightarrow>
          let bit_offset = gap_bit_offset gap_idx0;
              cur_bit = gap_cur_bit gap_idx0 w1;
              (gap_idx, w2) = (if \<not> cur_bit then gap_extend gap_idx0 seq2 w1 else (gap_idx0, w1));
              closes = gw_midgap w2 \<and> cur_bit;
              w3 = (if closes then w2\<lparr>gw_midgap := False, gw_buf_idx := gw_buf_idx w2 + 1\<rparr> else w2)
          in if closes \<and> ucast (gw_buf_idx w3) = array_len then Gap_full w3
             else if whole_block bit_offset gap_idx seq2 (gw_cur_block w3) (- 1)
             then (if gw_midgap w3 then Gap_assert else Gap_next (vqec_seq_num_add gap_idx 31) w3)
             else Gap_next gap_idx w3)"

lemma gap_extend_idx:
  "gap_extend g seq2 w = (g', w') \<Longrightarrow> g' = g \<or> g' = g + 31 \<and> vqec_seq_num_le (g + 31) seq2 \<and> gw_cur_block w = 0"
  by (auto simp: gap_extend_def Let_def whole_block_def vqec_seq_num_add_def split: if_splits)

lemma gap_extend_block: "gap_extend g seq2 w = (g', w') \<Longrightarrow> gw_cur_block w' = gw_cur_block w"
  by (auto simp: gap_extend_def Let_def split: if_splits)

lemma gap_round_idx:
  assumes "gap_round gapmap seq2 array_len g w = Gap_next g' w'"
  shows "g' = g \<or> g' = g + 31 \<and> vqec_seq_num_le (g + 31) seq2"
proof -
  obtain w1 where w1: "gap_fetch_block gapmap g w = Some w1"
    using assms by (cases "gap_fetch_block gapmap g w") (auto simp: gap_round_def)
  obtain g2 w2 where e: "gap_extend g seq2 w1 = (g2, w2)" by (cases "gap_extend g seq2 w1")
  have z: "gw_cur_block w1 = 0 \<Longrightarrow> gw_cur_block w1 \<noteq> - 1" by simp
  show ?thesis
    using assms w1 e gap_extend_idx [OF e] gap_extend_block [OF e] z
    by (auto simp: gap_round_def Let_def whole_block_def vqec_seq_num_add_def split: if_splits)
qed

lemma fdist_plus:
  "fdist (g + k) s = (if unat k \<le> fdist g s then fdist g s - unat k else 2 ^ 32 + fdist g s - unat k)"
proof -
  have "fdist (g + k) s = unat ((s - g) - k)" by (simp only: diff_diff_eq)
  also have "\<dots> = (if unat k \<le> fdist g s then fdist g s - unat k else fdist g s + 2 ^ LENGTH(32) - unat k)"
    by (rule unat_sub_if')
  finally show ?thesis by (simp only: len_num1 len_bit0 len_bit1 add.commute) simp
qed

lemma le_plus_dist:
  assumes "vqec_seq_num_le (g + k) s" "unat k < 2 ^ 31"
  shows "unat k \<le> fdist g s" "fdist (g + k) s = fdist g s - unat k"
proof -
  show "unat k \<le> fdist g s"
    using assms by (simp add: seq_simps fdist_plus split: if_splits)
  then show "fdist (g + k) s = fdist g s - unat k" by (simp add: fdist_plus)
qed

lemma gap_further:
  assumes "g' = g \<or> g' = g + 31 \<and> vqec_seq_num_le (g + 31) seq2"
    and "vqec_seq_num_le (vqec_next_seq_num g') seq2"
  shows "fdist (vqec_next_seq_num g') seq2 < fdist g seq2"
  using assms le_plus_dist [of g' 1 seq2] le_plus_dist [of g 31 seq2]
  by (auto simp: vqec_next_seq_num_def)

record gap_result =
  gr_ret :: s32
  gr_more :: "bool option"
  gr_walk :: gap_walk

text \<open>The output argument \<open>more\<close> is not written on the error return.\<close>

function gap_loop :: "vqe_bitmap option \<Rightarrow> vqec_seq_num \<Rightarrow> u32 \<Rightarrow> u32 \<Rightarrow> gap_walk \<Rightarrow> gap_result outcome" where
  "gap_loop gapmap seq2 array_len gap_idx w =
     (if vqec_seq_num_le gap_idx seq2
      then (case gap_round gapmap seq2 array_len gap_idx w of
              Gap_error \<Rightarrow> Done \<lparr>gr_ret = - 1, gr_more = None, gr_walk = w\<rparr>
            | Gap_full w1 \<Rightarrow> Done \<lparr>gr_ret = ucast (gw_buf_idx w1), gr_more = Some True, gr_walk = w1\<rparr>
            | Gap_assert \<Rightarrow> Assert_failed
            | Gap_next gap_idx1 w1 \<Rightarrow> gap_loop gapmap seq2 array_len (vqec_next_seq_num gap_idx1) w1)
      else Done \<lparr>gr_ret = ucast (gw_gap_count w), gr_more = Some False, gr_walk = w\<rparr>)"
  by pat_completeness auto

termination gap_loop
  by (relation "measure (\<lambda>(gapmap, seq2, array_len, g, w). if vqec_seq_num_le g seq2 then Suc (fdist g seq2) else 0)")
    (auto dest!: gap_round_idx intro: gap_further)

declare gap_loop.simps [simp del]

text \<open>The value of \<open>cur_block\<close> before the first block is read is not used.\<close>

definition vqec_pcm_gap_get_gaps_internal ::
  "vqe_bitmap option \<Rightarrow> vqec_seq_num \<Rightarrow> vqec_seq_num \<Rightarrow> vqec_dp_gap list \<Rightarrow> u32 \<Rightarrow> gap_result outcome" where
  "vqec_pcm_gap_get_gaps_internal gapmap seq1 seq2 gap_array array_len =
     gap_loop gapmap seq2 array_len seq1
       \<lparr>gw_gap_array = gap_array, gw_buf_idx = 0, gw_gap_count = 0, gw_midgap = False, gw_first_block = True,
        gw_cur_block = 0, gw_highest_seq = 0\<rparr>"

subsection \<open>The report of gaps\<close>

definition gap_seq1 :: "vqec_pcm \<Rightarrow> vqec_seq_num" where
  "gap_seq1 pcm =
     (let seq1 = (if vqec_seq_num_gt (pcm_last_requested_er_seq_num pcm) (pcm_head pcm)
                  then vqec_next_seq_num (pcm_last_requested_er_seq_num pcm) else pcm_head pcm)
      in if pcm_pktflow_src_seq_num_start_set pcm \<and> vqec_seq_num_lt seq1 (pcm_pktflow_src_seq_num_start pcm)
         then pcm_pktflow_src_seq_num_start pcm else seq1)"

text \<open>The result is the returned flag, the cache, the buffer and \<open>more\<close>. The sequencer of a working cache
  exists; following a null pointer is a failed assertion.\<close>

definition gap_poll :: "abs_time \<Rightarrow> vqec_pcm \<Rightarrow> vqec_pcm outcome" where
  "gap_poll now pcm =
     (if \<not> pcm_first_er_poll_done pcm
      then bind_out (vqec_pcm_timeout_old_candidates (pcm_candidates pcm) now)
             (\<lambda>c. Done (pcm\<lparr>pcm_candidates := c, pcm_first_er_poll_done := True\<rparr>))
      else Done pcm)"

definition gap_head_ge_last :: "vqec_pcm \<Rightarrow> vqec_pcm" where
  "gap_head_ge_last pcm =
     (if vqec_seq_num_gt (pcm_last_requested_er_seq_num pcm) (pcm_head pcm) then pcm
      else pcm\<lparr>pcm_stats := (pcm_stats pcm)\<lparr>st_head_ge_last_seq := st_head_ge_last_seq (pcm_stats pcm) + 1\<rparr>\<rparr>)"

definition vqec_pcm_gap_get_gaps ::
  "abs_time \<Rightarrow> vqec_pcm \<Rightarrow> vqec_dp_gap_buffer \<Rightarrow> (bool \<times> vqec_pcm \<times> vqec_dp_gap_buffer \<times> bool) outcome" where
  "vqec_pcm_gap_get_gaps now pcm gapbuf =
     (case pcm_pak_seq pcm of
        None \<Rightarrow> Assert_failed
      | Some s \<Rightarrow>
          if vqec_pak_seq_get_num_paks s = 0 then Done (True, pcm, gapbuf\<lparr>num_gaps := 0\<rparr>, False)
          else bind_out (gap_poll now pcm) (\<lambda>pcm1.
            let high_seq = cd_highest_er_seq_num (pcm_candidates pcm1);
                seq1 = gap_seq1 pcm1;
                pcm2 = gap_head_ge_last pcm1;
                pcm3 = (if pcm_pktflow_src_seq_num_start_set pcm2
                        then vqec_pcm_clear_pktflow_src_seq_num_start pcm2 else pcm2)
            in bind_out (vqec_pcm_gap_get_gaps_internal (pcm_gapmap pcm3) seq1 high_seq (gap_list gapbuf)
                           VQEC_DP_GAP_BUFFER_MAX_GAPS) (\<lambda>r.
                 let n = gr_ret r;
                     more = (case gr_more r of None \<Rightarrow> False | Some b \<Rightarrow> b);
                     highest_seq_collected = (if n > 0 then gw_highest_seq (gr_walk r) else high_seq)
                 in Done (True,
                      pcm3\<lparr>pcm_last_requested_er_seq_num := (if more then highest_seq_collected else high_seq)\<rparr>,
                      \<lparr>num_gaps = n, gap_list = gw_gap_array (gr_walk r)\<rparr>, more))))"

subsection \<open>The search with a stride\<close>

record gap_search =
  gs_gap_idx :: vqec_seq_num
  gs_cur_block :: u32
  gs_last_block_idx :: u16
  gs_first_block :: bool
  gs_found :: "vqec_seq_num list"

definition gap_search_fetch :: "vqe_bitmap option \<Rightarrow> gap_search \<Rightarrow> gap_search option" where
  "gap_search_fetch gapmap s =
     (let cur_block_idx = ucast (drop_bit 5 (gs_gap_idx s)) :: u16
      in if gs_first_block s \<or> gs_last_block_idx s \<noteq> cur_block_idx
         then (case vqe_bitmap_get_block gapmap True (gs_gap_idx s) of
                 (VQE_BITMAP_OK, Some b) \<Rightarrow>
                   Some (s\<lparr>gs_cur_block := b, gs_last_block_idx := cur_block_idx, gs_first_block := False\<rparr>)
               | _ \<Rightarrow> None)
         else Some s)"

primrec gap_search_loop :: "nat \<Rightarrow> vqe_bitmap option \<Rightarrow> u8 \<Rightarrow> gap_search \<Rightarrow> gap_search option" where
  "gap_search_loop 0 gapmap stride s = Some s"
| "gap_search_loop (Suc n) gapmap stride s =
     (case gap_search_fetch gapmap s of
        None \<Rightarrow> None
      | Some s1 \<Rightarrow>
          let cur_bit = (drop_bit (31 - unat (gs_gap_idx s1 AND 0x1f)) (gs_cur_block s1) AND 1 \<noteq> 0)
          in gap_search_loop n gapmap stride
               (s1\<lparr>gs_found := (if cur_bit then gs_found s1 else gs_found s1 @ [gs_gap_idx s1]),
                   gs_gap_idx := vqec_seq_num_add (gs_gap_idx s1) (ucast stride)\<rparr>))"

text \<open>The list is what is written to \<open>gap_seq_buf\<close> from its beginning on, and its length the number
  that is returned; a block that cannot be read gives zero.\<close>

definition vqec_pcm_gap_search :: "vqe_bitmap option \<Rightarrow> vqec_seq_num \<Rightarrow> u8 \<Rightarrow> u8 \<Rightarrow> vqec_seq_num list" where
  "vqec_pcm_gap_search gapmap start stride num_paks =
     (if stride = 0 then []
      else case gap_search_loop (unat num_paks) gapmap stride
                  \<lparr>gs_gap_idx = start, gs_cur_block = 0, gs_last_block_idx = 0, gs_first_block = True, gs_found = []\<rparr> of
             None \<Rightarrow> []
           | Some s \<Rightarrow> gs_found s)"

subsection \<open>Blocks\<close>

definition gblock :: "vqe_bitmap \<Rightarrow> u32 \<Rightarrow> u32" where
  "gblock m g = bm_data m ! (unat g mod unat (bm_size m) div 32)"

lemma bitmap_ok_32_dvd: "bitmap_ok m \<Longrightarrow> 32 dvd unat (bm_size m)"
  using bitmap_ok_len(1) [of m] by (metis dvd_triv_left)

lemma get_block_ok: "bitmap_ok m \<Longrightarrow> vqe_bitmap_get_block (Some m) True g = (VQE_BITMAP_OK, Some (gblock m g))"
  by (simp add: vqe_bitmap_get_block_def Let_def idx_block unat_idx gblock_def)

lemma bm_bit_gblock: "bitmap_ok m \<Longrightarrow> bm_bit m g = bit (gblock m g) (31 - unat g mod 32)"
  using bitmap_ok_32_dvd [of m] by (simp add: bm_bit_def dbit_def gblock_def mod_mod_cancel)

lemma unat_and_1f: "unat (g AND 0x1f :: u32) = unat g mod 32"
proof -
  have "(0x1f :: u32) = mask 5" by (simp add: mask_eq_exp_minus_1)
  then show ?thesis by (simp only: unat_and_mask) simp
qed

lemma unat_plus_in_block:
  assumes "unat g mod 32 + i < 32"
  shows "unat (g + of_nat i :: u32) = unat g + i"
proof -
  have "unat g < 4294967296" using unat_less_pow [of g] by simp
  then have "unat g div 32 < 134217728" by simp
  moreover have "unat g = 32 * (unat g div 32) + unat g mod 32" by simp
  ultimately have "unat g + i < 4294967296" using assms by linarith
  then show ?thesis using assms by (subst unat_add_small) (simp_all add: unat_of_nat_small)
qed

lemma gblock_plus:
  assumes "bitmap_ok m" "unat g mod 32 + i < 32"
  shows "gblock m (g + of_nat i) = gblock m g"
proof -
  let ?k = "unat (bm_size m) div 32"
  have k: "unat (bm_size m) = 32 * ?k" using bitmap_ok_32_dvd [OF assms(1)] by simp
  have d: "x mod unat (bm_size m) div 32 = x div 32 mod ?k" for x
  proof -
    have "x mod (32 * ?k) = 32 * (x div 32 mod ?k) + x mod 32" by (rule mod_mult2_eq)
    then show ?thesis using k by simp
  qed
  have "(unat g + i) div 32 = unat g div 32"
    using assms(2) div_add1_eq [of "unat g" i 32] by (simp add: div_mod_decomp)
  then show ?thesis unfolding gblock_def d unat_plus_in_block [OF assms(2)] by simp
qed

subsection \<open>The runs of missing numbers, number by number\<close>

fun gap_runs :: "(u32 \<Rightarrow> bool) \<Rightarrow> u32 \<Rightarrow> nat \<Rightarrow> vqec_dp_gap option \<Rightarrow> vqec_dp_gap list" where
  "gap_runs miss g 0 None = []"
| "gap_runs miss g 0 (Some c) = [c]"
| "gap_runs miss g (Suc n) None =
     (if miss g then gap_runs miss (g + 1) n (Some \<lparr>start_seq = g, extent = 0\<rparr>) else gap_runs miss (g + 1) n None)"
| "gap_runs miss g (Suc n) (Some c) =
     (if miss g then gap_runs miss (g + 1) n (Some (c\<lparr>extent := extent c + 1\<rparr>)) else c # gap_runs miss (g + 1) n None)"

definition seq_list :: "u32 \<Rightarrow> nat \<Rightarrow> u32 list" where
  "seq_list g n = map (\<lambda>i. g + of_nat i) [0..< n]"

lemma seq_list_0 [simp]: "seq_list g 0 = []"
  by (simp add: seq_list_def)

lemma seq_list_Suc: "seq_list g (Suc n) = g # seq_list (g + 1) n"
  unfolding seq_list_def map_upt_Suc by (simp add: add.assoc)

lemma seq_list_snoc: "seq_list g (Suc n) = seq_list g n @ [g + of_nat n]"
  by (simp add: seq_list_def)

definition gap_nums :: "vqec_dp_gap \<Rightarrow> u32 list" where
  "gap_nums c = seq_list (start_seq c) (Suc (unat (extent c)))"

definition gap_end :: "vqec_dp_gap \<Rightarrow> u32" where
  "gap_end c = start_seq c + extent c"

lemma gap_nums_single [simp]: "gap_nums \<lparr>start_seq = g, extent = 0\<rparr> = [g]"
  by (simp add: gap_nums_def seq_list_def)

lemma gap_nums_extend:
  "unat (extent c) + 1 < 2 ^ 32 \<Longrightarrow> gap_nums (c\<lparr>extent := extent c + 1\<rparr>) = gap_nums c @ [gap_end c + 1]"
proof -
  assume "unat (extent c) + 1 < 2 ^ 32"
  then have "unat (extent c + 1) = Suc (unat (extent c))" by (subst unat_add_small) simp_all
  then show ?thesis by (simp add: gap_nums_def gap_end_def seq_list_snoc add.assoc)
qed

abbreviation cur_nums :: "vqec_dp_gap option \<Rightarrow> u32 list" where
  "cur_nums cur \<equiv> (case cur of None \<Rightarrow> [] | Some c \<Rightarrow> gap_nums c)"

text \<open>The first \<open>k\<close> runs hold exactly the missing numbers up to the end of the last of them.\<close>

lemma gap_runs_prefix:
  assumes "0 < k" "k \<le> length (gap_runs miss g n cur)"
    and "\<And>c. cur = Some c \<Longrightarrow> gap_end c + 1 = g \<and> unat (extent c) + n + 1 < 2 ^ 32" and "n < 2 ^ 32"
  shows "\<exists>j \<le> n. (cur = None \<longrightarrow> 0 < j) \<and>
    concat (map gap_nums (take k (gap_runs miss g n cur))) = cur_nums cur @ filter miss (seq_list g j) \<and>
    gap_end (gap_runs miss g n cur ! (k - 1)) + 1 = g + of_nat j"
  using assms
proof (induction miss g n cur arbitrary: k rule: gap_runs.induct)
  case (3 miss g n)
  show ?case
  proof (cases "miss g")
    case True
    obtain j where "j \<le> n" "concat (map gap_nums (take k (gap_runs miss (g + 1) n (Some \<lparr>start_seq = g, extent = 0\<rparr>)))) =
        gap_nums \<lparr>start_seq = g, extent = 0\<rparr> @ filter miss (seq_list (g + 1) j)"
      "gap_end (gap_runs miss (g + 1) n (Some \<lparr>start_seq = g, extent = 0\<rparr>) ! (k - 1)) + 1 = g + 1 + of_nat j"
      using "3.IH"(1) [OF True, of k] "3.prems" True by (auto simp: gap_end_def)
    then show ?thesis
      using True by (intro exI [of _ "Suc j"]) (simp add: seq_list_Suc add.assoc)
  next
    case False
    then show ?thesis
      using "3.IH"(2) [OF False, of k] "3.prems"
      by (auto simp: seq_list_Suc add.assoc intro: exI [of _ "Suc j" for j])
  qed
next
  case (4 miss g n c)
  show ?case
  proof (cases "miss g")
    case True
    let ?c = "c\<lparr>extent := extent c + 1\<rparr>"
    have x: "unat (extent c) + n + 2 < 2 ^ 32" "gap_end c + 1 = g" using "4.prems"(3) by simp_all
    then have u: "unat (extent c + 1) = Suc (unat (extent c))" by (subst unat_add_small) simp_all
    have e: "gap_end ?c + 1 = g + 1" using x(2) by (simp add: gap_end_def add.assoc)
    obtain j where "j \<le> n" "concat (map gap_nums (take k (gap_runs miss (g + 1) n (Some ?c)))) =
        gap_nums ?c @ filter miss (seq_list (g + 1) j)"
      "gap_end (gap_runs miss (g + 1) n (Some ?c) ! (k - 1)) + 1 = g + 1 + of_nat j"
      using "4.IH"(1) [OF True, of k] "4.prems" True x u e by auto
    moreover have "gap_nums ?c = gap_nums c @ [g]" using gap_nums_extend [of c] x by simp
    ultimately show ?thesis
      using True by (intro exI [of _ "Suc j"]) (simp add: seq_list_Suc add.assoc)
  next
    case False
    show ?thesis
    proof (cases "k = 1")
      case True
      then show ?thesis using False "4.prems"(3) by (intro exI [of _ 0]) simp
    next
      case k: False
      then obtain k' where k': "k = Suc k'" "0 < k'" using "4.prems"(1) by (cases k) auto
      obtain j where "j \<le> n" "concat (map gap_nums (take k' (gap_runs miss (g + 1) n None))) =
          filter miss (seq_list (g + 1) j)"
        "gap_end (gap_runs miss (g + 1) n None ! (k' - 1)) + 1 = g + 1 + of_nat j"
        using "4.IH"(2) [OF False, of k'] "4.prems" False k' by auto
      then show ?thesis
        using False k' by (intro exI [of _ "Suc j"]) (auto simp: seq_list_Suc add.assoc nth_Cons')
    qed
  qed
qed auto

lemma gap_runs_nums:
  assumes "\<And>c. cur = Some c \<Longrightarrow> gap_end c + 1 = g \<and> unat (extent c) + n + 1 < 2 ^ 32" and "n < 2 ^ 32"
  shows "concat (map gap_nums (gap_runs miss g n cur)) = cur_nums cur @ filter miss (seq_list g n)"
  using assms
proof (induction miss g n cur rule: gap_runs.induct)
  case (3 miss g n)
  then show ?case by (auto simp: seq_list_Suc gap_end_def)
next
  case (4 miss g n c)
  have x: "unat (extent c) + n + 2 < 2 ^ 32" "gap_end c + 1 = g" using "4.prems"(1) by simp_all
  then have u: "unat (extent c + 1) = Suc (unat (extent c))" by (subst unat_add_small) simp_all
  have e: "gap_end (c\<lparr>extent := extent c + 1\<rparr>) + 1 = g + 1" using x(2) by (simp add: gap_end_def add.assoc)
  have "gap_nums (c\<lparr>extent := extent c + 1\<rparr>) = gap_nums c @ [g]" using gap_nums_extend [of c] x by simp
  then show ?case using 4 u e x by (auto simp: seq_list_Suc)
qed auto

text \<open>Skipping over numbers that are all present or all missing.\<close>

lemma gap_runs_present:
  "(\<And>i. i < k \<Longrightarrow> \<not> miss (g + of_nat i)) \<Longrightarrow> gap_runs miss g (k + n) None = gap_runs miss (g + of_nat k) n None"
proof (induction k arbitrary: g)
  case (Suc k)
  have "\<not> miss g" using Suc.prems [of 0] by simp
  moreover have "gap_runs miss (g + 1) (k + n) None = gap_runs miss (g + 1 + of_nat k) n None"
    by (rule Suc.IH) (use Suc.prems [of "Suc _"] in \<open>simp add: add.assoc\<close>)
  ultimately show ?case by (simp add: add.assoc)
qed simp

lemma gap_runs_missing:
  "(\<And>i. i < k \<Longrightarrow> miss (g + of_nat i)) \<Longrightarrow>
   gap_runs miss g (k + n) (Some c) = gap_runs miss (g + of_nat k) n (Some (c\<lparr>extent := extent c + of_nat k\<rparr>))"
proof (induction k arbitrary: g c)
  case (Suc k)
  have "miss g" using Suc.prems [of 0] by simp
  moreover have "gap_runs miss (g + 1) (k + n) (Some (c\<lparr>extent := extent c + 1\<rparr>)) =
      gap_runs miss (g + 1 + of_nat k) n (Some (c\<lparr>extent := extent c + 1 + of_nat k\<rparr>))"
    using Suc.IH [of "g + 1" "c\<lparr>extent := extent c + 1\<rparr>"] Suc.prems [of "Suc _"] by (simp add: add.assoc)
  ultimately show ?case by (simp add: add.assoc)
qed simp

lemma gap_runs_miss:
  assumes "\<And>i. i < Suc k \<Longrightarrow> miss (g + of_nat i)"
  shows "gap_runs miss g (Suc k + n) cur = gap_runs miss (g + of_nat (Suc k)) n
    (Some (case cur of None \<Rightarrow> \<lparr>start_seq = g, extent = of_nat k\<rparr> | Some c \<Rightarrow> c\<lparr>extent := extent c + of_nat (Suc k)\<rparr>))"
proof (cases cur)
  case None
  have "miss g" using assms [of 0] by simp
  moreover have "gap_runs miss (g + 1) (k + n) (Some \<lparr>start_seq = g, extent = 0\<rparr>) =
      gap_runs miss (g + 1 + of_nat k) n (Some (\<lparr>start_seq = g, extent = 0\<rparr>\<lparr>extent := extent \<lparr>start_seq = g, extent = 0\<rparr> + of_nat k\<rparr>))"
    by (rule gap_runs_missing) (use assms [of "Suc _"] in \<open>simp add: add.assoc\<close>)
  ultimately show ?thesis using None by (simp add: add.assoc)
next
  case (Some c)
  then show ?thesis using gap_runs_missing [of "Suc k" miss g n c] assms by simp
qed

lemma gap_runs_pres:
  assumes "\<And>i. i < Suc k \<Longrightarrow> \<not> miss (g + of_nat i)"
  shows "gap_runs miss g (Suc k + n) cur =
    (case cur of None \<Rightarrow> [] | Some c \<Rightarrow> [c]) @ gap_runs miss (g + of_nat (Suc k)) n None"
proof (cases cur)
  case None
  then show ?thesis using gap_runs_present [of "Suc k" miss g n] assms by simp
next
  case (Some c)
  have "\<not> miss g" using assms [of 0] by simp
  moreover have "gap_runs miss (g + 1) (k + n) None = gap_runs miss (g + 1 + of_nat k) n None"
    by (rule gap_runs_present) (use assms [of "Suc _"] in \<open>simp add: add.assoc\<close>)
  ultimately show ?thesis using Some by (simp add: add.assoc)
qed

text \<open>Whether a gap is open at the end of the range.\<close>

definition gap_open :: "(u32 \<Rightarrow> bool) \<Rightarrow> u32 \<Rightarrow> nat \<Rightarrow> bool \<Rightarrow> bool" where
  "gap_open miss g n mid = (if n = 0 then mid else miss (g + of_nat (n - 1)))"

lemma gap_open_step:
  assumes "mid' = miss (g + of_nat k)"
  shows "gap_open miss g (Suc k + n) mid = gap_open miss (g + of_nat (Suc k)) n mid'"
proof (cases n)
  case (Suc n')
  then have "g + of_nat (Suc k + n - 1) = g + of_nat (Suc k) + of_nat (n - 1)" by simp
  then show ?thesis using Suc by (simp only: gap_open_def) simp
qed (simp add: gap_open_def assms)

lemma gap_runs_Some_ne: "gap_runs miss g n (Some c) \<noteq> []"
  by (induction n arbitrary: g c) simp_all

lemma gap_open_ne: "gap_open miss g n False \<Longrightarrow> gap_runs miss g n None \<noteq> []"
proof (induction n arbitrary: g)
  case (Suc n)
  show ?case
  proof (cases "miss g")
    case False
    then have "gap_open miss (g + 1) n False" using Suc.prems gap_open_step [of False miss g 0 n False] by simp
    then show ?thesis using Suc.IH False by simp
  qed (simp add: gap_runs_Some_ne)
qed (simp add: gap_open_def)

subsection \<open>The walk follows the runs\<close>

abbreviation gap_missing :: "vqe_bitmap \<Rightarrow> u32 \<Rightarrow> bool" where
  "gap_missing m g \<equiv> \<not> bm_bit m g"

definition gap_left :: "u32 \<Rightarrow> u32 \<Rightarrow> nat" where
  "gap_left g seq2 = (if vqec_seq_num_le g seq2 then Suc (fdist g seq2) else 0)"

definition gw_cur :: "gap_walk \<Rightarrow> vqec_dp_gap option" where
  "gw_cur w = (if gw_midgap w then Some (gw_gap_array w ! unat (gw_buf_idx w)) else None)"

definition gw_closed :: "gap_walk \<Rightarrow> vqec_dp_gap list" where
  "gw_closed w = take (unat (gw_buf_idx w)) (gw_gap_array w)"

abbreviation cur_list :: "'a option \<Rightarrow> 'a list" where
  "cur_list cur \<equiv> (case cur of None \<Rightarrow> [] | Some c \<Rightarrow> [c])"

definition last_end :: "vqec_dp_gap list \<Rightarrow> u32" where
  "last_end xs = (if xs = [] then 0 else gap_end (last xs))"

definition walk_ok :: "vqe_bitmap \<Rightarrow> u32 \<Rightarrow> u32 \<Rightarrow> gap_walk \<Rightarrow> bool" where
  "walk_ok m len g w \<longleftrightarrow> unat (gw_buf_idx w) < unat len \<and> unat len < 2 ^ 16 \<and> length (gw_gap_array w) = unat len \<and>
     unat (gw_gap_count w) = unat (gw_buf_idx w) + (if gw_midgap w then 1 else 0) \<and>
     (gw_first_block w \<or> unat g mod 32 = 0 \<or> gw_cur_block w = gblock m g) \<and>
     gw_highest_seq w = last_end (gw_closed w @ cur_list (gw_cur w))"

definition walk_runs :: "vqe_bitmap \<Rightarrow> u32 \<Rightarrow> u32 \<Rightarrow> gap_walk \<Rightarrow> vqec_dp_gap list" where
  "walk_runs m seq2 g w = gw_closed w @ gap_runs (gap_missing m) g (gap_left g seq2) (gw_cur w)"

lemma unat_gap_bit_offset: "unat (gap_bit_offset g) = unat g mod 32"
proof -
  have "unat (ucast (g AND 0x1f) :: u8) = unat (g AND 0x1f) mod 256" by (simp add: unsigned_ucast_eq take_bit_eq_mod)
  then show ?thesis by (simp add: gap_bit_offset_def unat_and_1f)
qed

lemma gap_bit_offset_0: "gap_bit_offset g = 0 \<longleftrightarrow> unat g mod 32 = 0"
  by (metis unat_eq_zero unat_gap_bit_offset)

abbreviation gap_fetched :: "vqe_bitmap \<Rightarrow> u32 \<Rightarrow> gap_walk \<Rightarrow> gap_walk" where
  "gap_fetched m g w \<equiv> w\<lparr>gw_cur_block := gblock m g, gw_first_block := False\<rparr>"

lemma gap_fetch_ok:
  assumes "bitmap_ok m" "walk_ok m len g w"
  shows "gap_fetch_block (Some m) g w = Some (gap_fetched m g w)"
  using assms by (auto simp: gap_fetch_block_def get_block_ok gap_bit_offset_0 walk_ok_def)

lemma gap_cur_bit_ok: "bitmap_ok m \<Longrightarrow> gap_cur_bit g (gap_fetched m g w) = bm_bit m g"
  by (simp add: gap_cur_bit_def test_bit_drop unat_gap_bit_offset bm_bit_gblock)

text \<open>The number of numbers that a round handles: a whole block or one.\<close>

definition gap_stride :: "vqe_bitmap \<Rightarrow> u32 \<Rightarrow> u32 \<Rightarrow> nat" where
  "gap_stride m seq2 g =
     (if unat g mod 32 = 0 \<and> vqec_seq_num_le (g + 31) seq2 \<and> (gblock m g = 0 \<or> gblock m g = - 1) then 31 else 0)"

lemma gap_stride_le: "gap_stride m seq2 g \<le> 31"
  by (simp add: gap_stride_def)

lemma gap_stride_same:
  assumes "bitmap_ok m" "i \<le> gap_stride m seq2 g"
  shows "bm_bit m (g + of_nat i) = bm_bit m g"
proof (cases "i = 0")
  case False
  then have s: "unat g mod 32 = 0" "i < 32" "gblock m g = 0 \<or> gblock m g = - 1"
    using assms(2) by (auto simp: gap_stride_def split: if_splits)
  then have "gblock m (g + of_nat i) = gblock m g" using gblock_plus [OF assms(1), of g i] by simp
  then show ?thesis using s(3) by (auto simp: bm_bit_gblock [OF assms(1)])
qed simp

lemma gap_stride_left:
  assumes "vqec_seq_num_le g seq2"
  shows "gap_left g seq2 = Suc (gap_stride m seq2 g) + gap_left (g + of_nat (Suc (gap_stride m seq2 g))) seq2"
proof -
  let ?k = "gap_stride m seq2 g"
  have k: "?k \<le> fdist g seq2"
    using le_plus_dist(1) [of g 31 seq2] by (simp add: gap_stride_def)
  have u: "unat (of_nat (Suc ?k) :: u32) = Suc ?k" using gap_stride_le [of m seq2 g] by (intro unat_of_nat_small) simp
  have d: "fdist g seq2 \<le> 2 ^ 31" using assms by (simp add: seq_simps)
  have "fdist (g + of_nat (Suc ?k)) seq2 = (if Suc ?k \<le> fdist g seq2 then fdist g seq2 - Suc ?k
      else 2 ^ 32 + fdist g seq2 - Suc ?k)"
    unfolding fdist_plus u ..
  then show ?thesis using k d assms by (auto simp: gap_left_def seq_simps)
qed

lemma unat_plus_mod32: "unat (g + of_nat j :: u32) mod 32 = (unat g + j) mod 32"
proof -
  have d: "(32 :: nat) dvd 4294967296" by simp
  have "unat (g + of_nat j :: u32) = (unat g + j) mod 4294967296"
    by (simp add: unat_word_ariths unat_of_nat mod_simps)
  then show ?thesis using mod_mod_cancel [OF d, of "unat g + j"] by simp
qed

lemma gap_stride_block:
  assumes "bitmap_ok m"
  shows "unat (g + of_nat (Suc (gap_stride m seq2 g))) mod 32 = 0 \<or>
    gblock m g = gblock m (g + of_nat (Suc (gap_stride m seq2 g)))"
proof (cases "gap_stride m seq2 g = 0 \<and> unat g mod 32 + 1 < 32")
  case True
  then show ?thesis using gblock_plus [OF assms, of g 1] by simp
next
  case False
  then have "gap_stride m seq2 g = 31 \<and> unat g mod 32 = 0 \<or> gap_stride m seq2 g = 0 \<and> unat g mod 32 = 31"
    by (auto simp: gap_stride_def split: if_splits)
  then have "(unat g + Suc (gap_stride m seq2 g)) mod 32 = 0"
    by (elim disjE conjE) (simp_all add: mod_simps mod_Suc)
  then show ?thesis
    by (simp only: unat_plus_mod32 simp_thms)
qed

lemma gap_round_present:
  assumes "bitmap_ok m" "walk_ok m len g w" "bm_bit m g"
  shows "gap_round (Some m) seq2 len g w =
    (let w1 = gap_fetched m g w;
         w3 = (if gw_midgap w then w1\<lparr>gw_midgap := False, gw_buf_idx := gw_buf_idx w + 1\<rparr> else w1)
     in if gw_midgap w \<and> ucast (gw_buf_idx w3) = len then Gap_full w3
        else Gap_next (g + of_nat (gap_stride m seq2 g)) w3)"
proof -
  have "gblock m g \<noteq> 0" using assms(3) by (auto simp: bm_bit_gblock [OF assms(1)])
  then have "whole_block (gap_bit_offset g) g seq2 (gblock m g) (- 1) \<longleftrightarrow> gap_stride m seq2 g = 31"
    "gap_stride m seq2 g \<noteq> 31 \<Longrightarrow> gap_stride m seq2 g = 0"
    by (auto simp: whole_block_def gap_stride_def gap_bit_offset_0 vqec_seq_num_add_def)
  then show ?thesis
    using gap_fetch_ok [OF assms(1,2)] gap_cur_bit_ok [OF assms(1), of g w] assms(3)
    by (cases "gap_stride m seq2 g = 31") (simp_all add: gap_round_def Let_def vqec_seq_num_add_def)
qed

abbreviation gap_newcur :: "u32 \<Rightarrow> nat \<Rightarrow> vqec_dp_gap option \<Rightarrow> vqec_dp_gap" where
  "gap_newcur g k cur \<equiv> (case cur of None \<Rightarrow> \<lparr>start_seq = g, extent = of_nat k\<rparr>
     | Some c \<Rightarrow> c\<lparr>extent := extent c + of_nat (Suc k)\<rparr>)"

lemma gap_round_missing:
  assumes "bitmap_ok m" "walk_ok m len g w" "\<not> bm_bit m g"
  shows "\<exists>w2. gap_round (Some m) seq2 len g w = Gap_next (g + of_nat (gap_stride m seq2 g)) w2 \<and>
    gw_gap_array w2 = (gw_gap_array w)[unat (gw_buf_idx w) := gap_newcur g (gap_stride m seq2 g) (gw_cur w)] \<and>
    gw_buf_idx w2 = gw_buf_idx w \<and> gw_midgap w2 \<and> \<not> gw_first_block w2 \<and> gw_cur_block w2 = gblock m g \<and>
    gw_gap_count w2 = gw_gap_count w + (if gw_midgap w then 0 else 1) \<and>
    gw_highest_seq w2 = (if gw_midgap w then gw_highest_seq w + of_nat (Suc (gap_stride m seq2 g))
      else g + of_nat (gap_stride m seq2 g))"
proof -
  let ?k = "gap_stride m seq2 g"
  have n1: "gblock m g \<noteq> - 1" using assms(3) by (auto simp: bm_bit_gblock [OF assms(1)])
  then have wh: "whole_block (gap_bit_offset g) g seq2 (gblock m g) 0 \<longleftrightarrow> ?k = 31" "?k \<noteq> 31 \<Longrightarrow> ?k = 0"
    by (auto simp: whole_block_def gap_stride_def gap_bit_offset_0 vqec_seq_num_add_def)
  obtain g2 w2 where e: "gap_extend g seq2 (gap_fetched m g w) = (g2, w2)" by fastforce
  have b: "gw_cur_block w2 = gblock m g" using gap_extend_block [OF e] by simp
  have "gap_round (Some m) seq2 len g w = Gap_next g2 w2"
    using gap_fetch_ok [OF assms(1,2)] gap_cur_bit_ok [OF assms(1), of g w] assms(3) e b n1
    by (simp add: gap_round_def Let_def whole_block_def)
  moreover have "g2 = g + of_nat ?k"
    using e wh by (cases "?k = 31") (auto simp: gap_extend_def Let_def vqec_seq_num_add_def split: if_splits)
  moreover have "gw_gap_array w2 = (gw_gap_array w)[unat (gw_buf_idx w) := gap_newcur g ?k (gw_cur w)] \<and>
    gw_buf_idx w2 = gw_buf_idx w \<and> gw_midgap w2 \<and> \<not> gw_first_block w2 \<and>
    gw_gap_count w2 = gw_gap_count w + (if gw_midgap w then 0 else 1) \<and>
    gw_highest_seq w2 = (if gw_midgap w then gw_highest_seq w + of_nat (Suc ?k) else g + of_nat ?k)"
    using e wh
    by (cases "?k = 31"; cases "gw_midgap w") (auto simp: gap_extend_def Let_def vqec_seq_num_add_def gw_cur_def)
  ultimately show ?thesis using b by blast
qed

lemma gw_closed_length: "walk_ok m len g w \<Longrightarrow> length (gw_closed w) = unat (gw_buf_idx w)"
  by (simp add: gw_closed_def walk_ok_def)

lemma buf_idx_next:
  assumes "walk_ok m len g w"
  shows "unat (gw_buf_idx w + 1) = unat (gw_buf_idx w) + 1"
    "(ucast (gw_buf_idx w + 1) :: u32) = len \<longleftrightarrow> unat (gw_buf_idx w) + 1 = unat len"
proof -
  have b: "unat (gw_buf_idx w) + 1 < 2 ^ 16" using assms by (simp add: walk_ok_def)
  then show u: "unat (gw_buf_idx w + 1) = unat (gw_buf_idx w) + 1" by (subst unat_add_small) simp_all
  show "(ucast (gw_buf_idx w + 1) :: u32) = len \<longleftrightarrow> unat (gw_buf_idx w) + 1 = unat len"
    unfolding word_eq_unat_iff unat_ucast_16_32 u ..
qed

lemma gap_step_missing:
  assumes "bitmap_ok m" "walk_ok m len g w" "\<not> bm_bit m g" "vqec_seq_num_le g seq2"
  shows "\<exists>w2. gap_round (Some m) seq2 len g w = Gap_next (g + of_nat (gap_stride m seq2 g)) w2 \<and>
    walk_ok m len (g + of_nat (Suc (gap_stride m seq2 g))) w2 \<and>
    walk_runs m seq2 (g + of_nat (Suc (gap_stride m seq2 g))) w2 = walk_runs m seq2 g w \<and> gw_midgap w2"
proof -
  let ?k = "gap_stride m seq2 g" and ?bi = "unat (gw_buf_idx w)"
  let ?c = "gap_newcur g ?k (gw_cur w)"
  obtain w2 where w2: "gap_round (Some m) seq2 len g w = Gap_next (g + of_nat ?k) w2"
    "gw_gap_array w2 = (gw_gap_array w)[?bi := ?c]" "gw_buf_idx w2 = gw_buf_idx w" "gw_midgap w2"
    "\<not> gw_first_block w2" "gw_cur_block w2 = gblock m g"
    "gw_gap_count w2 = gw_gap_count w + (if gw_midgap w then 0 else 1)"
    "gw_highest_seq w2 = (if gw_midgap w then gw_highest_seq w + of_nat (Suc ?k) else g + of_nat ?k)"
    using gap_round_missing [OF assms(1-3), of seq2] by (elim exE conjE) (rule that)
  have b: "?bi < unat len" "unat len < 2 ^ 16" "length (gw_gap_array w) = unat len"
    "unat (gw_gap_count w) = ?bi + (if gw_midgap w then 1 else 0)"
    "gw_highest_seq w = last_end (gw_closed w @ cur_list (gw_cur w))"
    using assms(2) by (simp_all add: walk_ok_def)
  have c: "gw_closed w2 = gw_closed w" "gw_cur w2 = Some ?c"
    using w2 b by (simp_all add: gw_closed_def gw_cur_def)
  have n: "unat (gw_gap_count w2) = ?bi + 1"
    using w2(7) b(1,2,4) by (cases "gw_midgap w") (simp_all add: unat_add_small)
  have h: "gw_highest_seq w2 = gap_end ?c"
    using w2(8) b(5) by (simp add: gw_cur_def last_end_def gap_end_def add.assoc)
  have "walk_ok m len (g + of_nat (Suc ?k)) w2"
    using b(1-3) w2 c n h gap_stride_block [OF assms(1), of g seq2] by (simp add: walk_ok_def last_end_def)
  moreover have "walk_runs m seq2 (g + of_nat (Suc ?k)) w2 = walk_runs m seq2 g w"
    using gap_runs_miss [of ?k "gap_missing m" g "gap_left (g + of_nat (Suc ?k)) seq2" "gw_cur w"]
      gap_stride_same [OF assms(1), of _ seq2 g] assms(3) c
    by (simp only: walk_runs_def gap_stride_left [OF assms(4), of m] less_Suc_eq_le) simp
  ultimately show ?thesis using w2(1,4) by blast
qed

lemma gap_step_present:
  assumes "bitmap_ok m" "walk_ok m len g w" "bm_bit m g" "vqec_seq_num_le g seq2"
  shows "\<exists>w3. gw_gap_array w3 = gw_gap_array w \<and> gw_highest_seq w3 = gw_highest_seq w \<and> \<not> gw_midgap w3 \<and>
    walk_runs m seq2 (g + of_nat (Suc (gap_stride m seq2 g))) w3 = walk_runs m seq2 g w \<and>
    gw_closed w3 = gw_closed w @ cur_list (gw_cur w) \<and>
    (if gw_midgap w \<and> unat (gw_buf_idx w) + 1 = unat len
     then gap_round (Some m) seq2 len g w = Gap_full w3 \<and> unat (gw_buf_idx w3) = unat len
     else gap_round (Some m) seq2 len g w = Gap_next (g + of_nat (gap_stride m seq2 g)) w3 \<and>
       walk_ok m len (g + of_nat (Suc (gap_stride m seq2 g))) w3)"
proof -
  let ?k = "gap_stride m seq2 g" and ?bi = "unat (gw_buf_idx w)"
  let ?w1 = "gap_fetched m g w"
  let ?w3 = "if gw_midgap w then ?w1\<lparr>gw_midgap := False, gw_buf_idx := gw_buf_idx w + 1\<rparr> else ?w1"
  have b: "?bi < unat len" "unat len < 2 ^ 16" "length (gw_gap_array w) = unat len"
    "unat (gw_gap_count w) = ?bi + (if gw_midgap w then 1 else 0)"
    "gw_highest_seq w = last_end (gw_closed w @ cur_list (gw_cur w))"
    using assms(2) by (simp_all add: walk_ok_def)
  have c: "gw_closed ?w3 = gw_closed w @ cur_list (gw_cur w)" "gw_cur ?w3 = None" "\<not> gw_midgap ?w3"
    "gw_gap_array ?w3 = gw_gap_array w" "gw_highest_seq ?w3 = gw_highest_seq w" "\<not> gw_first_block ?w3"
    "gw_cur_block ?w3 = gblock m g" "gw_gap_count ?w3 = gw_gap_count w"
    using b(1,3) by (auto simp: gw_closed_def gw_cur_def buf_idx_next [OF assms(2)] take_Suc_conv_app_nth)
  have i: "unat (gw_buf_idx ?w3) = ?bi + (if gw_midgap w then 1 else 0)"
    using buf_idx_next(1) [OF assms(2)] by simp
  have r: "walk_runs m seq2 (g + of_nat (Suc ?k)) ?w3 = walk_runs m seq2 g w"
    using gap_runs_pres [of ?k "gap_missing m" g "gap_left (g + of_nat (Suc ?k)) seq2" "gw_cur w"]
      gap_stride_same [OF assms(1), of _ seq2 g] assms(3) c(1,2)
    by (simp only: walk_runs_def gap_stride_left [OF assms(4), of m] less_Suc_eq_le) simp
  have "walk_ok m len (g + of_nat (Suc ?k)) ?w3" if nf: "\<not> (gw_midgap w \<and> ?bi + 1 = unat len)"
    unfolding walk_ok_def c(1-8) i
    using nf b gap_stride_block [OF assms(1), of g seq2] by (auto simp: c(3))
  then show ?thesis
    using gap_round_present [OF assms(1-3), of seq2] r c i buf_idx_next [OF assms(2)]
    by (intro exI [of _ ?w3]) (simp add: Let_def)
qed

definition gap_post :: "u32 \<Rightarrow> vqec_dp_gap list \<Rightarrow> bool \<Rightarrow> gap_result \<Rightarrow> bool" where
  "gap_post len R opened r \<longleftrightarrow>
     length (gw_gap_array (gr_walk r)) = unat len \<and>
     (if unat len \<le> length R - (if opened then 1 else 0)
      then gr_ret r = len \<and> gr_more r = Some True \<and> take (unat len) (gw_gap_array (gr_walk r)) = take (unat len) R \<and>
        gw_highest_seq (gr_walk r) = gap_end (R ! (unat len - 1))
      else gr_ret r = of_nat (length R) \<and> gr_more r = Some False \<and> length R \<le> unat len \<and>
        take (length R) (gw_gap_array (gr_walk r)) = R \<and> gw_highest_seq (gr_walk r) = last_end R)"

lemma gap_post_full:
  assumes "walk_ok m len g w" "bitmap_ok m" "bm_bit m g" "vqec_seq_num_le g seq2" "gw_midgap w"
    and "unat (gw_buf_idx w) + 1 = unat len"
    and "gw_gap_array w3 = gw_gap_array w" "gw_highest_seq w3 = gw_highest_seq w" "\<not> gw_midgap w3"
    and "walk_runs m seq2 g' w3 = walk_runs m seq2 g w" "gw_closed w3 = gw_closed w @ cur_list (gw_cur w)"
    and "unat (gw_buf_idx w3) = unat len"
  shows "gap_post len (walk_runs m seq2 g w) (gap_open (gap_missing m) g' (gap_left g' seq2) False)
    \<lparr>gr_ret = ucast (gw_buf_idx w3), gr_more = Some True, gr_walk = w3\<rparr>"
proof -
  let ?T = "gap_runs (gap_missing m) g' (gap_left g' seq2) None"
  let ?C = "gw_closed w3"
  have R: "walk_runs m seq2 g w = ?C @ ?T" using assms(9,10) by (simp add: walk_runs_def gw_cur_def)
  have l: "length ?C = unat len" using gw_closed_length [OF assms(1)] assms(5,6,11) by (simp add: gw_cur_def)
  have t: "take (unat len) (gw_gap_array w3) = ?C" using assms(12) by (simp add: gw_closed_def)
  have "length (gw_gap_array w3) = unat len" using assms(1,7) by (simp add: walk_ok_def)
  moreover have "unat len \<le> length (?C @ ?T) - (if gap_open (gap_missing m) g' (gap_left g' seq2) False then 1 else 0)"
    using gap_open_ne [of "gap_missing m" g' "gap_left g' seq2"] l by (cases ?T) auto
  moreover have "(ucast (gw_buf_idx w3) :: u32) = len"
    unfolding word_eq_unat_iff unat_ucast_16_32 by (rule assms(12))
  moreover have "gw_highest_seq w3 = gap_end ((?C @ ?T) ! (unat len - 1))"
  proof -
    have ne: "?C \<noteq> []" using l assms(6) by auto
    have "gw_highest_seq w3 = last_end ?C" using assms(1,8,11) by (simp add: walk_ok_def)
    then have "gw_highest_seq w3 = gap_end (last ?C)" using ne by (simp add: last_end_def)
    moreover have "unat len - 1 < length ?C" using l assms(6) by simp
    ultimately show ?thesis using ne l by (simp add: last_conv_nth nth_append)
  qed
  ultimately show ?thesis unfolding gap_post_def R using l t by simp
qed

lemma gap_loop_ok:
  assumes "bitmap_ok m" "walk_ok m len g w"
  shows "\<exists>r. gap_loop (Some m) seq2 len g w = Done r \<and>
    gap_post len (walk_runs m seq2 g w) (gap_open (gap_missing m) g (gap_left g seq2) (gw_midgap w)) r"
  using assms(2)
proof (induction "gap_left g seq2" arbitrary: g w rule: less_induct)
  case less
  show ?case
  proof (cases "vqec_seq_num_le g seq2")
    case False
    let ?r = "\<lparr>gr_ret = ucast (gw_gap_count w), gr_more = Some False, gr_walk = w\<rparr>"
    have l: "gap_loop (Some m) seq2 len g w = Done ?r" using False by (simp add: gap_loop.simps)
    have z: "gap_left g seq2 = 0" using False by (simp add: gap_left_def)
    have R: "walk_runs m seq2 g w = gw_closed w @ cur_list (gw_cur w)"
      using z by (cases "gw_cur w") (simp_all add: walk_runs_def)
    have b: "unat (gw_buf_idx w) < unat len" "length (gw_gap_array w) = unat len"
      "unat (gw_gap_count w) = unat (gw_buf_idx w) + (if gw_midgap w then 1 else 0)"
      "gw_highest_seq w = last_end (gw_closed w @ cur_list (gw_cur w))"
      using less.prems by (simp_all add: walk_ok_def)
    have n: "length (gw_closed w @ cur_list (gw_cur w)) = unat (gw_gap_count w)"
      using gw_closed_length [OF less.prems] b(3) by (simp add: gw_cur_def)
    have t: "take (unat (gw_gap_count w)) (gw_gap_array w) = gw_closed w @ cur_list (gw_cur w)"
      using b(1,2,3) by (simp add: gw_closed_def gw_cur_def take_Suc_conv_app_nth)
    have f: "(unat len \<le> unat (gw_gap_count w) - (if gw_midgap w then 1 else 0)) = False" "unat (gw_gap_count w) \<le> unat len"
      using b(1,3) by auto
    have u: "(ucast (gw_gap_count w) :: u32) = of_nat (unat (gw_gap_count w))" by simp
    have "gap_post len (walk_runs m seq2 g w) (gw_midgap w) ?r"
      unfolding gap_post_def R n f(1) if_False gap_result.simps using b(2,4) t u f(2) by blast
    then show ?thesis using l z by (simp add: gap_open_def)
  next
    case True
    let ?k = "gap_stride m seq2 g"
    let ?g = "g + of_nat (Suc ?k)"
    have left: "gap_left g seq2 = Suc ?k + gap_left ?g seq2" by (rule gap_stride_left [OF True])
    have smaller: "gap_left ?g seq2 < gap_left g seq2" using left by simp
    have nxt: "vqec_next_seq_num (g + of_nat ?k) = ?g" by (simp add: vqec_next_seq_num_def add.commute add.left_commute)
    have same: "bm_bit m (g + of_nat ?k) = bm_bit m g" by (rule gap_stride_same [OF assms(1) order_refl])
    have go: "gap_open (gap_missing m) g (gap_left g seq2) (gw_midgap w) =
        gap_open (gap_missing m) ?g (gap_left ?g seq2) mid" if mm: "mid = (\<not> bm_bit m g)" for mid
      unfolding left by (rule gap_open_step) (simp add: mm same)
    show ?thesis
    proof (cases "bm_bit m g")
      case False
      obtain w2 where w2: "gap_round (Some m) seq2 len g w = Gap_next (g + of_nat ?k) w2" "walk_ok m len ?g w2"
          "walk_runs m seq2 ?g w2 = walk_runs m seq2 g w" "gw_midgap w2"
        using gap_step_missing [OF assms(1) less.prems False True] by (elim exE conjE) (rule that)
      have "gap_loop (Some m) seq2 len g w = gap_loop (Some m) seq2 len ?g w2"
        using w2(1) True nxt by (subst gap_loop.simps) simp
      then show ?thesis using less.hyps [OF smaller w2(2)] w2(3,4) go [of True] False by simp
    next
      case present: True
      obtain w3 where w3: "gw_gap_array w3 = gw_gap_array w" "gw_highest_seq w3 = gw_highest_seq w" "\<not> gw_midgap w3"
          "walk_runs m seq2 ?g w3 = walk_runs m seq2 g w" "gw_closed w3 = gw_closed w @ cur_list (gw_cur w)"
          "if gw_midgap w \<and> unat (gw_buf_idx w) + 1 = unat len
           then gap_round (Some m) seq2 len g w = Gap_full w3 \<and> unat (gw_buf_idx w3) = unat len
           else gap_round (Some m) seq2 len g w = Gap_next (g + of_nat ?k) w3 \<and> walk_ok m len ?g w3"
        using gap_step_present [OF assms(1) less.prems present True] by (elim exE conjE) (rule that)
      show ?thesis
      proof (cases "gw_midgap w \<and> unat (gw_buf_idx w) + 1 = unat len")
        case full: True
        then have "gap_round (Some m) seq2 len g w = Gap_full w3" "unat (gw_buf_idx w3) = unat len" using w3(6) by simp_all
        then show ?thesis
          using gap_post_full [OF less.prems assms(1) present True _ _ w3(1-5)] full go [of False] present True
          by (subst gap_loop.simps) simp
      next
        case False
        then have n: "gap_round (Some m) seq2 len g w = Gap_next (g + of_nat ?k) w3" "walk_ok m len ?g w3"
          using w3(6) by (simp_all only: if_False)
        have "gap_loop (Some m) seq2 len g w = gap_loop (Some m) seq2 len ?g w3"
          using n(1) True nxt by (subst gap_loop.simps) simp
        then show ?thesis using less.hyps [OF smaller n(2)] w3(3,4) go [of False] present by simp
      qed
    qed
  qed
qed

text \<open>The numbers from \<open>a\<close> to \<open>b\<close>.\<close>

definition seq_range :: "vqec_seq_num \<Rightarrow> vqec_seq_num \<Rightarrow> vqec_seq_num list" where
  "seq_range a b = seq_list a (gap_left a b)"

definition missing_runs :: "vqe_bitmap \<Rightarrow> vqec_seq_num \<Rightarrow> vqec_seq_num \<Rightarrow> vqec_dp_gap list" where
  "missing_runs m a b = gap_runs (gap_missing m) a (gap_left a b) None"

lemma gap_left_le: "gap_left a b \<le> 2 ^ 31 + 1"
  by (simp add: gap_left_def seq_simps)

lemma internal_ok:
  assumes "bitmap_ok m" "length gap_array = unat len" "0 < len" "unat len < 2 ^ 16"
  shows "\<exists>r. vqec_pcm_gap_get_gaps_internal (Some m) seq1 seq2 gap_array len = Done r \<and>
    gap_post len (missing_runs m seq1 seq2) (vqec_seq_num_le seq1 seq2 \<and> \<not> bm_bit m seq2) r"
proof -
  let ?w = "\<lparr>gw_gap_array = gap_array, gw_buf_idx = 0, gw_gap_count = 0, gw_midgap = False, gw_first_block = True,
        gw_cur_block = 0, gw_highest_seq = 0\<rparr>"
  have "walk_ok m len seq1 ?w"
    using assms(2-4) by (simp add: walk_ok_def gw_closed_def gw_cur_def last_end_def unat_gt_0 word_neq_0_conv)
  moreover have "gap_open (gap_missing m) seq1 (gap_left seq1 seq2) False = (vqec_seq_num_le seq1 seq2 \<and> \<not> bm_bit m seq2)"
    by (simp add: gap_open_def gap_left_def)
  moreover have "walk_runs m seq2 seq1 ?w = missing_runs m seq1 seq2"
    by (simp add: walk_runs_def missing_runs_def gw_closed_def gw_cur_def)
  ultimately show ?thesis
    using gap_loop_ok [OF assms(1), of len seq1 ?w seq2] by (simp add: vqec_pcm_gap_get_gaps_internal_def)
qed

lemma gap_post_ret:
  assumes "gap_post len R opened r" "unat len < 2 ^ 16"
  shows "unat (gr_ret r) = min (unat len) (length R)"
    "take (unat (gr_ret r)) (gw_gap_array (gr_walk r)) = take (unat (gr_ret r)) R"
    "gr_more r = Some (unat len \<le> length R - (if opened then 1 else 0))"
    "R \<noteq> [] \<Longrightarrow> 0 < len \<Longrightarrow> gw_highest_seq (gr_walk r) = gap_end (R ! (unat (gr_ret r) - 1))"
proof -
  let ?f = "unat len \<le> length R - (if opened then 1 else 0)"
  have l: "\<not> ?f \<Longrightarrow> length R \<le> unat len" using assms(1) by (simp only: gap_post_def if_False)
  have ret: "unat (gr_ret r) = (if ?f then unat len else length R)"
  proof (cases ?f)
    case True
    then show ?thesis using assms(1) by (simp only: gap_post_def if_True)
  next
    case False
    then have "gr_ret r = of_nat (length R)" using assms(1) by (simp only: gap_post_def if_False)
    moreover have "length R < 2 ^ 32" using l [OF False] assms(2) by simp
    ultimately show ?thesis using False by (simp add: unat_of_nat_small)
  qed
  show "unat (gr_ret r) = min (unat len) (length R)"
    using ret l by (cases ?f) (auto simp: min_def)
  show "take (unat (gr_ret r)) (gw_gap_array (gr_walk r)) = take (unat (gr_ret r)) R"
    using assms(1) ret by (cases ?f) (simp_all add: gap_post_def)
  show "gr_more r = Some ?f" using assms(1) by (cases ?f) (simp_all add: gap_post_def)
  show "gw_highest_seq (gr_walk r) = gap_end (R ! (unat (gr_ret r) - 1))" if ne: "R \<noteq> []" "0 < len"
    using assms(1) ret ne by (cases ?f) (simp_all add: gap_post_def last_end_def last_conv_nth)
qed

subsection \<open>Properties\<close>

text \<open>C16: the walk over the gapmap, which reads 32 bits at a time and skips blocks that are all missing or
  all present, finds the same runs of missing numbers as a walk number by number: as many as fit into the
  buffer, in order, and \<open>more\<close> says whether the buffer was filled by complete runs. It ends without an
  error or a failed assertion for every range, through the wrap-around of the numbers and of the map.\<close>

theorem gap_walk_equivalence:
  assumes "bitmap_ok m" "length gap_array = unat len" "0 < len" "unat len < 2 ^ 16"
  shows "\<exists>r. vqec_pcm_gap_get_gaps_internal (Some m) seq1 seq2 gap_array len = Done r \<and>
    unat (gr_ret r) = min (unat len) (length (missing_runs m seq1 seq2)) \<and>
    take (unat (gr_ret r)) (gw_gap_array (gr_walk r)) = take (unat len) (missing_runs m seq1 seq2) \<and>
    gr_more r = Some (unat len + (if vqec_seq_num_le seq1 seq2 \<and> \<not> bm_bit m seq2 then 1 else 0)
      \<le> length (missing_runs m seq1 seq2))"
proof -
  obtain r where r: "vqec_pcm_gap_get_gaps_internal (Some m) seq1 seq2 gap_array len = Done r"
    "gap_post len (missing_runs m seq1 seq2) (vqec_seq_num_le seq1 seq2 \<and> \<not> bm_bit m seq2) r"
    using internal_ok [OF assms] by blast
  note p = gap_post_ret [OF r(2) assms(4)]
  have pos: "0 < unat len" using assms(3) by (simp add: unat_gt_0 word_neq_0_conv)
  have "gr_more r = Some (unat len + (if vqec_seq_num_le seq1 seq2 \<and> \<not> bm_bit m seq2 then 1 else 0)
      \<le> length (missing_runs m seq1 seq2))"
    using p(3) pos by auto
  then show ?thesis using r(1) p(1,2) by (intro exI [of _ r]) (simp add: min_def)
qed

definition gapmap_sample :: vqe_bitmap where
  "gapmap_sample = \<lparr>bm_data = [0xf0ffffff, 0, 0xffffffff, 0xfffffffe], bm_size = 128\<rparr>"

lemma gapmap_sample_ok: "bitmap_ok gapmap_sample"
proof -
  have "(128 :: nat) = (\<lambda>k. 2 ^ k) 7" by simp
  then have "(128 :: nat) \<in> (\<lambda>k. 2 ^ k) ` {5..16}" by (rule image_eqI) simp
  then show ?thesis by (simp add: bitmap_ok_def gapmap_sample_def)
qed

abbreviation gap_buffer_sample :: "vqec_dp_gap list" where
  "gap_buffer_sample \<equiv> replicate 2 \<lparr>start_seq = 0, extent = 0\<rparr>"

theorem gap_walk_equivalence_witness:
  "\<exists>r. vqec_pcm_gap_get_gaps_internal (Some gapmap_sample) 0 15 gap_buffer_sample 2 = Done r \<and>
     gr_ret r = 1 \<and> hd (gw_gap_array (gr_walk r)) = \<lparr>start_seq = 4, extent = 3\<rparr>"
proof -
  have "missing_runs gapmap_sample 0 15 = [\<lparr>start_seq = 4, extent = 3\<rparr>]" by code_simp
  then obtain r where r: "vqec_pcm_gap_get_gaps_internal (Some gapmap_sample) 0 15 gap_buffer_sample 2 = Done r"
    "unat (gr_ret r) = 1" "take 1 (gw_gap_array (gr_walk r)) = [\<lparr>start_seq = 4, extent = 3\<rparr>]"
    using gap_walk_equivalence [OF gapmap_sample_ok, of gap_buffer_sample 2 0 15] by auto
  have "gr_ret r = 1" using r(2) by (simp add: word_eq_unat_iff)
  moreover have "hd (gw_gap_array (gr_walk r)) = \<lparr>start_seq = 4, extent = 3\<rparr>"
    using r(3) by (cases "gw_gap_array (gr_walk r)") simp_all
  ultimately show ?thesis using r(1) by blast
qed

lemma runs_nums_all:
  "concat (map gap_nums (missing_runs m a b)) = filter (gap_missing m) (seq_range a b)"
  using gap_runs_nums [of None a "gap_left a b" "gap_missing m"] gap_left_le [of a b]
  by (simp add: missing_runs_def seq_range_def)

lemma runs_nums_prefix:
  assumes "0 < k" "k \<le> length (missing_runs m a b)"
  shows "concat (map gap_nums (take k (missing_runs m a b))) =
    filter (gap_missing m) (seq_range a (gap_end (missing_runs m a b ! (k - 1))))"
proof -
  let ?e = "gap_end (missing_runs m a b ! (k - 1))"
  obtain j where j: "j \<le> gap_left a b" "0 < j"
    "concat (map gap_nums (take k (missing_runs m a b))) = filter (gap_missing m) (seq_list a j)"
    "?e + 1 = a + of_nat j"
    using gap_runs_prefix [of k "gap_missing m" a "gap_left a b" None] assms gap_left_le [of a b]
    by (auto simp: missing_runs_def)
  obtain i where i: "j = Suc i" using j(2) by (cases j) auto
  have "?e = a + of_nat i" using j(4) i by (simp add: algebra_simps)
  then have "fdist a ?e = unat (of_nat i :: u32)" by simp
  also have "\<dots> = i" using j(1) i gap_left_le [of a b] by (intro unat_of_nat_small) simp
  finally have "gap_left a ?e = j" using i j(1) gap_left_le [of a b] by (simp add: gap_left_def seq_simps)
  then show ?thesis using j(3) by (simp add: seq_range_def)
qed

lemma gap_poll_ok:
  assumes "cand_ok (pcm_candidates pcm)"
  shows "\<exists>c d. gap_poll now pcm = Done (pcm\<lparr>pcm_candidates := c, pcm_first_er_poll_done := d\<rparr>)"
proof (cases "pcm_first_er_poll_done pcm")
  case True
  then show ?thesis by (intro exI [of _ "pcm_candidates pcm"] exI [of _ True]) (simp add: gap_poll_def)
next
  case False
  obtain c' where "vqec_pcm_timeout_old_candidates (pcm_candidates pcm) now = Done c'"
    using timeout_ok [OF assms, of now] by blast
  then show ?thesis using False by (intro exI [of _ c'] exI [of _ True]) (simp add: gap_poll_def)
qed

text \<open>C17: a report of gaps loses no missing packet. The numbers in the gaps that it returns are exactly the
  numbers from the first number not yet requested up to the new \<open>last_requested_er_seq_num\<close> whose bit in
  the gapmap is clear, in order. Without \<open>more\<close> the new number is the highest one eligible for repair, so
  all eligible numbers have been reported; with \<open>more\<close> it is the last number of the last gap returned, where
  the next report resumes.\<close>

theorem get_gaps_reports_missing:
  assumes "cand_ok (pcm_candidates pcm)" "pcm_gapmap pcm = Some m" "bitmap_ok m"
    and "pcm_pak_seq pcm = Some s" "vqec_pak_seq_get_num_paks s \<noteq> 0" "length (gap_list gapbuf) = 32"
  shows "\<exists>pcm' buf more. vqec_pcm_gap_get_gaps now pcm gapbuf = Done (True, pcm', buf, more) \<and>
    concat (map gap_nums (take (unat (num_gaps buf)) (gap_list buf))) =
      filter (\<lambda>n. \<not> bm_bit m n) (seq_range (gap_seq1 pcm) (pcm_last_requested_er_seq_num pcm')) \<and>
    unat (num_gaps buf) \<le> 32 \<and>
    (\<not> more \<longrightarrow> pcm_last_requested_er_seq_num pcm' = cd_highest_er_seq_num (pcm_candidates pcm')) \<and>
    (more \<longrightarrow> num_gaps buf = 32)"
proof -
  obtain c d where p: "gap_poll now pcm = Done (pcm\<lparr>pcm_candidates := c, pcm_first_er_poll_done := d\<rparr>)"
    using gap_poll_ok [OF assms(1)] by blast
  let ?p1 = "pcm\<lparr>pcm_candidates := c, pcm_first_er_poll_done := d\<rparr>"
  let ?p2 = "gap_head_ge_last ?p1"
  let ?p3 = "if pcm_pktflow_src_seq_num_start_set ?p2 then vqec_pcm_clear_pktflow_src_seq_num_start ?p2 else ?p2"
  let ?hi = "cd_highest_er_seq_num c" and ?s1 = "gap_seq1 pcm"
  let ?R = "missing_runs m ?s1 ?hi"
  have f: "gap_seq1 ?p1 = ?s1" "pcm_gapmap ?p3 = Some m" "pcm_candidates ?p3 = c"
    using assms(2) by (simp_all add: gap_seq1_def Let_def gap_head_ge_last_def vqec_pcm_clear_pktflow_src_seq_num_start_def)
  obtain r where r: "vqec_pcm_gap_get_gaps_internal (Some m) ?s1 ?hi (gap_list gapbuf) 32 = Done r"
    "gap_post 32 ?R (vqec_seq_num_le ?s1 ?hi \<and> \<not> bm_bit m ?hi) r"
    using internal_ok [OF assms(3), of "gap_list gapbuf" 32 ?s1 ?hi] assms(6) by auto
  have q: "unat (gr_ret r) = min 32 (length ?R)" "take (unat (gr_ret r)) (gw_gap_array (gr_walk r)) = take (unat (gr_ret r)) ?R"
    "gr_more r = Some (32 \<le> length ?R - (if vqec_seq_num_le ?s1 ?hi \<and> \<not> bm_bit m ?hi then 1 else 0))"
    "?R \<noteq> [] \<Longrightarrow> gw_highest_seq (gr_walk r) = gap_end (?R ! (unat (gr_ret r) - 1))"
    using gap_post_ret [OF r(2)] by simp_all
  obtain more where more: "gr_more r = Some more" using q(3) by blast
  let ?hc = "if gr_ret r > 0 then gw_highest_seq (gr_walk r) else ?hi"
  let ?p' = "?p3\<lparr>pcm_last_requested_er_seq_num := (if more then ?hc else ?hi)\<rparr>"
  let ?b = "\<lparr>num_gaps = gr_ret r, gap_list = gw_gap_array (gr_walk r)\<rparr>"
  have run: "vqec_pcm_gap_get_gaps now pcm gapbuf = Done (True, ?p', ?b, more)"
    using assms(4,5) p r(1) f more by (simp add: vqec_pcm_gap_get_gaps_def VQEC_DP_GAP_BUFFER_MAX_GAPS_def Let_def)
  have n32: "more \<Longrightarrow> unat (gr_ret r) = 32 \<and> 32 \<le> length ?R \<and> gr_ret r > 0 \<and> gr_ret r = 32"
    using q(1,3) more by (auto simp: word_eq_unat_iff word_less_nat_alt split: if_splits)
  have all: "\<not> more \<Longrightarrow> length ?R \<le> 32"
    using q(3) more by (auto split: if_splits)
  have "concat (map gap_nums (take (unat (gr_ret r)) ?R)) =
      filter (gap_missing m) (seq_range ?s1 (pcm_last_requested_er_seq_num ?p'))"
  proof (cases more)
    case True
    then have "pcm_last_requested_er_seq_num ?p' = gap_end (?R ! (32 - 1))"
      using n32 q(4) by force
    then show ?thesis using runs_nums_prefix [of 32 m ?s1 ?hi] n32 [OF True] by simp
  next
    case False
    then have "take (unat (gr_ret r)) ?R = ?R" using all q(1) by simp
    then show ?thesis using runs_nums_all [of m ?s1 ?hi] False by simp
  qed
  moreover have "pcm_candidates ?p' = c" using f(3) by simp
  ultimately show ?thesis
    using run q(1,2) n32 by (intro exI [of _ ?p'] exI [of _ ?b] exI [of _ more]) auto
qed

definition pcm_gaps_sample :: vqec_pcm where
  "pcm_gaps_sample = pcm_zero\<lparr>pcm_gapmap := Some gapmap_sample,
     pcm_pak_seq := Some \<lparr>ps_bucket_mask = 1, ps_num_buckets = 2, ps_num_paks = 1, ps_bucket_bits = 1, ps_num_dups = 0,
       ps_buckets = []\<rparr>,
     pcm_candidates := pcm_cands_zero\<lparr>cd_highest_er_seq_num := 15\<rparr>, pcm_first_er_poll_done := True\<rparr>"

theorem get_gaps_reports_missing_witness:
  "\<exists>pcm' buf more. vqec_pcm_gap_get_gaps 0 pcm_gaps_sample \<lparr>num_gaps = 0, gap_list = replicate 32 \<lparr>start_seq = 0, extent = 0\<rparr>\<rparr> =
     Done (True, pcm', buf, more) \<and> (\<not> more \<longrightarrow>
       concat (map gap_nums (take (unat (num_gaps buf)) (gap_list buf))) =
         filter (\<lambda>n. \<not> bm_bit gapmap_sample n) (seq_range 0 (cd_highest_er_seq_num (pcm_candidates pcm'))))"
proof -
  have s: "gap_seq1 pcm_gaps_sample = 0"
    by (simp add: gap_seq1_def pcm_gaps_sample_def pcm_zero_def vqec_seq_num_gt_def vqec_seq_num_lt_def Let_def)
  have c: "cand_ok (pcm_candidates pcm_gaps_sample)"
    using pcm_cands_zero_ok by (simp add: pcm_gaps_sample_def cand_ok_def cand_empty_def)
  show ?thesis
    using get_gaps_reports_missing [OF c _ gapmap_sample_ok, of "the (pcm_pak_seq pcm_gaps_sample)"
        "\<lparr>num_gaps = 0, gap_list = replicate 32 \<lparr>start_seq = 0, extent = 0\<rparr>\<rparr>" 0] s
    by (force simp: pcm_gaps_sample_def vqec_pak_seq_get_num_paks_def)
qed

subsection \<open>The search with a stride finds the missing numbers\<close>

abbreviation block_idx :: "u32 \<Rightarrow> u16" where
  "block_idx g \<equiv> ucast (drop_bit 5 g)"

text \<open>The sixteen bits that are kept of the number of a block determine the block, since no map has more
  than 2048 blocks.\<close>

lemma block_idx_gblock:
  assumes "bitmap_ok m" "block_idx g = block_idx g'"
  shows "gblock m g = gblock m g'"
proof -
  let ?n = "length (bm_data m)"
  have n: "unat (bm_size m) = 32 * ?n" using bitmap_ok_len(1) [OF assms(1)] by simp
  have "32 * ?n dvd 32 * 2048" using bitmap_ok_len(4) [OF assms(1)] n by simp
  then have "?n dvd 2048" by (simp only: nat_mult_dvd_cancel_disj) simp
  then have dv: "?n dvd 65536" by (rule dvd_trans) simp
  have i: "unat x mod unat (bm_size m) div 32 = unat x div 32 mod ?n" for x :: u32
    using mod_mult2_eq [of "unat x" 32 ?n] n by simp
  have "unat (block_idx g) = unat (block_idx g')" using assms(2) by simp
  then have "unat g div 32 mod 65536 = unat g' div 32 mod 65536"
    by (simp add: unat_ucast_16 unat_drop_bit_div)
  then have "unat g div 32 mod ?n = unat g' div 32 mod ?n"
    using mod_mod_cancel [OF dv, of "unat g div 32"] mod_mod_cancel [OF dv, of "unat g' div 32"] by simp
  then show ?thesis by (simp add: gblock_def i)
qed

abbreviation search_fetched :: "vqe_bitmap \<Rightarrow> gap_search \<Rightarrow> gap_search" where
  "search_fetched m s \<equiv> s\<lparr>gs_cur_block := gblock m (gs_gap_idx s), gs_last_block_idx := block_idx (gs_gap_idx s),
     gs_first_block := False\<rparr>"

lemma gap_search_fetch_ok:
  assumes "bitmap_ok m"
    and "\<not> gs_first_block s \<Longrightarrow> \<exists>g. gs_last_block_idx s = block_idx g \<and> gs_cur_block s = gblock m g"
  shows "gap_search_fetch (Some m) s = Some (search_fetched m s)"
proof (cases "gs_first_block s \<or> gs_last_block_idx s \<noteq> block_idx (gs_gap_idx s)")
  case True
  then show ?thesis by (simp add: gap_search_fetch_def Let_def get_block_ok [OF assms(1)])
next
  case False
  then obtain g where g: "gs_last_block_idx s = block_idx g" "gs_cur_block s = gblock m g" using assms(2) by blast
  then have "gs_cur_block s = gblock m (gs_gap_idx s)"
    using False block_idx_gblock [OF assms(1), of g "gs_gap_idx s"] by simp
  then show ?thesis using False by (cases s) (simp add: gap_search_fetch_def Let_def)
qed

lemma gap_search_loop_ok:
  assumes "bitmap_ok m"
    and "\<not> gs_first_block s \<Longrightarrow> \<exists>g. gs_last_block_idx s = block_idx g \<and> gs_cur_block s = gblock m g"
  shows "\<exists>s'. gap_search_loop n (Some m) stride s = Some s' \<and> gs_found s' = gs_found s @
    filter (gap_missing m) (map (\<lambda>i. gs_gap_idx s + of_nat i * ucast stride) [0..< n])"
  using assms(2)
proof (induction n arbitrary: s)
  case (Suc n)
  let ?g = "gs_gap_idx s"
  let ?s2 = "(search_fetched m s)\<lparr>gs_found := (if bm_bit m ?g then gs_found s else gs_found s @ [?g]),
    gs_gap_idx := ?g + ucast stride\<rparr>"
  have bit: "(drop_bit (31 - unat (?g AND 0x1f)) (gblock m ?g) AND 1 \<noteq> 0) = bm_bit m ?g"
    by (simp only: test_bit_drop bm_bit_gblock [OF assms(1)] unat_and_1f)
  have e: "gap_search_loop (Suc n) (Some m) stride s = gap_search_loop n (Some m) stride ?s2"
    using gap_search_fetch_ok [OF assms(1) Suc.prems] bit by (simp add: Let_def vqec_seq_num_add_def)
  obtain s' where s': "gap_search_loop n (Some m) stride ?s2 = Some s'" "gs_found s' = gs_found ?s2 @
      filter (gap_missing m) (map (\<lambda>i. gs_gap_idx ?s2 + of_nat i * ucast stride) [0..< n])"
    using Suc.IH [of ?s2] by (auto intro: exI [of _ ?g])
  have "map (\<lambda>i. ?g + of_nat i * ucast stride) [0..< Suc n] =
      ?g # map (\<lambda>i. ?g + ucast stride + of_nat i * ucast stride) [0..< n]"
    unfolding map_upt_Suc by (simp add: algebra_simps)
  then show ?case unfolding e using s' by (intro exI [of _ s']) simp
qed simp

lemma gap_search_finds_missing:
  assumes "bitmap_ok m" "stride \<noteq> 0"
  shows "vqec_pcm_gap_search (Some m) start stride num_paks =
    filter (gap_missing m) (map (\<lambda>i. start + of_nat i * ucast stride) [0..< unat num_paks])"
  using gap_search_loop_ok [OF assms(1), of "\<lparr>gs_gap_idx = start, gs_cur_block = 0, gs_last_block_idx = 0,
      gs_first_block = True, gs_found = []\<rparr>" "unat num_paks" stride] assms(2)
  by (auto simp: vqec_pcm_gap_search_def)
end
