(* ===== verification/Pcm.thy ===== *)
theory Pcm
  imports Pcm_Gaps
begin

text \<open>
  The packet cache, \<^verbatim>\<open>eva/vqec-dp/channel/vqec_pcm.c\<close>: creation, the list of packets that arrived in
  order, the search for neighbours, removal, flush and the end of a burst. A cache is a sequencer of 8192
  buckets beside a bitmap of as many bits, with the lowest and the highest number that are present.

  A cache exists with its sequencer; where the code follows a null pointer, the outcome is that of a
  failed assertion.
\<close>

subsection \<open>Creation\<close>

record vqec_pcm_params =
  pp_er_enable :: bool
  pp_fec_enable :: bool
  pp_rcc_enable :: bool
  pp_avg_pkt_time :: rel_time
  pp_default_delay :: rel_time
  pp_repair_trigger_time :: rel_time
  pp_reorder_delay :: rel_time
  pp_strip_rtp :: bool
  pp_fec_info :: vqec_fec_info
  pp_fec_default_block_size :: u16
  pp_tr135_params :: vqec_ifclient_tr135_params
  pp_repairs_done_cb :: bool

text \<open>The number of packets that the decoder of the error correction spans.\<close>

definition pcm_fec_factor :: "vqec_fec_info \<Rightarrow> u16 \<Rightarrow> s32" where
  "pcm_fec_factor info block_size =
     (let l = ucast (fi_fec_l_value info); d = ucast (fi_fec_d_value info)
      in if fi_fec_l_value info \<noteq> 0 \<and> fi_fec_d_value info \<noteq> 0 \<and>
            fi_fec_order info \<noteq> VQEC_DP_FEC_SENDING_ORDER_NOT_DECIDED
         then (case fi_fec_order info of VQEC_DP_FEC_SENDING_ORDER_ANNEXA \<Rightarrow> l * d + l | _ \<Rightarrow> 2 * l * d)
         else ucast block_size * 2)"

definition pcm_init_fec :: "vqec_pcm_params \<Rightarrow> vqec_pcm \<Rightarrow> vqec_pcm" where
  "pcm_init_fec params pcm =
     (if pcm_fec_enable pcm
      then let info = pp_fec_info params;
               pcm1 = pcm\<lparr>pcm_fec_info := info, pcm_fec_default_block_size := pp_fec_default_block_size params\<rparr>;
               factor = pcm_fec_factor info (pcm_fec_default_block_size pcm1);
               pkt_time = (if rel_time_ge (pp_avg_pkt_time params) (fi_rtp_ts_pkt_time info)
                           then pp_avg_pkt_time params else fi_rtp_ts_pkt_time info)
           in pcm1\<lparr>pcm_fec_delay := rel_time_mult_int pkt_time factor\<rparr>
      else pcm\<lparr>pcm_fec_delay := REL_TIME_0\<rparr>)"

definition pcm_init_delays :: "vqec_pcm_params \<Rightarrow> vqec_pcm \<Rightarrow> vqec_pcm" where
  "pcm_init_delays params pcm =
     (let pcm1 = pcm\<lparr>pcm_cfg_delay := pp_default_delay params,
            pcm_candidates := (pcm_candidates pcm)\<lparr>cd_gap_hold_time :=
              rel_plus_rel_time (pcm_fec_delay pcm) (pp_reorder_delay params)\<rparr>,
            pcm_reorder_delay := pp_reorder_delay params, pcm_repair_trigger_time := pp_repair_trigger_time params,
            pcm_avg_pkt_time := pp_avg_pkt_time params, pcm_strip_rtp := pp_strip_rtp params\<rparr>;
          pcm2 = (if pcm_rcc_enable pcm1
                  then pcm1\<lparr>pcm_default_delay := pcm_reorder_delay pcm1, pcm_dyn_jitter_buf_act := True,
                         pcm_underrun_reset_dis := True, pcm_er_enable := False\<rparr>
                  else pcm1\<lparr>pcm_default_delay := rel_plus_rel_time (pcm_fec_delay pcm1) (pp_default_delay params),
                         pcm_er_enable := pcm_cfg_er_enable pcm1\<rparr>)
      in pcm2\<lparr>pcm_candidates := (pcm_candidates pcm2)\<lparr>cd_candidate_bucket_width :=
           rel_time_div_int (cd_gap_hold_time (pcm_candidates pcm2)) (ucast VQEC_PCM_MAX_CANDIDATES)\<rparr>\<rparr>)"

text \<open>The flags and \<open>junk\<close> are those of the allocations of the sequencer and the bitmap. The result of the
  latter is not checked.\<close>

definition vqec_pcm_init :: "bool \<Rightarrow> bool \<Rightarrow> bool \<Rightarrow> u32 list \<Rightarrow> vqec_pcm_params \<Rightarrow> (bool \<times> vqec_pcm) outcome" where
  "vqec_pcm_init mem map_alloc data_alloc junk params =
     (case vqec_pak_seq_create_in_pool mem VQEC_PCM_RING_BUFFER_BUCKET_BITS of
        None \<Rightarrow> Done (False, pcm_zero)
      | Some s \<Rightarrow>
          let pcm1 = pcm_zero\<lparr>pcm_pak_seq := Some s,
                pcm_gapmap := vqe_bitmap_create map_alloc data_alloc junk VQEC_PCM_GAPMAP_SIZE,
                pcm_cfg_er_enable := pp_er_enable params, pcm_rcc_enable := pp_rcc_enable params,
                pcm_fec_enable := pp_fec_enable params\<rparr>;
              pcm2 = vqec_pcm_set_tr135_params pcm1 (pp_tr135_params params);
              st = pcm_stats pcm2;
              pcm3 = pcm2\<lparr>pcm_stats := st\<lparr>st_tr135 := (st_tr135 st)\<lparr>tr_buffer_size :=
                       rel_time_to_usec (pp_default_delay params)\<rparr>\<rparr>\<rparr>;
              pcm4 = pcm_init_delays params (pcm_init_fec params pcm3)
          in if vqec_pak_seq_get_num_paks s \<noteq> 0 then Assert_failed
             else Done (True, pcm4\<lparr>pcm_stats := (pcm_stats pcm4)\<lparr>st_total_tx_paks := 0\<rparr>,
                    pcm_primary_received := False, pcm_repair_received := False, pcm_last_rx_seq_num := 0x8000,
                    pcm_repairs_done_cb := pp_repairs_done_cb params,
                    pcm_osched := vqec_dp_oscheduler_outp_init (pcm_osched pcm4)\<rparr>))"

subsection \<open>The list of packets in order\<close>

definition pak_set_flag :: "pak_ptr \<Rightarrow> nat \<Rightarrow> pak_heap \<Rightarrow> pak_heap" where
  "pak_set_flag p fl h = pak_upd p (\<lambda>pak. pak\<lparr>pk_flags := VQEC_PAK_FLAGS_SET (pk_flags pak) fl\<rparr>) h"

definition vqec_pcm_inorder_pak_list_insert :: "vqec_pcm \<Rightarrow> pak_ptr \<Rightarrow> pak_heap \<Rightarrow> (vqec_pcm \<times> pak_heap) outcome" where
  "vqec_pcm_inorder_pak_list_insert pcm pak h =
     (if VQEC_PAK_FLAGS_ISSET (pk_flags (ph_mem h pak)) VQEC_PAK_FLAGS_RX_REORDERED then Assert_failed
      else Done (pcm\<lparr>pcm_inorder_q := pcm_inorder_q pcm @ [pak]\<rparr>, pak_set_flag pak VQEC_PAK_FLAGS_ON_INORDER_Q h))"

definition vqec_pcm_inorder_pak_list_remove :: "vqec_pcm \<Rightarrow> pak_ptr \<Rightarrow> pak_heap \<Rightarrow> vqec_pcm" where
  "vqec_pcm_inorder_pak_list_remove pcm pak h =
     (if VQEC_PAK_FLAGS_ISSET (pk_flags (ph_mem h pak)) VQEC_PAK_FLAGS_ON_INORDER_Q
      then pcm\<lparr>pcm_inorder_q := remove1 pak (pcm_inorder_q pcm)\<rparr> else pcm)"

definition vqec_pcm_inorder_pak_list_get_next :: "vqec_pcm \<Rightarrow> pak_ptr option" where
  "vqec_pcm_inorder_pak_list_get_next pcm = (case pcm_inorder_q pcm of [] \<Rightarrow> None | p # _ \<Rightarrow> Some p)"

definition vqec_pcm_inorder_pak_list_flush :: "vqec_pcm \<Rightarrow> vqec_pcm" where
  "vqec_pcm_inorder_pak_list_flush pcm = pcm\<lparr>pcm_inorder_q := []\<rparr>"

subsection \<open>The neighbours of a packet\<close>

text \<open>The variables of the search for the next packet.\<close>

record next_walk =
  nw_temp_seq_num :: vqec_seq_num
  nw_cur_block :: u32
  nw_last_block_idx :: u16
  nw_first_block :: bool

definition next_fetch :: "vqe_bitmap option \<Rightarrow> next_walk \<Rightarrow> next_walk option" where
  "next_fetch gapmap w =
     (let cur_block_idx = ucast (drop_bit VQE_BITMAP_WORD_SIZE_BITS (nw_temp_seq_num w)) :: u16
      in if nw_first_block w \<or> nw_last_block_idx w \<noteq> cur_block_idx
         then (case vqe_bitmap_get_block gapmap True (nw_temp_seq_num w) of
                 (VQE_BITMAP_OK, Some b) \<Rightarrow>
                   Some (w\<lparr>nw_cur_block := b, nw_last_block_idx := cur_block_idx, nw_first_block := False\<rparr>)
               | _ \<Rightarrow> None)
         else Some w)"

text \<open>The number of positions from \<open>bit_offset\<close> to the end of the block.\<close>

definition next_rest :: "vqec_seq_num \<Rightarrow> u32" where
  "next_rest t =
     (let bit_offset = ucast (t AND (push_bit VQE_BITMAP_WORD_SIZE_BITS 1 - 1)) :: u8
      in (push_bit VQE_BITMAP_WORD_SIZE_BITS 1 - 1) - ucast bit_offset)"

datatype next_step = Next_none | Next_found vqec_seq_num | Next_go next_walk

text \<open>One round of the loop, after its condition.\<close>

definition next_round :: "vqe_bitmap option \<Rightarrow> vqec_seq_num \<Rightarrow> next_walk \<Rightarrow> next_step" where
  "next_round gapmap tail w0 =
     (let w1 = w0\<lparr>nw_temp_seq_num := vqec_next_seq_num (nw_temp_seq_num w0)\<rparr>
      in case next_fetch gapmap w1 of
           None \<Rightarrow> Next_none
         | Some w \<Rightarrow>
             let t = nw_temp_seq_num w
             in if nw_cur_block w = 0 \<and> vqec_seq_num_le (vqec_seq_num_add t (next_rest t)) tail
                then Next_go (w\<lparr>nw_temp_seq_num := vqec_seq_num_add t (next_rest t)\<rparr>)
                else if drop_bit (unat (next_rest t)) (nw_cur_block w) AND 1 \<noteq> 0 then Next_found t
                else Next_go w)"

lemma unat_ucast_8_32: "unat (ucast (w :: u8) :: u32) = unat w"
proof -
  have "unat w < 2 ^ 8" using unat_less_pow [of w] by simp
  then show ?thesis by (simp add: unsigned_ucast_eq take_bit_nat_eq_self)
qed

lemma unat_next_rest: "unat (next_rest t) = 31 - unat t mod 32"
proof -
  have p: "push_bit VQE_BITMAP_WORD_SIZE_BITS 1 - 1 = (0x1f :: u32)"
    by (simp add: VQE_BITMAP_WORD_SIZE_BITS_def push_bit_eq_mult)
  have o: "unat (ucast (ucast (t AND 0x1f) :: u8) :: u32) = unat t mod 32"
    using unat_gap_bit_offset [of t] by (simp only: gap_bit_offset_def unat_ucast_8_32)
  have "unat (31 - ucast (ucast (t AND 0x1f) :: u8) :: u32) = 31 - unat t mod 32"
    using o unat_sub_if' [of "31 :: u32" "ucast (ucast (t AND 0x1f) :: u8)"] by simp
  then show ?thesis by (simp add: next_rest_def p Let_def del: push_bit_of_1)
qed

lemma next_round_idx:
  assumes "next_round gapmap tail w = Next_go w'"
  shows "nw_temp_seq_num w' = nw_temp_seq_num w + 1 \<or>
    nw_temp_seq_num w' = nw_temp_seq_num w + 1 + next_rest (nw_temp_seq_num w + 1) \<and>
      vqec_seq_num_le (nw_temp_seq_num w') tail"
proof -
  let ?t = "nw_temp_seq_num w + 1"
  obtain w1 where w1: "next_fetch gapmap (w\<lparr>nw_temp_seq_num := ?t\<rparr>) = Some w1"
    using assms by (auto simp: next_round_def Let_def vqec_next_seq_num_def split: option.splits)
  then have t: "nw_temp_seq_num w1 = ?t"
    by (auto simp: next_fetch_def Let_def split: if_splits prod.splits option.splits vqe_bitmap_error.splits)
  then show ?thesis
    using assms w1
    by (auto simp: next_round_def Let_def vqec_next_seq_num_def vqec_seq_num_add_def split: if_splits)
qed

text \<open>The distance to the tail gets smaller: one step from below the tail stays at or below it, and a
  whole block is skipped only up to it.\<close>

lemma next_further:
  assumes "vqec_seq_num_lt t tail"
    and "t' = t + 1 \<or> t' = t + 1 + next_rest (t + 1) \<and> vqec_seq_num_le t' tail"
  shows "fdist t' tail < fdist t tail"
proof -
  have d: "0 < fdist t tail" "fdist t tail \<le> 2 ^ 31" using assms(1) by (simp_all add: seq_simps)
  then have 1: "fdist (t + 1) tail = fdist t tail - 1" by (simp add: fdist_plus)
  show ?thesis
  proof (cases "t' = t + 1")
    case True
    then show ?thesis using 1 d by simp
  next
    case False
    have "unat (next_rest (t + 1)) < 2 ^ 31" by (simp add: unat_next_rest less_imp_diff_less)
    moreover have e: "t' = t + 1 + next_rest (t + 1)" "vqec_seq_num_le (t + 1 + next_rest (t + 1)) tail"
      using False assms(2) by auto
    ultimately have "fdist t' tail = fdist (t + 1) tail - unat (next_rest (t + 1))"
      unfolding e(1) by (intro le_plus_dist(2))
    then show ?thesis using 1 d by simp
  qed
qed

function next_loop :: "vqe_bitmap option \<Rightarrow> vqec_seq_num \<Rightarrow> next_walk \<Rightarrow> vqec_seq_num option" where
  "next_loop gapmap tail w =
     (if vqec_seq_num_lt (nw_temp_seq_num w) tail
      then (case next_round gapmap tail w of
              Next_none \<Rightarrow> None
            | Next_found n \<Rightarrow> Some n
            | Next_go w' \<Rightarrow> next_loop gapmap tail w')
      else None)"
  by pat_completeness auto

termination next_loop
  by (relation "measure (\<lambda>(gapmap, tail, w). fdist (nw_temp_seq_num w) tail)")
    (auto dest!: next_round_idx intro: next_further)

declare next_loop.simps [simp del]

text \<open>The packet that \<open>pak\<close> points to, or the first one when it is null.\<close>

definition vqec_pcm_find_next_packet_internal :: "vqec_pcm \<Rightarrow> pak_heap \<Rightarrow> pak_ptr option \<Rightarrow> pak_ptr option" where
  "vqec_pcm_find_next_packet_internal pcm h pak =
     (case pcm_pak_seq pcm of
        None \<Rightarrow> None
      | Some s \<Rightarrow>
          if vqec_pak_seq_get_num_paks s = 0 then None
          else (case pak of
            None \<Rightarrow> vqec_pak_seq_find s (pcm_head pcm)
          | Some p \<Rightarrow>
              let seq_num = pk_seq_num (ph_mem h p);
                  temp_seq_num = vqec_next_seq_num seq_num
              in if vqec_pak_seq_find s seq_num = None then None
                 else if seq_num = pcm_tail pcm then None
                 else if vqec_pak_seq_find s temp_seq_num \<noteq> None then vqec_pak_seq_find s temp_seq_num
                 else (case next_loop (pcm_gapmap pcm) (pcm_tail pcm)
                               \<lparr>nw_temp_seq_num = temp_seq_num, nw_cur_block = 0, nw_last_block_idx = 0,
                                nw_first_block = True\<rparr> of
                         None \<Rightarrow> None
                       | Some n \<Rightarrow> vqec_pak_seq_find s n)))"

definition vqec_pcm_get_next_packet :: "vqec_pcm \<Rightarrow> pak_heap \<Rightarrow> pak_ptr option \<Rightarrow> pak_ptr option" where
  "vqec_pcm_get_next_packet pcm h pak = vqec_pcm_find_next_packet_internal pcm h pak"

function pre_loop :: "vqec_pak_seq \<Rightarrow> vqec_seq_num \<Rightarrow> vqec_seq_num \<Rightarrow> vqec_seq_num \<Rightarrow> pak_ptr option" where
  "pre_loop s head seq_num temp =
     (if vqec_pak_seq_find s temp \<noteq> None then vqec_pak_seq_find s temp
      else let temp1 = vqec_pre_seq_num temp
           in if vqec_seq_num_lt temp1 head then None
              else if vqec_pak_seq_find_bucket s temp1 = vqec_pak_seq_find_bucket s seq_num then None
              else pre_loop s head seq_num temp1)"
  by pat_completeness auto

lemma pre_further:
  assumes "\<not> vqec_seq_num_lt (vqec_pre_seq_num t) head"
  shows "fdist head (vqec_pre_seq_num t) < fdist head t"
proof (cases "t = head")
  case True
  then show ?thesis using assms by (simp add: vqec_pre_seq_num_def seq_simps)
next
  case False
  then have "0 < fdist head t" by (simp add: unat_gt_0)
  moreover have "fdist head (vqec_pre_seq_num t) = unat ((t - head) - 1)"
    unfolding vqec_pre_seq_num_def by (simp only: diff_right_commute)
  ultimately show ?thesis using unat_sub_if' [of "t - head" 1] by simp
qed

termination pre_loop
  by (relation "measure (\<lambda>(s, head, seq_num, temp). fdist head temp)") (auto intro: pre_further)

declare pre_loop.simps [simp del]

definition vqec_pcm_find_pre_packet_internal :: "vqec_pcm \<Rightarrow> pak_heap \<Rightarrow> pak_ptr option \<Rightarrow> pak_ptr option" where
  "vqec_pcm_find_pre_packet_internal pcm h pak =
     (case pcm_pak_seq pcm of
        None \<Rightarrow> None
      | Some s \<Rightarrow>
          if vqec_pak_seq_get_num_paks s = 0 then None
          else (case pak of
            None \<Rightarrow> vqec_pak_seq_find s (pcm_tail pcm)
          | Some p \<Rightarrow>
              let seq_num = pk_seq_num (ph_mem h p)
              in if vqec_pak_seq_find s seq_num = None then None
                 else if seq_num = pcm_head pcm then None
                 else pre_loop s (pcm_head pcm) seq_num (vqec_pre_seq_num seq_num)))"

subsection \<open>Removal\<close>

definition pcm_clear_gap_bit :: "vqec_pcm \<Rightarrow> vqec_seq_num \<Rightarrow> vqec_pcm" where
  "pcm_clear_gap_bit pcm n =
     (case vqe_bitmap_clear_bit (pcm_gapmap pcm) n of
        (VQE_BITMAP_OK, gm) \<Rightarrow> pcm\<lparr>pcm_gapmap := gm\<rparr>
      | _ \<Rightarrow> pcm)"

text \<open>The ends of the cache move to the neighbour of the packet, which is asserted to exist.\<close>

definition pcm_shrink :: "vqec_pcm \<Rightarrow> vqec_pak_seq \<Rightarrow> pak_heap \<Rightarrow> pak_ptr \<Rightarrow> vqec_pcm outcome" where
  "pcm_shrink pcm s h pak =
     (let seq_num = pk_seq_num (ph_mem h pak)
      in if pcm_head pcm = seq_num \<and> pcm_tail pcm = seq_num
         then (if vqec_pak_seq_get_num_paks s = 1 then Done pcm else Assert_failed)
         else if pcm_head pcm = seq_num
         then (case vqec_pcm_find_next_packet_internal pcm h (Some pak) of
                 None \<Rightarrow> Assert_failed
               | Some next_pak \<Rightarrow> Done (pcm\<lparr>pcm_head := pk_seq_num (ph_mem h next_pak)\<rparr>))
         else if pcm_tail pcm = seq_num
         then (case vqec_pcm_find_pre_packet_internal pcm h (Some pak) of
                 None \<Rightarrow> Assert_failed
               | Some pre_pak \<Rightarrow> Done (pcm\<lparr>pcm_tail := pk_seq_num (ph_mem h pre_pak)\<rparr>))
         else Done pcm)"

definition vqec_pcm_remove_packet :: "vqec_pcm \<Rightarrow> pak_ptr \<Rightarrow> pak_heap \<Rightarrow> (bool \<times> vqec_pcm \<times> pak_heap) outcome" where
  "vqec_pcm_remove_packet pcm pak h =
     (case pcm_pak_seq pcm of
        None \<Rightarrow> Done (False, pcm, h)
      | Some s \<Rightarrow>
          let seq_num = pk_seq_num (ph_mem h pak)
          in if vqec_pak_seq_find s seq_num = Some pak
             then bind_out (pcm_shrink (vqec_pcm_inorder_pak_list_remove pcm pak h) s h pak) (\<lambda>pcm1.
                    bind_out (vqec_pak_seq_delete s seq_num h) (\<lambda>(ok, s1, h1).
                      let pcm2 = pcm1\<lparr>pcm_pak_seq := Some s1\<rparr>
                      in Done (ok, if ok then pcm_clear_gap_bit pcm2 seq_num else pcm2, h1)))
             else Done (False, pcm, h))"

subsection \<open>Flush\<close>

definition vqec_pcm_gapmap_flush :: "vqec_pcm \<Rightarrow> vqec_pcm outcome" where
  "vqec_pcm_gapmap_flush pcm =
     (case pcm_gapmap pcm of
        None \<Rightarrow> Assert_failed
      | Some m \<Rightarrow>
          (case vqe_bitmap_flush (Some m) of
             (VQE_BITMAP_OK, gm) \<Rightarrow> Done (pcm\<lparr>pcm_gapmap := gm\<rparr>)
           | _ \<Rightarrow> Done pcm))"

definition pcm_destroy_seq :: "vqec_pcm \<Rightarrow> pak_heap \<Rightarrow> (vqec_pcm \<times> pak_heap) outcome" where
  "pcm_destroy_seq pcm h =
     (case pcm_pak_seq pcm of
        None \<Rightarrow> Done (pcm, h)
      | Some s \<Rightarrow> bind_out (vqec_pak_seq_destroy_in_pool s h) (\<lambda>h1. Done (pcm\<lparr>pcm_pak_seq := None\<rparr>, h1)))"

text \<open>The flag says whether the pool has a sequencer, which the destruction has just given back.\<close>

definition vqec_pcm_flush :: "bool \<Rightarrow> vqec_pcm \<Rightarrow> pak_heap \<Rightarrow> (bool \<times> vqec_pcm \<times> pak_heap) outcome" where
  "vqec_pcm_flush mem pcm h =
     bind_out (vqec_pcm_gapmap_flush pcm) (\<lambda>pcm1.
     let pcm2 = vqec_pcm_inorder_pak_list_flush pcm1
     in bind_out (vqec_dp_oscheduler_outp_reset (pcm_osched pcm2) True h) (\<lambda>(os, h1).
     bind_out (pcm_destroy_seq (pcm2\<lparr>pcm_osched := os\<rparr>) h1) (\<lambda>(pcm3, h2).
     case vqec_pak_seq_create_in_pool mem VQEC_PCM_RING_BUFFER_BUCKET_BITS of
       None \<Rightarrow> Done (False, pcm3, h2)
     | Some s \<Rightarrow>
         if vqec_pak_seq_get_num_paks s \<noteq> 0 then Assert_failed
         else Done (True, pcm3\<lparr>pcm_pak_seq := Some s,
                pcm_stats := (pcm_stats pcm3)\<lparr>st_total_tx_paks := 0\<rparr>, pcm_primary_received := False,
                pcm_repair_received := False, pcm_delay_from_apps := REL_TIME_0\<rparr>, h2))))"

text \<open>The code keeps the pointers to the map and the sequencer that it has freed; the model drops them.\<close>

definition vqec_pcm_deinit :: "vqec_pcm \<Rightarrow> pak_heap \<Rightarrow> (vqec_pcm \<times> pak_heap) outcome" where
  "vqec_pcm_deinit pcm h =
     (let pcm1 = vqec_pcm_inorder_pak_list_flush pcm
      in bind_out (vqec_dp_oscheduler_outp_reset (pcm_osched pcm1) True h) (\<lambda>(os, h1).
         let pcm2 = pcm1\<lparr>pcm_osched := os\<rparr>
         in bind_out (if pcm_gapmap pcm2 \<noteq> None
                      then bind_out (vqec_pcm_gapmap_flush pcm2)
                             (\<lambda>p. Done (p\<lparr>pcm_gapmap := snd (vqe_bitmap_destroy (pcm_gapmap p))\<rparr>))
                      else Done pcm2)
              (\<lambda>pcm3. pcm_destroy_seq pcm3 h1)))"

definition vqec_pcm_notify_rcc_abort :: "bool \<Rightarrow> vqec_pcm \<Rightarrow> pak_heap \<Rightarrow> (vqec_pcm \<times> pak_heap) outcome" where
  "vqec_pcm_notify_rcc_abort mem pcm h =
     bind_out (vqec_pcm_flush mem pcm h) (\<lambda>(_, pcm1, h1).
       Done (pcm1\<lparr>pcm_dyn_jitter_buf_act := False,
                  pcm_default_delay := rel_plus_rel_time (pcm_cfg_delay pcm1) (pcm_fec_delay pcm1),
                  pcm_delay_from_apps := REL_TIME_0,
                  pcm_osched := vqec_dp_oscheduler_rcc_burst_done_notify (pcm_osched pcm1)\<rparr>, h1))"

subsection \<open>The search follows the bits\<close>

abbreviation next_fetched :: "vqe_bitmap \<Rightarrow> next_walk \<Rightarrow> next_walk" where
  "next_fetched m w \<equiv> w\<lparr>nw_cur_block := gblock m (nw_temp_seq_num w), nw_last_block_idx := block_idx (nw_temp_seq_num w),
     nw_first_block := False\<rparr>"

definition next_cached :: "vqe_bitmap \<Rightarrow> next_walk \<Rightarrow> bool" where
  "next_cached m w \<longleftrightarrow> nw_first_block w \<or> (\<exists>g. nw_last_block_idx w = block_idx g \<and> nw_cur_block w = gblock m g)"

lemma next_fetch_ok:
  assumes "bitmap_ok m" "next_cached m w"
  shows "next_fetch (Some m) w = Some (next_fetched m w)"
proof (cases "nw_first_block w \<or> nw_last_block_idx w \<noteq> block_idx (nw_temp_seq_num w)")
  case True
  then show ?thesis
    by (simp add: next_fetch_def Let_def get_block_ok [OF assms(1)] VQE_BITMAP_WORD_SIZE_BITS_def)
next
  case False
  then obtain g where g: "nw_last_block_idx w = block_idx g" "nw_cur_block w = gblock m g"
    using assms(2) by (auto simp: next_cached_def)
  then have "nw_cur_block w = gblock m (nw_temp_seq_num w)"
    using False block_idx_gblock [OF assms(1), of g "nw_temp_seq_num w"] by simp
  then show ?thesis
    using False by (cases w) (simp add: next_fetch_def Let_def VQE_BITMAP_WORD_SIZE_BITS_def)
qed

definition next_skip :: "vqe_bitmap \<Rightarrow> vqec_seq_num \<Rightarrow> vqec_seq_num \<Rightarrow> bool" where
  "next_skip m tail t \<longleftrightarrow> gblock m t = 0 \<and> vqec_seq_num_le (t + next_rest t) tail"

lemma next_round_ok:
  assumes "bitmap_ok m" "next_cached m w" and t: "t = nw_temp_seq_num w + 1"
  shows "next_round (Some m) tail w =
    (let w1 = next_fetched m (w\<lparr>nw_temp_seq_num := t\<rparr>)
     in if next_skip m tail t then Next_go (w1\<lparr>nw_temp_seq_num := t + next_rest t\<rparr>)
        else if bm_bit m t then Next_found t else Next_go w1)"
proof -
  have "next_cached m (w\<lparr>nw_temp_seq_num := t\<rparr>)" using assms(2) by (simp add: next_cached_def)
  from next_fetch_ok [OF assms(1) this]
  show ?thesis
    by (simp add: next_round_def Let_def vqec_next_seq_num_def vqec_seq_num_add_def next_skip_def test_bit_drop
        unat_next_rest bm_bit_gblock [OF assms(1)] flip: t)
qed

lemma next_skip_clear:
  assumes "bitmap_ok m" "gblock m t = 0" "i \<le> unat (next_rest t)"
  shows "\<not> bm_bit m (t + of_nat i)"
proof -
  have "i \<le> 31 - unat t mod 32" using assms(3) by (simp add: unat_next_rest)
  moreover have "unat t mod 32 < 32" by simp
  ultimately have "unat t mod 32 + i < 32" by linarith
  from gblock_plus [OF assms(1) this] show ?thesis using assms(2) by (simp add: bm_bit_gblock [OF assms(1)])
qed

text \<open>The next set bit after \<open>t\<close> at distance \<open>j\<close>.\<close>

definition next_bit :: "vqe_bitmap \<Rightarrow> vqec_seq_num \<Rightarrow> nat \<Rightarrow> bool" where
  "next_bit m t j \<longleftrightarrow> 0 < j \<and> bm_bit m (t + of_nat j) \<and> (\<forall>i. 0 < i \<and> i < j \<longrightarrow> \<not> bm_bit m (t + of_nat i))"

lemma next_bit_shift:
  assumes "next_bit m (t + of_nat k) j" "\<And>i. 0 < i \<Longrightarrow> i \<le> k \<Longrightarrow> \<not> bm_bit m (t + of_nat i)"
  shows "next_bit m t (k + j)"
  unfolding next_bit_def
proof (intro conjI allI impI)
  show "0 < k + j" "bm_bit m (t + of_nat (k + j))" using assms(1) by (simp_all add: next_bit_def add.assoc)
  fix i assume i: "0 < i \<and> i < k + j"
  show "\<not> bm_bit m (t + of_nat i)"
  proof (cases "i \<le> k")
    case False
    then have "t + of_nat i = t + of_nat k + of_nat (i - k)" "0 < i - k \<and> i - k < j" using i by auto
    then show ?thesis using assms(1) unfolding next_bit_def by metis
  qed (use assms(2) i in simp)
qed

lemma next_loop_ok:
  assumes "bitmap_ok m" "bm_bit m tail" "next_cached m w" "vqec_seq_num_lt (nw_temp_seq_num w) tail"
  shows "\<exists>j. next_loop (Some m) tail w = Some (nw_temp_seq_num w + of_nat j) \<and> next_bit m (nw_temp_seq_num w) j \<and>
    j \<le> fdist (nw_temp_seq_num w) tail"
  using assms(3,4)
proof (induction "fdist (nw_temp_seq_num w) tail" arbitrary: w rule: less_induct)
  case less
  let ?s = "nw_temp_seq_num w"
  let ?t = "?s + 1"
  let ?w1 = "next_fetched m (w\<lparr>nw_temp_seq_num := ?t\<rparr>)"
  note r = next_round_ok [OF assms(1) less.prems(1) refl, of tail]
  have d: "0 < fdist ?s tail" "fdist ?s tail \<le> 2 ^ 31" using less.prems(2) by (simp_all add: seq_simps)
  have go: "\<exists>j. next_loop (Some m) tail w = Some (?s + of_nat j) \<and> next_bit m ?s j \<and> j \<le> fdist ?s tail"
    if g: "next_round (Some m) tail w = Next_go w'" "next_cached m w'" "nw_temp_seq_num w' = ?s + of_nat k" "0 < k" "k \<le> 32"
      "k \<le> fdist ?s tail" "\<And>i. 0 < i \<Longrightarrow> i \<le> k \<Longrightarrow> \<not> bm_bit m (?s + of_nat i)" for w' k
  proof -
    have u: "unat (of_nat k :: u32) = k" using g(5) by (intro unat_of_nat_small) simp
    have f: "fdist (nw_temp_seq_num w') tail = fdist ?s tail - k" using g(3,6) u fdist_plus [of tail ?s "of_nat k"] by simp
    have "nw_temp_seq_num w' \<noteq> tail" using g(3,4) g(7) [of k] assms(2) by auto
    then have "0 < fdist (nw_temp_seq_num w') tail" by (simp add: unat_gt_0)
    then have lt: "vqec_seq_num_lt (nw_temp_seq_num w') tail" using f d by (simp add: seq_simps)
    have "fdist (nw_temp_seq_num w') tail < fdist ?s tail" using f g(4) d by simp
    from less.hyps [OF this g(2) lt] obtain j where j: "next_loop (Some m) tail w' = Some (?s + of_nat k + of_nat j)"
      "next_bit m (?s + of_nat k) j" "j \<le> fdist ?s tail - k" using f g(3) by auto
    have "next_loop (Some m) tail w = Some (?s + of_nat (k + j))"
      using less.prems(2) g(1) j(1) by (subst next_loop.simps) (simp add: add.assoc)
    then show ?thesis using next_bit_shift [OF j(2) g(7)] j(3) g(6) by (intro exI [of _ "k + j"]) simp
  qed
  have c1: "next_cached m ?w1" by (auto simp: next_cached_def)
  have f1: "fdist ?t tail = fdist ?s tail - 1" using d by (simp add: fdist_plus)
  show ?case
  proof (cases "next_skip m tail ?t")
    case True
    let ?k = "Suc (unat (next_rest ?t))"
    have z: "gblock m ?t = 0" and le: "vqec_seq_num_le (?t + next_rest ?t) tail" using True by (simp_all add: next_skip_def)
    have s: "unat (next_rest ?t) < 2 ^ 31" "unat (next_rest ?t) < 32" by (simp_all add: unat_next_rest less_imp_diff_less)
    have "unat (next_rest ?t) \<le> fdist ?t tail" using le_plus_dist(1) [OF le s(1)] .
    then have k: "?k \<le> fdist ?s tail" using f1 d by simp
    have cl: "\<not> bm_bit m (?s + of_nat i)" if "0 < i" "i \<le> ?k" for i
    proof -
      have "?s + of_nat i = ?t + of_nat (i - 1)" using that(1) by (cases i) (simp_all add: add.assoc)
      then show ?thesis using next_skip_clear [OF assms(1) z, of "i - 1"] that by simp
    qed
    have n: "?t + next_rest ?t = ?s + of_nat ?k" by (simp add: add.assoc)
    show ?thesis
      by (rule go [of "?w1\<lparr>nw_temp_seq_num := ?t + next_rest ?t\<rparr>" ?k])
        (use r True c1 n k cl s in \<open>simp_all add: Let_def next_cached_def add.assoc\<close>)
  next
    case ns: False
    show ?thesis
    proof (cases "bm_bit m ?t")
      case True
      then have "next_loop (Some m) tail w = Some ?t"
        using less.prems(2) r ns by (subst next_loop.simps) (simp add: Let_def)
      then show ?thesis using True d by (intro exI [of _ 1]) (simp add: next_bit_def)
    next
      case False
      show ?thesis
        by (rule go [of ?w1 1]) (use r ns False c1 d in \<open>simp_all add: Let_def le_Suc_eq\<close>)
    qed
  qed
qed

subsection \<open>The invariant\<close>

definition pcm_map :: "vqec_pcm \<Rightarrow> vqec_seq_num \<Rightarrow> pak_ptr option" where
  "pcm_map pcm = (case pcm_pak_seq pcm of None \<Rightarrow> Map.empty | Some s \<Rightarrow> vqec_pak_seq_find s)"

text \<open>Head and tail are present, are the lowest and the highest number, and less than 8192 apart.\<close>

definition ends_ok :: "(vqec_seq_num \<Rightarrow> 'p option) \<Rightarrow> vqec_seq_num \<Rightarrow> vqec_seq_num \<Rightarrow> bool" where
  "ends_ok f head tail \<longleftrightarrow> (f \<noteq> Map.empty \<longrightarrow> f head \<noteq> None \<and> f tail \<noteq> None \<and> fdist head tail < 8192 \<and>
     (\<forall>n. f n \<noteq> None \<longrightarrow> fdist head n \<le> fdist head tail))"

text \<open>A bit of the map says whether the bucket with the same low bits is occupied.\<close>

definition bits_ok :: "vqe_bitmap \<Rightarrow> (vqec_seq_num \<Rightarrow> 'p option) \<Rightarrow> bool" where
  "bits_ok m f \<longleftrightarrow> bitmap_ok m \<and> unat (bm_size m) = 8192 \<and>
     (\<forall>n. bm_bit m n \<longleftrightarrow> (\<exists>k. f k \<noteq> None \<and> unat k mod 8192 = unat n mod 8192))"

definition inorder_ok :: "pak_heap \<Rightarrow> (vqec_seq_num \<Rightarrow> pak_ptr option) \<Rightarrow> pak_ptr list \<Rightarrow> bool" where
  "inorder_ok h f q \<longleftrightarrow> distinct q \<and>
     (\<forall>p. p \<in> set q \<longleftrightarrow> p \<in> ran f \<and> VQEC_PAK_FLAGS_ISSET (pk_flags (ph_mem h p)) VQEC_PAK_FLAGS_ON_INORDER_Q)"

text \<open>The scheduler holds the packet that is pending, which has left the cache.\<close>

definition pend_ok :: "pak_heap \<Rightarrow> (vqec_seq_num \<Rightarrow> pak_ptr option) \<Rightarrow> vqec_dp_oscheduler \<Rightarrow> bool" where
  "pend_ok h f os \<longleftrightarrow> (\<forall>p. os_pak_pend os = Some p \<longrightarrow> pak_held h p \<and> p \<notin> ran f)"

definition pcm_ok :: "vqec_pcm \<Rightarrow> pak_heap \<Rightarrow> bool" where
  "pcm_ok pcm h \<longleftrightarrow> heap_ok h \<and>
     (\<exists>s m. pcm_pak_seq pcm = Some s \<and> pcm_gapmap pcm = Some m \<and> seq_ok s \<and> seq_cap s = 8192 \<and> seq_held h s \<and>
       bits_ok m (vqec_pak_seq_find s)) \<and>
     ends_ok (pcm_map pcm) (pcm_head pcm) (pcm_tail pcm) \<and> inorder_ok h (pcm_map pcm) (pcm_inorder_q pcm) \<and>
     pend_ok h (pcm_map pcm) (pcm_osched pcm) \<and> cand_ok (pcm_candidates pcm)"

lemma pcm_okI:
  assumes "heap_ok h" "pcm_pak_seq pcm = Some s" "pcm_gapmap pcm = Some m" "seq_ok s" "seq_cap s = 8192" "seq_held h s"
    "bits_ok m (vqec_pak_seq_find s)" "ends_ok (vqec_pak_seq_find s) (pcm_head pcm) (pcm_tail pcm)"
    "inorder_ok h (vqec_pak_seq_find s) (pcm_inorder_q pcm)" "pend_ok h (vqec_pak_seq_find s) (pcm_osched pcm)"
    "cand_ok (pcm_candidates pcm)"
  shows "pcm_ok pcm h"
  using assms by (simp add: pcm_ok_def pcm_map_def)

lemma pcm_okE:
  assumes "pcm_ok pcm h"
  obtains s m where "pcm_pak_seq pcm = Some s" "pcm_gapmap pcm = Some m" "seq_ok s" "seq_cap s = 8192" "seq_held h s"
    "bits_ok m (vqec_pak_seq_find s)" "ends_ok (vqec_pak_seq_find s) (pcm_head pcm) (pcm_tail pcm)"
    "inorder_ok h (vqec_pak_seq_find s) (pcm_inorder_q pcm)" "pend_ok h (vqec_pak_seq_find s) (pcm_osched pcm)"
    "cand_ok (pcm_candidates pcm)" "heap_ok h" "pcm_map pcm = vqec_pak_seq_find s"
  using assms unfolding pcm_ok_def pcm_map_def by force

lemma num_paks_empty:
  assumes "seq_ok s"
  shows "vqec_pak_seq_get_num_paks s = 0 \<longleftrightarrow> vqec_pak_seq_find s = Map.empty"
  using seqs.count_zero [OF assms] by (simp add: vqec_pak_seq_get_num_paks_def unat_eq_0)

lemma ends_okD:
  assumes "ends_ok f head tail" "f n \<noteq> None"
  shows "f head \<noteq> None" "f tail \<noteq> None" "fdist head tail < 8192" "f k \<noteq> None \<Longrightarrow> fdist head k \<le> fdist head tail"
    "fdist head n \<le> fdist head tail"
  using assms by (auto simp: ends_ok_def)

text \<open>In the window from the head the bits are the presence of the numbers.\<close>

lemma bits_window:
  assumes "seq_ok s" "seq_cap s = 8192" "bits_ok m (vqec_pak_seq_find s)"
    and "ends_ok (vqec_pak_seq_find s) head tail" "fdist head n < 8192"
  shows "bm_bit m n \<longleftrightarrow> vqec_pak_seq_find s n \<noteq> None"
proof
  assume "bm_bit m n"
  then obtain k where k: "vqec_pak_seq_find s k \<noteq> None" "unat k mod 8192 = unat n mod 8192"
    using assms(3) by (auto simp: bits_ok_def)
  have "fdist head k < 8192" using ends_okD(3,5) [OF assms(4) k(1)] by simp
  then have "k = n" using seqs.window_slot [OF assms(1), of k head n] assms(2,5) k(2) by simp
  then show "vqec_pak_seq_find s n \<noteq> None" using k(1) by simp
next
  assume "vqec_pak_seq_find s n \<noteq> None"
  then show "bm_bit m n" using assms(3) by (auto simp: bits_ok_def)
qed

lemma fdist_step:
  fixes h n :: vqec_seq_num
  assumes "fdist h n + k < 2 ^ 32"
  shows "fdist h (n + of_nat k) = fdist h n + k"
proof -
  have "fdist h (n + of_nat k) = unat ((n - h) + of_nat k)" by (simp only: diff_add_eq)
  also have "\<dots> = fdist h n + k" using assms by (subst unat_add_small) (simp_all add: unat_of_nat_small)
  finally show ?thesis .
qed

lemma at_dist: "n = h + of_nat (fdist h n)"
  by simp

text \<open>\<open>n'\<close> is the successor of \<open>n\<close> among the numbers that are present, seen from the head.\<close>

definition next_num :: "(vqec_seq_num \<Rightarrow> 'p option) \<Rightarrow> vqec_seq_num \<Rightarrow> vqec_seq_num \<Rightarrow> vqec_seq_num \<Rightarrow> bool" where
  "next_num f head n n' \<longleftrightarrow> f n' \<noteq> None \<and> fdist head n < fdist head n' \<and>
     (\<forall>k. f k \<noteq> None \<longrightarrow> \<not> (fdist head n < fdist head k \<and> fdist head k < fdist head n'))"

lemma next_num_from_bits:
  assumes ok: "seq_ok s" "seq_cap s = 8192" "bits_ok m (vqec_pak_seq_find s)" "ends_ok (vqec_pak_seq_find s) head tail"
    and n: "vqec_pak_seq_find s n \<noteq> None" and j: "next_bit m n j" "fdist head n + j < 8192"
  shows "next_num (vqec_pak_seq_find s) head n (n + of_nat j)"
proof -
  have d: "fdist head (n + of_nat i) = fdist head n + i" if "i \<le> j" for i
    using fdist_step [of n head i] j(2) that by simp
  note w = bits_window [OF ok]
  have "vqec_pak_seq_find s (n + of_nat j) \<noteq> None" using w [of "n + of_nat j"] d [of j] j by (simp add: next_bit_def)
  moreover have "\<not> (fdist head n < fdist head k \<and> fdist head k < fdist head (n + of_nat j))"
    if k: "vqec_pak_seq_find s k \<noteq> None" for k
  proof
    assume a: "fdist head n < fdist head k \<and> fdist head k < fdist head (n + of_nat j)"
    define i where "i = fdist head k - fdist head n"
    have i: "0 < i" "i < j" "fdist head n + i = fdist head k" using a d [of j] by (auto simp: i_def)
    have "fdist head (n + of_nat i) = fdist head k" using d [of i] i by simp
    then have e: "n + of_nat i = k" by (metis at_dist)
    have "\<not> bm_bit m (n + of_nat i)" using j(1) i by (simp add: next_bit_def)
    then show False using w [of k] k a j(2) d [of j] e by simp
  qed
  ultimately show ?thesis using d [of j] j(1) by (simp add: next_num_def next_bit_def)
qed

lemma find_next_ok:
  assumes "pcm_ok pcm h" "pcm_map pcm n = Some p" "n \<noteq> pcm_tail pcm"
  shows "\<exists>n' q. vqec_pcm_find_next_packet_internal pcm h (Some p) = Some q \<and> pcm_map pcm n' = Some q \<and>
    next_num (pcm_map pcm) (pcm_head pcm) n n'"
  using assms(1)
proof (rule pcm_okE)
  fix s m
  assume s: "pcm_pak_seq pcm = Some s" "pcm_gapmap pcm = Some m" "seq_ok s" "seq_cap s = 8192" "seq_held h s"
    "bits_ok m (vqec_pak_seq_find s)" "ends_ok (vqec_pak_seq_find s) (pcm_head pcm) (pcm_tail pcm)"
    "pcm_map pcm = vqec_pak_seq_find s"
  let ?f = "vqec_pak_seq_find s" and ?h = "pcm_head pcm" and ?t = "pcm_tail pcm"
  have n: "?f n = Some p" using assms(2) s(8) by simp
  then have ne: "?f n \<noteq> None" by simp
  have pn: "pk_seq_num (ph_mem h p) = n" using s(5) n by (simp add: seq_held_def)
  have num: "vqec_pak_seq_get_num_paks s \<noteq> 0" using num_paks_empty [OF s(3)] ne by auto
  note e = ends_okD [OF s(7) ne]
  have "fdist ?h n \<noteq> fdist ?h ?t" using assms(3) by (metis at_dist)
  then have lt: "fdist ?h n < fdist ?h ?t" using e(5) by simp
  have nt: "fdist n ?t = fdist ?h ?t - fdist ?h n" using unat_window_diff [of n ?h ?t] e(5) by simp
  note from_bits = next_num_from_bits [OF s(3,4,6,7) ne]
  have w: "bm_bit m k \<longleftrightarrow> ?f k \<noteq> None" if "fdist ?h k < 8192" for k
    by (rule bits_window [OF s(3,4,6,7) that])
  have h1: "fdist ?h (n + 1) = fdist ?h n + 1" using fdist_step [of n ?h 1] lt e(3) by simp
  show ?thesis
  proof (cases "?f (n + 1)")
    case (Some q)
    have "next_bit m n 1" using w [of "n + 1"] Some h1 lt e(3) by (simp add: next_bit_def)
    then have "next_num ?f ?h n (n + 1)" using from_bits [of 1] lt e(3) by simp
    moreover have "vqec_pcm_find_next_packet_internal pcm h (Some p) = Some q"
      using s(1) num n pn Some assms(3) by (simp add: vqec_pcm_find_next_packet_internal_def vqec_next_seq_num_def)
    ultimately show ?thesis using Some s(8) by auto
  next
    case None
    let ?w = "\<lparr>nw_temp_seq_num = n + 1, nw_cur_block = 0, nw_last_block_idx = 0, nw_first_block = True\<rparr>"
    have nb: "\<not> bm_bit m (n + 1)" using w [of "n + 1"] None h1 lt e(3) by simp
    have tb: "bm_bit m ?t" using w [of ?t] e(2,3) by simp
    have f1: "fdist (n + 1) ?t = fdist n ?t - 1" using fdist_plus [of ?t n 1] nt lt by simp
    have "?t \<noteq> n + 1" using tb nb by auto
    then have "0 < fdist (n + 1) ?t" by (simp add: unat_gt_0)
    then have "vqec_seq_num_lt (n + 1) ?t" using f1 nt e(3) by (simp add: seq_simps)
    moreover have "next_cached m ?w" by (simp add: next_cached_def)
    moreover have "bitmap_ok m" using s(6) by (simp add: bits_ok_def)
    ultimately obtain j where j: "next_loop (Some m) ?t ?w = Some (n + 1 + of_nat j)" "next_bit m (n + 1) j"
      "j \<le> fdist (n + 1) ?t"
      using next_loop_ok [of m ?t ?w] tb by auto
    have "next_bit m (n + of_nat 1) j" using j(2) by simp
    then have "next_bit m n (1 + j)" using nb by (intro next_bit_shift) (auto simp: le_Suc_eq)
    moreover have "fdist ?h n + (1 + j) < 8192" using j(3) f1 nt lt e(3) by simp
    ultimately have nn: "next_num ?f ?h n (n + of_nat (1 + j))" by (rule from_bits)
    then obtain q where q: "?f (n + of_nat (1 + j)) = Some q" by (auto simp: next_num_def)
    have a: "n + 1 + of_nat j = n + of_nat (1 + j)" by (simp add: add.assoc)
    have "vqec_pcm_find_next_packet_internal pcm h (Some p) = Some q"
      using s(1,2) num n pn None assms(3) j(1) q
      by (simp add: vqec_pcm_find_next_packet_internal_def vqec_next_seq_num_def a del: of_nat_add)
    then show ?thesis using q nn s(8) by auto
  qed
qed

lemma fdist_pre:
  assumes "0 < fdist h n"
  shows "fdist h (vqec_pre_seq_num n) = fdist h n - 1"
proof -
  have "fdist h (vqec_pre_seq_num n) = unat ((n - h) - 1)"
    unfolding vqec_pre_seq_num_def by (simp only: diff_right_commute)
  then show ?thesis using assms unat_sub_if' [of "n - h" 1] by simp
qed

text \<open>Backwards, the loop checks the numbers one by one; the check of the bucket, which stops it after
  a whole turn, never applies in the window.\<close>

lemma pre_loop_ok:
  assumes "seq_ok s" "vqec_pak_seq_find s head \<noteq> None"
    and "fdist head t < fdist head n" "fdist head n < seq_cap s"
  shows "\<exists>n' q. pre_loop s head n t = Some q \<and> vqec_pak_seq_find s n' = Some q \<and> fdist head n' \<le> fdist head t \<and>
    (\<forall>k. vqec_pak_seq_find s k \<noteq> None \<longrightarrow> \<not> (fdist head n' < fdist head k \<and> fdist head k \<le> fdist head t))"
  using assms(3)
proof (induction "fdist head t" arbitrary: t rule: less_induct)
  case less
  let ?f = "vqec_pak_seq_find s"
  show ?case
  proof (cases "?f t")
    case (Some q)
    then show ?thesis by (intro exI [of _ t] exI [of _ q]) (auto simp: pre_loop.simps)
  next
    case None
    let ?p = "vqec_pre_seq_num t"
    have "t \<noteq> head" using None assms(2) by auto
    then have pos: "0 < fdist head t" by (simp add: unat_gt_0)
    note d = fdist_pre [OF pos]
    have nl: "\<not> vqec_seq_num_lt ?p head"
    proof
      assume l: "vqec_seq_num_lt ?p head"
      then have "?p \<noteq> head" by (auto simp: seq_simps)
      from fdist_swap [OF this] have "fdist head ?p = 2 ^ 32 - fdist ?p head" .
      moreover have "fdist ?p head \<le> 2 ^ 31" using l by (simp add: seq_simps)
      ultimately show False using d less.prems assms(4) seq_cap_bounds(2) [OF assms(1)] by simp
    qed
    have "?p \<noteq> n" using d less.prems by auto
    moreover have "fdist head ?p < seq_cap s" using d less.prems assms(4) by linarith
    ultimately have nb: "vqec_pak_seq_find_bucket s ?p \<noteq> vqec_pak_seq_find_bucket s n"
      using seqs.window_slot [OF assms(1), of ?p head n] assms(4)
      by (auto simp: find_bucket_mod(1) [OF assms(1)])
    have e: "pre_loop s head n t = pre_loop s head n ?p"
      using None nl nb by (subst pre_loop.simps) (simp add: Let_def)
    have "fdist head ?p < fdist head t" "fdist head ?p < fdist head n" using d pos less.prems by simp_all
    from less.hyps [OF this] obtain n' q where q: "pre_loop s head n ?p = Some q" "?f n' = Some q"
      "fdist head n' \<le> fdist head ?p"
      "\<forall>k. ?f k \<noteq> None \<longrightarrow> \<not> (fdist head n' < fdist head k \<and> fdist head k \<le> fdist head ?p)"
      by (elim exE conjE) (rule that)
    have "\<not> (fdist head n' < fdist head k \<and> fdist head k \<le> fdist head t)" if k: "?f k \<noteq> None" for k
    proof -
      have "fdist head k \<noteq> fdist head t" using k None by (metis at_dist)
      then show ?thesis using q(4) k d pos by auto
    qed
    then show ?thesis using e q d pos by (intro exI [of _ n'] exI [of _ q]) simp
  qed
qed

lemma find_pre_ok:
  assumes "pcm_ok pcm h" "pcm_map pcm n = Some p" "n \<noteq> pcm_head pcm"
  shows "\<exists>n' q. vqec_pcm_find_pre_packet_internal pcm h (Some p) = Some q \<and> pcm_map pcm n' = Some q \<and>
    next_num (pcm_map pcm) (pcm_head pcm) n' n"
  using assms(1)
proof (rule pcm_okE)
  fix s m
  assume s: "pcm_pak_seq pcm = Some s" "seq_ok s" "seq_cap s = 8192" "seq_held h s"
    "ends_ok (vqec_pak_seq_find s) (pcm_head pcm) (pcm_tail pcm)" "pcm_map pcm = vqec_pak_seq_find s"
  let ?f = "vqec_pak_seq_find s" and ?h = "pcm_head pcm" and ?p = "vqec_pre_seq_num n"
  have n: "?f n = Some p" using assms(2) s(6) by simp
  then have ne: "?f n \<noteq> None" by simp
  have pn: "pk_seq_num (ph_mem h p) = n" using s(4) n by (simp add: seq_held_def)
  have num: "vqec_pak_seq_get_num_paks s \<noteq> 0" using num_paks_empty [OF s(2)] ne by auto
  note e = ends_okD [OF s(5) ne]
  have pos: "0 < fdist ?h n" using assms(3) by (simp add: unat_gt_0)
  note d = fdist_pre [OF pos]
  have "fdist ?h ?p < fdist ?h n" "fdist ?h n < seq_cap s" using d pos e(3,5) s(3) by simp_all
  from pre_loop_ok [OF s(2) e(1) this] obtain n' q where q: "pre_loop s ?h n ?p = Some q" "?f n' = Some q"
    "fdist ?h n' \<le> fdist ?h ?p" "\<forall>k. ?f k \<noteq> None \<longrightarrow> \<not> (fdist ?h n' < fdist ?h k \<and> fdist ?h k \<le> fdist ?h ?p)"
    by (elim exE conjE) (rule that)
  have "next_num ?f ?h n' n" using q(3,4) ne d pos by (auto simp: next_num_def)
  moreover have "vqec_pcm_find_pre_packet_internal pcm h (Some p) = Some q"
    using s(1) num n pn assms(3) q(1) by (simp add: vqec_pcm_find_pre_packet_internal_def)
  ultimately show ?thesis using q(2) s(6) by auto
qed

subsection \<open>Removal keeps the invariant\<close>

lemma ends_del_one:
  assumes "ends_ok f n n" "f n \<noteq> None"
  shows "f(n := None) = Map.empty"
proof
  fix k
  have "k = n" if "f k \<noteq> None" using ends_okD(4) [OF assms that] at_dist [of k n] by simp
  then show "(f(n := None)) k = None" by (cases "f k") auto
qed

lemma ends_del_head:
  assumes "ends_ok f n tail" "f n \<noteq> None" "n \<noteq> tail" "next_num f n n n'"
  shows "ends_ok (f(n := None)) n' tail"
proof -
  note e = ends_okD [OF assms(1,2)]
  have n': "f n' \<noteq> None" "0 < fdist n n'" using assms(4) by (simp_all add: next_num_def)
  have d: "fdist n' k = fdist n k - fdist n n'" "fdist n n' \<le> fdist n k" if "f k \<noteq> None" "k \<noteq> n" for k
  proof -
    have "0 < fdist n k" using that(2) by (simp add: unat_gt_0)
    then show "fdist n n' \<le> fdist n k" using assms(4) that(1) by (auto simp: next_num_def not_less)
    then show "fdist n' k = fdist n k - fdist n n'" by (rule unat_window_diff)
  qed
  have "fdist n' k \<le> fdist n' tail" if "f k \<noteq> None" "k \<noteq> n" for k
    using d [OF that] d [of tail] e(2,4) assms(3) that by fastforce
  then show ?thesis using d(1) [of tail] e assms(3) n' by (auto simp: ends_ok_def)
qed

lemma ends_del_tail:
  assumes "ends_ok f head n" "f n \<noteq> None" "n \<noteq> head" "f n' \<noteq> None" "next_num f head n' n"
  shows "ends_ok (f(n := None)) head n'"
proof -
  note e = ends_okD [OF assms(1,2)]
  have lt: "fdist head n' < fdist head n" using assms(5) by (simp add: next_num_def)
  have le: "fdist head k \<le> fdist head n'" if k: "f k \<noteq> None" "k \<noteq> n" for k
  proof -
    have "fdist head k \<noteq> fdist head n" using k(2) by (metis at_dist)
    then have "fdist head k < fdist head n" using e(4) [OF k(1)] by simp
    then show ?thesis using assms(5) k(1) by (auto simp: next_num_def not_less)
  qed
  show ?thesis using e lt le assms(3,4) by (auto simp: ends_ok_def)
qed

lemma bits_del:
  assumes "seq_ok s" "seq_cap s = 8192" "bits_ok m (vqec_pak_seq_find s)" "vqec_pak_seq_find s n \<noteq> None"
  shows "bits_ok (put_bit m n False) ((vqec_pak_seq_find s)(n := None))"
proof -
  let ?f = "vqec_pak_seq_find s"
  have b: "bitmap_ok m" "unat (bm_size m) = 8192"
    "\<And>k. bm_bit m k \<longleftrightarrow> (\<exists>j. ?f j \<noteq> None \<and> unat j mod 8192 = unat k mod 8192)"
    using assms(3) by (simp_all add: bits_ok_def)
  have "j = n" if "?f j \<noteq> None" "unat j mod 8192 = unat n mod 8192" for j
    using seqs.look_slot [OF assms(1), of j n] that assms(2,4) by simp
  then have "bm_bit (put_bit m n False) k \<longleftrightarrow>
      (\<exists>j. (?f(n := None)) j \<noteq> None \<and> unat j mod 8192 = unat k mod 8192)" for k
    unfolding bm_bit_put_bit [OF b(1)] b(2,3) by (auto split: if_splits) metis+
  then show ?thesis using put_bit_ok [OF b(1)] b(2) by (simp add: bits_ok_def)
qed

lemma same_flags:
  assumes "\<forall>q. (ph_mem h' q)\<lparr>pk_ref_count := 0\<rparr> = (ph_mem h q)\<lparr>pk_ref_count := 0\<rparr>"
  shows "pk_flags (ph_mem h' q) = pk_flags (ph_mem h q)"
proof -
  have "pk_flags ((ph_mem h' q)\<lparr>pk_ref_count := 0\<rparr>) = pk_flags ((ph_mem h q)\<lparr>pk_ref_count := 0\<rparr>)"
    using assms by simp
  then show ?thesis by simp
qed

lemma ran_del:
  assumes "f n = Some p" "\<And>m. f m = Some p \<Longrightarrow> m = n"
  shows "ran (f(n := None)) = ran f - {p}"
proof -
  have "ran f = insert p (ran (f(n := None)))" by (rule ran_without [of f n p, OF assms(1)]) simp
  moreover have "p \<notin> ran (f(n := None))" using assms(2) by (auto simp: ran_def)
  ultimately show ?thesis by simp
qed

lemma inorder_del:
  assumes "inorder_ok h f (pcm_inorder_q pcm)" "f n = Some p" "\<And>m. f m = Some p \<Longrightarrow> m = n"
    and "\<forall>q. (ph_mem h' q)\<lparr>pk_ref_count := 0\<rparr> = (ph_mem h q)\<lparr>pk_ref_count := 0\<rparr>"
  shows "inorder_ok h' (f(n := None)) (pcm_inorder_q (vqec_pcm_inorder_pak_list_remove pcm p h))"
proof -
  let ?q = "pcm_inorder_q pcm"
  have q: "distinct ?q" "\<And>x. x \<in> set ?q \<longleftrightarrow> x \<in> ran f \<and> VQEC_PAK_FLAGS_ISSET (pk_flags (ph_mem h x)) VQEC_PAK_FLAGS_ON_INORDER_Q"
    using assms(1) by (simp_all add: inorder_ok_def)
  have "pcm_inorder_q (vqec_pcm_inorder_pak_list_remove pcm p h) = remove1 p ?q"
    using q(2) [of p] by (simp add: vqec_pcm_inorder_pak_list_remove_def remove1_idem)
  then show ?thesis
    using q by (auto simp: inorder_ok_def ran_del [of f n p, OF assms(2,3)] same_flags [OF assms(4)])
qed

lemma pend_del:
  assumes "pend_ok h f os" "f n = Some p" "\<And>m. f m = Some p \<Longrightarrow> m = n"
    and "heap_live h' = (if pak_refs h p = 1 then heap_live h - {p} else heap_live h)"
    and "\<forall>q. pak_refs h' q = pak_refs h q - (if q = p then 1 else 0)"
  shows "pend_ok h' (f(n := None)) os"
proof -
  have "p \<in> ran f" using assms(2) by (simp add: ranI)
  then show ?thesis
    using assms(1,4,5) by (auto simp: pend_ok_def pak_held_def ran_del [of f n p, OF assms(2,3)])
qed

text \<open>The ends after the removal of the packet with the number \<open>n\<close>.\<close>

lemma shrink_ok:
  assumes ok: "pcm_ok pcm h" and n: "pcm_map pcm n = Some p" and s: "pcm_pak_seq pcm = Some s"
    and pcm1: "pcm1 = vqec_pcm_inorder_pak_list_remove pcm p h"
  shows "\<exists>hd tl. pcm_shrink pcm1 s h p = Done (pcm1\<lparr>pcm_head := hd, pcm_tail := tl\<rparr>) \<and>
    ends_ok ((pcm_map pcm)(n := None)) hd tl"
proof -
  let ?h = "pcm_head pcm" and ?t = "pcm_tail pcm" and ?f = "pcm_map pcm"
  have so: "seq_ok s" "seq_held h s" "ends_ok ?f ?h ?t" "?f = vqec_pak_seq_find s"
    using ok s by (auto elim!: pcm_okE)
  have pn: "pk_seq_num (ph_mem h p) = n" using so(2,4) n by (simp add: seq_held_def)
  have ne: "?f n \<noteq> None" using n by simp
  have frame: "pcm_head pcm1 = ?h" "pcm_tail pcm1 = ?t" "pcm_pak_seq pcm1 = pcm_pak_seq pcm" "pcm_gapmap pcm1 = pcm_gapmap pcm"
    by (simp_all add: pcm1 vqec_pcm_inorder_pak_list_remove_def)
  have fn: "vqec_pcm_find_next_packet_internal pcm1 h x = vqec_pcm_find_next_packet_internal pcm h x"
    "vqec_pcm_find_pre_packet_internal pcm1 h x = vqec_pcm_find_pre_packet_internal pcm h x" for x
    by (simp_all only: vqec_pcm_find_next_packet_internal_def vqec_pcm_find_pre_packet_internal_def frame)
  have num: "pk_seq_num (ph_mem h q) = k" if "?f k = Some q" for k q
    using so(2,4) that by (simp add: seq_held_def)
  consider (one) "?h = n" "?t = n" | (head) "?h = n" "?t \<noteq> n" | (tail) "?h \<noteq> n" "?t = n" | (inner) "?h \<noteq> n" "?t \<noteq> n" by blast
  then show ?thesis
  proof cases
    case one
    have em: "?f(n := None) = Map.empty" using ends_del_one [of ?f n] so(3) one ne by simp
    have "dom ?f = {n}" using em ne by (auto simp: fun_eq_iff dom_def split: if_splits)
    then have "unat (ps_num_paks s) = 1" using seqs.count_look [OF so(1)] so(4) by simp
    then have "vqec_pak_seq_get_num_paks s = 1" by (simp add: vqec_pak_seq_get_num_paks_def word_unat_eq_iff)
    then have "pcm_shrink pcm1 s h p = Done pcm1" using one pn frame by (simp add: pcm_shrink_def)
    moreover have "pcm1 = pcm1\<lparr>pcm_head := n, pcm_tail := n\<rparr>" using frame one by (cases pcm1) simp
    ultimately show ?thesis using em by (intro exI [of _ n]) (simp add: ends_ok_def)
  next
    case head
    from find_next_ok [OF ok n] head obtain n' q where q: "vqec_pcm_find_next_packet_internal pcm h (Some p) = Some q"
      "?f n' = Some q" "next_num ?f n n n'" by auto
    have "pcm_shrink pcm1 s h p = Done (pcm1\<lparr>pcm_head := n', pcm_tail := ?t\<rparr>)"
      using head pn frame fn q num [OF q(2)] by (cases pcm1) (simp add: pcm_shrink_def)
    moreover have "ends_ok (?f(n := None)) n' ?t"
      using ends_del_head [of ?f n ?t n'] so(3) head ne q(3) by simp
    ultimately show ?thesis by blast
  next
    case tail
    from find_pre_ok [OF ok n] tail obtain n' q where q: "vqec_pcm_find_pre_packet_internal pcm h (Some p) = Some q"
      "?f n' = Some q" "next_num ?f ?h n' n" by auto
    have "pcm_shrink pcm1 s h p = Done (pcm1\<lparr>pcm_head := ?h, pcm_tail := n'\<rparr>)"
      using tail pn frame fn q num [OF q(2)] by (cases pcm1) (simp add: pcm_shrink_def)
    moreover have "ends_ok (?f(n := None)) ?h n'"
      using ends_del_tail [of ?f ?h n n'] so(3) tail ne q(2,3) by simp
    ultimately show ?thesis by blast
  next
    case inner
    have "pcm_shrink pcm1 s h p = Done (pcm1\<lparr>pcm_head := ?h, pcm_tail := ?t\<rparr>)"
      using inner pn frame by (cases pcm1) (simp add: pcm_shrink_def)
    moreover have "ends_ok (?f(n := None)) ?h ?t"
      using ends_okD [OF so(3) ne] inner by (auto simp: ends_ok_def)
    ultimately show ?thesis by blast
  qed
qed

lemma remove_ok:
  assumes ok: "pcm_ok pcm h" and n: "pcm_map pcm n = Some p"
  shows "\<exists>pcm' h'. vqec_pcm_remove_packet pcm p h = Done (True, pcm', h') \<and> pcm_ok pcm' h' \<and>
    pcm_map pcm' = (pcm_map pcm)(n := None) \<and> (\<forall>q. pak_refs h' q = pak_refs h q - (if q = p then 1 else 0)) \<and>
    pcm_inorder_q pcm' = remove1 p (pcm_inorder_q pcm) \<and> pcm_osched pcm' = pcm_osched pcm \<and>
    heap_live h' = (if pak_refs h p = 1 then heap_live h - {p} else heap_live h) \<and>
    (\<forall>q. (ph_mem h' q)\<lparr>pk_ref_count := 0\<rparr> = (ph_mem h q)\<lparr>pk_ref_count := 0\<rparr>)"
  using ok
proof (rule pcm_okE)
  fix s m
  assume s: "pcm_pak_seq pcm = Some s" "pcm_gapmap pcm = Some m" "seq_ok s" "seq_cap s = 8192" "seq_held h s"
    "bits_ok m (vqec_pak_seq_find s)" "inorder_ok h (vqec_pak_seq_find s) (pcm_inorder_q pcm)"
    "pend_ok h (vqec_pak_seq_find s) (pcm_osched pcm)" "cand_ok (pcm_candidates pcm)" "heap_ok h"
    "pcm_map pcm = vqec_pak_seq_find s"
  let ?f = "vqec_pak_seq_find s" and ?i = "vqec_pcm_inorder_pak_list_remove pcm p h"
  have f: "?f n = Some p" and ne: "?f n \<noteq> None" using n s(11) by simp_all
  have pn: "pk_seq_num (ph_mem h p) = n" using s(5) f by (simp add: seq_held_def)
  have inj: "k = n" if "?f k = Some p" for k using seq_held_inj [OF s(5) that f] .
  from shrink_ok [OF ok n s(1) refl] obtain hd tl where e: "pcm_shrink ?i s h p = Done (?i\<lparr>pcm_head := hd, pcm_tail := tl\<rparr>)"
    "ends_ok (?f(n := None)) hd tl" using s(11) by auto
  from delete_cases [OF s(3,10,5), of n] f obtain h' where d: "vqec_pak_seq_delete s n h = Done (True, seq_del s n, h')"
    "heap_ok h'" "seq_held h' (seq_del s n)"
    "heap_live h' = (if pak_refs h p = 1 then heap_live h - {p} else heap_live h)"
    "\<forall>q. pak_refs h' q = pak_refs h q - (if q = p then 1 else 0)"
    "\<forall>q. (ph_mem h' q)\<lparr>pk_ref_count := 0\<rparr> = (ph_mem h q)\<lparr>pk_ref_count := 0\<rparr>" by auto
  note l = seqs.del_law [OF s(3) ne]
  let ?r = "?i\<lparr>pcm_head := hd, pcm_tail := tl, pcm_pak_seq := Some (seq_del s n), pcm_gapmap := Some (put_bit m n False)\<rparr>"
  have i: "pcm_gapmap ?i = Some m" "pcm_osched ?i = pcm_osched pcm" "pcm_candidates ?i = pcm_candidates pcm"
    using s(2) by (simp_all add: vqec_pcm_inorder_pak_list_remove_def)
  have run: "vqec_pcm_remove_packet pcm p h = Done (True, ?r, h')"
    using s(1) f pn e(1) d(1) i(1)
    by (simp add: vqec_pcm_remove_packet_def Let_def pcm_clear_gap_bit_def set_clear_bit_ok)
  have inq: "p \<in> set (pcm_inorder_q pcm) \<longleftrightarrow> VQEC_PAK_FLAGS_ISSET (pk_flags (ph_mem h p)) VQEC_PAK_FLAGS_ON_INORDER_Q"
    using s(7) f by (auto simp: inorder_ok_def ranI)
  have "pcm_ok ?r h'"
  proof (rule pcm_okI [where s = "seq_del s n" and m = "put_bit m n False"])
    show "bits_ok (put_bit m n False) (vqec_pak_seq_find (seq_del s n))" using bits_del [OF s(3,4,6) ne] l by simp
    show "inorder_ok h' (vqec_pak_seq_find (seq_del s n)) (pcm_inorder_q ?r)"
      using inorder_del [of h ?f pcm n p h', OF s(7) f inj d(6)] l by simp
    show "pend_ok h' (vqec_pak_seq_find (seq_del s n)) (pcm_osched ?r)"
      using pend_del [of h ?f _ n p h', OF s(8) f inj d(4,5)] l i by simp
  qed (use d l s(4,9) e(2) i in simp_all)
  moreover have "pcm_map ?r = (pcm_map pcm)(n := None)" using l s(11) by (simp add: pcm_map_def)
  moreover have "pcm_inorder_q ?r = remove1 p (pcm_inorder_q pcm)"
    using inq by (simp add: vqec_pcm_inorder_pak_list_remove_def remove1_idem)
  ultimately show ?thesis using run d(4-6) i(2) by (intro exI [of _ ?r] exI [of _ h']) simp
qed

subsection \<open>Flush\<close>

lemma reset_free_ok:
  assumes "heap_ok h" "pend_ok h f os"
  shows "\<exists>os' h'. vqec_dp_oscheduler_outp_reset os True h = Done (os', h') \<and> heap_ok h' \<and>
    os_pak_pend os' = None \<and> \<not> os_last_pak_seq_valid os' \<and>
    (\<forall>q. pak_refs h' q = pak_refs h q - (if os_pak_pend os = Some q then 1 else 0)) \<and>
    (\<forall>q. q \<in> heap_live h' \<longleftrightarrow> q \<in> heap_live h \<and> \<not> (os_pak_pend os = Some q \<and> pak_refs h q = 1)) \<and>
    (\<forall>q. (ph_mem h' q)\<lparr>pk_ref_count := 0\<rparr> = (ph_mem h q)\<lparr>pk_ref_count := 0\<rparr>)"
proof (cases "os_pak_pend os")
  case None
  then show ?thesis
    using assms(1) by (simp add: vqec_dp_oscheduler_outp_reset_def vqec_dp_oscheduler_outp_init_def)
next
  case (Some p)
  then have "pak_held h p" using assms(2) by (auto simp: pend_ok_def)
  from free_held [OF assms(1) this] obtain h' where h': "vqec_pak_free (Some p) h = Done h'" "heap_ok h'"
    "heap_live h' = (if pak_refs h p = 1 then heap_live h - {p} else heap_live h)"
    "\<forall>q. pak_refs h' q = pak_refs h q - (if q = p then 1 else 0)"
    "\<forall>q. (ph_mem h' q)\<lparr>pk_ref_count := 0\<rparr> = (ph_mem h q)\<lparr>pk_ref_count := 0\<rparr>"
    by (elim exE conjE) (rule that)
  have "\<forall>q. q \<in> heap_live h' \<longleftrightarrow> q \<in> heap_live h \<and> \<not> (os_pak_pend os = Some q \<and> pak_refs h q = 1)" using h'(3) Some by auto
  moreover have "\<forall>q. pak_refs h' q = pak_refs h q - (if os_pak_pend os = Some q then 1 else 0)" using h'(4) Some by auto
  ultimately show ?thesis
    using Some h'(1,2,5)
    by (simp add: vqec_dp_oscheduler_outp_reset_def vqec_dp_oscheduler_outp_init_def)
qed

lemma bits_none:
  assumes "bitmap_ok m" "unat (bm_size m) = 8192"
  shows "bits_ok (the (snd (vqe_bitmap_flush (Some m)))) Map.empty"
proof -
  let ?m = "m\<lparr>bm_data := replicate (unat (drop_bit VQE_BITMAP_WORD_SIZE_BITS (bm_size m))) 0\<rparr>"
  have n: "unat (drop_bit VQE_BITMAP_WORD_SIZE_BITS (bm_size m)) = 256"
    using assms(2) by (simp add: VQE_BITMAP_WORD_SIZE_BITS_def unat_drop_bit_div)
  have "bitmap_ok ?m" using assms n by (auto simp: bitmap_ok_def)
  moreover have "\<not> bm_bit ?m b" for b by (simp add: bm_bit_def assms(2) n dbit_def less_mult_imp_div_less)
  ultimately show ?thesis using assms(2) by (simp add: bits_ok_def vqe_bitmap_flush_def)
qed

lemma create_pcm_seq:
  "\<exists>s. vqec_pak_seq_create_in_pool True VQEC_PCM_RING_BUFFER_BUCKET_BITS = Some s \<and> seq_ok s \<and> seq_cap s = 8192 \<and>
    vqec_pak_seq_find s = Map.empty \<and> vqec_pak_seq_get_num_paks s = 0"
  using create_seq_ok [of 13]
  by (auto simp: VQEC_PCM_RING_BUFFER_BUCKET_BITS_def seq_cap_def vqec_pak_seq_get_num_paks_def)

lemma flush_ok:
  assumes "pcm_ok pcm h"
  shows "\<exists>pcm' h'. vqec_pcm_flush True pcm h = Done (True, pcm', h') \<and> pcm_ok pcm' h' \<and> pcm_map pcm' = Map.empty \<and>
    os_pak_pend (pcm_osched pcm') = None \<and> \<not> os_last_pak_seq_valid (pcm_osched pcm') \<and>
    (\<forall>q. pak_refs h' q = pak_refs h q - (if q \<in> ran (pcm_map pcm) then 1 else 0)
       - (if os_pak_pend (pcm_osched pcm) = Some q then 1 else 0)) \<and>
    (\<forall>q. q \<notin> ran (pcm_map pcm) \<and> os_pak_pend (pcm_osched pcm) \<noteq> Some q \<longrightarrow> pak_held h' q = pak_held h q) \<and>
    (\<forall>q. (ph_mem h' q)\<lparr>pk_ref_count := 0\<rparr> = (ph_mem h q)\<lparr>pk_ref_count := 0\<rparr>)"
  using assms
proof (rule pcm_okE)
  fix s m
  assume s: "pcm_pak_seq pcm = Some s" "pcm_gapmap pcm = Some m" "seq_ok s" "seq_cap s = 8192" "seq_held h s"
    "bits_ok m (vqec_pak_seq_find s)" "pend_ok h (vqec_pak_seq_find s) (pcm_osched pcm)"
    "cand_ok (pcm_candidates pcm)" "heap_ok h" "pcm_map pcm = vqec_pak_seq_find s"
  let ?f = "vqec_pak_seq_find s"
  have m: "bitmap_ok m" "unat (bm_size m) = 8192" using s(6) by (simp_all add: bits_ok_def)
  from reset_free_ok [OF s(9,7)] obtain os' h1 where r: "vqec_dp_oscheduler_outp_reset (pcm_osched pcm) True h = Done (os', h1)"
    "heap_ok h1" "os_pak_pend os' = None" "\<not> os_last_pak_seq_valid os'"
    "\<forall>q. pak_refs h1 q = pak_refs h q - (if os_pak_pend (pcm_osched pcm) = Some q then 1 else 0)"
    "\<forall>q. q \<in> heap_live h1 \<longleftrightarrow> q \<in> heap_live h \<and> \<not> (os_pak_pend (pcm_osched pcm) = Some q \<and> pak_refs h q = 1)"
    "\<forall>q. (ph_mem h1 q)\<lparr>pk_ref_count := 0\<rparr> = (ph_mem h q)\<lparr>pk_ref_count := 0\<rparr>"
    by (elim exE conjE) (rule that)
  have np: "os_pak_pend (pcm_osched pcm) \<noteq> Some q" if "?f k = Some q" for k q
    using s(7) that by (auto simp: pend_ok_def ranI)
  have "seq_held h1 s" using s(5) r(5,6) same_header [OF r(7)] np by (simp add: seq_held_def pak_held_def)
  from seq_destroy_ok [OF s(3) r(2) this] obtain h2 where d: "vqec_pak_seq_destroy_in_pool s h1 = Done h2" "heap_ok h2"
    "\<forall>q. pak_refs h2 q = pak_refs h1 q - (if q \<in> ran ?f then 1 else 0)"
    "heap_live h2 = heap_live h1 - {p \<in> ran ?f. pak_refs h1 p = 1}"
    "\<forall>q. (ph_mem h2 q)\<lparr>pk_ref_count := 0\<rparr> = (ph_mem h1 q)\<lparr>pk_ref_count := 0\<rparr>"
    by (elim exE conjE) (rule that)
  obtain t where t: "vqec_pak_seq_create_in_pool True VQEC_PCM_RING_BUFFER_BUCKET_BITS = Some t" "seq_ok t" "seq_cap t = 8192"
    "vqec_pak_seq_find t = Map.empty" "vqec_pak_seq_get_num_paks t = 0"
    using create_pcm_seq by (elim exE conjE) (rule that)
  obtain g where g: "vqe_bitmap_flush (Some m) = (VQE_BITMAP_OK, Some g)" "bits_ok g (vqec_pak_seq_find t)"
    using t(4) bits_none [OF m] by (simp add: vqe_bitmap_flush_def)
  let ?p = "pcm\<lparr>pcm_gapmap := Some g, pcm_inorder_q := [], pcm_osched := os', pcm_pak_seq := Some t,
    pcm_stats := (pcm_stats pcm)\<lparr>st_total_tx_paks := 0\<rparr>, pcm_primary_received := False,
    pcm_repair_received := False, pcm_delay_from_apps := REL_TIME_0\<rparr>"
  have run: "vqec_pcm_flush True pcm h = Done (True, ?p, h2)"
    using s(1,2) g(1) r(1) d(1) t(1,5)
    by (simp add: vqec_pcm_flush_def vqec_pcm_gapmap_flush_def vqec_pcm_inorder_pak_list_flush_def pcm_destroy_seq_def Let_def)
  have "pcm_ok ?p h2"
    by (rule pcm_okI [where s = t and m = g])
      (use d(2) t g(2) r(3) s(8) in \<open>simp_all add: seq_held_def ends_ok_def inorder_ok_def pend_ok_def\<close>)
  moreover have "\<forall>q. q \<notin> ran ?f \<and> os_pak_pend (pcm_osched pcm) \<noteq> Some q \<longrightarrow> pak_held h2 q = pak_held h q"
    using r(5,6) d(3,4) by (simp add: pak_held_def)
  ultimately show ?thesis
    using run r(3-5,7) d(3,5) t(4) s(10)
    by (intro exI [of _ ?p] exI [of _ h2]) (simp add: pcm_map_def)
qed

lemma init_fields:
  "pcm_gapmap (pcm_init_delays params (pcm_init_fec params pcm)) = pcm_gapmap pcm"
  "pcm_pak_seq (pcm_init_delays params (pcm_init_fec params pcm)) = pcm_pak_seq pcm"
  "pcm_inorder_q (pcm_init_delays params (pcm_init_fec params pcm)) = pcm_inorder_q pcm"
  "pcm_osched (pcm_init_delays params (pcm_init_fec params pcm)) = pcm_osched pcm"
  "cand_ok (pcm_candidates (pcm_init_delays params (pcm_init_fec params pcm))) = cand_ok (pcm_candidates pcm)"
  by (simp_all add: pcm_init_delays_def pcm_init_fec_def Let_def cand_ok_def cand_empty_def)

lemma tr135_params_fields:
  "pcm_gapmap (vqec_pcm_set_tr135_params pcm x) = pcm_gapmap pcm"
  "pcm_pak_seq (vqec_pcm_set_tr135_params pcm x) = pcm_pak_seq pcm"
  "pcm_inorder_q (vqec_pcm_set_tr135_params pcm x) = pcm_inorder_q pcm"
  "pcm_osched (vqec_pcm_set_tr135_params pcm x) = pcm_osched pcm"
  "pcm_candidates (vqec_pcm_set_tr135_params pcm x) = pcm_candidates pcm"
  by (simp_all add: vqec_pcm_set_tr135_params_def pcm_mainstream_upd_def Let_def)

lemma init_ok:
  assumes "heap_ok h"
  shows "\<exists>pcm. vqec_pcm_init True True True junk params = Done (True, pcm) \<and> pcm_ok pcm h \<and> pcm_map pcm = Map.empty \<and>
    os_pak_pend (pcm_osched pcm) = None"
proof -
  obtain s where s: "vqec_pak_seq_create_in_pool True VQEC_PCM_RING_BUFFER_BUCKET_BITS = Some s" "seq_ok s"
    "seq_cap s = 8192" "vqec_pak_seq_find s = Map.empty" "vqec_pak_seq_get_num_paks s = 0"
    using create_pcm_seq by (elim exE conjE) (rule that)
  obtain m where m: "vqe_bitmap_create True True junk VQEC_PCM_GAPMAP_SIZE = Some m" "bitmap_ok m" "bm_size m = 8192"
    "\<And>b. \<not> bm_bit m b"
    using create_ok [of 13 junk] by (auto simp: VQEC_PCM_GAPMAP_SIZE_def)
  obtain pcm where run: "vqec_pcm_init True True True junk params = Done (True, pcm)"
    "pcm_pak_seq pcm = Some s" "pcm_gapmap pcm = Some m" "pcm_inorder_q pcm = []" "os_pak_pend (pcm_osched pcm) = None"
    "cand_ok (pcm_candidates pcm)"
    using s(1,5) m(1) pcm_cands_zero_ok
    by (simp add: vqec_pcm_init_def Let_def init_fields tr135_params_fields pcm_zero_def vqec_dp_oscheduler_outp_init_def osched_zero_def)
  have "pcm_ok pcm h"
    by (rule pcm_okI [where s = s and m = m])
      (use assms s m run in \<open>simp_all add: seq_held_def ends_ok_def inorder_ok_def pend_ok_def bits_ok_def\<close>)
  then show ?thesis using run s(4) by (intro exI [of _ pcm]) (simp add: pcm_map_def)
qed

subsection \<open>A walk over the cache\<close>

text \<open>The packets that repeated calls visit, as the play-out and the error correction make them.\<close>

fun pcm_walk :: "nat \<Rightarrow> vqec_pcm \<Rightarrow> pak_heap \<Rightarrow> pak_ptr option \<Rightarrow> pak_ptr list" where
  "pcm_walk 0 pcm h pak = []"
| "pcm_walk (Suc k) pcm h pak =
     (case vqec_pcm_get_next_packet pcm h pak of None \<Rightarrow> [] | Some q \<Rightarrow> q # pcm_walk k pcm h (Some q))"

lemmas walk_step = pcm_walk.simps(2) [where k = 8192, simplified]

definition rank_lt :: "vqec_pcm \<Rightarrow> pak_heap \<Rightarrow> pak_ptr \<Rightarrow> pak_ptr \<Rightarrow> bool" where
  "rank_lt pcm h p q \<longleftrightarrow> fdist (pcm_head pcm) (pk_seq_num (ph_mem h p)) < fdist (pcm_head pcm) (pk_seq_num (ph_mem h q))"

lemma pcm_seq_num:
  assumes "pcm_ok pcm h" "pcm_map pcm n = Some p"
  shows "pk_seq_num (ph_mem h p) = n"
  using assms by (auto elim!: pcm_okE simp: seq_held_def)

lemma pcm_ends:
  assumes "pcm_ok pcm h" "pcm_map pcm n = Some p"
  shows "ends_ok (pcm_map pcm) (pcm_head pcm) (pcm_tail pcm)" "pcm_map pcm (pcm_head pcm) \<noteq> None"
    "fdist (pcm_head pcm) n \<le> fdist (pcm_head pcm) (pcm_tail pcm)" "fdist (pcm_head pcm) (pcm_tail pcm) < 8192"
proof -
  show e: "ends_ok (pcm_map pcm) (pcm_head pcm) (pcm_tail pcm)" using assms(1) by (simp add: pcm_ok_def)
  show "pcm_map pcm (pcm_head pcm) \<noteq> None" "fdist (pcm_head pcm) n \<le> fdist (pcm_head pcm) (pcm_tail pcm)"
    "fdist (pcm_head pcm) (pcm_tail pcm) < 8192"
    using ends_okD [OF e, of n] assms(2) by simp_all
qed

lemma find_next_tail:
  assumes "pcm_ok pcm h" "pcm_map pcm (pcm_tail pcm) = Some p"
  shows "vqec_pcm_find_next_packet_internal pcm h (Some p) = None"
  using assms(1)
  by (rule pcm_okE) (use pcm_seq_num [OF assms] in \<open>simp add: vqec_pcm_find_next_packet_internal_def Let_def\<close>)

lemma find_next_first:
  assumes "pcm_ok pcm h"
  shows "vqec_pcm_find_next_packet_internal pcm h None = (if pcm_map pcm = Map.empty then None else pcm_map pcm (pcm_head pcm))"
  using assms by (rule pcm_okE) (simp add: vqec_pcm_find_next_packet_internal_def num_paks_empty)

lemma walk_after:
  assumes ok: "pcm_ok pcm h"
  shows "pcm_map pcm n = Some p \<Longrightarrow> fdist (pcm_head pcm) (pcm_tail pcm) - fdist (pcm_head pcm) n < k \<Longrightarrow>
    set (pcm_walk k pcm h (Some p)) = {q \<in> ran (pcm_map pcm). rank_lt pcm h p q} \<and>
    sorted_wrt (rank_lt pcm h) (pcm_walk k pcm h (Some p))"
proof (induction k arbitrary: n p)
  case 0
  then show ?case by simp
next
  case (Suc k)
  let ?h = "pcm_head pcm" and ?t = "pcm_tail pcm" and ?f = "pcm_map pcm"
  note e = pcm_ends [OF ok Suc.prems(1)] and num = pcm_seq_num [OF ok]
  have rank: "rank_lt pcm h p q \<longleftrightarrow> fdist ?h n < fdist ?h j" if "?f j = Some q" for q j
    by (simp add: rank_lt_def num [OF that] num [OF Suc.prems(1)])
  show ?case
  proof (cases "n = ?t")
    case True
    then have "vqec_pcm_get_next_packet pcm h (Some p) = None"
      using find_next_tail [OF ok] Suc.prems(1) by (simp add: vqec_pcm_get_next_packet_def)
    moreover have "\<not> rank_lt pcm h p q" if "?f j = Some q" for q j
      using rank [OF that] pcm_ends(3) [OF ok that] True by simp
    ultimately show ?thesis by (auto simp: ran_def)
  next
    case False
    from find_next_ok [OF ok Suc.prems(1) False] obtain n' q
      where q: "vqec_pcm_find_next_packet_internal pcm h (Some p) = Some q" "?f n' = Some q" "next_num ?f ?h n n'"
      by (elim exE conjE) (rule that)
    have lt: "fdist ?h n < fdist ?h n'" and gap: "\<And>j. ?f j \<noteq> None \<Longrightarrow> fdist ?h n < fdist ?h j \<Longrightarrow> fdist ?h n' \<le> fdist ?h j"
      using q(3) by (auto simp: next_num_def not_less)
    have "fdist ?h ?t - fdist ?h n' < k" using Suc.prems(2) lt pcm_ends(3) [OF ok q(2)] by linarith
    note ih = Suc.IH [OF q(2) this]
    have set: "rank_lt pcm h p r \<longleftrightarrow> r = q \<or> rank_lt pcm h q r" if r: "?f j = Some r" for r j
    proof
      assume "rank_lt pcm h p r"
      then have "fdist ?h n' \<le> fdist ?h j" using gap [of j] rank [OF r] r by simp
      moreover have "r = q" if "fdist ?h n' = fdist ?h j"
      proof -
        have "n' = j" using at_dist [of n' ?h] at_dist [of j ?h] that by metis
        then show ?thesis using r q(2) by simp
      qed
      ultimately show "r = q \<or> rank_lt pcm h q r"
        by (auto simp: rank_lt_def num [OF q(2)] num [OF r])
    next
      assume "r = q \<or> rank_lt pcm h q r"
      then show "rank_lt pcm h p r"
      proof
        assume "r = q"
        then show ?thesis using rank [OF q(2)] lt by simp
      next
        assume "rank_lt pcm h q r"
        then show ?thesis using rank [OF r] lt by (simp add: rank_lt_def num [OF q(2)] num [OF r])
      qed
    qed
    have w: "pcm_walk (Suc k) pcm h (Some p) = q # pcm_walk k pcm h (Some q)"
      using q(1) by (simp add: vqec_pcm_get_next_packet_def)
    have "insert q {r \<in> ran ?f. rank_lt pcm h q r} = {r \<in> ran ?f. rank_lt pcm h p r}"
      using set q(2) by (auto simp: ran_def)
    then show ?thesis unfolding w using ih by simp
  qed
qed

lemma walk_ok:
  assumes "pcm_ok pcm h"
  shows "set (pcm_walk 8193 pcm h None) = ran (pcm_map pcm)" "sorted_wrt (rank_lt pcm h) (pcm_walk 8193 pcm h None)"
proof -
  have "set (pcm_walk 8193 pcm h None) = ran (pcm_map pcm) \<and> sorted_wrt (rank_lt pcm h) (pcm_walk 8193 pcm h None)"
  proof (cases "pcm_map pcm = Map.empty")
    case True
    then have "pcm_walk 8193 pcm h None = []"
      using find_next_first [OF assms] by (simp add: walk_step vqec_pcm_get_next_packet_def)
    then show ?thesis using True by simp
  next
    case False
    let ?h = "pcm_head pcm" and ?f = "pcm_map pcm"
    from False obtain n p where "?f n = Some p" by (auto simp: fun_eq_iff)
    note e = pcm_ends [OF assms this]
    then obtain q where q: "?f ?h = Some q" by auto
    have w: "pcm_walk 8193 pcm h None = q # pcm_walk 8192 pcm h (Some q)"
      using find_next_first [OF assms] False q by (simp add: walk_step vqec_pcm_get_next_packet_def)
    have a: "set (pcm_walk 8192 pcm h (Some q)) = {r \<in> ran ?f. rank_lt pcm h q r} \<and> sorted_wrt (rank_lt pcm h) (pcm_walk 8192 pcm h (Some q))"
      by (rule walk_after [OF assms q]) (use e(4) in simp)
    have "r = q \<or> rank_lt pcm h q r" if "?f j = Some r" for r j
    proof (cases "j = ?h")
      case False
      then show ?thesis
        by (simp add: rank_lt_def pcm_seq_num [OF assms q] pcm_seq_num [OF assms that] unat_gt_0)
    qed (use that q in simp)
    then have "set (pcm_walk 8193 pcm h None) = ran ?f" using w a q by (auto simp: ran_def)
    then show ?thesis using w a by simp
  qed
  then show "set (pcm_walk 8193 pcm h None) = ran (pcm_map pcm)" "sorted_wrt (rank_lt pcm h) (pcm_walk 8193 pcm h None)" by simp_all
qed

text \<open>C12: repeated calls of \<open>vqec_pcm_get_next_packet\<close>, from the null pointer on, visit every packet of the
  cache once, in the order of the sequence numbers from the head on, and end. The search skips the gaps by
  the bits of the map, a block of 32 at a time.\<close>

theorem pcm_walk_enumerates:
  assumes "pcm_ok pcm h"
  shows "set (pcm_walk 8193 pcm h None) = ran (pcm_map pcm) \<and>
    sorted_wrt (\<lambda>p q. unat (pk_seq_num (ph_mem h p) - pcm_head pcm) < unat (pk_seq_num (ph_mem h q) - pcm_head pcm))
      (pcm_walk 8193 pcm h None)"
  using walk_ok [OF assms] by (simp add: rank_lt_def [abs_def])

subsection \<open>Properties\<close>

lemma bits_put:
  assumes "bits_ok m f"
  shows "bits_ok (put_bit m n True) (f(n \<mapsto> p))"
proof -
  have b: "bitmap_ok m" "unat (bm_size m) = 8192"
    "\<And>k. bm_bit m k \<longleftrightarrow> (\<exists>j. f j \<noteq> None \<and> unat j mod 8192 = unat k mod 8192)"
    using assms by (simp_all add: bits_ok_def)
  have "bm_bit (put_bit m n True) k \<longleftrightarrow> (\<exists>j. (f(n \<mapsto> p)) j \<noteq> None \<and> unat j mod 8192 = unat k mod 8192)" for k
    unfolding bm_bit_put_bit [OF b(1)] b(2,3) by (auto split: if_splits)
  then show ?thesis using put_bit_ok [OF b(1)] b(2) by (simp add: bits_ok_def)
qed

text \<open>A cache with one packet.\<close>

definition pcm_sample :: vqec_pcm where
  "pcm_sample = pcm_zero\<lparr>
     pcm_pak_seq := Some (seq_put (the (vqec_pak_seq_create_in_pool True VQEC_PCM_RING_BUFFER_BUCKET_BITS)) 70000 4208),
     pcm_gapmap := Some (put_bit (the (vqe_bitmap_create True True [] VQEC_PCM_GAPMAP_SIZE)) 70000 True),
     pcm_head := 70000, pcm_tail := 70000\<rparr>"

abbreviation pcm_heap_sample :: pak_heap where
  "pcm_heap_sample \<equiv> vqec_pak_ref (Some 4208) heap_sample"

lemma pcm_sample_ok: "pcm_ok pcm_sample pcm_heap_sample" "pcm_map pcm_sample = [70000 \<mapsto> 4208]"
proof -
  obtain s where s: "vqec_pak_seq_create_in_pool True VQEC_PCM_RING_BUFFER_BUCKET_BITS = Some s" "seq_ok s"
    "seq_cap s = 8192" "vqec_pak_seq_find s = Map.empty"
    using create_pcm_seq by (elim exE conjE) (rule that)
  obtain m where m: "vqe_bitmap_create True True [] VQEC_PCM_GAPMAP_SIZE = Some m" "bitmap_ok m" "bm_size m = 8192"
    "\<And>b. \<not> bm_bit m b"
    using create_ok [of 13 "[]"] by (auto simp: VQEC_PCM_GAPMAP_SIZE_def)
  have n: "pk_seq_num (ph_mem heap_sample 4208) = 70000" "pk_flags (ph_mem heap_sample 4208) = 0"
    by (simp_all add: heap_sample_def pak_zero_def)
  note put = seqs.put_law [OF s(2), of 70000 4208, unfolded s(4), simplified]
  have r: "pak_refs heap_sample 4208 < 2 ^ 31 - 1" by (simp add: heap_sample_ok(3))
  have held: "pak_held pcm_heap_sample 4208"
    using heap_sample_ok(2) ref_ok(1,2) [OF r] by (simp add: pak_held_def)
  have fl: "\<not> VQEC_PAK_FLAGS_ISSET (pk_flags (ph_mem pcm_heap_sample 4208)) VQEC_PAK_FLAGS_ON_INORDER_Q"
    using n(2) by (simp add: vqec_pak_ref_def VQEC_PAK_FLAGS_ISSET_def)
  have b: "bits_ok m (vqec_pak_seq_find s)" using m s(4) by (simp add: bits_ok_def)
  show "pcm_ok pcm_sample pcm_heap_sample"
  proof (rule pcm_okI [where s = "seq_put s 70000 4208" and m = "put_bit m 70000 True"])
    show "bits_ok (put_bit m 70000 True) (vqec_pak_seq_find (seq_put s 70000 4208))"
      using bits_put [OF b, of 70000 4208] put s(4) by simp
    show "seq_held pcm_heap_sample (seq_put s 70000 4208)"
      using put held n(1) ref_ok(4) [OF r] by (simp add: seq_held_def)
  qed (use put s m held fl heap_sample_ok(1) ref_ok(3) [OF r] pcm_cands_zero_ok in
      \<open>simp_all add: pcm_sample_def pcm_zero_def osched_zero_def ends_ok_def inorder_ok_def pend_ok_def\<close>)
  show "pcm_map pcm_sample = [70000 \<mapsto> 4208]"
    using put s by (simp add: pcm_map_def pcm_sample_def)
qed

theorem pcm_walk_enumerates_witness: "set (pcm_walk 8193 pcm_sample pcm_heap_sample None) = {4208}"
  using pcm_walk_enumerates [OF pcm_sample_ok(1)] pcm_sample_ok(2) by simp

text \<open>C11: in a cache that satisfies the invariant, the removal of a packet that it holds succeeds without a
  failed assertion: the new ends are found, exactly its number becomes absent, the cache gives up its
  reference and the packet leaves the list of those that arrived in order. Any other packet, also one that
  shares its number with a cached one, is refused without a change. Either way the invariant holds after it.\<close>

theorem pcm_remove_packet_refines:
  assumes "pcm_ok pcm h"
  shows "\<exists>pcm' h'. vqec_pcm_remove_packet pcm p h = Done (p \<in> ran (pcm_map pcm), pcm', h') \<and> pcm_ok pcm' h' \<and>
    pcm_map pcm' = (if p \<in> ran (pcm_map pcm) then (pcm_map pcm)(pk_seq_num (ph_mem h p) := None) else pcm_map pcm) \<and>
    (\<forall>q. pak_refs h' q = pak_refs h q - (if p \<in> ran (pcm_map pcm) \<and> q = p then 1 else 0)) \<and>
    pcm_inorder_q pcm' = remove1 p (pcm_inorder_q pcm)"
proof (cases "p \<in> ran (pcm_map pcm)")
  case True
  then obtain n where n: "pcm_map pcm n = Some p" by (auto simp: ran_def)
  from remove_ok [OF assms n] obtain pcm' h' where r: "vqec_pcm_remove_packet pcm p h = Done (True, pcm', h')"
    "pcm_ok pcm' h'" "pcm_map pcm' = (pcm_map pcm)(n := None)"
    "\<forall>q. pak_refs h' q = pak_refs h q - (if q = p then 1 else 0)" "pcm_inorder_q pcm' = remove1 p (pcm_inorder_q pcm)"
    by (elim exE conjE) (rule that)
  show ?thesis
    by (intro exI [of _ pcm'] exI [of _ h']) (use r True pcm_seq_num [OF assms n] in simp)
next
  case False
  then have "vqec_pcm_remove_packet pcm p h = Done (False, pcm, h)"
    using assms by (auto simp: vqec_pcm_remove_packet_def Let_def ran_def elim!: pcm_okE)
  moreover have "p \<notin> set (pcm_inorder_q pcm)" using assms False by (auto simp: pcm_ok_def inorder_ok_def)
  ultimately show ?thesis using False assms by (intro exI [of _ pcm] exI [of _ h]) (simp add: remove1_idem)
qed

theorem pcm_remove_packet_refines_witness:
  "\<exists>pcm' h'. vqec_pcm_remove_packet pcm_sample 4208 pcm_heap_sample = Done (True, pcm', h') \<and>
    pcm_map pcm' = Map.empty \<and> pak_refs h' 4208 = 1"
proof -
  have r: "pak_refs heap_sample 4208 < 2 ^ 31 - 1" by (simp add: heap_sample_ok(3))
  have "pk_seq_num (ph_mem pcm_heap_sample 4208) = 70000" using ref_ok(4) [OF r] by (simp add: heap_sample_def)
  moreover have "pak_refs pcm_heap_sample 4208 = 2" using ref_ok(1) [OF r] heap_sample_ok(3) by simp
  ultimately show ?thesis
    using pcm_remove_packet_refines [OF pcm_sample_ok(1), of 4208] pcm_sample_ok(2) by auto
qed

text \<open>A flush empties the cache and keeps its invariant: every cached packet and the pending one of the
  scheduler lose exactly one reference, the map of the gaps is clear, and the scheduler forgets the last
  packet, so that the stream may go on with any number.\<close>

lemma pcm_flush_empties:
  assumes "pcm_ok pcm h"
  shows "\<exists>pcm' h'. vqec_pcm_flush True pcm h = Done (True, pcm', h') \<and> pcm_ok pcm' h' \<and> pcm_map pcm' = Map.empty \<and>
    pcm_inorder_q pcm' = [] \<and> (\<forall>b. \<not> bm_bit (the (pcm_gapmap pcm')) b) \<and>
    os_pak_pend (pcm_osched pcm') = None \<and> \<not> os_last_pak_seq_valid (pcm_osched pcm') \<and>
    (\<forall>q. pak_refs h' q = pak_refs h q - (if q \<in> ran (pcm_map pcm) then 1 else 0)
       - (if os_pak_pend (pcm_osched pcm) = Some q then 1 else 0))"
proof -
  from flush_ok [OF assms] obtain pcm' h' where r: "vqec_pcm_flush True pcm h = Done (True, pcm', h')" "pcm_ok pcm' h'"
    "pcm_map pcm' = Map.empty" "os_pak_pend (pcm_osched pcm') = None" "\<not> os_last_pak_seq_valid (pcm_osched pcm')"
    "\<forall>q. pak_refs h' q = pak_refs h q - (if q \<in> ran (pcm_map pcm) then 1 else 0)
       - (if os_pak_pend (pcm_osched pcm) = Some q then 1 else 0)"
    by (elim exE conjE) (rule that)
  have "pcm_inorder_q pcm' = []" using r(2,3) by (auto simp: pcm_ok_def inorder_ok_def)
  moreover have "\<not> bm_bit (the (pcm_gapmap pcm')) b" for b
    using r(2) by (rule pcm_okE) (use r(3) in \<open>auto simp: bits_ok_def fun_eq_iff\<close>)
  ultimately show ?thesis
    by (intro exI [of _ pcm'] exI [of _ h']) (use r in simp)
qed

end
