(* ===== verification/Pcm_Insert.thy ===== *)
theory Pcm_Insert
  imports Pcm
begin

text \<open>
  Insertion into the packet cache, \<^verbatim>\<open>vqec_pcm_insert_packets\<close> with the checks and counters that it calls.
  The packets come from the streams, the error correction and the burst, by pointer: the function writes
  their headers. Two flags are arguments: whether the statistics for debugging are collected, and whether
  the pool has a sequencer after a flush. The drop counters of the session may be absent.
\<close>

subsection \<open>The checks\<close>

datatype vqec_pcm_insert_error =
    VQEC_PCM_INSERT_ERROR_DUPLICATE_PAK | VQEC_PCM_INSERT_ERROR_BAD_RANGE_PAK
  | VQEC_PCM_INSERT_ERROR_BAD_RANGE_SOME | VQEC_PCM_INSERT_ERROR_LATE_PAK
  | VQEC_PCM_INSERT_ERROR_LATE_SOME | VQEC_PCM_INSERT_PAK_SEQ_INSERT_FAIL | VQEC_PCM_INSERT_OK

record vqec_drop_stats =
  ds_late_packet_counter :: u64
  ds_duplicate_packet_counter :: u64

definition FEC_TOUCHED :: u16 where "FEC_TOUCHED = 1"

definition vqec_pcm_insert_packet_check_dupe ::
  "bool \<Rightarrow> vqec_pcm \<Rightarrow> vqec_pak_seq \<Rightarrow> pak_ptr \<Rightarrow> pak_heap \<Rightarrow> vqec_pcm_insert_error \<times> vqec_pcm \<times> pak_heap" where
  "vqec_pcm_insert_packet_check_dupe collect pcm s pak h =
     (case vqec_pak_seq_find s (pk_seq_num (ph_mem h pak)) of
        None \<Rightarrow> (VQEC_PCM_INSERT_OK, pcm, h)
      | Some old_pak \<Rightarrow>
          let new_type = pk_type (ph_mem h pak);
              old_type = pk_type (ph_mem h old_pak);
              st = pcm_stats pcm;
              pcm1 = (if new_type = VQEC_PAK_TYPE_REPAIR \<and> old_type = VQEC_PAK_TYPE_REPAIR \<and> collect
                      then pcm\<lparr>pcm_stats := st\<lparr>st_duplicate_repairs := st_duplicate_repairs st + 1\<rparr>\<rparr> else pcm);
              h1 = (if new_type = VQEC_PAK_TYPE_PRIMARY \<and> old_type = VQEC_PAK_TYPE_REPAIR
                    then pak_upd old_pak
                           (\<lambda>p. p\<lparr>pk_flags := VQEC_PAK_FLAGS_RESET (pk_flags p) VQEC_PAK_FLAGS_AFTER_EC\<rparr>) h
                    else h)
          in (VQEC_PCM_INSERT_ERROR_DUPLICATE_PAK, pcm1, h1))"

definition vqec_pcm_insert_packet_check_range ::
  "vqec_pcm \<Rightarrow> vqec_pak_seq \<Rightarrow> vqec_seq_num \<Rightarrow> vqec_seq_num \<Rightarrow> vqec_pcm_insert_error" where
  "vqec_pcm_insert_packet_check_range pcm s low_seq high_seq =
     (let some_paks = vqec_pak_seq_get_num_paks s > 0;
          far = vqec_seq_num_add (pcm_head pcm) VQEC_PCM_MAX_HEAD_TAIL_SPREAD;
          last_seq = vqec_dp_oscheduler_last_pak_seq_get (pcm_osched pcm)
      in if some_paks \<and> vqec_seq_num_ge high_seq far
         then (if vqec_seq_num_ge low_seq far then VQEC_PCM_INSERT_ERROR_BAD_RANGE_PAK
               else VQEC_PCM_INSERT_ERROR_BAD_RANGE_SOME)
         else if some_paks \<and> vqec_seq_num_ge low_seq (vqec_seq_num_add (pcm_tail pcm) VQEC_PCM_MAX_GAP_SIZE)
         then VQEC_PCM_INSERT_ERROR_BAD_RANGE_PAK
         else if some_paks \<and> vqec_seq_num_le high_seq (vqec_seq_num_sub (pcm_head pcm) VQEC_PCM_MAX_GAP_SIZE)
         then VQEC_PCM_INSERT_ERROR_BAD_RANGE_PAK
         else if some_paks \<and> vqec_dp_oscheduler_last_pak_seq_valid (pcm_osched pcm) \<and> vqec_seq_num_le low_seq last_seq
         then (if vqec_seq_num_le high_seq last_seq then VQEC_PCM_INSERT_ERROR_LATE_PAK
               else VQEC_PCM_INSERT_ERROR_LATE_SOME)
         else VQEC_PCM_INSERT_OK)"

definition pcm_stats_upd :: "(vqec_pcm_stats \<Rightarrow> vqec_pcm_stats) \<Rightarrow> vqec_pcm \<Rightarrow> vqec_pcm" where
  "pcm_stats_upd f pcm = pcm\<lparr>pcm_stats := f (pcm_stats pcm)\<rparr>"

definition vqec_pcm_insert_packet_update_stats ::
  "vqec_pcm \<Rightarrow> vqec_drop_stats option \<Rightarrow> vqec_pcm_insert_error \<Rightarrow> (vqec_pcm \<times> vqec_drop_stats option) outcome" where
  "vqec_pcm_insert_packet_update_stats pcm ses err =
     (let pcm1 = pcm_stats_upd (\<lambda>st. st\<lparr>st_pcm_insert_drops := st_pcm_insert_drops st + 1\<rparr>) pcm
      in case err of
           VQEC_PCM_INSERT_ERROR_DUPLICATE_PAK \<Rightarrow>
             Done (pcm_stats_upd (\<lambda>st. st\<lparr>st_duplicate_packet_counter := st_duplicate_packet_counter st + 1\<rparr>) pcm1,
                   map_option (\<lambda>d. d\<lparr>ds_duplicate_packet_counter := ds_duplicate_packet_counter d + 1\<rparr>) ses)
         | VQEC_PCM_INSERT_ERROR_BAD_RANGE_PAK \<Rightarrow>
             Done (pcm_stats_upd (\<lambda>st. st\<lparr>st_seq_bad_range_packet_counter :=
                     st_seq_bad_range_packet_counter st + 1\<rparr>) pcm1, ses)
         | VQEC_PCM_INSERT_ERROR_LATE_PAK \<Rightarrow>
             Done (pcm_stats_upd (\<lambda>st. st\<lparr>st_late_packet_counter := st_late_packet_counter st + 1\<rparr>) pcm1,
                   map_option (\<lambda>d. d\<lparr>ds_late_packet_counter := ds_late_packet_counter d + 1\<rparr>) ses)
         | VQEC_PCM_INSERT_PAK_SEQ_INSERT_FAIL \<Rightarrow>
             Done (pcm_stats_upd (\<lambda>st. st\<lparr>st_pak_seq_insert_fail_counter :=
                     st_pak_seq_insert_fail_counter st + 1\<rparr>) pcm1, ses)
         | _ \<Rightarrow> Assert_failed)"

subsection \<open>One packet\<close>

text \<open>What the loop over the packets carries: the cache, the packets, the counters of the session and the
  number of packets that were accepted.\<close>

record insert_state =
  is_pcm :: vqec_pcm
  is_heap :: pak_heap
  is_ses :: "vqec_drop_stats option"
  is_wr :: u32

definition insert_bump :: "bool \<Rightarrow> pak_ptr \<Rightarrow> pak_heap \<Rightarrow> pak_heap" where
  "insert_bump bump_seqs pak h =
     (if bump_seqs then pak_upd pak (\<lambda>p. p\<lparr>pk_seq_num := vqec_seq_num_bump_seq (pk_seq_num p)\<rparr>) h else h)"

definition insert_app_delay :: "vqec_pcm \<Rightarrow> pak_ptr \<Rightarrow> pak_heap \<Rightarrow> vqec_pcm \<times> pak_heap" where
  "insert_app_delay pcm pak h =
     (let p = ph_mem h pak
      in if pk_type p = VQEC_PAK_TYPE_APP
         then let d = rel_plus_rel_time (pcm_delay_from_apps pcm) (pk_app_cpy_delay p)
              in (pcm\<lparr>pcm_delay_from_apps := d\<rparr>, pak_upd pak (\<lambda>p. p\<lparr>pk_app_cpy_delay := d\<rparr>) h)
         else if rel_time_ne (pcm_delay_from_apps pcm) REL_TIME_0 \<and> rel_time_eq (pk_app_cpy_delay p) REL_TIME_0
         then (pcm, pak_upd pak (\<lambda>p. p\<lparr>pk_app_cpy_delay := pcm_delay_from_apps pcm\<rparr>) h)
         else (pcm, h))"

text \<open>The duplicate check, and the check of the range where the call has not settled it for all packets.\<close>

definition insert_check ::
  "bool \<Rightarrow> bool \<Rightarrow> vqec_pcm \<Rightarrow> vqec_pak_seq \<Rightarrow> pak_ptr \<Rightarrow> pak_heap \<Rightarrow> vqec_pcm_insert_error \<times> vqec_pcm \<times> pak_heap" where
  "insert_check collect each_range pcm s pak h =
     (case vqec_pcm_insert_packet_check_dupe collect pcm s pak h of
        (ret, pcm1, h1) \<Rightarrow>
          if ret = VQEC_PCM_INSERT_OK \<and> each_range
          then let n = pk_seq_num (ph_mem h1 pak);
                   ret1 = vqec_pcm_insert_packet_check_range pcm1 s n n
               in (ret1, if ret1 \<noteq> VQEC_PCM_INSERT_OK then vqec_pcm_log_tr135_overrun pcm1 1 else pcm1, h1)
          else (ret, pcm1, h1))"

definition insert_count :: "bool \<Rightarrow> vqec_pcm \<Rightarrow> pak_ptr \<Rightarrow> pak_heap \<Rightarrow> vqec_pcm \<times> pak_heap" where
  "insert_count collect pcm pak h =
     (let p = ph_mem h pak; n = pk_seq_num p
      in if pk_type p \<noteq> VQEC_PAK_TYPE_PRIMARY
         then let pcm1 = (if pk_fec_touched p = FEC_TOUCHED
                then (if collect then pcm\<lparr>pcm_log := vqec_log_insert_fec_repair_seq (pcm_log pcm) n\<rparr> else pcm)
                else let a = (if collect then pcm_stats_upd (\<lambda>st. st\<lparr>st_repair_packet_counter :=
                                st_repair_packet_counter st + 1\<rparr>) pcm else pcm);
                         b = a\<lparr>pcm_repair_received := True\<rparr>
                     in if collect then b\<lparr>pcm_log := vqec_log_insert_repair_seq (pcm_log b) n\<rparr> else b)
              in (pcm1, pak_set_flag pak VQEC_PAK_FLAGS_RX_REORDERED h)
         else let a = (if collect then pcm_stats_upd (\<lambda>st. st\<lparr>st_primary_packet_counter :=
                         st_primary_packet_counter st + 1\<rparr>) pcm else pcm);
                  b = (if pcm_primary_received a then a
                       else a\<lparr>pcm_primary_received := True, pcm_first_primary_seq := n\<rparr>)
              in (if collect then b\<lparr>pcm_log := vqec_log_insert_primary_seq (pcm_log b) n\<rparr> else b, h))"

text \<open>A primary packet at the tail goes to the list of packets in order and to the candidates.\<close>

definition insert_in_order :: "vqec_pcm \<Rightarrow> pak_ptr \<Rightarrow> pak_heap \<Rightarrow> (vqec_pcm \<times> pak_heap) outcome" where
  "insert_in_order pcm pak h =
     (if pk_type (ph_mem h pak) = VQEC_PAK_TYPE_PRIMARY
      then bind_out (vqec_pcm_inorder_pak_list_insert pcm pak h) (\<lambda>(pcm1, h1).
           bind_out (vqec_pcm_update_candidates (pcm_candidates pcm1) (pk_seq_num (ph_mem h1 pak))
                       (pk_rcv_ts (ph_mem h1 pak))) (\<lambda>c.
           Done (pcm1\<lparr>pcm_candidates := c\<rparr>, h1)))
      else Done (pcm, h))"

text \<open>The ends, after the sequencer has taken the packet.\<close>

definition insert_ends :: "vqec_pcm \<Rightarrow> vqec_pak_seq \<Rightarrow> pak_ptr \<Rightarrow> bool \<Rightarrow> pak_heap \<Rightarrow> (vqec_pcm \<times> pak_heap) outcome" where
  "insert_ends pcm s pak gap_update h =
     (let n = pk_seq_num (ph_mem h pak)
      in if vqec_pak_seq_get_num_paks s = 1
         then insert_in_order (pcm\<lparr>pcm_head := n, pcm_tail := n\<rparr>) pak h
         else if vqec_seq_num_lt n (pcm_head pcm)
         then let pcm1 = (if pcm_head pcm \<noteq> vqec_next_seq_num n \<and> gap_update
                          then vqec_pcm_gap_update_stats pcm (vqec_next_seq_num n) (vqec_pre_seq_num (pcm_head pcm))
                          else pcm)
              in Done (pcm1\<lparr>pcm_head := n\<rparr>, pak_set_flag pak VQEC_PAK_FLAGS_RX_REORDERED h)
         else if vqec_seq_num_gt n (pcm_tail pcm)
         then let pcm1 = (if n \<noteq> vqec_next_seq_num (pcm_tail pcm) \<and> gap_update
                          then vqec_pcm_gap_update_stats pcm (vqec_next_seq_num (pcm_tail pcm)) (vqec_pre_seq_num n)
                          else pcm)
              in insert_in_order (pcm1\<lparr>pcm_tail := n\<rparr>) pak h
         else Done (pcm, pak_set_flag pak VQEC_PAK_FLAGS_RX_REORDERED h))"

definition pcm_set_gap_bit :: "vqec_pcm \<Rightarrow> vqec_seq_num \<Rightarrow> vqec_pcm" where
  "pcm_set_gap_bit pcm n =
     (case vqe_bitmap_set_bit (pcm_gapmap pcm) n of
        (VQE_BITMAP_OK, gm) \<Rightarrow> pcm\<lparr>pcm_gapmap := gm\<rparr>
      | _ \<Rightarrow> pcm)"

definition insert_store :: "vqec_pak_seq \<Rightarrow> pak_ptr \<Rightarrow> bool \<Rightarrow> insert_state \<Rightarrow> insert_state outcome" where
  "insert_store s pak gap_update w =
     (case vqec_pak_seq_insert s pak (is_heap w) of
        (ok, s1, h1) \<Rightarrow>
          let pcm1 = (is_pcm w)\<lparr>pcm_pak_seq := Some s1\<rparr>
          in if ok
             then bind_out (insert_ends (pcm_set_gap_bit pcm1 (pk_seq_num (ph_mem h1 pak))) s1 pak gap_update h1)
                    (\<lambda>(pcm2, h2). Done (w\<lparr>is_pcm := pcm2\<lparr>pcm_last_rx_seq_num := pk_seq_num (ph_mem h2 pak)\<rparr>,
                                          is_heap := h2, is_wr := is_wr w + 1\<rparr>))
             else bind_out (vqec_pcm_insert_packet_update_stats pcm1 (is_ses w) VQEC_PCM_INSERT_PAK_SEQ_INSERT_FAIL)
                    (\<lambda>(pcm2, ses). Done (w\<lparr>is_pcm := pcm2, is_heap := h1, is_ses := ses\<rparr>)))"

text \<open>The body of the loop.\<close>

definition insert_packet :: "bool \<Rightarrow> bool \<Rightarrow> bool \<Rightarrow> pak_ptr \<Rightarrow> insert_state \<Rightarrow> insert_state outcome" where
  "insert_packet collect bump_seqs each_range pak w =
     (case pcm_pak_seq (is_pcm w) of
        None \<Rightarrow> Assert_failed
      | Some s \<Rightarrow>
          let is_primary_session = (pk_type (ph_mem (is_heap w) pak) = VQEC_PAK_TYPE_PRIMARY);
              (pcm1, h1) = insert_app_delay (is_pcm w) pak (insert_bump bump_seqs pak (is_heap w));
              gap_update = vqec_pcm_gap_list_insert_check pcm1 is_primary_session;
              (ret, pcm2, h2) = insert_check collect each_range pcm1 s pak h1
          in if ret \<noteq> VQEC_PCM_INSERT_OK
             then bind_out (vqec_pcm_insert_packet_update_stats pcm2 (is_ses w) ret)
                    (\<lambda>(pcm3, ses). Done (w\<lparr>is_pcm := pcm3, is_heap := h2, is_ses := ses\<rparr>))
             else let (pcm3, h3) = insert_count collect pcm2 pak h2;
                      pcm4 = (if pcm_ts_calculation_done pcm3 then pcm3
                              else vqec_pcm_estimate_pkt_time pcm3 (ph_mem h3 pak))
                  in insert_store s pak gap_update (w\<lparr>is_pcm := pcm4, is_heap := h3\<rparr>))"

fun insert_loop :: "bool \<Rightarrow> bool \<Rightarrow> bool \<Rightarrow> pak_ptr list \<Rightarrow> insert_state \<Rightarrow> insert_state outcome" where
  "insert_loop collect bump_seqs each_range [] w = Done w"
| "insert_loop collect bump_seqs each_range (pak # paks) w =
     bind_out (insert_packet collect bump_seqs each_range pak w)
       (insert_loop collect bump_seqs each_range paks)"

fun insert_drop_all :: "vqec_pcm_insert_error \<Rightarrow> pak_ptr list \<Rightarrow> vqec_pcm \<Rightarrow> vqec_drop_stats option \<Rightarrow>
    (vqec_pcm \<times> vqec_drop_stats option) outcome" where
  "insert_drop_all ret [] pcm ses = Done (pcm, ses)"
| "insert_drop_all ret (pak # paks) pcm ses =
     bind_out (vqec_pcm_insert_packet_update_stats pcm ses ret) (\<lambda>(pcm1, ses1). insert_drop_all ret paks pcm1 ses1)"

subsection \<open>A call\<close>

text \<open>A cache that would be full is emptied first.\<close>

definition insert_overflow :: "bool \<Rightarrow> u32 \<Rightarrow> vqec_pcm \<Rightarrow> pak_heap \<Rightarrow> (bool \<times> vqec_pcm \<times> pak_heap) outcome" where
  "insert_overflow mem needed pcm h =
     (if needed \<ge> push_bit VQEC_PCM_RING_BUFFER_BUCKET_BITS 1
      then bind_out (vqec_pcm_flush mem (vqec_pcm_log_tr135_overrun pcm 1) h) (\<lambda>(_, pcm1, h1). Done (True, pcm1, h1))
      else Done (False, pcm, h))"

text \<open>An empty cache after the first packet has gone out is an underrun.\<close>

definition insert_underrun :: "u32 \<Rightarrow> bool \<Rightarrow> vqec_pcm \<Rightarrow> pak_heap \<Rightarrow> (bool \<times> vqec_pcm \<times> pak_heap) outcome" where
  "insert_underrun num_paks_in_seq bump_seqs pcm h =
     (if num_paks_in_seq = 0 \<and> vqec_dp_oscheduler_last_pak_seq_valid (pcm_osched pcm) \<and> \<not> pcm_underrun_reset_dis pcm
      then let pcm1 = pcm_stats_upd (\<lambda>st. st\<lparr>st_under_run_counter := st_under_run_counter st + 1\<rparr>) pcm;
               pcm2 = (if pcm_dyn_jitter_buf_act pcm1
                       then pcm1\<lparr>pcm_default_delay := rel_plus_rel_time (pcm_cfg_delay pcm1) (pcm_fec_delay pcm1),
                                 pcm_dyn_jitter_buf_act := False\<rparr>
                       else pcm1)
           in bind_out (vqec_dp_oscheduler_outp_reset (pcm_osched pcm2) False h) (\<lambda>(os, h1).
                Done (True, pcm2\<lparr>pcm_osched := os, pcm_delay_from_apps := REL_TIME_0\<rparr>, h1))
      else Done (bump_seqs, pcm, h))"

text \<open>The end of the burst, with the call of the callback as the flag.\<close>

definition insert_burst_done :: "vqec_pcm \<Rightarrow> (bool \<times> vqec_pcm) outcome" where
  "insert_burst_done pcm =
     (case pcm_pak_seq pcm of
        None \<Rightarrow> Assert_failed
      | Some s \<Rightarrow>
          Done (if pcm_primary_received pcm \<and> \<not> pcm_repairs_done_notified pcm \<and>
                   vqec_pak_seq_find s (vqec_pre_seq_num (pcm_first_primary_seq pcm)) \<noteq> None
                then (pcm_repairs_done_cb pcm,
                      pcm\<lparr>pcm_repairs_done_notified := pcm_repairs_done_notified pcm \<or> pcm_repairs_done_cb pcm,
                          pcm_osched := vqec_dp_oscheduler_rcc_burst_done_notify (pcm_osched pcm)\<rparr>)
                else (False, pcm)))"

definition insert_all ::
  "bool \<Rightarrow> bool \<Rightarrow> bool \<Rightarrow> pak_ptr list \<Rightarrow> insert_state \<Rightarrow> (bool \<times> insert_state) outcome" where
  "insert_all collect bump_seqs each_range paks w =
     bind_out (insert_loop collect bump_seqs each_range paks w) (\<lambda>w1.
     bind_out (insert_burst_done (is_pcm w1)) (\<lambda>(cb, pcm1). Done (cb, w1\<lparr>is_pcm := pcm1\<rparr>)))"

text \<open>For packets in sequence the range is checked for the first and the last one.\<close>

definition insert_ranges ::
  "bool \<Rightarrow> bool \<Rightarrow> bool \<Rightarrow> pak_ptr list \<Rightarrow> insert_state \<Rightarrow> (bool \<times> insert_state) outcome" where
  "insert_ranges collect contig bump_seqs paks w =
     (if \<not> contig then insert_all collect bump_seqs True paks w
      else (case pcm_pak_seq (is_pcm w) of
        None \<Rightarrow> Assert_failed
      | Some s \<Rightarrow>
          let ret = vqec_pcm_insert_packet_check_range (is_pcm w) s (pk_seq_num (ph_mem (is_heap w) (hd paks)))
                      (pk_seq_num (ph_mem (is_heap w) (last paks)));
              pcm3 = vqec_pcm_log_tr135_overrun (is_pcm w) 1
          in if ret = VQEC_PCM_INSERT_OK then insert_all collect bump_seqs False paks w
             else if ret = VQEC_PCM_INSERT_ERROR_BAD_RANGE_SOME \<or> ret = VQEC_PCM_INSERT_ERROR_LATE_SOME
             then insert_all collect bump_seqs True paks (w\<lparr>is_pcm := pcm3\<rparr>)
             else if ret = VQEC_PCM_INSERT_ERROR_BAD_RANGE_PAK \<or> ret = VQEC_PCM_INSERT_ERROR_LATE_PAK
             then bind_out (insert_drop_all ret paks (is_pcm w) (is_ses w)) (\<lambda>(pcm4, ses1).
                    Done (False, w\<lparr>is_pcm := vqec_pcm_log_tr135_overrun pcm4 1, is_ses := ses1\<rparr>))
             else Assert_failed))"

definition vqec_pcm_insert_packets ::
  "bool \<Rightarrow> bool \<Rightarrow> vqec_pcm \<Rightarrow> pak_ptr list \<Rightarrow> bool \<Rightarrow> vqec_drop_stats option \<Rightarrow> pak_heap \<Rightarrow>
   (bool \<times> insert_state) outcome" where
  "vqec_pcm_insert_packets mem collect pcm paks contig ses h =
     (case pcm_pak_seq pcm of
        None \<Rightarrow> Assert_failed
      | Some s0 \<Rightarrow>
          if paks = [] then Done (False, \<lparr>is_pcm = pcm, is_heap = h, is_ses = ses, is_wr = 0\<rparr>)
          else let num_paks_in_seq = vqec_pak_seq_get_num_paks s0
          in bind_out (insert_overflow mem (num_paks_in_seq + of_nat (length paks)) pcm h) (\<lambda>(b, pcm1, h1).
             bind_out (insert_underrun num_paks_in_seq b pcm1 h1) (\<lambda>(bump_seqs, pcm2, h2).
             insert_ranges collect contig bump_seqs paks \<lparr>is_pcm = pcm2, is_heap = h2, is_ses = ses, is_wr = 0\<rparr>)))"

subsection \<open>What the steps leave alone\<close>

lemma isset_bit: "VQEC_PAK_FLAGS_ISSET fl k \<longleftrightarrow> bit fl k"
proof -
  have "push_bit k (1 :: u16) = 2 ^ k" by (simp add: push_bit_eq_mult)
  then show ?thesis by (simp only: VQEC_PAK_FLAGS_ISSET_def and_exp_eq_0_iff_not_bit) simp
qed

lemma isset_set: "j < 16 \<Longrightarrow> VQEC_PAK_FLAGS_ISSET (VQEC_PAK_FLAGS_SET fl j) k \<longleftrightarrow> k = j \<or> VQEC_PAK_FLAGS_ISSET fl k"
  by (auto simp: isset_bit VQEC_PAK_FLAGS_SET_def bit_or_iff bit_exp_iff)

lemma isset_reset: "k \<noteq> j \<Longrightarrow> VQEC_PAK_FLAGS_ISSET (VQEC_PAK_FLAGS_RESET fl j) k \<longleftrightarrow> VQEC_PAK_FLAGS_ISSET fl k"
  by (auto simp: isset_bit VQEC_PAK_FLAGS_RESET_def bit_and_iff bit_not_iff bit_exp_iff dest: bit_imp_possible_bit)

lemmas flag_numbers = VQEC_PAK_FLAGS_RX_REORDERED_def VQEC_PAK_FLAGS_ON_INORDER_Q_def VQEC_PAK_FLAGS_AFTER_EC_def

text \<open>The fields that the invariant reads.\<close>

definition pcm_core :: "vqec_pcm \<Rightarrow> vqe_bitmap option \<times> vqec_pak_seq option \<times> u32 \<times> u32 \<times> pak_ptr list \<times> pcm_cands \<times> pak_ptr option" where
  "pcm_core pcm = (pcm_gapmap pcm, pcm_pak_seq pcm, pcm_head pcm, pcm_tail pcm, pcm_inorder_q pcm, pcm_candidates pcm,
     os_pak_pend (pcm_osched pcm))"

lemma pcm_core_ok:
  assumes "pcm_core pcm' = pcm_core pcm"
  shows "pcm_map pcm' = pcm_map pcm" "pcm_ok pcm' h = pcm_ok pcm h" "pcm_pak_seq pcm' = pcm_pak_seq pcm"
    "os_pak_pend (pcm_osched pcm') = os_pak_pend (pcm_osched pcm)"
  using assms by (simp_all add: pcm_core_def pcm_map_def pcm_ok_def pend_ok_def)

named_theorems core "updates that keep the core of the cache"

lemma core_simps [core]:
  "pcm_core (pcm_stats_upd f pcm) = pcm_core pcm"
  "pcm_core (vqec_pcm_log_tr135_overrun pcm i) = pcm_core pcm"
  "pcm_core (vqec_pcm_gap_update_stats pcm a b) = pcm_core pcm"
  "pcm_core (vqec_pcm_estimate_pkt_time pcm pak) = pcm_core pcm"
  by (simp_all add: pcm_core_def pcm_stats_upd_def vqec_pcm_log_tr135_overrun_def pcm_mainstream_upd_def
      vqec_pcm_gap_update_stats_def vqec_pcm_estimate_pkt_time_def Let_def)

lemma update_stats_core:
  assumes "err \<in> {VQEC_PCM_INSERT_ERROR_DUPLICATE_PAK, VQEC_PCM_INSERT_ERROR_BAD_RANGE_PAK, VQEC_PCM_INSERT_ERROR_LATE_PAK,
    VQEC_PCM_INSERT_PAK_SEQ_INSERT_FAIL}"
  shows "\<exists>pcm' ses'. vqec_pcm_insert_packet_update_stats pcm ses err = Done (pcm', ses') \<and> pcm_core pcm' = pcm_core pcm"
  using assms by (auto simp: vqec_pcm_insert_packet_update_stats_def core)

text \<open>The part of a packet that matters to the cache when another packet enters.\<close>

definition pak_core :: "vqec_pak \<Rightarrow> vqec_seq_num \<times> pak_type \<times> s32 \<times> bool \<times> bool" where
  "pak_core p = (pk_seq_num p, pk_type p, pk_ref_count p, VQEC_PAK_FLAGS_ISSET (pk_flags p) VQEC_PAK_FLAGS_ON_INORDER_Q,
     VQEC_PAK_FLAGS_ISSET (pk_flags p) VQEC_PAK_FLAGS_RX_REORDERED)"

definition heap_core :: "pak_ptr \<Rightarrow> pak_heap \<Rightarrow> pak_heap \<Rightarrow> bool" where
  "heap_core p h h' \<longleftrightarrow> heap_live h' = heap_live h \<and> (heap_ok h \<longrightarrow> heap_ok h') \<and>
     (\<forall>q. q \<noteq> p \<longrightarrow> pak_core (ph_mem h' q) = pak_core (ph_mem h q))"

lemma heap_core_refl: "heap_core p h h"
  by (simp add: heap_core_def)

lemma heap_core_trans: "heap_core p h h' \<Longrightarrow> heap_core p h' h'' \<Longrightarrow> heap_core p h h''"
  by (simp add: heap_core_def)

lemma heap_core_upd: "heap_core p h (pak_upd p g h)"
  by (simp add: heap_core_def)

lemma heap_coreD:
  assumes "heap_core p h h'" "q \<noteq> p"
  shows "pk_seq_num (ph_mem h' q) = pk_seq_num (ph_mem h q)" "pak_held h' q = pak_held h q" "pak_refs h' q = pak_refs h q"
    "VQEC_PAK_FLAGS_ISSET (pk_flags (ph_mem h' q)) VQEC_PAK_FLAGS_ON_INORDER_Q =
     VQEC_PAK_FLAGS_ISSET (pk_flags (ph_mem h q)) VQEC_PAK_FLAGS_ON_INORDER_Q"
    "VQEC_PAK_FLAGS_ISSET (pk_flags (ph_mem h' q)) VQEC_PAK_FLAGS_RX_REORDERED =
     VQEC_PAK_FLAGS_ISSET (pk_flags (ph_mem h q)) VQEC_PAK_FLAGS_RX_REORDERED"
  using assms by (auto simp: heap_core_def pak_core_def pak_held_def pak_refs_def)

text \<open>The invariant reads the cached packets and the pending one.\<close>

lemma pcm_ok_frame:
  assumes ok: "pcm_ok pcm h" and h': "heap_ok h'" "\<And>q. q \<in> ran (pcm_map pcm) \<or> os_pak_pend (pcm_osched pcm) = Some q \<Longrightarrow>
      pk_seq_num (ph_mem h' q) = pk_seq_num (ph_mem h q) \<and> pak_held h' q \<and>
      VQEC_PAK_FLAGS_ISSET (pk_flags (ph_mem h' q)) VQEC_PAK_FLAGS_ON_INORDER_Q =
      VQEC_PAK_FLAGS_ISSET (pk_flags (ph_mem h q)) VQEC_PAK_FLAGS_ON_INORDER_Q"
  shows "pcm_ok pcm h'"
  using ok
proof (rule pcm_okE)
  fix s m
  assume s: "pcm_pak_seq pcm = Some s" "pcm_gapmap pcm = Some m" "seq_ok s" "seq_cap s = 8192" "seq_held h s"
    "bits_ok m (vqec_pak_seq_find s)" "ends_ok (vqec_pak_seq_find s) (pcm_head pcm) (pcm_tail pcm)"
    "inorder_ok h (vqec_pak_seq_find s) (pcm_inorder_q pcm)" "pend_ok h (vqec_pak_seq_find s) (pcm_osched pcm)"
    "cand_ok (pcm_candidates pcm)" "heap_ok h" "pcm_map pcm = vqec_pak_seq_find s"
  note d = h'(2) [unfolded s(12)]
  show ?thesis
  proof (rule pcm_okI [OF h'(1) s(1-4) _ s(6,7) _ _ s(10)])
    show "seq_held h' s" using s(5) d by (auto simp: seq_held_def ranI)
    show "inorder_ok h' (vqec_pak_seq_find s) (pcm_inorder_q pcm)" using s(8) d by (auto simp: inorder_ok_def)
    show "pend_ok h' (vqec_pak_seq_find s) (pcm_osched pcm)" using s(9) d by (auto simp: pend_ok_def)
  qed
qed

lemma pcm_held:
  assumes "pcm_ok pcm h" "q \<in> ran (pcm_map pcm) \<or> os_pak_pend (pcm_osched pcm) = Some q"
  shows "pak_held h q"
  using assms by (auto elim!: pcm_okE simp: seq_held_def pend_ok_def ran_def)

lemma pcm_ok_heap:
  assumes ok: "pcm_ok pcm h" and c: "heap_core p h h'" and p: "p \<notin> ran (pcm_map pcm)" "os_pak_pend (pcm_osched pcm) \<noteq> Some p"
  shows "pcm_ok pcm h'"
proof (rule pcm_ok_frame [OF ok])
  show "heap_ok h'" using ok c by (simp add: pcm_ok_def heap_core_def)
  fix q
  assume q: "q \<in> ran (pcm_map pcm) \<or> os_pak_pend (pcm_osched pcm) = Some q"
  then have "q \<noteq> p" using p by auto
  then show "pk_seq_num (ph_mem h' q) = pk_seq_num (ph_mem h q) \<and> pak_held h' q \<and>
      VQEC_PAK_FLAGS_ISSET (pk_flags (ph_mem h' q)) VQEC_PAK_FLAGS_ON_INORDER_Q =
      VQEC_PAK_FLAGS_ISSET (pk_flags (ph_mem h q)) VQEC_PAK_FLAGS_ON_INORDER_Q"
    using heap_coreD [OF c] pcm_held [OF ok q] by simp
qed

text \<open>A packet that may be inserted: somebody holds it, it is neither in the cache nor pending, and its
  flags are clear.\<close>

definition pak_fresh :: "vqec_pcm \<Rightarrow> pak_heap \<Rightarrow> pak_ptr \<Rightarrow> bool" where
  "pak_fresh pcm h p \<longleftrightarrow> pak_held h p \<and> pak_refs h p < 2 ^ 31 - 1 \<and> p \<notin> ran (pcm_map pcm) \<and>
     os_pak_pend (pcm_osched pcm) \<noteq> Some p \<and>
     \<not> VQEC_PAK_FLAGS_ISSET (pk_flags (ph_mem h p)) VQEC_PAK_FLAGS_ON_INORDER_Q \<and>
     \<not> VQEC_PAK_FLAGS_ISSET (pk_flags (ph_mem h p)) VQEC_PAK_FLAGS_RX_REORDERED"

lemma pak_fresh_cong:
  assumes "pak_fresh pcm h q" "heap_core p h h'" "q \<noteq> p" "ran (pcm_map pcm') \<subseteq> insert p (ran (pcm_map pcm))"
    "os_pak_pend (pcm_osched pcm') = os_pak_pend (pcm_osched pcm)"
  shows "pak_fresh pcm' h' q"
  using assms heap_coreD [OF assms(2,3)] by (auto simp: pak_fresh_def)

subsection \<open>The steps before the insertion\<close>

lemma core_range:
  assumes "pcm_core pcm1 = pcm_core pcm" "pcm_osched pcm1 = pcm_osched pcm"
  shows "vqec_pcm_insert_packet_check_range pcm1 s x y = vqec_pcm_insert_packet_check_range pcm s x y"
proof -
  have "pcm_head pcm1 = pcm_head pcm" "pcm_tail pcm1 = pcm_tail pcm" using assms(1) by (simp_all add: pcm_core_def)
  then show ?thesis by (simp only: vqec_pcm_insert_packet_check_range_def assms(2))
qed

lemma bump_delay_ok:
  assumes "insert_app_delay pcm p (insert_bump b p h) = (pcm1, h1)"
  shows "pcm_core pcm1 = pcm_core pcm" "heap_core p h h1" "pak_refs h1 q = pak_refs h q"
    "pk_flags (ph_mem h1 p) = pk_flags (ph_mem h p)" "pk_type (ph_mem h1 p) = pk_type (ph_mem h p)"
    "pk_seq_num (ph_mem h1 p) = (if b then vqec_seq_num_bump_seq (pk_seq_num (ph_mem h p)) else pk_seq_num (ph_mem h p))"
    "pcm_osched pcm1 = pcm_osched pcm"
  using assms
  by (auto simp: insert_app_delay_def insert_bump_def Let_def pcm_core_def heap_core_def pak_refs_def split: if_splits)

lemma check_dupe_ok:
  assumes "vqec_pcm_insert_packet_check_dupe collect pcm s p h = (ret, pcm1, h1)"
  shows "pcm_core pcm1 = pcm_core pcm" "heap_live h1 = heap_live h" "heap_ok h1 = heap_ok h"
    "pak_core (ph_mem h1 q) = pak_core (ph_mem h q)"
    "ret = (if vqec_pak_seq_find s (pk_seq_num (ph_mem h p)) = None then VQEC_PCM_INSERT_OK
            else VQEC_PCM_INSERT_ERROR_DUPLICATE_PAK)"
    "pcm_osched pcm1 = pcm_osched pcm"
  using assms
  by (auto simp: vqec_pcm_insert_packet_check_dupe_def Let_def pcm_core_def pak_core_def isset_reset flag_numbers
      split: option.splits if_splits)

lemma check_range_one:
  "vqec_pcm_insert_packet_check_range pcm s n n \<in>
     {VQEC_PCM_INSERT_OK, VQEC_PCM_INSERT_ERROR_BAD_RANGE_PAK, VQEC_PCM_INSERT_ERROR_LATE_PAK}"
  by (simp add: vqec_pcm_insert_packet_check_range_def Let_def)

lemma insert_check_ok:
  assumes "insert_check collect each pcm s p h = (ret, pcm1, h1)"
  shows "pcm_core pcm1 = pcm_core pcm" "heap_live h1 = heap_live h" "heap_ok h1 = heap_ok h"
    "pak_core (ph_mem h1 q) = pak_core (ph_mem h q)"
    "ret = VQEC_PCM_INSERT_OK \<longleftrightarrow> vqec_pak_seq_find s (pk_seq_num (ph_mem h p)) = None \<and> (each \<longrightarrow>
       vqec_pcm_insert_packet_check_range pcm s (pk_seq_num (ph_mem h p)) (pk_seq_num (ph_mem h p)) = VQEC_PCM_INSERT_OK)"
    "ret \<noteq> VQEC_PCM_INSERT_OK \<Longrightarrow> ret \<in> {VQEC_PCM_INSERT_ERROR_DUPLICATE_PAK, VQEC_PCM_INSERT_ERROR_BAD_RANGE_PAK,
       VQEC_PCM_INSERT_ERROR_LATE_PAK, VQEC_PCM_INSERT_PAK_SEQ_INSERT_FAIL}"
proof -
  obtain ret0 pcm0 h0 where d: "vqec_pcm_insert_packet_check_dupe collect pcm s p h = (ret0, pcm0, h0)"
    by (cases "vqec_pcm_insert_packet_check_dupe collect pcm s p h")
  note c = check_dupe_ok [OF d]
  let ?ret = "vqec_pcm_insert_packet_check_range pcm0 s (pk_seq_num (ph_mem h0 p)) (pk_seq_num (ph_mem h0 p))"
  have r: "h1 = h0" "pcm1 = pcm0 \<or> pcm1 = vqec_pcm_log_tr135_overrun pcm0 1"
    "ret = (if ret0 = VQEC_PCM_INSERT_OK \<and> each then ?ret else ret0)"
    using assms d by (auto simp: insert_check_def Let_def split: if_splits)
  show "pcm_core pcm1 = pcm_core pcm" using r(2) c(1) by (auto simp: core)
  show "heap_live h1 = heap_live h" "heap_ok h1 = heap_ok h" "pak_core (ph_mem h1 q) = pak_core (ph_mem h q)"
    using r(1) c(2-4) by simp_all
  have "pk_seq_num (ph_mem h0 p) = pk_seq_num (ph_mem h p)" using c(4) [of p] by (simp add: pak_core_def)
  then show "ret = VQEC_PCM_INSERT_OK \<longleftrightarrow> vqec_pak_seq_find s (pk_seq_num (ph_mem h p)) = None \<and> (each \<longrightarrow>
       vqec_pcm_insert_packet_check_range pcm s (pk_seq_num (ph_mem h p)) (pk_seq_num (ph_mem h p)) = VQEC_PCM_INSERT_OK)"
    using r(3) c(5) core_range [OF c(1,6)] by auto
  show "ret \<in> {VQEC_PCM_INSERT_ERROR_DUPLICATE_PAK, VQEC_PCM_INSERT_ERROR_BAD_RANGE_PAK,
       VQEC_PCM_INSERT_ERROR_LATE_PAK, VQEC_PCM_INSERT_PAK_SEQ_INSERT_FAIL}" if "ret \<noteq> VQEC_PCM_INSERT_OK"
    using r(3) c(5) that check_range_one [of pcm0 s "pk_seq_num (ph_mem h0 p)"] by (auto split: if_splits)
qed

lemma insert_count_ok:
  assumes "insert_count collect pcm p h = (pcm1, h1)"
  shows "pcm_core pcm1 = pcm_core pcm" "heap_core p h h1" "pak_refs h1 q = pak_refs h q"
    "pk_seq_num (ph_mem h1 p) = pk_seq_num (ph_mem h p)" "pk_type (ph_mem h1 p) = pk_type (ph_mem h p)"
    "VQEC_PAK_FLAGS_ISSET (pk_flags (ph_mem h1 p)) VQEC_PAK_FLAGS_ON_INORDER_Q =
     VQEC_PAK_FLAGS_ISSET (pk_flags (ph_mem h p)) VQEC_PAK_FLAGS_ON_INORDER_Q"
    "pk_type (ph_mem h p) = VQEC_PAK_TYPE_PRIMARY \<Longrightarrow> h1 = h"
proof -
  have h: "h1 = (if pk_type (ph_mem h p) = VQEC_PAK_TYPE_PRIMARY then h else pak_set_flag p VQEC_PAK_FLAGS_RX_REORDERED h)"
    using assms by (auto simp: insert_count_def Let_def split: if_splits)
  show "heap_core p h h1" "pak_refs h1 q = pak_refs h q" "pk_seq_num (ph_mem h1 p) = pk_seq_num (ph_mem h p)"
    "pk_type (ph_mem h1 p) = pk_type (ph_mem h p)" "VQEC_PAK_FLAGS_ISSET (pk_flags (ph_mem h1 p)) VQEC_PAK_FLAGS_ON_INORDER_Q =
     VQEC_PAK_FLAGS_ISSET (pk_flags (ph_mem h p)) VQEC_PAK_FLAGS_ON_INORDER_Q"
    "pk_type (ph_mem h p) = VQEC_PAK_TYPE_PRIMARY \<Longrightarrow> h1 = h"
    by (simp_all add: h pak_set_flag_def heap_core_def pak_refs_def isset_set flag_numbers)
  show "pcm_core pcm1 = pcm_core pcm"
    using assms by (auto simp: insert_count_def Let_def pcm_core_def pcm_stats_upd_def split: if_splits)
qed

subsection \<open>The insertion\<close>

text \<open>All numbers lie in a window of 8192 from \<open>base\<close> on.\<close>

definition in_window :: "vqec_seq_num \<Rightarrow> (vqec_seq_num \<Rightarrow> 'p option) \<Rightarrow> bool" where
  "in_window base f \<longleftrightarrow> (\<forall>n. f n \<noteq> None \<longrightarrow> fdist base n < 8192)"

lemma window_dist:
  fixes x y base :: vqec_seq_num
  assumes "fdist base x < 8192" "fdist base y < 8192"
  shows "fdist x y = (if fdist base x \<le> fdist base y then fdist base y - fdist base x
    else 2 ^ 32 - (fdist base x - fdist base y))"
proof (cases "fdist base x \<le> fdist base y")
  case True
  then show ?thesis using unat_window_diff [of x base y] by simp
next
  case False
  then have "fdist y x = fdist base x - fdist base y" using unat_window_diff [of y base x] by simp
  moreover have "x \<noteq> y" using False by auto
  ultimately show ?thesis using False fdist_swap [of y x] by auto
qed

lemma window_before:
  assumes "fdist base x < 8192" "fdist base y < 8192"
  shows "vqec_seq_num_lt x y \<longleftrightarrow> fdist base x < fdist base y" "vqec_seq_num_gt x y \<longleftrightarrow> fdist base y < fdist base x"
  using window_dist [OF assms] window_dist [OF assms(2,1)] assms by (auto simp: seq_simps)

text \<open>Seen from the base, the ends are the least and the greatest number.\<close>

lemma ends_window:
  assumes "in_window base f" "f \<noteq> Map.empty"
  shows "ends_ok f head tail \<longleftrightarrow> f head \<noteq> None \<and> f tail \<noteq> None \<and>
    (\<forall>n. f n \<noteq> None \<longrightarrow> fdist base head \<le> fdist base n \<and> fdist base n \<le> fdist base tail)"
proof
  assume e: "ends_ok f head tail"
  then have ne: "f head \<noteq> None" "f tail \<noteq> None" "fdist head tail < 8192"
    "\<And>n. f n \<noteq> None \<Longrightarrow> fdist head n \<le> fdist head tail" using assms(2) by (auto simp: ends_ok_def)
  have w: "fdist base n < 8192" if "f n \<noteq> None" for n using assms(1) that by (simp add: in_window_def)
  have "fdist base head \<le> fdist base n \<and> fdist base n \<le> fdist base tail" if n: "f n \<noteq> None" for n
    using window_dist [OF w w, of head n] window_dist [OF w w, of head tail] ne(3) ne(4) [OF n] ne(1,2) n w [OF n]
      w [OF ne(1)] w [OF ne(2)] by (auto split: if_splits)
  then show "f head \<noteq> None \<and> f tail \<noteq> None \<and>
    (\<forall>n. f n \<noteq> None \<longrightarrow> fdist base head \<le> fdist base n \<and> fdist base n \<le> fdist base tail)" using ne by simp
next
  assume a: "f head \<noteq> None \<and> f tail \<noteq> None \<and>
    (\<forall>n. f n \<noteq> None \<longrightarrow> fdist base head \<le> fdist base n \<and> fdist base n \<le> fdist base tail)"
  have w: "fdist base n < 8192" if "f n \<noteq> None" for n using assms(1) that by (simp add: in_window_def)
  have d: "fdist head n = fdist base n - fdist base head" if "f n \<noteq> None" for n
    using window_dist [OF w w, of head n] a that by simp
  have "fdist head n \<le> fdist head tail" if "f n \<noteq> None" for n using d [OF that] d [of tail] a that by auto
  moreover have "fdist head tail < 8192" using d [of tail] a w [of tail] by auto
  ultimately show "ends_ok f head tail" using a by (simp add: ends_ok_def)
qed

lemma ends_put:
  assumes "ends_ok f head tail" "f \<noteq> Map.empty" "in_window base (f(n \<mapsto> p))" "f n = None"
  shows "ends_ok (f(n \<mapsto> p)) (if vqec_seq_num_lt n head then n else head)
    (if \<not> vqec_seq_num_lt n head \<and> vqec_seq_num_gt n tail then n else tail)"
proof -
  have w: "in_window base f" using assms(3,4) by (auto simp: in_window_def split: if_splits)
  then have e: "f head \<noteq> None" "f tail \<noteq> None"
    "\<And>k. f k \<noteq> None \<Longrightarrow> fdist base head \<le> fdist base k \<and> fdist base k \<le> fdist base tail"
    using ends_window [OF w assms(2)] assms(1) by blast+
  have b: "fdist base head < 8192" "fdist base tail < 8192" "fdist base n < 8192"
    using e w assms(3) by (auto simp: in_window_def split: if_splits)
  have ht: "fdist base head \<le> fdist base tail" using e(3) [OF e(1)] by simp
  have ne: "f(n \<mapsto> p) \<noteq> Map.empty" by (auto simp: fun_eq_iff)
  show ?thesis
    unfolding ends_window [OF assms(3) ne] window_before [OF b(3,1)] window_before [OF b(3,2)]
    using e ht assms(4) by (fastforce split: if_splits)
qed

lemma in_order_ok:
  assumes "cand_ok (pcm_candidates pcm)"
    and "pk_type (ph_mem h p) = VQEC_PAK_TYPE_PRIMARY \<longrightarrow>
      \<not> VQEC_PAK_FLAGS_ISSET (pk_flags (ph_mem h p)) VQEC_PAK_FLAGS_RX_REORDERED"
  shows "\<exists>q' c' h'. insert_in_order pcm p h = Done (pcm\<lparr>pcm_inorder_q := q', pcm_candidates := c'\<rparr>, h') \<and> cand_ok c' \<and>
    (q' = pcm_inorder_q pcm \<and> h' = h \<or> q' = pcm_inorder_q pcm @ [p] \<and> h' = pak_set_flag p VQEC_PAK_FLAGS_ON_INORDER_Q h)"
proof (cases "pk_type (ph_mem h p) = VQEC_PAK_TYPE_PRIMARY")
  case False
  have "pcm = pcm\<lparr>pcm_inorder_q := pcm_inorder_q pcm, pcm_candidates := pcm_candidates pcm\<rparr>" by (cases pcm) simp
  then show ?thesis using False assms(1)
    by (intro exI [of _ "pcm_inorder_q pcm"] exI [of _ "pcm_candidates pcm"] exI [of _ h]) (simp add: insert_in_order_def)
next
  case True
  let ?h = "pak_set_flag p VQEC_PAK_FLAGS_ON_INORDER_Q h"
  obtain c' where "vqec_pcm_update_candidates (pcm_candidates pcm) (pk_seq_num (ph_mem ?h p)) (pk_rcv_ts (ph_mem ?h p)) = Done c'"
    "cand_ok c'"
    using update_candidates_ok [OF assms(1)] by blast
  then show ?thesis using True assms(2)
    by (intro exI [of _ "pcm_inorder_q pcm @ [p]"] exI [of _ c'] exI [of _ ?h])
      (simp add: insert_in_order_def vqec_pcm_inorder_pak_list_insert_def)
qed

lemma inorder_put:
  assumes "inorder_ok h f q" "p \<notin> ran f" "f n = None" "heap_core p h h'"
    and "q' = (if VQEC_PAK_FLAGS_ISSET (pk_flags (ph_mem h' p)) VQEC_PAK_FLAGS_ON_INORDER_Q then q @ [p] else q)"
  shows "inorder_ok h' (f(n \<mapsto> p)) q'"
proof -
  have r: "ran (f(n \<mapsto> p)) = insert p (ran f)" using assms(3) by simp
  have "VQEC_PAK_FLAGS_ISSET (pk_flags (ph_mem h' x)) VQEC_PAK_FLAGS_ON_INORDER_Q =
      VQEC_PAK_FLAGS_ISSET (pk_flags (ph_mem h x)) VQEC_PAK_FLAGS_ON_INORDER_Q" if "x \<in> ran f" for x
    using heap_coreD(4) [OF assms(4), of x] that assms(2) by auto
  then show ?thesis
    using assms(1,2) unfolding inorder_ok_def assms(5) r by (auto split: if_splits)
qed

lemma ends_step:
  assumes c: "cand_ok (pcm_candidates pcm)" and n: "n = pk_seq_num (ph_mem h p)"
    and on: "\<not> VQEC_PAK_FLAGS_ISSET (pk_flags (ph_mem h p)) VQEC_PAK_FLAGS_ON_INORDER_Q"
    and re: "pk_type (ph_mem h p) = VQEC_PAK_TYPE_PRIMARY \<longrightarrow>
      \<not> VQEC_PAK_FLAGS_ISSET (pk_flags (ph_mem h p)) VQEC_PAK_FLAGS_RX_REORDERED"
    and one: "one \<longleftrightarrow> vqec_pak_seq_get_num_paks s = 1"
  shows "\<exists>pcm' h'. insert_ends pcm s p gap_update h = Done (pcm', h') \<and>
    pcm_pak_seq pcm' = pcm_pak_seq pcm \<and> pcm_gapmap pcm' = pcm_gapmap pcm \<and> pcm_osched pcm' = pcm_osched pcm \<and>
    cand_ok (pcm_candidates pcm') \<and> heap_core p h h' \<and> pak_refs h' p = pak_refs h p \<and> pk_seq_num (ph_mem h' p) = n \<and>
    pcm_inorder_q pcm' = (if VQEC_PAK_FLAGS_ISSET (pk_flags (ph_mem h' p)) VQEC_PAK_FLAGS_ON_INORDER_Q
      then pcm_inorder_q pcm @ [p] else pcm_inorder_q pcm) \<and>
    pcm_head pcm' = (if one \<or> vqec_seq_num_lt n (pcm_head pcm) then n else pcm_head pcm) \<and>
    pcm_tail pcm' = (if one \<or> \<not> vqec_seq_num_lt n (pcm_head pcm) \<and> vqec_seq_num_gt n (pcm_tail pcm) then n else pcm_tail pcm)"
    (is "\<exists>pcm' h'. ?P pcm' h'")
proof -
  have set: "heap_core p h (pak_set_flag p k h)" "pak_refs (pak_set_flag p k h) p = pak_refs h p"
    "pk_seq_num (ph_mem (pak_set_flag p k h) p) = n" for k
    by (simp_all add: pak_set_flag_def heap_core_def pak_refs_def n)
  have fl: "VQEC_PAK_FLAGS_ISSET (pk_flags (ph_mem (pak_set_flag p VQEC_PAK_FLAGS_ON_INORDER_Q h) p)) VQEC_PAK_FLAGS_ON_INORDER_Q"
    "\<not> VQEC_PAK_FLAGS_ISSET (pk_flags (ph_mem (pak_set_flag p VQEC_PAK_FLAGS_RX_REORDERED h) p)) VQEC_PAK_FLAGS_ON_INORDER_Q"
    using on by (simp_all add: pak_set_flag_def isset_set flag_numbers)
  have gap: "pcm_pak_seq (vqec_pcm_gap_update_stats x a b) = pcm_pak_seq x"
    "pcm_gapmap (vqec_pcm_gap_update_stats x a b) = pcm_gapmap x" "pcm_osched (vqec_pcm_gap_update_stats x a b) = pcm_osched x"
    "pcm_candidates (vqec_pcm_gap_update_stats x a b) = pcm_candidates x" "pcm_head (vqec_pcm_gap_update_stats x a b) = pcm_head x"
    "pcm_tail (vqec_pcm_gap_update_stats x a b) = pcm_tail x"
    "pcm_inorder_q (vqec_pcm_gap_update_stats x a b) = pcm_inorder_q x" for x a b
    by (simp_all add: vqec_pcm_gap_update_stats_def Let_def)
  note ord = in_order_ok [of _ h p, OF _ re]
  consider (one) "one" | (head) "\<not> one" "vqec_seq_num_lt n (pcm_head pcm)"
    | (tail) "\<not> one" "\<not> vqec_seq_num_lt n (pcm_head pcm)" "vqec_seq_num_gt n (pcm_tail pcm)"
    | (mid) "\<not> one" "\<not> vqec_seq_num_lt n (pcm_head pcm)" "\<not> vqec_seq_num_gt n (pcm_tail pcm)" by blast
  then show ?thesis
  proof cases
    case one
    let ?p = "pcm\<lparr>pcm_head := n, pcm_tail := n\<rparr>"
    have "cand_ok (pcm_candidates ?p)" using c by simp
    from ord [OF this] obtain q' c' h' where r: "insert_in_order ?p p h = Done (?p\<lparr>pcm_inorder_q := q', pcm_candidates := c'\<rparr>, h')"
      "cand_ok c'" "q' = pcm_inorder_q ?p \<and> h' = h \<or> q' = pcm_inorder_q ?p @ [p] \<and> h' = pak_set_flag p VQEC_PAK_FLAGS_ON_INORDER_Q h"
      by blast
    have "?P (?p\<lparr>pcm_inorder_q := q', pcm_candidates := c'\<rparr>) h'"
      using one assms(5) r set [of VQEC_PAK_FLAGS_ON_INORDER_Q] fl(1) on heap_core_refl [of p h]
      by (auto simp: insert_ends_def Let_def simp flip: n)
    then show ?thesis by blast
  next
    case head
    then have "insert_ends pcm s p gap_update h = Done ((if pcm_head pcm \<noteq> vqec_next_seq_num n \<and> gap_update
        then vqec_pcm_gap_update_stats pcm (vqec_next_seq_num n) (vqec_pre_seq_num (pcm_head pcm)) else pcm)\<lparr>pcm_head := n\<rparr>,
        pak_set_flag p VQEC_PAK_FLAGS_RX_REORDERED h)"
      using assms(5) by (simp add: insert_ends_def Let_def flip: n)
    then show ?thesis using head c set [of VQEC_PAK_FLAGS_RX_REORDERED] fl(2) gap by auto
  next
    case tail
    let ?p = "(if n \<noteq> vqec_next_seq_num (pcm_tail pcm) \<and> gap_update
        then vqec_pcm_gap_update_stats pcm (vqec_next_seq_num (pcm_tail pcm)) (vqec_pre_seq_num n) else pcm)\<lparr>pcm_tail := n\<rparr>"
    have "cand_ok (pcm_candidates ?p)" using c gap by simp
    from ord [OF this] obtain q' c' h' where r: "insert_in_order ?p p h = Done (?p\<lparr>pcm_inorder_q := q', pcm_candidates := c'\<rparr>, h')"
      "cand_ok c'" "q' = pcm_inorder_q ?p \<and> h' = h \<or> q' = pcm_inorder_q ?p @ [p] \<and> h' = pak_set_flag p VQEC_PAK_FLAGS_ON_INORDER_Q h"
      by blast
    have e: "insert_ends pcm s p gap_update h = insert_in_order ?p p h"
      using tail assms(5) by (simp add: insert_ends_def Let_def flip: n)
    have "?P (?p\<lparr>pcm_inorder_q := q', pcm_candidates := c'\<rparr>) h'"
      unfolding e using tail r set [of VQEC_PAK_FLAGS_ON_INORDER_Q] fl(1) on heap_core_refl [of p h] gap
      by (auto simp flip: n)
    then show ?thesis by blast
  next
    case mid
    then have "insert_ends pcm s p gap_update h = Done (pcm, pak_set_flag p VQEC_PAK_FLAGS_RX_REORDERED h)"
      using assms(5) by (simp add: insert_ends_def Let_def flip: n)
    then show ?thesis using mid c set [of VQEC_PAK_FLAGS_RX_REORDERED] fl(2) by auto
  qed
qed

lemma store_ok:
  assumes ok: "pcm_ok (is_pcm w) (is_heap w)" and s: "pcm_pak_seq (is_pcm w) = Some s"
    and n: "n = pk_seq_num (ph_mem (is_heap w) p)" and new: "pcm_map (is_pcm w) n = None"
    and win: "in_window base ((pcm_map (is_pcm w))(n \<mapsto> p))"
    and p: "pak_held (is_heap w) p" "pak_refs (is_heap w) p < 2 ^ 31 - 1" "p \<notin> ran (pcm_map (is_pcm w))"
      "os_pak_pend (pcm_osched (is_pcm w)) \<noteq> Some p"
    and on: "\<not> VQEC_PAK_FLAGS_ISSET (pk_flags (ph_mem (is_heap w) p)) VQEC_PAK_FLAGS_ON_INORDER_Q"
    and re: "pk_type (ph_mem (is_heap w) p) = VQEC_PAK_TYPE_PRIMARY \<longrightarrow>
      \<not> VQEC_PAK_FLAGS_ISSET (pk_flags (ph_mem (is_heap w) p)) VQEC_PAK_FLAGS_RX_REORDERED"
  shows "\<exists>pcm' h'. insert_store s p gap_update w = Done (w\<lparr>is_pcm := pcm', is_heap := h', is_wr := is_wr w + 1\<rparr>) \<and>
    pcm_ok pcm' h' \<and> pcm_map pcm' = (pcm_map (is_pcm w))(n \<mapsto> p) \<and> heap_core p (is_heap w) h' \<and>
    pak_refs h' p = pak_refs (is_heap w) p + 1 \<and> os_pak_pend (pcm_osched pcm') = os_pak_pend (pcm_osched (is_pcm w))"
  using ok
proof (rule pcm_okE)
  let ?h = "is_heap w" and ?pcm = "is_pcm w"
  fix s' m
  assume "pcm_pak_seq ?pcm = Some s'" and o0: "pcm_gapmap ?pcm = Some m" "seq_ok s'" "seq_cap s' = 8192" "seq_held ?h s'"
    "bits_ok m (vqec_pak_seq_find s')" "ends_ok (vqec_pak_seq_find s') (pcm_head ?pcm) (pcm_tail ?pcm)"
    "inorder_ok ?h (vqec_pak_seq_find s') (pcm_inorder_q ?pcm)" "pend_ok ?h (vqec_pak_seq_find s') (pcm_osched ?pcm)"
    "cand_ok (pcm_candidates ?pcm)" "heap_ok ?h" "pcm_map ?pcm = vqec_pak_seq_find s'"
  then have ss: "s' = s" using s by simp
  note o = o0 [unfolded ss]
  let ?f = "vqec_pak_seq_find s" and ?h1 = "vqec_pak_ref (Some p) ?h" and ?s1 = "seq_put s n p"
  have f: "?f n = None" "in_window base (?f(n \<mapsto> p))" "p \<notin> ran ?f" using new win p(3) o(11) by simp_all
  have free: "?f k = None" if "unat k mod seq_cap s = unat n mod seq_cap s" for k
    using seqs.window_free [OF o(2) _ _ f(1) that, of base] f(2) o(3) by (auto simp: in_window_def split: if_splits)
  have put: "seq_ok ?s1" "seq_cap ?s1 = seq_cap s" "vqec_pak_seq_find ?s1 = ?f(n \<mapsto> p)"
    using seqs.put_law [OF o(2) free] by simp_all
  have ne: "q \<noteq> p" if "?f k = Some q" for k q using f(3) that by (auto simp: ranI)
  have nf: "\<not> seq_full s (unat n mod seq_cap s)" using slot_free_iff [OF o(2), of n] free by blast
  have ins: "vqec_pak_seq_insert s p ?h = (True, ?s1, ?h1)" using insert_cases [OF o(2) n] nf by simp
  note r = ref_ok [OF p(2)]
  have mem: "pk_seq_num (ph_mem ?h1 p) = n" "pk_flags (ph_mem ?h1 p) = pk_flags (ph_mem ?h p)" "pk_type (ph_mem ?h1 p) = pk_type (ph_mem ?h p)"
    by (simp_all add: vqec_pak_ref_def n)
  have hc1: "heap_core p ?h ?h1" using r(2,3) by (auto simp: heap_core_def vqec_pak_ref_def)
  let ?pcm1 = "?pcm\<lparr>pcm_pak_seq := Some ?s1, pcm_gapmap := Some (put_bit m n True)\<rparr>"
  have proj: "pcm_pak_seq ?pcm1 = Some ?s1" "pcm_gapmap ?pcm1 = Some (put_bit m n True)" "pcm_osched ?pcm1 = pcm_osched ?pcm"
    "pcm_inorder_q ?pcm1 = pcm_inorder_q ?pcm" "pcm_head ?pcm1 = pcm_head ?pcm" "pcm_tail ?pcm1 = pcm_tail ?pcm" by simp_all
  have "cand_ok (pcm_candidates ?pcm1)" using o(9) by simp
  from ends_step [where s = ?s1 and gap_update = gap_update, OF this mem(1) [symmetric] _ _ refl, unfolded mem(2,3) proj, OF on re]
  obtain pcm2 h2 where e: "insert_ends ?pcm1 ?s1 p gap_update ?h1 = Done (pcm2, h2)"
    "pcm_pak_seq pcm2 = Some ?s1" "pcm_gapmap pcm2 = Some (put_bit m n True)" "pcm_osched pcm2 = pcm_osched ?pcm"
    "cand_ok (pcm_candidates pcm2)" "heap_core p ?h1 h2" "pak_refs h2 p = pak_refs ?h1 p" "pk_seq_num (ph_mem h2 p) = n"
    "pcm_inorder_q pcm2 = (if VQEC_PAK_FLAGS_ISSET (pk_flags (ph_mem h2 p)) VQEC_PAK_FLAGS_ON_INORDER_Q
      then pcm_inorder_q ?pcm @ [p] else pcm_inorder_q ?pcm)"
    "pcm_head pcm2 = (if vqec_pak_seq_get_num_paks ?s1 = 1 \<or> vqec_seq_num_lt n (pcm_head ?pcm) then n else pcm_head ?pcm)"
    "pcm_tail pcm2 = (if vqec_pak_seq_get_num_paks ?s1 = 1 \<or>
        \<not> vqec_seq_num_lt n (pcm_head ?pcm) \<and> vqec_seq_num_gt n (pcm_tail ?pcm) then n else pcm_tail ?pcm)"
    by (elim exE conjE) (rule that)
  have hc: "heap_core p ?h h2" using heap_core_trans [OF hc1 e(6)] .
  have held2: "pak_held h2 p" using e(6,7) r(1,2) p(1) by (simp add: pak_held_def heap_core_def)
  have cnt: "unat (ps_num_paks ?s1) = unat (ps_num_paks s) + 1" using seqs.count_put [OF o(2) free] by simp
  have one: "vqec_pak_seq_get_num_paks ?s1 = 1 \<longleftrightarrow> ?f = Map.empty"
    using cnt seqs.count_zero [OF o(2)] by (simp add: vqec_pak_seq_get_num_paks_def word_unat_eq_iff)
  have ends: "ends_ok (?f(n \<mapsto> p)) (pcm_head pcm2) (pcm_tail pcm2)"
  proof (cases "?f = Map.empty")
    case True
    then show ?thesis using e(10,11) one by (simp add: ends_ok_def)
  next
    case False
    then show ?thesis using ends_put [OF o(6) False f(2,1)] e(10,11) one by simp
  qed
  let ?r = "pcm2\<lparr>pcm_last_rx_seq_num := n\<rparr>"
  have "pcm_ok ?r h2"
  proof (rule pcm_okI [where s = ?s1 and m = "put_bit m n True"])
    show "seq_held h2 ?s1"
      using o(4) put e(8) held2 heap_coreD(1,2) [OF hc] ne by (simp add: seq_held_def)
    show "inorder_ok h2 (vqec_pak_seq_find ?s1) (pcm_inorder_q ?r)"
      using inorder_put [OF o(7) f(3,1) hc] e(9) put by simp
    show "pend_ok h2 (vqec_pak_seq_find ?s1) (pcm_osched ?r)"
      using o(8) put e(4) p(4) f(1) heap_coreD(2) [OF hc] by (auto simp: pend_ok_def)
    show "heap_ok h2" using hc o(10) by (simp add: heap_core_def)
    show "bits_ok (put_bit m n True) (vqec_pak_seq_find ?s1)" using bits_put [OF o(5)] put by simp
  qed (use put e o(3) ends in simp_all)
  moreover have "insert_store s p gap_update w = Done (w\<lparr>is_pcm := ?r, is_heap := h2, is_wr := is_wr w + 1\<rparr>)"
    using e(1,8) ins mem(1) o(1) by (simp add: insert_store_def Let_def pcm_set_gap_bit_def set_clear_bit_ok)
  ultimately show ?thesis
    using put e(2,4,7) r(1) hc o(11)
    by (intro exI [of _ ?r] exI [of _ h2]) (simp add: pcm_map_def)
qed

text \<open>A packet is taken under its number or it is refused.\<close>

definition pak_taken :: "pak_ptr \<Rightarrow> vqec_seq_num \<Rightarrow> insert_state \<Rightarrow> insert_state \<Rightarrow> bool" where
  "pak_taken p n w w' \<longleftrightarrow> pcm_map (is_pcm w) n = None \<and> pcm_map (is_pcm w') = (pcm_map (is_pcm w))(n \<mapsto> p) \<and>
     is_wr w' = is_wr w + 1 \<and> pak_refs (is_heap w') p = pak_refs (is_heap w) p + 1"

definition pak_refused :: "pak_ptr \<Rightarrow> insert_state \<Rightarrow> insert_state \<Rightarrow> bool" where
  "pak_refused p w w' \<longleftrightarrow> pcm_map (is_pcm w') = pcm_map (is_pcm w) \<and> is_wr w' = is_wr w \<and>
     pak_refs (is_heap w') p = pak_refs (is_heap w) p"

definition bumped :: "bool \<Rightarrow> pak_heap \<Rightarrow> pak_ptr \<Rightarrow> vqec_seq_num" where
  "bumped b h p = (if b then vqec_seq_num_bump_seq (pk_seq_num (ph_mem h p)) else pk_seq_num (ph_mem h p))"

lemma insert_packet_ok:
  assumes ok: "pcm_ok (is_pcm w) (is_heap w)" and fr: "pak_fresh (is_pcm w) (is_heap w) p"
    and n: "n = bumped b (is_heap w) p" and win: "in_window base (pcm_map (is_pcm w))" "fdist base n < 8192"
  shows "\<exists>w'. insert_packet collect b each p w = Done w' \<and> pcm_ok (is_pcm w') (is_heap w') \<and>
    heap_core p (is_heap w) (is_heap w') \<and> os_pak_pend (pcm_osched (is_pcm w')) = os_pak_pend (pcm_osched (is_pcm w)) \<and>
    (if pcm_map (is_pcm w) n = None \<and>
        (each \<longrightarrow> vqec_pcm_insert_packet_check_range (is_pcm w) (the (pcm_pak_seq (is_pcm w))) n n = VQEC_PCM_INSERT_OK)
     then pak_taken p n w w' else pak_refused p w w')"
proof -
  let ?pcm = "is_pcm w" and ?h = "is_heap w"
  obtain s where s: "pcm_pak_seq ?pcm = Some s" "pcm_map ?pcm = vqec_pak_seq_find s" using ok by (auto elim: pcm_okE)
  obtain pcm1 h1 where a: "insert_app_delay ?pcm p (insert_bump b p ?h) = (pcm1, h1)"
    by (cases "insert_app_delay ?pcm p (insert_bump b p ?h)")
  note A = bump_delay_ok [OF a]
  obtain ret pcm2 h2 where c: "insert_check collect each pcm1 s p h1 = (ret, pcm2, h2)"
    by (cases "insert_check collect each pcm1 s p h1")
  note C = insert_check_ok [OF c]
  let ?gap = "vqec_pcm_gap_list_insert_check pcm1 (pk_type (ph_mem ?h p) = VQEC_PAK_TYPE_PRIMARY)"
  have core2: "pcm_core pcm2 = pcm_core ?pcm" using A(1) C(1) by simp
  note k2 = pcm_core_ok [OF core2]
  have hc2: "heap_core p ?h h2" using A(2) C(2,3,4) by (simp add: heap_core_def)
  have p: "pak_held ?h p" "pak_refs ?h p < 2 ^ 31 - 1" "p \<notin> ran (pcm_map ?pcm)" "os_pak_pend (pcm_osched ?pcm) \<noteq> Some p"
    "\<not> VQEC_PAK_FLAGS_ISSET (pk_flags (ph_mem ?h p)) VQEC_PAK_FLAGS_ON_INORDER_Q"
    "\<not> VQEC_PAK_FLAGS_ISSET (pk_flags (ph_mem ?h p)) VQEC_PAK_FLAGS_RX_REORDERED"
    using fr by (simp_all add: pak_fresh_def)
  have ok2: "pcm_ok pcm2 h2" using pcm_ok_heap [OF ok hc2 p(3,4)] k2(2) by simp
  have m2: "pk_seq_num (ph_mem h2 p) = n" "pk_type (ph_mem h2 p) = pk_type (ph_mem ?h p)" "pak_refs h2 p = pak_refs ?h p"
    "\<not> VQEC_PAK_FLAGS_ISSET (pk_flags (ph_mem h2 p)) VQEC_PAK_FLAGS_ON_INORDER_Q"
    "\<not> VQEC_PAK_FLAGS_ISSET (pk_flags (ph_mem h2 p)) VQEC_PAK_FLAGS_RX_REORDERED" "pk_seq_num (ph_mem h1 p) = n"
    using C(4) [of p] A(3) [of p] A(4-6) p(5,6) n by (simp_all add: pak_core_def pak_refs_def bumped_def)
  have acc: "ret = VQEC_PCM_INSERT_OK \<longleftrightarrow> pcm_map ?pcm n = None \<and> (each \<longrightarrow>
      vqec_pcm_insert_packet_check_range ?pcm (the (pcm_pak_seq ?pcm)) n n = VQEC_PCM_INSERT_OK)"
    using C(5) core_range [OF A(1,7)] m2(6) s by simp
  show ?thesis
  proof (cases "ret = VQEC_PCM_INSERT_OK")
    case False
    from update_stats_core [OF C(6) [OF False], of pcm2 "is_ses w"] obtain pcm3 ses where
      u: "vqec_pcm_insert_packet_update_stats pcm2 (is_ses w) ret = Done (pcm3, ses)" "pcm_core pcm3 = pcm_core pcm2"
      by blast
    note k3 = pcm_core_ok [OF u(2)]
    let ?w = "w\<lparr>is_pcm := pcm3, is_heap := h2, is_ses := ses\<rparr>"
    have "insert_packet collect b each p w = Done ?w"
      using s(1) a c False u(1) by (simp add: insert_packet_def)
    moreover have "pak_refused p w ?w" using k2(1) k3(1) m2(3) by (simp add: pak_refused_def)
    ultimately show ?thesis using k2(4) k3(2,4) ok2 hc2 by (intro exI [of _ ?w]) (simp add: False flip: acc)
  next
    case True
    obtain pcm3 h3 where d: "insert_count collect pcm2 p h2 = (pcm3, h3)" by (cases "insert_count collect pcm2 p h2")
    note D = insert_count_ok [OF d]
    let ?pcm4 = "if pcm_ts_calculation_done pcm3 then pcm3 else vqec_pcm_estimate_pkt_time pcm3 (ph_mem h3 p)"
    let ?w4 = "w\<lparr>is_pcm := ?pcm4, is_heap := h3\<rparr>"
    have "pcm_core ?pcm4 = pcm_core ?pcm" using core2 D(1) by (simp add: core)
    note k4 = pcm_core_ok [OF this]
    have hc3: "heap_core p ?h h3" using heap_core_trans [OF hc2 D(2)] .
    have new: "pcm_map ?pcm n = None" using acc True by simp
    have refs: "pak_refs h3 p = pak_refs ?h p" using D(3) m2(3) by simp
    have held: "pak_held h3 p" using refs hc3 p(1) by (simp add: pak_held_def heap_core_def)
    have w1: "in_window base ((pcm_map ?pcm)(n \<mapsto> p))" using win by (simp add: in_window_def)
    have "\<exists>pcm' h'. insert_store s p ?gap ?w4 = Done (?w4\<lparr>is_pcm := pcm', is_heap := h', is_wr := is_wr ?w4 + 1\<rparr>) \<and>
      pcm_ok pcm' h' \<and> pcm_map pcm' = (pcm_map (is_pcm ?w4))(n \<mapsto> p) \<and> heap_core p (is_heap ?w4) h' \<and>
      pak_refs h' p = pak_refs (is_heap ?w4) p + 1 \<and> os_pak_pend (pcm_osched pcm') = os_pak_pend (pcm_osched (is_pcm ?w4))"
    proof (rule store_ok)
      show "pcm_ok (is_pcm ?w4) (is_heap ?w4)" using pcm_ok_heap [OF ok hc3 p(3,4)] k4(2) by simp
      show "pk_type (ph_mem (is_heap ?w4) p) = VQEC_PAK_TYPE_PRIMARY \<longrightarrow>
        \<not> VQEC_PAK_FLAGS_ISSET (pk_flags (ph_mem (is_heap ?w4) p)) VQEC_PAK_FLAGS_RX_REORDERED"
        using D(5,7) m2(5) by auto
    qed (use k4(1,3,4) s(1) D(4,6) m2(1,4) new w1 held refs p(2-4) in simp_all)
    then obtain pcm' h' where e: "insert_store s p ?gap ?w4 = Done (?w4\<lparr>is_pcm := pcm', is_heap := h', is_wr := is_wr w + 1\<rparr>)"
      "pcm_ok pcm' h'" "pcm_map pcm' = (pcm_map ?pcm)(n \<mapsto> p)" "heap_core p h3 h'" "pak_refs h' p = pak_refs h3 p + 1"
      "os_pak_pend (pcm_osched pcm') = os_pak_pend (pcm_osched ?pcm)"
      using k4(1,4) by auto
    let ?w = "?w4\<lparr>is_pcm := pcm', is_heap := h', is_wr := is_wr w + 1\<rparr>"
    have "insert_packet collect b each p w = Done ?w"
      using s(1) a c True d e(1) by (simp add: insert_packet_def)
    moreover have "pak_taken p n w ?w" using new e(3,5) refs by (simp add: pak_taken_def)
    ultimately show ?thesis using e(2,6) heap_core_trans [OF hc3 e(4)] by (intro exI [of _ ?w]) (simp add: True flip: acc)
  qed
qed

subsection \<open>The loop\<close>

lemma bumped_core: "heap_core p h h' \<Longrightarrow> q \<noteq> p \<Longrightarrow> bumped b h' q = bumped b h q"
  by (simp add: bumped_def heap_coreD(1))

text \<open>The effect of a run over the packets \<open>paks\<close>: the cache keeps what it has and takes some of them, each
  under its number, with one reference to each. An empty cache takes the first one.\<close>

definition paks_taken :: "bool \<Rightarrow> pak_ptr list \<Rightarrow> insert_state \<Rightarrow> insert_state \<Rightarrow> bool" where
  "paks_taken b paks w w' \<longleftrightarrow>
     (let f = pcm_map (is_pcm w); f' = pcm_map (is_pcm w'); new = ran f' - ran f
      in f \<subseteq>\<^sub>m f' \<and> (\<forall>n p. f' n = Some p \<longrightarrow> f n = Some p \<or> p \<in> set paks \<and> n = bumped b (is_heap w) p) \<and>
         (f = Map.empty \<and> paks \<noteq> [] \<longrightarrow> hd paks \<in> ran f') \<and> is_wr w' = is_wr w + of_nat (card new) \<and>
         (\<forall>q. pak_refs (is_heap w') q = pak_refs (is_heap w) q + (if q \<in> new then 1 else 0)))"

lemma map_le_ran: "f \<subseteq>\<^sub>m g \<Longrightarrow> ran f \<subseteq> ran g"
  by (auto simp: ran_def map_le_def dom_def) metis

lemma paks_taken_ran: "paks_taken b paks w w' \<Longrightarrow> ran (pcm_map (is_pcm w)) \<subseteq> ran (pcm_map (is_pcm w'))"
  by (rule map_le_ran) (simp add: paks_taken_def Let_def)

lemma insert_step_trans:
  assumes c: "heap_core p (is_heap w) (is_heap w1)" and p: "p \<notin> ran (pcm_map (is_pcm w))" "p \<notin> set paks"
    and s: "pak_refused p w w1 \<or> pak_taken p (bumped b (is_heap w) p) w w1"
    and first: "pcm_map (is_pcm w) = Map.empty \<longrightarrow> pak_taken p (bumped b (is_heap w) p) w w1" and t: "paks_taken b paks w1 w'"
  shows "paks_taken b (p # paks) w w'"
proof -
  let ?f = "pcm_map (is_pcm w)" and ?f1 = "pcm_map (is_pcm w1)" and ?f' = "pcm_map (is_pcm w')"
  have t': "?f1 \<subseteq>\<^sub>m ?f'" "\<And>n q. ?f' n = Some q \<Longrightarrow> ?f1 n = Some q \<or> q \<in> set paks \<and> n = bumped b (is_heap w) q"
    "is_wr w' = is_wr w1 + of_nat (card (ran ?f' - ran ?f1))"
    "\<And>q. pak_refs (is_heap w') q = pak_refs (is_heap w1) q + (if q \<in> ran ?f' - ran ?f1 then 1 else 0)"
  proof -
    have "bumped b (is_heap w1) q = bumped b (is_heap w) q" if "q \<in> set paks" for q
      by (rule bumped_core [OF c]) (use that p(2) in auto)
    then show "\<And>n q. ?f' n = Some q \<Longrightarrow> ?f1 n = Some q \<or> q \<in> set paks \<and> n = bumped b (is_heap w) q"
      using t by (auto simp: paks_taken_def Let_def)
  qed (use t in \<open>simp_all add: paks_taken_def Let_def\<close>)
  have hd: "p \<in> ran ?f'" if "?f = Map.empty"
  proof -
    have "?f1 = ?f(bumped b (is_heap w) p \<mapsto> p)" using first that by (simp add: pak_taken_def)
    then have "p \<in> ran ?f1" by (simp add: ran_def) blast
    then show ?thesis using paks_taken_ran [OF t] by blast
  qed
  have ref: "pak_refs (is_heap w1) q = pak_refs (is_heap w) q" if "q \<noteq> p" for q by (rule heap_coreD(3) [OF c that])
  show ?thesis
    using s
  proof
    assume "pak_refused p w w1"
    then have "?f1 = ?f" "is_wr w1 = is_wr w" "pak_refs (is_heap w1) q = pak_refs (is_heap w) q" for q
      using ref [of q] by (cases "q = p"; simp add: pak_refused_def)+
    then show ?thesis using t' hd by (auto simp: paks_taken_def Let_def)
  next
    let ?n = "bumped b (is_heap w) p"
    assume a: "pak_taken p ?n w w1"
    then have f1: "?f ?n = None" "?f1 = ?f(?n \<mapsto> p)" "is_wr w1 = is_wr w + 1"
      "pak_refs (is_heap w1) p = pak_refs (is_heap w) p + 1" by (simp_all add: pak_taken_def)
    have r1: "ran ?f1 = insert p (ran ?f)" using f1(1,2) by simp
    have pr: "p \<in> ran ?f'" using paks_taken_ran [OF t] r1 by auto
    have new: "ran ?f' - ran ?f = insert p (ran ?f' - ran ?f1)" using r1 pr p(1) by auto
    have "ran ?f' - ran ?f1 \<subseteq> set paks" using t'(2) by (auto simp: ran_def)
    then have fin: "finite (ran ?f' - ran ?f1)" by (rule finite_subset) simp
    have "p \<notin> ran ?f' - ran ?f1" using r1 by simp
    from card_insert_disjoint [OF fin this] have card: "card (ran ?f' - ran ?f) = Suc (card (ran ?f' - ran ?f1))"
      by (simp only: new)
    have "?f \<subseteq>\<^sub>m ?f1" using f1(1,2) by (auto simp: map_le_def)
    then have le: "?f \<subseteq>\<^sub>m ?f'" using t'(1) by (rule map_le_trans)
    have ent: "?f n = Some q \<or> q \<in> set (p # paks) \<and> n = bumped b (is_heap w) q" if "?f' n = Some q" for n q
      using t'(2) [OF that] f1(2) by (auto split: if_splits)
    have refs: "pak_refs (is_heap w') q = pak_refs (is_heap w) q + (if q \<in> ran ?f' - ran ?f then 1 else 0)" for q
      using t'(4) [of q] f1(4) ref [of q] r1 pr p(1) by (cases "q = p") auto
    show ?thesis using le ent refs hd t'(3) f1(3) card by (auto simp: paks_taken_def Let_def)
  qed
qed

lemma check_range_empty:
  assumes "pcm_ok pcm h" "pcm_map pcm = Map.empty"
  shows "vqec_pcm_insert_packet_check_range pcm (the (pcm_pak_seq pcm)) lo hi = VQEC_PCM_INSERT_OK"
  using assms(1)
proof (rule pcm_okE)
  fix s m
  assume s: "pcm_pak_seq pcm = Some s" "seq_ok s" "pcm_map pcm = vqec_pak_seq_find s"
  then have "vqec_pak_seq_get_num_paks s = 0" using assms(2) num_paks_empty [OF s(2)] by simp
  then show ?thesis using s(1) by (simp add: vqec_pcm_insert_packet_check_range_def)
qed

lemma insert_loop_ok:
  assumes "pcm_ok (is_pcm w) (is_heap w)" "distinct paks" "\<forall>p\<in>set paks. pak_fresh (is_pcm w) (is_heap w) p"
    "in_window base (pcm_map (is_pcm w))" "\<forall>p\<in>set paks. fdist base (bumped b (is_heap w) p) < 8192"
  shows "\<exists>w'. insert_loop collect b each paks w = Done w' \<and> pcm_ok (is_pcm w') (is_heap w') \<and> paks_taken b paks w w'"
  using assms
proof (induction paks arbitrary: w)
  case Nil
  then show ?case by (simp add: paks_taken_def)
next
  case (Cons p paks)
  have fr: "pak_fresh (is_pcm w) (is_heap w) p" and bp: "fdist base (bumped b (is_heap w) p) < 8192"
    using Cons.prems(3,5) by simp_all
  from insert_packet_ok [OF Cons.prems(1) fr refl Cons.prems(4) bp, of collect each] obtain w1
    where w1: "insert_packet collect b each p w = Done w1" "pcm_ok (is_pcm w1) (is_heap w1)"
      "heap_core p (is_heap w) (is_heap w1)" "os_pak_pend (pcm_osched (is_pcm w1)) = os_pak_pend (pcm_osched (is_pcm w))"
      "if pcm_map (is_pcm w) (bumped b (is_heap w) p) = None \<and> (each \<longrightarrow> vqec_pcm_insert_packet_check_range (is_pcm w)
           (the (pcm_pak_seq (is_pcm w))) (bumped b (is_heap w) p) (bumped b (is_heap w) p) = VQEC_PCM_INSERT_OK)
       then pak_taken p (bumped b (is_heap w) p) w w1 else pak_refused p w w1"
    by (elim exE conjE) (rule that)
  have st: "pak_refused p w w1 \<or> pak_taken p (bumped b (is_heap w) p) w w1" using w1(5) by presburger
  have fst: "pcm_map (is_pcm w) = Map.empty \<longrightarrow> pak_taken p (bumped b (is_heap w) p) w w1"
    using w1(5) check_range_empty [OF Cons.prems(1)] by simp
  have d: "q \<noteq> p" if "q \<in> set paks" for q using Cons.prems(2) that by auto
  have r: "ran (pcm_map (is_pcm w1)) \<subseteq> insert p (ran (pcm_map (is_pcm w)))"
    using st by (auto simp: pak_refused_def pak_taken_def)
  have f: "\<forall>q\<in>set paks. pak_fresh (is_pcm w1) (is_heap w1) q"
    using Cons.prems(3) d by (auto intro: pak_fresh_cong [OF _ w1(3) _ r w1(4)])
  have win: "in_window base (pcm_map (is_pcm w1))"
    using st Cons.prems(4) bp by (auto simp: pak_refused_def pak_taken_def in_window_def split: if_splits)
  have bs: "\<forall>q\<in>set paks. fdist base (bumped b (is_heap w1) q) < 8192"
    using Cons.prems(5) d by (simp add: bumped_core [OF w1(3)])
  have "distinct paks" using Cons.prems(2) by simp
  from Cons.IH [OF w1(2) this f win bs] obtain w' where
    w': "insert_loop collect b each paks w1 = Done w'" "pcm_ok (is_pcm w') (is_heap w')" "paks_taken b paks w1 w'"
    by (elim exE conjE) (rule that)
  have "paks_taken b (p # paks) w w'"
    by (rule insert_step_trans [OF w1(3) _ _ st fst w'(3)]) (use fr Cons.prems(2) in \<open>simp_all add: pak_fresh_def\<close>)
  then show ?case using w1(1) w'(1,2) by simp
qed

lemma insert_all_ok:
  assumes "pcm_ok (is_pcm w) (is_heap w)" "distinct paks" "\<forall>p\<in>set paks. pak_fresh (is_pcm w) (is_heap w) p"
    "in_window base (pcm_map (is_pcm w))" "\<forall>p\<in>set paks. fdist base (bumped b (is_heap w) p) < 8192"
  shows "\<exists>cb w'. insert_all collect b each paks w = Done (cb, w') \<and> pcm_ok (is_pcm w') (is_heap w') \<and> paks_taken b paks w w'"
proof -
  from insert_loop_ok [OF assms, of collect each] obtain w1 where w1: "insert_loop collect b each paks w = Done w1"
    "pcm_ok (is_pcm w1) (is_heap w1)" "paks_taken b paks w w1" by (elim exE conjE) (rule that)
  obtain s where s: "pcm_pak_seq (is_pcm w1) = Some s" using w1(2) by (auto elim: pcm_okE)
  have "\<exists>cb pcm1. insert_burst_done (is_pcm w1) = Done (cb, pcm1) \<and> pcm_core pcm1 = pcm_core (is_pcm w1)"
    using s by (auto simp: insert_burst_done_def pcm_core_def vqec_dp_oscheduler_rcc_burst_done_notify_def)
  then obtain cb pcm1 where d: "insert_burst_done (is_pcm w1) = Done (cb, pcm1)" "pcm_core pcm1 = pcm_core (is_pcm w1)"
    by blast
  note k = pcm_core_ok [OF d(2)]
  show ?thesis
    using w1 d(1) k(1,2) by (intro exI [of _ cb] exI [of _ "w1\<lparr>is_pcm := pcm1\<rparr>"]) (simp add: insert_all_def paks_taken_def)
qed

lemma drop_all_core:
  assumes "ret \<in> {VQEC_PCM_INSERT_ERROR_BAD_RANGE_PAK, VQEC_PCM_INSERT_ERROR_LATE_PAK}"
  shows "\<exists>pcm' ses'. insert_drop_all ret paks pcm ses = Done (pcm', ses') \<and> pcm_core pcm' = pcm_core pcm"
proof (induction paks arbitrary: pcm ses)
  case (Cons p paks)
  obtain pcm1 ses1 where u: "vqec_pcm_insert_packet_update_stats pcm ses ret = Done (pcm1, ses1)" "pcm_core pcm1 = pcm_core pcm"
    using update_stats_core [of ret pcm ses] assms by auto
  then show ?case using Cons.IH [of pcm1 ses1] by auto
qed simp

subsection \<open>A call\<close>

lemma fresh_heap:
  assumes "pak_fresh pcm h p" "pcm_map pcm' = Map.empty" "os_pak_pend (pcm_osched pcm') = None" "pak_held h' p = pak_held h p"
    "pak_refs h' p = pak_refs h p" "\<forall>q. (ph_mem h' q)\<lparr>pk_ref_count := 0\<rparr> = (ph_mem h q)\<lparr>pk_ref_count := 0\<rparr>"
  shows "pak_fresh pcm' h' p"
  using assms(1-5) same_flags [OF assms(6), of p] by (simp add: pak_fresh_def)

lemma overflow_ok:
  assumes "pcm_ok pcm h" "\<forall>p\<in>set paks. pak_fresh pcm h p"
  shows "\<exists>pcm1 h1. insert_overflow True k pcm h = Done (k \<ge> 8192, pcm1, h1) \<and> pcm_ok pcm1 h1 \<and>
    pcm_map pcm1 = (if k \<ge> 8192 then Map.empty else pcm_map pcm) \<and>
    (\<forall>p\<in>set paks. pak_fresh pcm1 h1 p \<and> pk_seq_num (ph_mem h1 p) = pk_seq_num (ph_mem h p) \<and> pak_refs h1 p = pak_refs h p)"
proof (cases "k \<ge> 8192")
  case False
  then show ?thesis using assms by (simp add: insert_overflow_def VQEC_PCM_RING_BUFFER_BUCKET_BITS_def)
next
  case True
  let ?p = "vqec_pcm_log_tr135_overrun pcm 1"
  note k = pcm_core_ok [OF core_simps(2), of pcm 1]
  have "pcm_ok ?p h" using k(2) assms(1) by simp
  from flush_ok [OF this] obtain pcm1 h1 where r: "vqec_pcm_flush True ?p h = Done (True, pcm1, h1)" "pcm_ok pcm1 h1"
    "pcm_map pcm1 = Map.empty" "os_pak_pend (pcm_osched pcm1) = None"
    "\<forall>q. pak_refs h1 q = pak_refs h q - (if q \<in> ran (pcm_map ?p) then 1 else 0)
       - (if os_pak_pend (pcm_osched ?p) = Some q then 1 else 0)"
    "\<forall>q. q \<notin> ran (pcm_map ?p) \<and> os_pak_pend (pcm_osched ?p) \<noteq> Some q \<longrightarrow> pak_held h1 q = pak_held h q"
    "\<forall>q. (ph_mem h1 q)\<lparr>pk_ref_count := 0\<rparr> = (ph_mem h q)\<lparr>pk_ref_count := 0\<rparr>"
    by (elim exE conjE) (rule that)
  have "pak_fresh pcm1 h1 p \<and> pk_seq_num (ph_mem h1 p) = pk_seq_num (ph_mem h p) \<and> pak_refs h1 p = pak_refs h p" if "p \<in> set paks" for p
  proof -
    have f: "pak_fresh pcm h p" using assms(2) that by simp
    have "pak_held h1 p = pak_held h p" "pak_refs h1 p = pak_refs h p" using f r(5,6) k(1,4) by (auto simp: pak_fresh_def)
    then show ?thesis using fresh_heap [OF f r(3,4) _ _ r(7)] same_header [OF r(7)] by simp
  qed
  then show ?thesis using True r(1-3)
    by (intro exI [of _ pcm1] exI [of _ h1]) (simp add: insert_overflow_def VQEC_PCM_RING_BUFFER_BUCKET_BITS_def)
qed

lemma underrun_ok:
  "\<exists>b' pcm'. insert_underrun k b pcm h = Done (b', pcm', h) \<and> pcm_core pcm' = pcm_core pcm \<and> (b' \<longrightarrow> b \<or> k = 0)"
proof (cases "k = 0 \<and> vqec_dp_oscheduler_last_pak_seq_valid (pcm_osched pcm) \<and> \<not> pcm_underrun_reset_dis pcm")
  case True
  obtain os where os: "vqec_dp_oscheduler_outp_reset (pcm_osched pcm) False h = Done (os, h)" "os_pak_pend os = os_pak_pend (pcm_osched pcm)"
    by (simp add: vqec_dp_oscheduler_outp_reset_def vqec_dp_oscheduler_outp_init_def)
  then show ?thesis using True
    by (auto simp: insert_underrun_def Let_def pcm_stats_upd_def pcm_core_def)
qed (auto simp: insert_underrun_def)

lemma window_bump: "fdist (base + VQEC_SEQ_NUM_RTP_DISCONT_IND) (vqec_seq_num_bump_seq n) = fdist base n"
  by (simp add: vqec_seq_num_bump_seq_def)

lemma check_range_cases:
  "vqec_pcm_insert_packet_check_range pcm s a b \<in>
     {VQEC_PCM_INSERT_OK, VQEC_PCM_INSERT_ERROR_BAD_RANGE_PAK, VQEC_PCM_INSERT_ERROR_LATE_PAK,
      VQEC_PCM_INSERT_ERROR_BAD_RANGE_SOME, VQEC_PCM_INSERT_ERROR_LATE_SOME}"
  by (simp add: vqec_pcm_insert_packet_check_range_def Let_def)

text \<open>After the two resets, whichever way the ranges are checked.\<close>

lemma insert_rest_ok:
  assumes ok: "pcm_ok pcm h" and d: "distinct paks" and fr: "\<forall>p\<in>set paks. pak_fresh pcm h p"
    and win: "in_window base (pcm_map pcm)" "\<forall>p\<in>set paks. fdist base (bumped b h p) < 8192"
    and w: "w = \<lparr>is_pcm = pcm, is_heap = h, is_ses = ses, is_wr = 0\<rparr>"
  shows "\<exists>cb w'. insert_ranges collect contig b paks w = Done (cb, w') \<and> pcm_ok (is_pcm w') (is_heap w') \<and> paks_taken b paks w w'"
proof -
  have all: "\<exists>cb w'. insert_all collect b each paks (w\<lparr>is_pcm := p\<rparr>) = Done (cb, w') \<and> pcm_ok (is_pcm w') (is_heap w') \<and> paks_taken b paks w w'"
    if p: "pcm_core p = pcm_core pcm" for p each
  proof -
    note k = pcm_core_ok [OF p]
    have "\<exists>cb w'. insert_all collect b each paks (w\<lparr>is_pcm := p\<rparr>) = Done (cb, w') \<and> pcm_ok (is_pcm w') (is_heap w') \<and>
      paks_taken b paks (w\<lparr>is_pcm := p\<rparr>) w'"
      by (rule insert_all_ok [where base = base]) (use k ok d fr win in \<open>simp_all add: w pak_fresh_def\<close>)
    then show ?thesis using k(1) by (simp add: paks_taken_def w)
  qed
  have same: "w\<lparr>is_pcm := pcm\<rparr> = w" by (simp add: w)
  obtain s where s: "pcm_pak_seq (is_pcm w) = Some s" using ok w by (auto elim: pcm_okE)
  define ret where "ret = vqec_pcm_insert_packet_check_range (is_pcm w) s (pk_seq_num (ph_mem (is_heap w) (hd paks)))
    (pk_seq_num (ph_mem (is_heap w) (last paks)))"
  note r = ret_def [symmetric]
  consider (each) "\<not> contig" | (ok) "contig" "ret = VQEC_PCM_INSERT_OK"
    | (some) "contig" "ret = VQEC_PCM_INSERT_ERROR_BAD_RANGE_SOME \<or> ret = VQEC_PCM_INSERT_ERROR_LATE_SOME"
    | (none) "contig" "ret \<in> {VQEC_PCM_INSERT_ERROR_BAD_RANGE_PAK, VQEC_PCM_INSERT_ERROR_LATE_PAK}"
    using check_range_cases unfolding ret_def by auto
  then show ?thesis
  proof cases
    case each
    then show ?thesis using all [OF refl, of True, unfolded same] by (simp add: insert_ranges_def)
  next
    case ok
    then show ?thesis using all [OF refl, of False, unfolded same] s r by (simp add: insert_ranges_def Let_def)
  next
    case some
    then show ?thesis using all [of "vqec_pcm_log_tr135_overrun pcm 1" True] s r w by (auto simp: insert_ranges_def core Let_def)
  next
    case none
    from drop_all_core [OF none(2), of paks pcm ses] obtain pcm4 ses1 where
      e: "insert_drop_all ret paks pcm ses = Done (pcm4, ses1)" "pcm_core pcm4 = pcm_core pcm" by blast
    let ?w = "w\<lparr>is_pcm := vqec_pcm_log_tr135_overrun pcm4 1, is_ses := ses1\<rparr>"
    have "pcm_core (is_pcm ?w) = pcm_core pcm" using e(2) by (simp add: core)
    note k = pcm_core_ok [OF this]
    have "pcm_map pcm \<noteq> Map.empty" using check_range_empty [OF assms(1)] none(2) s by (auto simp: ret_def w)
    then have "pcm_ok (is_pcm ?w) (is_heap ?w)" "paks_taken b paks w ?w" using k(1,2) assms(1) by (simp_all add: w paks_taken_def)
    moreover have "insert_ranges collect contig b paks w = Done (False, ?w)"
      using none e(1) s r w by (auto simp: insert_ranges_def Let_def)
    ultimately show ?thesis by (intro exI [of _ False] exI [of _ ?w]) simp
  qed
qed

subsection \<open>Properties\<close>

text \<open>The state in which the packets are inserted: the overflow and the underrun have been handled, and an
  offset of the numbers comes only with an empty cache.\<close>

lemma insert_setup_ok:
  assumes ok: "pcm_ok pcm h" and fresh: "\<forall>p\<in>set paks. pak_fresh pcm h p" and ne: "paks \<noteq> []"
    and win: "\<forall>n. pcm_map pcm n \<noteq> None \<longrightarrow> fdist base n < 8192" "\<forall>p\<in>set paks. fdist base (pk_seq_num (ph_mem h p)) < 8192"
    and old: "old = (if of_nat (card (dom (pcm_map pcm))) + of_nat (length paks) \<ge> (8192 :: u32) then Map.empty else pcm_map pcm)"
  shows "\<exists>b pcm' h' base'. vqec_pcm_insert_packets True collect pcm paks contig ses h =
      insert_ranges collect contig b paks \<lparr>is_pcm = pcm', is_heap = h', is_ses = ses, is_wr = 0\<rparr> \<and>
    pcm_ok pcm' h' \<and> pcm_map pcm' = old \<and> (b \<longrightarrow> old = Map.empty) \<and> in_window base' old \<and>
    (\<forall>p\<in>set paks. pak_fresh pcm' h' p \<and> fdist base' (bumped b h' p) < 8192 \<and>
       pk_seq_num (ph_mem h' p) = pk_seq_num (ph_mem h p) \<and> pak_refs h' p = pak_refs h p)"
proof -
  obtain s where s: "pcm_pak_seq pcm = Some s" "seq_ok s" "pcm_map pcm = vqec_pak_seq_find s"
    using ok by (auto elim: pcm_okE)
  let ?k = "vqec_pak_seq_get_num_paks s" and ?l = "of_nat (length paks) :: u32"
  have "?k = of_nat (card (dom (pcm_map pcm)))"
    using seqs.count_look [OF s(2), symmetric] s(3) by (simp add: vqec_pak_seq_get_num_paks_def)
  then have old': "old = (if ?k + ?l \<ge> 8192 then Map.empty else pcm_map pcm)" using old by simp
  from overflow_ok [OF ok fresh, of "?k + ?l"] obtain pcm1 h1 where
    a: "insert_overflow True (?k + ?l) pcm h = Done (?k + ?l \<ge> 8192, pcm1, h1)" "pcm_ok pcm1 h1" "pcm_map pcm1 = old"
      "\<forall>p\<in>set paks. pak_fresh pcm1 h1 p \<and> pk_seq_num (ph_mem h1 p) = pk_seq_num (ph_mem h p) \<and> pak_refs h1 p = pak_refs h p"
    using old' by (elim exE conjE) (rule that, simp_all)
  from underrun_ok [of ?k "?k + ?l \<ge> 8192" pcm1 h1] obtain b pcm2 where
    u: "insert_underrun ?k (?k + ?l \<ge> 8192) pcm1 h1 = Done (b, pcm2, h1)" "pcm_core pcm2 = pcm_core pcm1"
      "b \<longrightarrow> ?k + ?l \<ge> 8192 \<or> ?k = 0"
    by (elim exE conjE) (rule that)
  note k2 = pcm_core_ok [OF u(2)]
  have em: "b \<longrightarrow> old = Map.empty" using u(3) old' num_paks_empty [OF s(2)] s(3) by auto
  define base' where "base' = (if b then base + VQEC_SEQ_NUM_RTP_DISCONT_IND else base)"
  have w: "in_window base' old" using em win(1) old' by (auto simp: in_window_def base'_def)
  have bs: "fdist base' (bumped b h1 p) < 8192" if "p \<in> set paks" for p
    using win(2) a(4) window_bump that by (simp add: bumped_def base'_def)
  have "pak_fresh pcm2 h1 p = pak_fresh pcm1 h1 p" for p using k2(1,4) by (simp add: pak_fresh_def)
  then have fr: "\<forall>p\<in>set paks. pak_fresh pcm2 h1 p \<and> fdist base' (bumped b h1 p) < 8192 \<and>
      pk_seq_num (ph_mem h1 p) = pk_seq_num (ph_mem h p) \<and> pak_refs h1 p = pak_refs h p" using a(4) bs by blast
  have run: "vqec_pcm_insert_packets True collect pcm paks contig ses h =
      insert_ranges collect contig b paks \<lparr>is_pcm = pcm2, is_heap = h1, is_ses = ses, is_wr = 0\<rparr>"
    using s(1) ne a(1) u(1) by (simp add: vqec_pcm_insert_packets_def Let_def)
  show ?thesis
    by (rule exI [of _ b], rule exI [of _ pcm2], rule exI [of _ h1], rule exI [of _ base'])
      (use run k2(1,2) a(2,3) em w fr in simp)
qed

text \<open>C10: insertion of packets keeps the invariant of the cache and fails no assertion, contiguous or not,
  with an overflow or an underrun, provided that the numbers of the cache and of the call lie in one window
  of 8192. The cache keeps what it had, unless it would be full and is flushed first. Each packet is taken
  under its number, moved up by two generations after a reset, or refused; an empty cache takes the first one. The result counts those taken,
  and each of them has one more reference.\<close>

theorem pcm_insert_packets_refines:
  assumes "pcm_ok pcm h" and "distinct paks" and "\<forall>p\<in>set paks. pak_fresh pcm h p"
    and "\<forall>n. pcm_map pcm n \<noteq> None \<longrightarrow> unat (n - base) < 8192"
    and "\<forall>p\<in>set paks. unat (pk_seq_num (ph_mem h p) - base) < 8192"
    and "old = (if paks \<noteq> [] \<and> of_nat (card (dom (pcm_map pcm))) + of_nat (length paks) \<ge> (8192 :: u32)
                then Map.empty else pcm_map pcm)"
  shows "\<exists>cb w bump. vqec_pcm_insert_packets True collect pcm paks contig ses h = Done (cb, w) \<and>
    pcm_ok (is_pcm w) (is_heap w) \<and> old \<subseteq>\<^sub>m pcm_map (is_pcm w) \<and> (bump \<longrightarrow> old = Map.empty) \<and>
    (\<forall>n p. pcm_map (is_pcm w) n = Some p \<longrightarrow> old n = Some p \<or> p \<in> set paks \<and>
       n = (if bump then pk_seq_num (ph_mem h p) + VQEC_SEQ_NUM_RTP_DISCONT_IND else pk_seq_num (ph_mem h p))) \<and>
    (old = Map.empty \<and> paks \<noteq> [] \<longrightarrow> hd paks \<in> ran (pcm_map (is_pcm w))) \<and>
    is_wr w = of_nat (card (ran (pcm_map (is_pcm w)) \<inter> set paks)) \<and>
    (\<forall>p\<in>set paks. pak_refs (is_heap w) p = pak_refs h p + (if p \<in> ran (pcm_map (is_pcm w)) then 1 else 0))"
proof (cases "paks = []")
  case True
  let ?w = "\<lparr>is_pcm = pcm, is_heap = h, is_ses = ses, is_wr = 0\<rparr>"
  obtain s where "pcm_pak_seq pcm = Some s" using assms(1) by (auto elim: pcm_okE)
  then have "vqec_pcm_insert_packets True collect pcm paks contig ses h = Done (False, ?w)"
    using True by (simp add: vqec_pcm_insert_packets_def)
  then show ?thesis using True assms(1,6) by (intro exI [of _ False] exI [of _ ?w]) simp
next
  case False
  then have "old = (if of_nat (card (dom (pcm_map pcm))) + of_nat (length paks) \<ge> (8192 :: u32) then Map.empty else pcm_map pcm)"
    using assms(6) by simp
  from insert_setup_ok [where collect = collect and contig = contig and ses = ses, OF assms(1,3) False assms(4,5) this] obtain b pcm2 h1 base' where
    e: "vqec_pcm_insert_packets True collect pcm paks contig ses h =
      insert_ranges collect contig b paks \<lparr>is_pcm = pcm2, is_heap = h1, is_ses = ses, is_wr = 0\<rparr>" (is "_ = insert_ranges _ _ _ _ ?w")
    and a: "pcm_ok pcm2 h1" "pcm_map pcm2 = old" "b \<longrightarrow> old = Map.empty" "in_window base' old"
      "\<forall>p\<in>set paks. pak_fresh pcm2 h1 p \<and> fdist base' (bumped b h1 p) < 8192 \<and>
       pk_seq_num (ph_mem h1 p) = pk_seq_num (ph_mem h p) \<and> pak_refs h1 p = pak_refs h p"
    by (elim exE conjE) (rule that)
  have "\<exists>cb w'. insert_ranges collect contig b paks ?w = Done (cb, w') \<and> pcm_ok (is_pcm w') (is_heap w') \<and> paks_taken b paks ?w w'"
    by (rule insert_rest_ok [OF a(1) assms(2) _ _ _ refl, where base = base']) (use a in simp_all)
  then obtain cb w where q: "insert_ranges collect contig b paks ?w = Done (cb, w)" and r: "pcm_ok (is_pcm w) (is_heap w)" "paks_taken b paks ?w w"
    by (elim exE conjE) (rule that)
  let ?f = "pcm_map (is_pcm w)"
  have t: "old \<subseteq>\<^sub>m ?f" "\<And>n p. ?f n = Some p \<Longrightarrow> old n = Some p \<or> p \<in> set paks \<and> n = bumped b h1 p"
    "is_wr w = of_nat (card (ran ?f - ran old))" "old = Map.empty \<longrightarrow> hd paks \<in> ran ?f"
    "\<And>q. pak_refs (is_heap w) q = pak_refs h1 q + (if q \<in> ran ?f - ran old then 1 else 0)"
    using r(2) a(2) False by (auto simp: paks_taken_def Let_def)
  have no: "p \<notin> ran old" if "p \<in> set paks" for p using a(2,5) that by (auto simp: pak_fresh_def)
  have new: "ran ?f - ran old = ran ?f \<inter> set paks" using t(2) no by (auto simp: ran_def)
  have ent: "old n = Some p \<or> p \<in> set paks \<and>
      n = (if b then pk_seq_num (ph_mem h p) + VQEC_SEQ_NUM_RTP_DISCONT_IND else pk_seq_num (ph_mem h p))"
    if "?f n = Some p" for n p using t(2) [OF that] a(5) by (auto simp: bumped_def vqec_seq_num_bump_seq_def)
  have refs: "pak_refs (is_heap w) p = pak_refs h p + (if p \<in> ran ?f then 1 else 0)" if "p \<in> set paks" for p
    using t(5) [of p] a(5) no [OF that] that by simp
  show ?thesis
    by (rule exI [of _ cb], rule exI [of _ w], rule exI [of _ b])
      (use e q r(1) t(1,4) a(3) ent t(3) [unfolded new] refs in simp)
qed

definition pcm_params_sample :: vqec_pcm_params where
  "pcm_params_sample = \<lparr>pp_er_enable = True, pp_fec_enable = False, pp_rcc_enable = False, pp_avg_pkt_time = 2500,
     pp_default_delay = 200000, pp_repair_trigger_time = 20000, pp_reorder_delay = 20000, pp_strip_rtp = False,
     pp_fec_info = pcm_fec_info pcm_zero, pp_fec_default_block_size = 0, pp_tr135_params = pcm_tr135_params pcm_zero,
     pp_repairs_done_cb = False\<rparr>"

theorem pcm_insert_packets_refines_witness:
  "\<exists>pcm cb w. vqec_pcm_init True True True [] pcm_params_sample = Done (True, pcm) \<and>
     vqec_pcm_insert_packets True False pcm [4208] True None heap_sample = Done (cb, w) \<and>
     pcm_ok (is_pcm w) (is_heap w) \<and> 4208 \<in> ran (pcm_map (is_pcm w)) \<and> pak_refs (is_heap w) 4208 = 2"
proof -
  obtain pcm where p: "vqec_pcm_init True True True [] pcm_params_sample = Done (True, pcm)" "pcm_ok pcm heap_sample"
    "pcm_map pcm = Map.empty" "os_pak_pend (pcm_osched pcm) = None"
    using init_ok [OF heap_sample_ok(1), of "[]" pcm_params_sample] by (elim exE conjE) (rule that)
  have n: "pk_seq_num (ph_mem heap_sample 4208) = 70000" "pk_flags (ph_mem heap_sample 4208) = 0"
    by (simp_all add: heap_sample_def pak_zero_def)
  have "pak_fresh pcm heap_sample 4208"
    using p(3,4) n(2) heap_sample_ok(2,3) by (simp add: pak_fresh_def VQEC_PAK_FLAGS_ISSET_def)
  then obtain cb w where "vqec_pcm_insert_packets True False pcm [4208] True None heap_sample = Done (cb, w)"
    "pcm_ok (is_pcm w) (is_heap w)" "4208 \<in> ran (pcm_map (is_pcm w))" "pak_refs (is_heap w) 4208 = 2"
    using pcm_insert_packets_refines [OF p(2), of "[4208]" 70000 _ False True None] p(3) n heap_sample_ok(3) by auto
  then show ?thesis using p(1) by blast
qed
end
