(* ===== verification/Osched.thy ===== *)
theory Osched
  imports Pcm_Insert
begin

text \<open>
  The output scheduler, \<^verbatim>\<open>eva/vqec-dp/channel/vqec_oscheduler.c\<close>: it takes the packets out of the cache in
  the order of their numbers, predicts when each is due and hands it to the connected stream at that time.
  It is a part of the cache that it serves.

  What the scheduler calls outside of the cache is recorded as an event: the stream receives the packet with
  the header that it then has, the statistics after repair see it, and the channel aborts its burst. The
  readings of the system clock are a function of their number; a reading that the code does not make leaves
  out a value. The two static variables of the function are arguments and results.
\<close>

subsection \<open>The interface\<close>

definition PCM_SESSION_STATE_RCC_APP :: u32 where "PCM_SESSION_STATE_RCC_APP = 0"
definition PCM_SESSION_STATE_RCC_REPAIR :: u32 where "PCM_SESSION_STATE_RCC_REPAIR = 1"
definition PCM_SESSION_STATE_NORMAL :: u32 where "PCM_SESSION_STATE_NORMAL = 2"
definition REORDER_DELAY :: rel_time where "REORDER_DELAY = MSECS 50"
definition SIZEOF_RTPFASTTYPE :: u32 where "SIZEOF_RTPFASTTYPE = 12"

text \<open>The one stream: whether its encapsulation is UDP, and whether it is connected; whether the primary
  input stream is found; the clock; whether the statistics for debugging are collected; what the variable for
  the discontinuity holds that the end of the fast fill passes on without a value.\<close>

record osched_env =
  oe_encap_udp :: bool
  oe_connected :: bool
  oe_prim_is :: bool
  oe_clock :: "nat \<Rightarrow> abs_time"
  oe_collect :: bool
  oe_disc :: bool

datatype osched_event =
    Os_receive pak_ptr vqec_pak
  | Os_post_repair pak_ptr abs_time
  | Os_abort_rcc

record osched_state =
  ow_pcm :: vqec_pcm
  ow_heap :: pak_heap
  ow_out :: "osched_event list"
  ow_done_with_fastfill :: bool
  ow_reads :: nat

definition osched_upd :: "(vqec_dp_oscheduler \<Rightarrow> vqec_dp_oscheduler) \<Rightarrow> vqec_pcm \<Rightarrow> vqec_pcm" where
  "osched_upd f pcm = pcm\<lparr>pcm_osched := f (pcm_osched pcm)\<rparr>"

definition vqec_dp_oscheduler_init :: "vqec_dp_oscheduler \<Rightarrow> u32 \<Rightarrow> vqec_dp_oscheduler" where
  "vqec_dp_oscheduler_init osched max_post_er_rle_size =
     osched\<lparr>os_max_post_er_rle_size := max_post_er_rle_size, os_nll := the (vqec_nll_init (Some (os_nll osched))),
            os_run_osched := True\<rparr>"

definition vqec_dp_oscheduler_deinit :: "vqec_dp_oscheduler \<Rightarrow> pak_heap \<Rightarrow> (vqec_dp_oscheduler \<times> pak_heap) outcome" where
  "vqec_dp_oscheduler_deinit osched h =
     (let os1 = osched\<lparr>os_run_osched := False\<rparr>
      in if os_pak_pend os1 \<noteq> None
         then bind_out (vqec_pak_free (os_pak_pend os1) h) (\<lambda>h1. Done (os1\<lparr>os_pak_pend := None\<rparr>, h1))
         else Done (os1, h))"

text \<open>The encapsulation of the stream and whether there are functions and a valid identifier for it.\<close>

definition vqec_dp_oscheduler_add_streams :: "bool \<Rightarrow> bool \<Rightarrow> osched_env \<Rightarrow> osched_env" where
  "vqec_dp_oscheduler_add_streams udp connected env = env\<lparr>oe_encap_udp := udp, oe_connected := connected\<rparr>"

definition vqec_dp_oscheduler_start :: "vqec_dp_oscheduler \<Rightarrow> vqec_dp_oscheduler" where
  "vqec_dp_oscheduler_start osched = osched\<lparr>os_run_osched := True\<rparr>"

definition vqec_dp_oscheduler_stop :: "vqec_dp_oscheduler \<Rightarrow> vqec_dp_oscheduler" where
  "vqec_dp_oscheduler_stop osched = osched\<lparr>os_run_osched := False\<rparr>"

definition vqec_dp_oscheduler_reset :: "vqec_dp_oscheduler \<Rightarrow> vqec_dp_oscheduler" where
  "vqec_dp_oscheduler_reset osched = osched\<lparr>os_nll := the (vqec_nll_reset (Some (os_nll osched)))\<rparr>"

subsection \<open>The time of a packet\<close>

definition vqec_dp_oscheduler_rx_interpolate :: "vqec_pcm \<Rightarrow> vqec_pak \<Rightarrow> pak_heap \<Rightarrow> abs_time outcome" where
  "vqec_dp_oscheduler_rx_interpolate pcm pak h =
     (let osched = pcm_osched pcm
      in if abs_time_eq ABS_TIME_0 (os_last_inorder_pak_ts osched) \<or> \<not> os_last_inorder_pak_seq_valid osched
         then Done (pk_rcv_ts pak)
         else case vqec_pcm_inorder_pak_list_get_next pcm of
           None \<Rightarrow> Done (pk_rcv_ts pak)
         | Some np \<Rightarrow>
             let next_inorder_pak = ph_mem h np;
                 seq_delta1 = vqec_seq_num_sub (pk_seq_num next_inorder_pak) (os_last_inorder_pak_seq osched);
                 seq_delta2 = vqec_seq_num_sub (pk_seq_num pak) (os_last_inorder_pak_seq osched)
             in if vqec_seq_num_le (pk_seq_num next_inorder_pak) (os_last_inorder_pak_seq osched)
                then Done (pk_rcv_ts pak)
                else if vqec_seq_num_le (pk_seq_num pak) (os_last_inorder_pak_seq osched) then Done (pk_rcv_ts pak)
                else if vqec_seq_num_le seq_delta1 seq_delta2 then Done (pk_rcv_ts pak)
                else if seq_delta1 = 0 then Assert_failed
                else let t_d = rel_time_to_usec (abs_minus_abs_time (pk_rcv_ts next_inorder_pak)
                                 (os_last_inorder_pak_ts osched))
                     in Done (abs_plus_rel_time (os_last_inorder_pak_ts osched)
                          (usec_to_rel_time (sdiv64 (t_d * ucast seq_delta2) (ucast seq_delta1)))))"

definition vqec_dp_oscheduler_is_rcc_burst_done :: "vqec_pcm \<Rightarrow> abs_time \<Rightarrow> bool" where
  "vqec_dp_oscheduler_is_rcc_burst_done pcm cur_time =
     (let osched = pcm_osched pcm; rcv = ol_first_pak_rcv_ts (os_outp_log osched)
      in os_rcc_burst_done osched \<or>
         abs_time_ne rcv ABS_TIME_0 \<and> abs_time_ge cur_time (abs_plus_rel_time rcv (pcm_dt_repair_end pcm)))"

definition vqec_dp_fastfill_played :: "vqec_dp_oscheduler \<Rightarrow> abs_time \<Rightarrow> rel_time" where
  "vqec_dp_fastfill_played osched cur_ts =
     (if ol_first_pak_sent (os_outp_log osched) \<and> abs_time_ge cur_ts (ol_first_pak_ts (os_outp_log osched))
      then abs_minus_abs_time cur_ts (ol_first_pak_ts (os_outp_log osched)) else REL_TIME_0)"

text \<open>A sample for the lock loop of the scheduler, with the prediction.\<close>

definition osched_adjust :: "abs_time \<Rightarrow> bool \<Rightarrow> vqec_dp_oscheduler \<Rightarrow> abs_time \<Rightarrow> u32 \<Rightarrow> rel_time \<Rightarrow> bool \<Rightarrow>
    vqec_dp_oscheduler \<times> abs_time" where
  "osched_adjust clk collect osched actual_time pcr32 est_rtp_delta disc =
     (case vqec_nll_adjust clk collect (Some (os_nll osched)) actual_time pcr32 est_rtp_delta (Some disc) (Some ABS_TIME_0) of
        (nllp, _, predp) \<Rightarrow> (osched\<lparr>os_nll := the nllp\<rparr>, the predp))"

definition pak_set_pred :: "pak_ptr \<Rightarrow> abs_time \<Rightarrow> pak_heap \<Rightarrow> pak_heap" where
  "pak_set_pred pak t h = pak_upd pak (\<lambda>p. p\<lparr>pk_pred_ts := t\<rparr>) h"

definition pak_set_rcv :: "pak_ptr \<Rightarrow> abs_time \<Rightarrow> pak_heap \<Rightarrow> pak_heap" where
  "pak_set_rcv pak t h = pak_upd pak (\<lambda>p. p\<lparr>pk_rcv_ts := t\<rparr>) h"

text \<open>The state that the interpolation needs, from a packet that came in order.\<close>

definition osched_last_inorder :: "vqec_pak \<Rightarrow> vqec_dp_oscheduler \<Rightarrow> vqec_dp_oscheduler" where
  "osched_last_inorder p osched =
     (if VQEC_PAK_FLAGS_ISSET (pk_flags p) VQEC_PAK_FLAGS_RX_REORDERED then osched
      else osched\<lparr>os_last_inorder_pak_seq := pk_seq_num p, os_last_inorder_pak_seq_valid := True,
                  os_last_inorder_pak_ts := pk_rcv_ts p\<rparr>)"

definition vqec_dp_fastfill_dcr ::
  "abs_time \<Rightarrow> abs_time \<Rightarrow> bool \<Rightarrow> bool \<Rightarrow> vqec_pcm \<Rightarrow> pak_ptr \<Rightarrow> pak_heap \<Rightarrow> abs_time \<Rightarrow> bool \<times> vqec_pcm \<times> pak_heap" where
  "vqec_dp_fastfill_dcr clk1 clk2 collect disc pcm pak h cur_time =
     (let p = ph_mem h pak;
          fast_fill_amount = vqec_dp_fastfill_played (pcm_osched pcm) (pk_pred_ts p);
          len = vqec_pak_get_content_len p;
          pcm1 = osched_upd (\<lambda>os. os\<lparr>os_last_pak_pred_ts := pk_pred_ts p\<rparr>)
                   (pcm\<lparr>pcm_total_fast_fill_bytes := pcm_total_fast_fill_bytes pcm +
                          (if pcm_strip_rtp pcm then len - SIZEOF_RTPFASTTYPE else len)\<rparr>);
          t = (if abs_time_gt (pk_rcv_ts p) cur_time then cur_time else pk_rcv_ts p);
          h1 = pak_set_pred pak t h
      in if rel_time_le (pcm_fast_fill_time pcm1) fast_fill_amount
         then let pcm2 = pcm1\<lparr>pcm_fast_fill_time := REL_TIME_0, pcm_fast_fill_end_time := clk1\<rparr>;
                  os1 = vqec_dp_oscheduler_reset (pcm_osched pcm2);
                  os2 = fst (osched_adjust clk2 collect os1 t (pk_rtp_ts p) REL_TIME_0 disc)
              in (True, pcm2\<lparr>pcm_osched := os2\<rparr>, h1)
         else (False, pcm1, h1))"

subsection \<open>Sending the packet that is due\<close>

definition osched_log_first :: "abs_time \<Rightarrow> vqec_pak \<Rightarrow> vqec_pcm \<Rightarrow> vqec_pcm" where
  "osched_log_first now p pcm =
     (let osched = pcm_osched pcm; l = os_outp_log osched;
          l1 = (if \<not> ol_first_pak_sent l
                then l\<lparr>ol_first_pak_sent := True,
                       ol_first_pak_ts := (if abs_time_ne ABS_TIME_0 (os_last_pak_pred_ts osched)
                                           then os_last_pak_pred_ts osched else pk_pred_ts p),
                       ol_first_pak_rcv_ts := pk_rcv_ts p\<rparr>
                else l)
      in if \<not> ol_first_prim_pak_sent l1 \<and> pk_type p = VQEC_PAK_TYPE_PRIMARY
         then vqec_pcm_cache_state_first_prim
                (pcm\<lparr>pcm_osched := osched\<lparr>os_outp_log := l1\<lparr>ol_first_prim_pak_sent := True, ol_first_prim_pak_ts := now\<rparr>\<rparr>\<rparr>)
         else pcm\<lparr>pcm_osched := osched\<lparr>os_outp_log := l1\<rparr>\<rparr>)"

definition osched_strip :: "bool \<Rightarrow> pak_ptr \<Rightarrow> pak_heap \<Rightarrow> pak_heap" where
  "osched_strip udp pak h =
     (if udp then pak_upd pak (\<lambda>p. (snd (vqec_pak_adjust_head_ptr p (ucast (pk_mpeg_payload_offset p))))
                                     \<lparr>pk_mpeg_payload_offset := 0\<rparr>) h
      else h)"

definition osched_send :: "osched_env \<Rightarrow> abs_time \<Rightarrow> pak_ptr \<Rightarrow> osched_state \<Rightarrow> osched_state outcome" where
  "osched_send env now pak w =
     (let pcm1 = osched_log_first now (ph_mem (ow_heap w) pak) (ow_pcm w);
          h1 = osched_strip (oe_encap_udp env) pak (ow_heap w);
          out1 = ow_out w @ (if oe_connected env then [Os_receive pak (ph_mem h1 pak)] else []);
          prim_iptr = (os_max_post_er_rle_size (pcm_osched (ow_pcm w)) \<noteq> 0 \<and> oe_prim_is env);
          out2 = out1 @ (if prim_iptr \<and> pcm_pre_prim_outp_stats_done pcm1 then [Os_post_repair pak now] else [])
      in bind_out (vqec_pak_free (Some pak) h1) (\<lambda>h2.
           Done (w\<lparr>ow_pcm := vqec_pcm_total_tx_paks_bump (osched_upd (\<lambda>os. os\<lparr>os_pak_pend := None\<rparr>) pcm1),
                   ow_heap := h2, ow_out := out2\<rparr>)))"

subsection \<open>Taking the next packet\<close>

definition osched_must_wait :: "vqec_pcm \<Rightarrow> vqec_pak_seq \<Rightarrow> vqec_pak \<Rightarrow> abs_time \<Rightarrow> bool" where
  "osched_must_wait pcm s p now =
     (let osched = pcm_osched pcm;
          played = vqec_dp_fastfill_played osched (os_last_pak_pred_ts osched);
          burst_done = vqec_dp_oscheduler_is_rcc_burst_done pcm now;
          fastfill_enabled = rel_time_gt (pcm_max_fastfill pcm) REL_TIME_0;
          fastfill_in_progress = rel_time_le played (pcm_fast_fill_time pcm);
          fastfill_done = abs_time_ne (pcm_fast_fill_end_time pcm) ABS_TIME_0
      in fastfill_enabled \<and> (fastfill_in_progress \<or> fastfill_done) \<and>
         \<not> (pk_type p = VQEC_PAK_TYPE_REPAIR \<or> pk_type p = VQEC_PAK_TYPE_APP) \<and> \<not> burst_done \<or>
         burst_done \<and> rel_time_gt (pcm_fast_fill_time pcm) REL_TIME_0 \<and>
         rel_time_ge played (rel_minus_rel_time (pcm_fast_fill_time pcm) (pcm_min_backfill pcm)) \<and>
         rel_time_lt (rel_time_mult_int (pcm_avg_pkt_time pcm) (vqec_pak_seq_get_num_paks s)) (pcm_min_backfill pcm))"

text \<open>A time of reception in the future is corrected; a packet that came in order waits for others.\<close>

definition osched_fix_rcv :: "abs_time \<Rightarrow> pak_ptr \<Rightarrow> vqec_pcm \<Rightarrow> pak_heap \<Rightarrow> bool \<times> vqec_pcm \<times> pak_heap" where
  "osched_fix_rcv now pak pcm h =
     (let (pcm1, h1) = (if abs_time_gt (pk_rcv_ts (ph_mem h pak)) now
                        then (vqec_pcm_bad_rcv_ts_bump pcm, pak_set_rcv pak now h) else (pcm, h))
      in (\<not> VQEC_PAK_FLAGS_ISSET (pk_flags (ph_mem h pak)) VQEC_PAK_FLAGS_RX_REORDERED \<and>
            abs_time_gt (abs_plus_rel_time (pk_rcv_ts (ph_mem h1 pak)) REORDER_DELAY) now, pcm1, h1))"

definition osched_tr135 :: "vqec_pak \<Rightarrow> vqec_pcm \<Rightarrow> vqec_pcm" where
  "osched_tr135 p pcm =
     (let upd = (\<lambda>t s. vqec_pcm_update_tr135_stats (t, s) (pk_seq_num p) (tp_gmin (pcm_tr135_params pcm))
                         (tp_severe_loss_min_distance (pcm_tr135_params pcm)));
          pcm1 = (if \<not> VQEC_PAK_FLAGS_ISSET (pk_flags p) VQEC_PAK_FLAGS_AFTER_EC
                  then pcm_mainstream_upd (\<lambda>m. let (t, s) = upd (tm_total_stats_before_ec m) (tm_sample_stats_before_ec m)
                         in m\<lparr>tm_total_stats_before_ec := t, tm_sample_stats_before_ec := s\<rparr>) pcm
                  else pcm)
      in pcm_mainstream_upd (\<lambda>m. let (t, s) = upd (tm_total_stats_after_ec m) (tm_sample_stats_after_ec m)
           in m\<lparr>tm_total_stats_after_ec := t, tm_sample_stats_after_ec := s\<rparr>) pcm1)"

text \<open>The accounts after the removal of the packet from the cache.\<close>

definition osched_account :: "abs_time \<Rightarrow> vqec_pak \<Rightarrow> vqec_pcm \<Rightarrow> vqec_pcm" where
  "osched_account now p pcm =
     (let osched = pcm_osched pcm; n = pk_seq_num p;
          pcm1 = (if os_last_pak_seq_valid osched \<and> n \<noteq> vqec_next_seq_num (os_last_pak_seq osched)
                  then vqec_pcm_output_gap_counter_bump (vqec_pcm_output_gap_log pcm (os_last_pak_seq osched) n now)
                         (vqec_seq_num_sub n (os_last_pak_seq osched) - 1)
                  else pcm);
          pcm2 = osched_tr135 p pcm1;
          pcm3 = osched_upd (\<lambda>os. os\<lparr>os_last_pak_seq := n, os_last_pak_seq_valid := True\<rparr>) pcm2;
          pcm4 = (if vqec_pcm_get_rcc_post_abort_process pcm3 then vqec_pcm_update_rcc_post_abort_process pcm3 else pcm3)
      in if os_last_pak_seq_valid osched \<and> pcm_primary_received pcm4 \<and> vqec_seq_num_eq n (pcm_first_primary_seq pcm4)
         then pcm4\<lparr>pcm_stats := (pcm_stats pcm4)\<lparr>st_first_prim_to_last_rcc_seq_diff :=
                ucast (vqec_seq_num_sub n (os_last_pak_seq osched))\<rparr>\<rparr>
         else pcm4)"

text \<open>The prediction, by the state of the session. The last number sent before is \<open>last_pak_seq\<close>.\<close>

definition osched_to_normal :: "abs_time \<Rightarrow> bool \<Rightarrow> vqec_pak \<Rightarrow> vqec_dp_oscheduler \<Rightarrow> vqec_dp_oscheduler \<times> abs_time" where
  "osched_to_normal clk collect p osched =
     (let os1 = osched\<lparr>os_state := PCM_SESSION_STATE_NORMAL,
                       os_nll := the (vqec_nll_set_tracking_mode (Some (os_nll osched)))\<rparr>;
          (os2, pred) = osched_adjust clk collect os1 (pk_rcv_ts p) (pk_rtp_ts p) REL_TIME_0 True
      in (osched_last_inorder p os2, pred))"

definition osched_predict ::
  "abs_time \<Rightarrow> bool \<Rightarrow> vqec_seq_num \<Rightarrow> pak_ptr \<Rightarrow> vqec_pcm \<Rightarrow> pak_heap \<Rightarrow> (vqec_pcm \<times> pak_heap) outcome" where
  "osched_predict clk collect last_pak_seq pak pcm h =
     (let osched = pcm_osched pcm; p = ph_mem h pak;
          disc = VQEC_PAK_FLAGS_ISSET (pk_flags p) VQEC_PAK_FLAGS_RX_DISCONTINUITY;
          put = (\<lambda>(os, t). Done (pcm\<lparr>pcm_osched := os\<rparr>, pak_set_pred pak t h))
      in if os_state osched = PCM_SESSION_STATE_RCC_APP
         then if pk_type p = VQEC_PAK_TYPE_APP then put (osched, pk_rcv_ts p)
              else if pk_type p = VQEC_PAK_TYPE_REPAIR
              then put (osched_adjust clk collect (osched\<lparr>os_state := PCM_SESSION_STATE_RCC_REPAIR\<rparr>)
                          (pk_rcv_ts p) (pk_rtp_ts p) REL_TIME_0 True)
              else put (osched_to_normal clk collect p osched)
         else if os_state osched = PCM_SESSION_STATE_RCC_REPAIR
         then if pk_type p = VQEC_PAK_TYPE_REPAIR
              then let est_rtp_delta = (if os_last_pak_seq_valid osched \<and> vqec_seq_num_gt (pk_seq_num p) last_pak_seq
                         then rel_time_mult_int (vqec_pcm_avg_pkt_time_get pcm) (vqec_seq_num_sub (pk_seq_num p) last_pak_seq)
                         else REL_TIME_0)
                   in put (osched_adjust clk collect osched ABS_TIME_0 (pk_rtp_ts p) est_rtp_delta disc)
              else put (osched_to_normal clk collect p osched)
         else if os_state osched = PCM_SESSION_STATE_NORMAL
         then bind_out (if VQEC_PAK_FLAGS_ISSET (pk_flags p) VQEC_PAK_FLAGS_RX_REORDERED
                        then vqec_dp_oscheduler_rx_interpolate pcm p h else Done (pk_rcv_ts p)) (\<lambda>rcv.
                let (os1, t) = osched_adjust clk collect (osched_last_inorder p osched) rcv (pk_rtp_ts p) REL_TIME_0 disc
                in Done (pcm\<lparr>pcm_osched := os1\<rparr>, pak_set_pred pak t (pak_set_rcv pak rcv h)))
         else Assert_failed)"

text \<open>The delays are added, and the packet is pending.\<close>

definition osched_pend :: "pak_ptr \<Rightarrow> vqec_pcm \<Rightarrow> pak_heap \<Rightarrow> vqec_pcm \<times> pak_heap" where
  "osched_pend pak pcm h =
     (let p = ph_mem h pak;
          t = abs_plus_rel_time (abs_plus_rel_time (pk_pred_ts p) (vqec_pcm_default_delay_get pcm)) (pk_app_cpy_delay p)
      in (osched_upd (\<lambda>os. os\<lparr>os_pak_pend := Some pak, os_last_pak_ts := pk_rcv_ts p\<rparr>) pcm, pak_set_pred pak t h))"

definition osched_take :: "osched_env \<Rightarrow> abs_time \<Rightarrow> pak_ptr \<Rightarrow> osched_state \<Rightarrow> osched_state outcome" where
  "osched_take env now pak w =
     (let k = ow_reads w; clk = oe_clock env; collect = oe_collect env;
          last_pak_seq = os_last_pak_seq (pcm_osched (ow_pcm w))
      in bind_out (vqec_pcm_remove_packet (ow_pcm w) pak (vqec_pak_ref (Some pak) (ow_heap w))) (\<lambda>(removed, pcm1, h1).
         let pcm2 = (if removed then osched_account now (ph_mem h1 pak) pcm1 else pcm1)
         in bind_out (osched_predict (clk k) collect last_pak_seq pak pcm2 h1) (\<lambda>(pcm3, h3).
         let (ff, pcm4, h4) = (if rel_time_gt (pcm_fast_fill_time pcm3) REL_TIME_0
                               then vqec_dp_fastfill_dcr (clk (k + 1)) (clk (k + 2)) collect (oe_disc env) pcm3 pak h3 now
                               else (ow_done_with_fastfill w, pcm3, h3));
             (pcm5, h5) = osched_pend pak pcm4 h4
         in Done (w\<lparr>ow_pcm := pcm5, ow_heap := h5, ow_done_with_fastfill := ff, ow_reads := k + 3\<rparr>))))"

subsection \<open>The loop\<close>

text \<open>One round after the pending packet has gone, with the flag to go on.\<close>

definition osched_next :: "osched_env \<Rightarrow> abs_time \<Rightarrow> osched_state \<Rightarrow> (bool \<times> osched_state) outcome" where
  "osched_next env now w =
     (case vqec_pcm_get_next_packet (ow_pcm w) (ow_heap w) None of
        None \<Rightarrow> Done (False, w\<lparr>ow_pcm := vqec_pcm_log_tr135_underrun (ow_pcm w) 1\<rparr>)
      | Some pak \<Rightarrow>
          if osched_must_wait (ow_pcm w) (the (pcm_pak_seq (ow_pcm w))) (ph_mem (ow_heap w) pak) now then Done (False, w)
          else (case osched_fix_rcv now pak (ow_pcm w) (ow_heap w) of
            (wait, pcm1, h1) \<Rightarrow>
              let w1 = w\<lparr>ow_pcm := pcm1, ow_heap := h1\<rparr>
              in if wait then Done (False, w1)
                 else bind_out (osched_take env now pak w1) (\<lambda>w2. Done (True, w2))))"

definition osched_round :: "osched_env \<Rightarrow> abs_time \<Rightarrow> osched_state \<Rightarrow> (bool \<times> osched_state) outcome" where
  "osched_round env now w =
     (case os_pak_pend (pcm_osched (ow_pcm w)) of
        None \<Rightarrow> osched_next env now w
      | Some pend \<Rightarrow>
          if abs_time_le (pk_pred_ts (ph_mem (ow_heap w) pend)) now
          then bind_out (osched_send env now pend w) (osched_next env now)
          else Done (False, w))"

fun osched_loop :: "nat \<Rightarrow> osched_env \<Rightarrow> abs_time \<Rightarrow> osched_state \<Rightarrow> osched_state outcome" where
  "osched_loop 0 env now w = Out_of_fuel"
| "osched_loop (Suc k) env now w =
     bind_out (osched_round env now w) (\<lambda>(go, w1). if go then osched_loop k env now w1 else Done w1)"

text \<open>The static variables: the time of the previous call.\<close>

record osched_static =
  sv_prev_time :: abs_time
  sv_prev_time_valid :: bool

text \<open>A cache holds at most 8192 packets, and every round that goes on takes one out.\<close>

definition OSCHED_FUEL :: nat where "OSCHED_FUEL = 8193"

definition osched_candidates :: "abs_time \<Rightarrow> vqec_pcm \<Rightarrow> vqec_pcm outcome" where
  "osched_candidates now pcm =
     (if \<not> vqec_pcm_candidates_recently_checked_get pcm
      then bind_out (vqec_pcm_timeout_old_candidates (pcm_candidates pcm) now) (\<lambda>c. Done (pcm\<lparr>pcm_candidates := c\<rparr>))
      else Done (vqec_pcm_candidates_recently_checked_reset pcm))"

definition vqec_dp_oscheduler_run ::
  "osched_env \<Rightarrow> bool \<Rightarrow> osched_static \<Rightarrow> abs_time \<Rightarrow> osched_state \<Rightarrow> (osched_static \<times> osched_state) outcome" where
  "vqec_dp_oscheduler_run env mem sv cur_time w =
     (if \<not> os_run_osched (pcm_osched (ow_pcm w)) then Done (sv, w)
      else if sv_prev_time_valid sv \<and> abs_time_lt cur_time (sv_prev_time sv)
      then bind_out (vqec_pcm_flush mem (ow_pcm w) (ow_heap w)) (\<lambda>(_, pcm1, h1).
             Done (sv\<lparr>sv_prev_time := cur_time\<rparr>,
                   w\<lparr>ow_pcm := pcm1, ow_heap := h1, ow_out := ow_out w @ [Os_abort_rcc]\<rparr>))
      else bind_out (osched_candidates cur_time (ow_pcm w)) (\<lambda>pcm1.
           bind_out (osched_loop OSCHED_FUEL env cur_time (w\<lparr>ow_pcm := pcm1, ow_done_with_fastfill := False\<rparr>)) (\<lambda>w1.
             Done (\<lparr>sv_prev_time = cur_time, sv_prev_time_valid = True\<rparr>, w1))))"

subsection \<open>What the steps leave alone\<close>

text \<open>The packets look the same to the cache.\<close>

definition heap_same :: "pak_heap \<Rightarrow> pak_heap \<Rightarrow> bool" where
  "heap_same h h' \<longleftrightarrow> heap_live h' = heap_live h \<and> heap_ok h' = heap_ok h \<and> (\<forall>q. pak_core (ph_mem h' q) = pak_core (ph_mem h q))"

lemma heap_same_refl [simp]: "heap_same h h"
  by (simp add: heap_same_def)

lemma heap_same_trans: "heap_same h h1 \<Longrightarrow> heap_same h1 h2 \<Longrightarrow> heap_same h h2"
  by (simp add: heap_same_def)

lemma heap_sameD:
  assumes "heap_same h h'"
  shows "pk_seq_num (ph_mem h' q) = pk_seq_num (ph_mem h q)" "pak_held h' q = pak_held h q" "pak_refs h' q = pak_refs h q"
    "VQEC_PAK_FLAGS_ISSET (pk_flags (ph_mem h' q)) VQEC_PAK_FLAGS_ON_INORDER_Q =
     VQEC_PAK_FLAGS_ISSET (pk_flags (ph_mem h q)) VQEC_PAK_FLAGS_ON_INORDER_Q"
  using assms by (auto simp: heap_same_def pak_core_def pak_held_def pak_refs_def)

lemma heap_same_upd: "pak_core (g (ph_mem h p)) = pak_core (ph_mem h p) \<Longrightarrow> heap_same h (pak_upd p g h)"
  by (simp add: heap_same_def)

lemma heap_same_set [simp]: "heap_same h (pak_set_pred p t h)" "heap_same h (pak_set_rcv p t h)"
  by (simp_all add: pak_set_pred_def pak_set_rcv_def heap_same_upd pak_core_def)

lemma pcm_ok_same:
  assumes "pcm_ok pcm h" "heap_same h h'"
  shows "pcm_ok pcm h'"
proof (rule pcm_ok_frame [OF assms(1)])
  show "heap_ok h'" using assms by (simp add: heap_same_def pcm_ok_def)
qed (use heap_sameD [OF assms(2)] pcm_held [OF assms(1)] in simp)

lemma pcm_ok_pend:
  assumes "pcm_ok pcm h" "pcm_core pcm' = pcm_core (osched_upd (\<lambda>os. os\<lparr>os_pak_pend := x\<rparr>) pcm)"
    and "\<And>p. x = Some p \<Longrightarrow> pak_held h p \<and> p \<notin> ran (pcm_map pcm)"
  shows "pcm_ok pcm' h"
  using assms by (auto simp: pcm_ok_def pcm_core_def osched_upd_def pend_ok_def pcm_map_def)

lemma osched_core [core]:
  "pcm_core (vqec_pcm_total_tx_paks_bump pcm) = pcm_core pcm"
  "pcm_core (vqec_pcm_bad_rcv_ts_bump pcm) = pcm_core pcm"
  "pcm_core (vqec_pcm_log_tr135_underrun pcm i) = pcm_core pcm"
  "pcm_core (vqec_pcm_output_gap_log pcm a b t) = pcm_core pcm"
  "pcm_core (vqec_pcm_output_gap_counter_bump pcm n) = pcm_core pcm"
  "pcm_core (pcm_mainstream_upd f pcm) = pcm_core pcm"
  "pcm_core (vqec_pcm_update_rcc_post_abort_process pcm) = pcm_core pcm"
  "pcm_core (osched_log_first now p pcm) = pcm_core pcm"
  by (simp_all add: pcm_core_def vqec_pcm_total_tx_paks_bump_def vqec_pcm_bad_rcv_ts_bump_def Let_def
      vqec_pcm_log_tr135_underrun_def pcm_mainstream_upd_def vqec_pcm_output_gap_log_def vqec_pcm_output_gap_counter_bump_def
      vqec_pcm_update_rcc_post_abort_process_def osched_log_first_def vqec_pcm_cache_state_first_prim_def)

lemma osched_tr135_core [core]: "pcm_core (osched_tr135 p pcm) = pcm_core pcm"
  by (simp add: osched_tr135_def Let_def core)

lemma osched_upd_core: "(\<And>os. os_pak_pend (f os) = os_pak_pend os) \<Longrightarrow> pcm_core (osched_upd f pcm) = pcm_core pcm"
  by (simp add: pcm_core_def osched_upd_def)

lemma pcm_core_stats [core]: "pcm_core (pcm\<lparr>pcm_stats := st\<rparr>) = pcm_core pcm"
  by (simp add: pcm_core_def)

lemma osched_account_core: "pcm_core (osched_account now p pcm) = pcm_core pcm"
  by (simp add: osched_account_def Let_def core osched_upd_core)

text \<open>The state of the session stays below 3.\<close>

definition sess_ok :: "vqec_pcm \<Rightarrow> bool" where
  "sess_ok pcm \<longleftrightarrow> os_state (pcm_osched pcm) \<in> {PCM_SESSION_STATE_RCC_APP, PCM_SESSION_STATE_RCC_REPAIR, PCM_SESSION_STATE_NORMAL}"

named_theorems sess "updates that keep the state of the session"

lemma osched_sess [sess]:
  "pcm_osched (vqec_pcm_total_tx_paks_bump pcm) = pcm_osched pcm"
  "pcm_osched (vqec_pcm_bad_rcv_ts_bump pcm) = pcm_osched pcm"
  "pcm_osched (vqec_pcm_log_tr135_underrun pcm i) = pcm_osched pcm"
  "pcm_osched (vqec_pcm_output_gap_log pcm a b t) = pcm_osched pcm"
  "pcm_osched (vqec_pcm_output_gap_counter_bump pcm n) = pcm_osched pcm"
  "pcm_osched (pcm_mainstream_upd f pcm) = pcm_osched pcm"
  "pcm_osched (vqec_pcm_update_rcc_post_abort_process pcm) = pcm_osched pcm"
  "os_state (pcm_osched (osched_log_first now p pcm)) = os_state (pcm_osched pcm)"
  "pcm_osched (osched_upd g pcm) = g (pcm_osched pcm)"
  by (simp_all add: vqec_pcm_total_tx_paks_bump_def vqec_pcm_bad_rcv_ts_bump_def Let_def osched_upd_def
      vqec_pcm_log_tr135_underrun_def pcm_mainstream_upd_def vqec_pcm_output_gap_log_def vqec_pcm_output_gap_counter_bump_def
      vqec_pcm_update_rcc_post_abort_process_def osched_log_first_def vqec_pcm_cache_state_first_prim_def)

lemma osched_account_sess [sess]: "os_state (pcm_osched (osched_account now p pcm)) = os_state (pcm_osched pcm)"
  by (simp add: osched_account_def osched_tr135_def Let_def sess)

lemma osched_adjust_frame:
  obtains nll where "fst (osched_adjust clk c os a n e d) = os\<lparr>os_nll := nll\<rparr>"
  by (simp add: osched_adjust_def split_beta)

lemma osched_adjust_fields [simp]:
  "os_pak_pend (fst (osched_adjust clk c os a n e d)) = os_pak_pend os"
  "os_state (fst (osched_adjust clk c os a n e d)) = os_state os"
  by (rule osched_adjust_frame [of clk c os a n e d], simp)+

lemma interpolate_done: "\<exists>t. vqec_dp_oscheduler_rx_interpolate pcm p h = Done t"
proof -
  have "vqec_seq_num_sub a b \<noteq> 0" if "\<not> vqec_seq_num_le a b" for a b :: vqec_seq_num
    using that by (auto simp: vqec_seq_num_sub_def seq_simps)
  then show ?thesis
    by (auto simp: vqec_dp_oscheduler_rx_interpolate_def Let_def split: option.splits)
qed

lemma osched_last_inorder_fields [simp]:
  "os_pak_pend (osched_last_inorder p os) = os_pak_pend os" "os_state (osched_last_inorder p os) = os_state os"
  by (simp_all add: osched_last_inorder_def)

lemma osched_to_normal_fields [simp]:
  "os_pak_pend (fst (osched_to_normal clk c p os)) = os_pak_pend os"
  "os_state (fst (osched_to_normal clk c p os)) = PCM_SESSION_STATE_NORMAL"
  by (simp_all add: osched_to_normal_def Let_def split_beta)

lemma predict_ok:
  assumes "sess_ok pcm"
  shows "\<exists>pcm' h'. osched_predict clk collect lst p pcm h = Done (pcm', h') \<and> pcm_core pcm' = pcm_core pcm \<and> sess_ok pcm' \<and>
    heap_same h h'"
proof -
  have "\<exists>rcv. (if VQEC_PAK_FLAGS_ISSET (pk_flags (ph_mem h p)) VQEC_PAK_FLAGS_RX_REORDERED
      then vqec_dp_oscheduler_rx_interpolate pcm (ph_mem h p) h else Done (pk_rcv_ts (ph_mem h p))) = Done rcv"
    using interpolate_done [of pcm "ph_mem h p" h] by simp
  then obtain rcv where r: "(if VQEC_PAK_FLAGS_ISSET (pk_flags (ph_mem h p)) VQEC_PAK_FLAGS_RX_REORDERED
      then vqec_dp_oscheduler_rx_interpolate pcm (ph_mem h p) h else Done (pk_rcv_ts (ph_mem h p))) = Done rcv" by (rule exE)
  have s: "heap_same h (pak_set_pred p t (pak_set_rcv p rcv h))" for t
    by (rule heap_same_trans [of _ "pak_set_rcv p rcv h"]) simp_all
  show ?thesis
    using assms r s
    by (auto simp: osched_predict_def sess_ok_def pcm_core_def Let_def split_beta PCM_SESSION_STATE_RCC_APP_def
        PCM_SESSION_STATE_RCC_REPAIR_def PCM_SESSION_STATE_NORMAL_def)
qed

lemma fastfill_ok:
  assumes "vqec_dp_fastfill_dcr clk1 clk2 collect disc pcm p h now = (ff, pcm', h')"
  shows "pcm_core pcm' = pcm_core pcm" "sess_ok pcm' = sess_ok pcm" "heap_same h h'"
  using assms
  by (auto simp: vqec_dp_fastfill_dcr_def Let_def pcm_core_def osched_upd_def sess_ok_def vqec_dp_oscheduler_reset_def
      split: if_splits)

lemma fix_rcv_ok:
  assumes "osched_fix_rcv now p pcm h = (wait, pcm', h')"
  shows "pcm_core pcm' = pcm_core pcm" "pcm_osched pcm' = pcm_osched pcm" "heap_same h h'"
  using assms by (auto simp: osched_fix_rcv_def Let_def core sess split: if_splits)

lemma strip_same: "heap_same h (osched_strip udp p h)"
  by (auto simp: osched_strip_def vqec_pak_adjust_head_ptr_def Let_def pak_core_def intro!: heap_same_upd)

subsection \<open>The order of the packets\<close>

definition pcm_view :: "vqec_pcm \<Rightarrow> vqec_pak_seq option \<times> vqe_bitmap option \<times> u32 \<times> u32" where
  "pcm_view pcm = (pcm_pak_seq pcm, pcm_gapmap pcm, pcm_head pcm, pcm_tail pcm)"

lemma core_view: "pcm_core pcm' = pcm_core pcm \<Longrightarrow> pcm_view pcm' = pcm_view pcm"
  by (simp add: pcm_core_def pcm_view_def)

lemma view_map: "pcm_view pcm' = pcm_view pcm \<Longrightarrow> pcm_map pcm' = pcm_map pcm"
  by (simp add: pcm_view_def pcm_map_def)

lemma walk_cong:
  assumes "pcm_view pcm' = pcm_view pcm" "\<And>q. pk_seq_num (ph_mem h' q) = pk_seq_num (ph_mem h q)"
  shows "pcm_walk k pcm' h' x = pcm_walk k pcm h x"
proof (induction k arbitrary: x)
  case (Suc k)
  have f: "pcm_pak_seq pcm' = pcm_pak_seq pcm" "pcm_gapmap pcm' = pcm_gapmap pcm" "pcm_head pcm' = pcm_head pcm"
    "pcm_tail pcm' = pcm_tail pcm" using assms(1) by (simp_all add: pcm_view_def)
  have "vqec_pcm_get_next_packet pcm' h' x = vqec_pcm_get_next_packet pcm h x"
    by (simp only: vqec_pcm_get_next_packet_def vqec_pcm_find_next_packet_internal_def f assms(2))
  then show ?case using Suc by (auto split: option.splits)
qed simp

lemma sorted_key_unique:
  fixes key :: "'a \<Rightarrow> nat"
  assumes "sorted_wrt (\<lambda>x y. key x < key y) xs" "sorted_wrt (\<lambda>x y. key x < key y) ys" "set xs = set ys"
  shows "xs = ys"
proof -
  have s: "sorted_wrt (<) (map key xs)" "sorted_wrt (<) (map key ys)" using assms(1,2) by (simp_all add: sorted_wrt_map)
  then have "map key xs = map key ys" by (rule strict_sorted_equal [symmetric]) (simp add: assms(3))
  moreover have "inj_on key (set xs \<union> set ys)"
    using s(1) assms(3) by (simp add: strict_sorted_iff distinct_map)
  ultimately show ?thesis by (simp add: inj_on_map_eq_map)
qed

lemma remove_walk:
  assumes ok: "pcm_ok pcm h" and ok': "pcm_ok pcm' h'" and p: "pcm_map pcm (pcm_head pcm) = Some p"
    and m: "pcm_map pcm' = (pcm_map pcm)(pcm_head pcm := None)"
    and num: "\<And>q. pk_seq_num (ph_mem h' q) = pk_seq_num (ph_mem h q)"
  shows "pcm_walk 8193 pcm h None = p # pcm_walk 8193 pcm' h' None"
proof -
  let ?h = "pcm_head pcm" and ?f = "pcm_map pcm" and ?ys = "pcm_walk 8192 pcm h (Some p)" and ?zs = "pcm_walk 8193 pcm' h' None"
  have "?f \<noteq> Map.empty" using p by auto
  then have w: "pcm_walk 8193 pcm h None = p # ?ys"
    using find_next_first [OF ok] p by (simp add: walk_step vqec_pcm_get_next_packet_def)
  note o = walk_ok [OF ok, unfolded w] and o' = walk_ok [OF ok']
  have "\<forall>y\<in>set ?ys. rank_lt pcm h p y" "\<not> rank_lt pcm h p p" using o(2) by (simp_all add: rank_lt_def)
  then have "p \<notin> set ?ys" by blast
  then have ys: "set ?ys = ran ?f - {p}" unfolding o(1) [symmetric] by auto
  have inj: "n = ?h" if "?f n = Some p" for n using pcm_seq_num [OF ok that] pcm_seq_num [OF ok p] by simp
  have zs: "set ?zs = ran ?f - {p}" using o'(1) m ran_del [of ?f ?h p, OF p inj] by simp
  have "sorted_wrt (rank_lt pcm h) ?zs"
  proof (rule sorted_wrt_mono_rel [OF _ o'(2)])
    fix x y
    assume xy: "x \<in> set ?zs" "y \<in> set ?zs" "rank_lt pcm' h' x y"
    let ?g = "pcm_head pcm'"
    have d: "fdist ?h (pk_seq_num (ph_mem h z)) = fdist ?h ?g + fdist ?g (pk_seq_num (ph_mem h z))" if z: "z \<in> set ?zs" for z
    proof -
      obtain n where n: "pcm_map pcm' n = Some z" using z o'(1) by (auto simp: ran_def)
      then have fn: "?f n = Some z" using m by (simp split: if_splits)
      note e' = pcm_ends [OF ok' n]
      then obtain g where "?f ?g = Some g" using m by (auto split: if_splits)
      note e = pcm_ends [OF ok this]
      have "fdist ?h ?g + fdist ?g n < 2 ^ 32" using e(3,4) e'(3,4) by simp
      from fdist_trans [OF this] show ?thesis using pcm_seq_num [OF ok fn] by simp
    qed
    show "rank_lt pcm h x y" using xy(3) d [OF xy(1)] d [OF xy(2)] by (simp add: rank_lt_def num)
  qed
  then have "?ys = ?zs"
    using o(2) ys zs sorted_key_unique [of "\<lambda>q. fdist ?h (pk_seq_num (ph_mem h q))" ?ys ?zs]
    by (simp add: rank_lt_def [abs_def])
  then show ?thesis using w by simp
qed

subsection \<open>A round\<close>

definition os_inv :: "vqec_pcm \<Rightarrow> pak_heap \<Rightarrow> bool" where
  "os_inv pcm h \<longleftrightarrow> pcm_ok pcm h \<and> sess_ok pcm \<and> (\<forall>q\<in>ran (pcm_map pcm). pak_refs h q < 2 ^ 31 - 1)"

text \<open>The packets that wait: the pending one and then those of the cache in their order. The packets that the
  stream has received.\<close>

definition pcm_queue :: "vqec_pcm \<Rightarrow> pak_heap \<Rightarrow> pak_ptr list" where
  "pcm_queue pcm h = (case os_pak_pend (pcm_osched pcm) of None \<Rightarrow> [] | Some p \<Rightarrow> [p]) @ pcm_walk 8193 pcm h None"

definition sent_paks :: "osched_event list \<Rightarrow> pak_ptr list" where
  "sent_paks out = concat (map (\<lambda>e. case e of Os_receive p _ \<Rightarrow> [p] | _ \<Rightarrow> []) out)"

text \<open>No packet leaves before its time.\<close>

definition on_time :: "abs_time \<Rightarrow> osched_event list \<Rightarrow> bool" where
  "on_time now out = list_all (\<lambda>e. case e of Os_receive _ k \<Rightarrow> abs_time_le (pk_pred_ts k) now | _ \<Rightarrow> True) out"

lemma out_simps [simp]: "sent_paks [] = []" "on_time now []" "sent_paks (a @ b) = sent_paks a @ sent_paks b"
  "on_time now (a @ b) \<longleftrightarrow> on_time now a \<and> on_time now b"
  by (simp_all add: sent_paks_def on_time_def)

lemma send_ok:
  assumes inv: "os_inv (ow_pcm w) (ow_heap w)" and p: "os_pak_pend (pcm_osched (ow_pcm w)) = Some p" and c: "oe_connected env"
    and due: "abs_time_le (pk_pred_ts (ph_mem (ow_heap w) p)) now"
  shows "\<exists>w'. osched_send env now p w = Done w' \<and> os_inv (ow_pcm w') (ow_heap w') \<and>
    os_pak_pend (pcm_osched (ow_pcm w')) = None \<and> (\<exists>es. ow_out w' = ow_out w @ es \<and> sent_paks es = [p] \<and> on_time now es) \<and>
    pcm_walk 8193 (ow_pcm w') (ow_heap w') None = pcm_walk 8193 (ow_pcm w) (ow_heap w) None \<and>
    pcm_map (ow_pcm w') = pcm_map (ow_pcm w)"
proof -
  let ?pcm = "ow_pcm w" and ?h = "ow_heap w"
  have ok: "pcm_ok ?pcm ?h" and ss: "sess_ok ?pcm" and rf: "\<forall>q\<in>ran (pcm_map ?pcm). pak_refs ?h q < 2 ^ 31 - 1"
    using inv by (simp_all add: os_inv_def)
  have np: "p \<notin> ran (pcm_map ?pcm)" using ok p by (simp add: pcm_ok_def pend_ok_def)
  let ?pcm1 = "osched_log_first now (ph_mem ?h p) ?pcm" and ?h1 = "osched_strip (oe_encap_udp env) p ?h"
  let ?pcm2 = "vqec_pcm_total_tx_paks_bump (osched_upd (\<lambda>os. os\<lparr>os_pak_pend := None\<rparr>) ?pcm1)"
  note sm = strip_same [of ?h "oe_encap_udp env" p]
  have ok1: "pcm_ok ?pcm ?h1" using pcm_ok_same [OF ok sm] .
  then have "heap_ok ?h1" "pak_held ?h1 p" using pcm_held [OF ok1] p by (simp_all add: pcm_ok_def)
  from free_held [OF this] obtain h2 where f: "vqec_pak_free (Some p) ?h1 = Done h2" "heap_ok h2"
    "heap_live h2 = (if pak_refs ?h1 p = 1 then heap_live ?h1 - {p} else heap_live ?h1)"
    "\<forall>q. pak_refs h2 q = pak_refs ?h1 q - (if q = p then 1 else 0)"
    "\<forall>q. (ph_mem h2 q)\<lparr>pk_ref_count := 0\<rparr> = (ph_mem ?h1 q)\<lparr>pk_ref_count := 0\<rparr>"
    by (elim exE conjE) (rule that)
  have core1: "pcm_core ?pcm1 = pcm_core ?pcm" by (simp add: core)
  have "pcm_core ?pcm2 = pcm_core (osched_upd (\<lambda>os. os\<lparr>os_pak_pend := None\<rparr>) ?pcm)"
    unfolding osched_core(1) using core1 by (simp add: pcm_core_def osched_upd_def)
  note ok2 = pcm_ok_pend [OF ok1 this]
  have pend2: "os_pak_pend (pcm_osched ?pcm2) = None" by (simp add: sess)
  have view: "pcm_view ?pcm2 = pcm_view ?pcm"
    using core_view [OF core1] by (simp add: pcm_view_def osched_upd_def vqec_pcm_total_tx_paks_bump_def)
  note map2 = view_map [OF view]
  have held: "pak_held h2 q" "pak_refs h2 q = pak_refs ?h q" if "q \<in> ran (pcm_map ?pcm)" for q
  proof -
    have "q \<noteq> p" using that np by auto
    then show "pak_held h2 q" "pak_refs h2 q = pak_refs ?h q"
      using pcm_held [OF ok1, of q] that f(3,4) heap_sameD(3) [OF sm] by (auto simp: pak_held_def)
  qed
  have ok3: "pcm_ok ?pcm2 h2"
    by (rule pcm_ok_frame [OF ok2]) (use f(2) held map2 pend2 same_header [OF f(5)] same_flags [OF f(5)] in auto)
  have run: "osched_send env now p w = Done (w\<lparr>ow_pcm := ?pcm2, ow_heap := h2,
      ow_out := (ow_out w @ [Os_receive p (ph_mem ?h1 p)]) @ (if (os_max_post_er_rle_size (pcm_osched ?pcm) \<noteq> 0 \<and> oe_prim_is env) \<and>
        pcm_pre_prim_outp_stats_done ?pcm1 then [Os_post_repair p now] else [])\<rparr>)" (is "_ = Done ?w")
    using c f(1) by (simp add: osched_send_def Let_def)
  have "sess_ok ?pcm2" using ss by (simp add: sess_ok_def sess)
  then have "os_inv ?pcm2 h2" using ok3 rf held(2) map2 by (simp add: os_inv_def)
  moreover have "pcm_walk 8193 ?pcm2 h2 None = pcm_walk 8193 ?pcm ?h None"
    by (rule walk_cong [OF view]) (use same_header [OF f(5)] heap_sameD(1) [OF sm] in simp)
  moreover have "pk_pred_ts (ph_mem ?h1 p) = pk_pred_ts (ph_mem ?h p)"
    by (simp add: osched_strip_def vqec_pak_adjust_head_ptr_def Let_def)
  ultimately show ?thesis using run map2 pend2 due by (intro exI [of _ ?w]) (simp add: sent_paks_def on_time_def)
qed

lemma pcm_ok_ref:
  assumes "pcm_ok pcm h" "pak_refs h p < 2 ^ 31 - 1"
  shows "pcm_ok pcm (vqec_pak_ref (Some p) h)"
proof (rule pcm_ok_frame [OF assms(1)])
  note r = ref_ok [OF assms(2)]
  show "heap_ok (vqec_pak_ref (Some p) h)" using r(3) assms(1) by (simp add: pcm_ok_def)
  fix q
  assume "q \<in> ran (pcm_map pcm) \<or> os_pak_pend (pcm_osched pcm) = Some q"
  from pcm_held [OF assms(1) this] have "pak_held (vqec_pak_ref (Some p) h) q" using r(1,2) by (auto simp: pak_held_def)
  then show "pk_seq_num (ph_mem (vqec_pak_ref (Some p) h) q) = pk_seq_num (ph_mem h q) \<and> pak_held (vqec_pak_ref (Some p) h) q \<and>
      VQEC_PAK_FLAGS_ISSET (pk_flags (ph_mem (vqec_pak_ref (Some p) h) q)) VQEC_PAK_FLAGS_ON_INORDER_Q =
      VQEC_PAK_FLAGS_ISSET (pk_flags (ph_mem h q)) VQEC_PAK_FLAGS_ON_INORDER_Q"
    by (simp add: vqec_pak_ref_def)
qed

lemma take_ok:
  assumes inv: "os_inv (ow_pcm w) (ow_heap w)" and pend: "os_pak_pend (pcm_osched (ow_pcm w)) = None"
    and p: "pcm_map (ow_pcm w) (pcm_head (ow_pcm w)) = Some p"
  shows "\<exists>w'. osched_take env now p w = Done w' \<and> os_inv (ow_pcm w') (ow_heap w') \<and>
    os_pak_pend (pcm_osched (ow_pcm w')) = Some p \<and> ow_out w' = ow_out w \<and>
    pcm_walk 8193 (ow_pcm w) (ow_heap w) None = p # pcm_walk 8193 (ow_pcm w') (ow_heap w') None \<and>
    pcm_map (ow_pcm w') = (pcm_map (ow_pcm w))(pcm_head (ow_pcm w) := None)"
proof -
  let ?pcm = "ow_pcm w" and ?h = "ow_heap w" and ?hr = "vqec_pak_ref (Some p) (ow_heap w)" and ?k = "ow_reads w"
  have ok: "pcm_ok ?pcm ?h" and ss: "sess_ok ?pcm" and rf: "\<forall>q\<in>ran (pcm_map ?pcm). pak_refs ?h q < 2 ^ 31 - 1"
    using inv by (simp_all add: os_inv_def)
  have pr: "p \<in> ran (pcm_map ?pcm)" using p by (simp add: ranI)
  then have lt: "pak_refs ?h p < 2 ^ 31 - 1" using rf by blast
  note r = ref_ok [OF lt] and ok0 = pcm_ok_ref [OF ok lt]
  from remove_ok [OF ok0 p] obtain pcm1 h1 where d: "vqec_pcm_remove_packet ?pcm p ?hr = Done (True, pcm1, h1)" "pcm_ok pcm1 h1"
    "pcm_map pcm1 = (pcm_map ?pcm)(pcm_head ?pcm := None)" "\<forall>q. pak_refs h1 q = pak_refs ?hr q - (if q = p then 1 else 0)"
    "pcm_osched pcm1 = pcm_osched ?pcm" "heap_live h1 = (if pak_refs ?hr p = 1 then heap_live ?hr - {p} else heap_live ?hr)"
    "\<forall>q. (ph_mem h1 q)\<lparr>pk_ref_count := 0\<rparr> = (ph_mem ?hr q)\<lparr>pk_ref_count := 0\<rparr>"
    by (elim exE conjE) (rule that)
  have refs: "pak_refs h1 q = pak_refs ?h q" for q using d(4) r(1) by simp
  have held: "pak_held ?h p" using pcm_held [OF ok] pr by simp
  then have held1: "pak_held h1 p" using d(6) r(1,2) refs by (simp add: pak_held_def)
  have num1: "pk_seq_num (ph_mem h1 q) = pk_seq_num (ph_mem ?h q)" for q using same_header [OF d(7)] r(4) by simp
  let ?pcm2 = "osched_account now (ph_mem h1 p) pcm1"
  have s2: "sess_ok ?pcm2" using ss d(5) by (simp add: sess_ok_def sess)
  from predict_ok [OF s2] obtain pcm3 h3 where e: "osched_predict (oe_clock env ?k) (oe_collect env)
      (os_last_pak_seq (pcm_osched ?pcm)) p ?pcm2 h1 = Done (pcm3, h3)" "pcm_core pcm3 = pcm_core ?pcm2" "sess_ok pcm3" "heap_same h1 h3"
    by blast
  obtain ff pcm4 h4 where g: "(if rel_time_gt (pcm_fast_fill_time pcm3) REL_TIME_0
      then vqec_dp_fastfill_dcr (oe_clock env (?k + 1)) (oe_clock env (?k + 2)) (oe_collect env) (oe_disc env) pcm3 p h3 now
      else (ow_done_with_fastfill w, pcm3, h3)) = (ff, pcm4, h4)" by (metis prod_cases3)
  have g': "pcm_core pcm4 = pcm_core pcm3" "sess_ok pcm4" "heap_same h3 h4"
    using g e(3) fastfill_ok [of "oe_clock env (?k + 1)" "oe_clock env (?k + 2)" "oe_collect env" "oe_disc env" pcm3 p h3 now ff pcm4 h4]
    by (auto split: if_splits)
  obtain pcm5 h5 where q: "osched_pend p pcm4 h4 = (pcm5, h5)" by (cases "osched_pend p pcm4 h4")
  have q': "pcm_core pcm5 = pcm_core (osched_upd (\<lambda>os. os\<lparr>os_pak_pend := Some p\<rparr>) pcm4)" "heap_same h4 h5"
    "sess_ok pcm5 = sess_ok pcm4" "pcm_view pcm5 = pcm_view pcm4" "os_pak_pend (pcm_osched pcm5) = Some p"
    using q by (auto simp: osched_pend_def Let_def pcm_core_def osched_upd_def sess_ok_def pcm_view_def)
  have core4: "pcm_core pcm4 = pcm_core pcm1" using g'(1) e(2) osched_account_core by simp
  have same: "heap_same h1 h5" using heap_same_trans [OF heap_same_trans [OF e(4) g'(3)] q'(2)] .
  note k = pcm_core_ok [OF core4]
  have np: "p \<notin> ran (pcm_map pcm1)"
    using d(3) ran_del [of "pcm_map ?pcm" "pcm_head ?pcm" p, OF p] pcm_seq_num [OF ok] pcm_seq_num [OF ok p] by auto
  have ok4: "pcm_ok pcm4 h5" using k(2) pcm_ok_same [OF d(2) same] by simp
  have ok5: "pcm_ok pcm5 h5"
    by (rule pcm_ok_pend [OF ok4 q'(1)]) (use heap_sameD(2) [OF same] held1 np k(1) in simp)
  have view: "pcm_view pcm5 = pcm_view pcm1" using q'(4) core_view [OF core4] by simp
  note map5 = view_map [OF view]
  have inv5: "os_inv pcm5 h5"
    using ok5 q'(3) g'(2) rf map5 d(3) heap_sameD(3) [OF same] refs by (auto simp: os_inv_def ran_def split: if_splits)
  have w1: "pcm_walk 8193 pcm5 h5 None = pcm_walk 8193 pcm1 h1 None"
    by (rule walk_cong [OF view heap_sameD(1) [OF same]])
  have w2: "pcm_walk 8193 ?pcm ?h None = p # pcm_walk 8193 pcm1 h1 None"
    by (rule remove_walk [OF ok d(2) p d(3) num1])
  have run: "osched_take env now p w = Done (w\<lparr>ow_pcm := pcm5, ow_heap := h5, ow_done_with_fastfill := ff, ow_reads := ?k + 3\<rparr>)"
    using d(1) e(1) g q by (simp add: osched_take_def Let_def)
  show ?thesis using run inv5 q'(5) w1 w2 map5 d(3)
    by (intro exI [of _ "w\<lparr>ow_pcm := pcm5, ow_heap := h5, ow_done_with_fastfill := ff, ow_reads := ?k + 3\<rparr>"]) simp
qed

subsection \<open>The loop\<close>

lemma walk_length:
  assumes ok: "pcm_ok pcm h"
  shows "length (pcm_walk 8193 pcm h None) \<le> 8192"
proof -
  let ?xs = "pcm_walk 8193 pcm h None" and ?key = "\<lambda>q. fdist (pcm_head pcm) (pk_seq_num (ph_mem h q))"
  have "sorted_wrt (<) (map ?key ?xs)" using walk_ok(2) [OF ok] by (simp add: sorted_wrt_map rank_lt_def [abs_def])
  then have "distinct (map ?key ?xs)" by (simp add: strict_sorted_iff)
  moreover have "set (map ?key ?xs) \<subseteq> {..<8192}"
  proof
    fix x
    assume "x \<in> set (map ?key ?xs)"
    then obtain q where q: "q \<in> ran (pcm_map pcm)" "x = ?key q" using walk_ok(1) [OF ok] by auto
    then obtain n where n: "pcm_map pcm n = Some q" by (auto simp: ran_def)
    then show "x \<in> {..<8192}" using pcm_seq_num [OF ok n] pcm_ends(3,4) [OF ok n] q(2) by simp
  qed
  ultimately show ?thesis using card_mono [of "{..<8192}" "set (map ?key ?xs)"] distinct_card [of "map ?key ?xs"] by simp
qed

lemma os_inv_frame:
  assumes inv: "os_inv pcm h" and core: "pcm_core pcm' = pcm_core pcm" and os: "os_state (pcm_osched pcm') = os_state (pcm_osched pcm)"
    and same: "heap_same h h'"
  shows "os_inv pcm' h'" "pcm_queue pcm' h' = pcm_queue pcm h"
    "pcm_walk 8193 pcm' h' None = pcm_walk 8193 pcm h None" "pcm_map pcm' = pcm_map pcm"
    "pcm_head pcm' = pcm_head pcm" "os_pak_pend (pcm_osched pcm') = os_pak_pend (pcm_osched pcm)"
proof -
  note k = pcm_core_ok [OF core]
  show w: "pcm_walk 8193 pcm' h' None = pcm_walk 8193 pcm h None"
    by (rule walk_cong [OF core_view [OF core] heap_sameD(1) [OF same]])
  show "os_inv pcm' h'"
    using inv k(1,2) os pcm_ok_same [OF _ same] heap_sameD(3) [OF same] by (simp add: os_inv_def sess_ok_def)
  show "pcm_queue pcm' h' = pcm_queue pcm h" using w k(4) by (simp add: pcm_queue_def)
  show "pcm_map pcm' = pcm_map pcm" "os_pak_pend (pcm_osched pcm') = os_pak_pend (pcm_osched pcm)" by (rule k(1) k(4))+
  show "pcm_head pcm' = pcm_head pcm" using core by (simp add: pcm_core_def)
qed

lemma next_ok:
  assumes inv: "os_inv (ow_pcm w) (ow_heap w)" and pend: "os_pak_pend (pcm_osched (ow_pcm w)) = None"
  shows "\<exists>go w'. osched_next env now w = Done (go, w') \<and> os_inv (ow_pcm w') (ow_heap w') \<and> ow_out w' = ow_out w \<and>
    pcm_queue (ow_pcm w') (ow_heap w') = pcm_queue (ow_pcm w) (ow_heap w) \<and>
    (\<not> go \<longrightarrow> os_pak_pend (pcm_osched (ow_pcm w')) = None) \<and>
    length (pcm_walk 8193 (ow_pcm w') (ow_heap w') None) + (if go then 1 else 0) = length (pcm_walk 8193 (ow_pcm w) (ow_heap w) None)"
proof (cases "vqec_pcm_get_next_packet (ow_pcm w) (ow_heap w) None")
  case None
  have "pcm_core (vqec_pcm_log_tr135_underrun (ow_pcm w) 1) = pcm_core (ow_pcm w)" by (simp add: core)
  note fr = os_inv_frame [OF inv this _ heap_same_refl, simplified sess, OF refl]
  show ?thesis
    by (rule exI [of _ False], rule exI [of _ "w\<lparr>ow_pcm := vqec_pcm_log_tr135_underrun (ow_pcm w) 1\<rparr>"])
      (simp add: osched_next_def None fr(1-3) pend osched_sess(3))
next
  case (Some p)
  have ok: "pcm_ok (ow_pcm w) (ow_heap w)" using inv by (simp add: os_inv_def)
  have p: "pcm_map (ow_pcm w) (pcm_head (ow_pcm w)) = Some p"
    using Some find_next_first [OF ok] by (simp add: vqec_pcm_get_next_packet_def split: if_splits)
  obtain wait pcm1 h1 where f: "osched_fix_rcv now p (ow_pcm w) (ow_heap w) = (wait, pcm1, h1)" by (metis prod_cases3)
  note fo = fix_rcv_ok [OF f]
  note fr = os_inv_frame [OF inv fo(1) _ fo(3), unfolded fo(2), OF refl]
  let ?w = "w\<lparr>ow_pcm := pcm1, ow_heap := h1\<rparr>"
  have "os_inv (ow_pcm ?w) (ow_heap ?w)" "os_pak_pend (pcm_osched (ow_pcm ?w)) = None"
    "pcm_map (ow_pcm ?w) (pcm_head (ow_pcm ?w)) = Some p" using fr p pend fo(2) by simp_all
  from take_ok [OF this, of env now] obtain w2 where t: "osched_take env now p ?w = Done w2" "os_inv (ow_pcm w2) (ow_heap w2)"
    "os_pak_pend (pcm_osched (ow_pcm w2)) = Some p" "ow_out w2 = ow_out w"
    "pcm_walk 8193 pcm1 h1 None = p # pcm_walk 8193 (ow_pcm w2) (ow_heap w2) None"
    by (elim exE conjE) (rule that, simp_all)
  consider "osched_must_wait (ow_pcm w) (the (pcm_pak_seq (ow_pcm w))) (ph_mem (ow_heap w) p) now"
    | "\<not> osched_must_wait (ow_pcm w) (the (pcm_pak_seq (ow_pcm w))) (ph_mem (ow_heap w) p) now" wait
    | "\<not> osched_must_wait (ow_pcm w) (the (pcm_pak_seq (ow_pcm w))) (ph_mem (ow_heap w) p) now" "\<not> wait" by blast
  then show ?thesis
  proof cases
    case 1
    then show ?thesis by (intro exI [of _ False] exI [of _ w]) (simp add: osched_next_def Some inv pend)
  next
    case 2
    then show ?thesis
      by (intro exI [of _ False] exI [of _ ?w]) (simp add: osched_next_def Some f fr(1-3) fo(2) pend)
  next
    case 3
    then have run: "osched_next env now w = Done (True, w2)" by (simp add: osched_next_def Some f t(1))
    have "pcm_queue (ow_pcm w2) (ow_heap w2) = pcm_queue (ow_pcm w) (ow_heap w)" using t(3-5) fr(3) pend by (simp add: pcm_queue_def)
    then show ?thesis using run t(2,4,5) fr(3) by (intro exI [of _ True] exI [of _ w2]) simp
  qed
qed

text \<open>The packets that go out are the first of those that wait, each at its time; the rest still waits.\<close>

definition os_step :: "abs_time \<Rightarrow> osched_state \<Rightarrow> osched_state \<Rightarrow> bool" where
  "os_step now w w' \<longleftrightarrow> os_inv (ow_pcm w') (ow_heap w') \<and>
     (\<exists>es. ow_out w' = ow_out w @ es \<and> on_time now es \<and>
       pcm_queue (ow_pcm w) (ow_heap w) = sent_paks es @ pcm_queue (ow_pcm w') (ow_heap w'))"

lemma os_step_trans: "os_step now w w1 \<Longrightarrow> os_step now w1 w2 \<Longrightarrow> os_step now w w2"
  unfolding os_step_def by (metis append.assoc out_simps(3,4))

definition pend_due :: "abs_time \<Rightarrow> osched_state \<Rightarrow> bool" where
  "pend_due now w = (case os_pak_pend (pcm_osched (ow_pcm w)) of None \<Rightarrow> False
     | Some p \<Rightarrow> abs_time_le (pk_pred_ts (ph_mem (ow_heap w) p)) now)"

lemma round_ok:
  assumes inv: "os_inv (ow_pcm w) (ow_heap w)" and c: "oe_connected env"
  shows "\<exists>go w'. osched_round env now w = Done (go, w') \<and> os_step now w w' \<and> (\<not> go \<longrightarrow> \<not> pend_due now w') \<and>
    length (pcm_walk 8193 (ow_pcm w') (ow_heap w') None) + (if go then 1 else 0) = length (pcm_walk 8193 (ow_pcm w) (ow_heap w) None)"
proof (cases "os_pak_pend (pcm_osched (ow_pcm w))")
  case None
  then show ?thesis using next_ok [OF inv None, of env now]
    by (elim exE conjE, intro exI conjI) (simp_all add: osched_round_def os_step_def pend_due_def)
next
  case (Some p)
  show ?thesis
  proof (cases "abs_time_le (pk_pred_ts (ph_mem (ow_heap w) p)) now")
    case True
    from send_ok [OF inv Some c True] obtain w1 es where s: "osched_send env now p w = Done w1" "os_inv (ow_pcm w1) (ow_heap w1)"
      "os_pak_pend (pcm_osched (ow_pcm w1)) = None" "ow_out w1 = ow_out w @ es" "sent_paks es = [p]" "on_time now es"
      "pcm_walk 8193 (ow_pcm w1) (ow_heap w1) None = pcm_walk 8193 (ow_pcm w) (ow_heap w) None" by (elim exE conjE) (rule that)
    have "os_step now w w1" using s(2-7) Some by (auto simp: os_step_def pcm_queue_def)
    moreover have "osched_round env now w = osched_next env now w1" using s(1) Some True by (simp add: osched_round_def)
    moreover obtain go w2 where n: "osched_next env now w1 = Done (go, w2)" "os_inv (ow_pcm w2) (ow_heap w2)" "ow_out w2 = ow_out w1"
      "pcm_queue (ow_pcm w2) (ow_heap w2) = pcm_queue (ow_pcm w1) (ow_heap w1)"
      "\<not> go \<longrightarrow> os_pak_pend (pcm_osched (ow_pcm w2)) = None"
      "length (pcm_walk 8193 (ow_pcm w2) (ow_heap w2) None) + (if go then 1 else 0) = length (pcm_walk 8193 (ow_pcm w1) (ow_heap w1) None)"
      using next_ok [OF s(2,3), of env now] by (elim exE conjE) (rule that)
    moreover have "os_step now w1 w2" using n(2-4) by (simp add: os_step_def)
    ultimately show ?thesis using os_step_trans [of now w w1 w2] s(7)
      by (intro exI [of _ go] exI [of _ w2]) (auto simp: pend_due_def)
  next
    case False
    then show ?thesis using inv Some
      by (intro exI [of _ False] exI [of _ w]) (simp add: osched_round_def os_step_def pend_due_def)
  qed
qed

lemma osched_loop_ok:
  assumes c: "oe_connected env"
  shows "os_inv (ow_pcm w) (ow_heap w) \<Longrightarrow> length (pcm_walk 8193 (ow_pcm w) (ow_heap w) None) < k \<Longrightarrow>
    \<exists>w'. osched_loop k env now w = Done w' \<and> os_step now w w' \<and> \<not> pend_due now w'"
proof (induction k arbitrary: w)
  case (Suc k)
  from round_ok [OF Suc.prems(1) c, of now] obtain go w1 where r: "osched_round env now w = Done (go, w1)"
    "os_step now w w1" "\<not> go \<longrightarrow> \<not> pend_due now w1"
    "length (pcm_walk 8193 (ow_pcm w1) (ow_heap w1) None) + (if go then 1 else 0) = length (pcm_walk 8193 (ow_pcm w) (ow_heap w) None)"
    by (elim exE conjE) (rule that)
  show ?case
  proof (cases go)
    case True
    then have "length (pcm_walk 8193 (ow_pcm w1) (ow_heap w1) None) < k" "os_inv (ow_pcm w1) (ow_heap w1)"
      using r(2,4) Suc.prems(2) by (simp_all add: os_step_def)
    from Suc.IH [OF this(2,1)] show ?thesis using True r(1) os_step_trans [OF r(2)] by auto
  next
    case False
    then show ?thesis using r by simp
  qed
qed simp

subsection \<open>A run\<close>

lemma os_inv_candidates:
  assumes inv: "os_inv pcm h"
  shows "\<exists>pcm'. osched_candidates now pcm = Done pcm' \<and> os_inv pcm' h \<and> pcm_queue pcm' h = pcm_queue pcm h"
proof -
  have ok: "pcm_ok pcm h" using inv by (simp add: os_inv_def)
  then have "cand_ok (pcm_candidates pcm)" by (simp add: pcm_ok_def)
  from timeout_ok [OF this, of now] obtain c where c: "vqec_pcm_timeout_old_candidates (pcm_candidates pcm) now = Done c" "cand_ok c"
    by (elim exE conjE) (rule that)
  have "os_inv (pcm\<lparr>pcm_candidates := x\<rparr>) h \<and> pcm_queue (pcm\<lparr>pcm_candidates := x\<rparr>) h = pcm_queue pcm h" if "cand_ok x" for x
    using inv that walk_cong [of "pcm\<lparr>pcm_candidates := x\<rparr>" pcm h h 8193 None]
    by (simp add: os_inv_def pcm_ok_def sess_ok_def pcm_map_def pcm_queue_def pcm_view_def)
  moreover have "cand_ok ((pcm_candidates pcm)\<lparr>cd_candidates_recently_checked := False\<rparr>)"
    using ok by (simp add: pcm_ok_def cand_ok_def cand_empty_def)
  ultimately show ?thesis using c
    by (simp add: osched_candidates_def vqec_pcm_candidates_recently_checked_reset_def)
qed

lemma osched_run_ok:
  assumes inv: "os_inv (ow_pcm w) (ow_heap w)" and c: "oe_connected env" and r: "os_run_osched (pcm_osched (ow_pcm w))"
    and t: "\<not> (sv_prev_time_valid sv \<and> abs_time_lt now (sv_prev_time sv))"
  shows "\<exists>w'. vqec_dp_oscheduler_run env mem sv now w = Done (\<lparr>sv_prev_time = now, sv_prev_time_valid = True\<rparr>, w') \<and>
    os_step now w w' \<and> \<not> pend_due now w'"
proof -
  from os_inv_candidates [OF inv, of now] obtain pcm1 where k: "osched_candidates now (ow_pcm w) = Done pcm1"
    "os_inv pcm1 (ow_heap w)" "pcm_queue pcm1 (ow_heap w) = pcm_queue (ow_pcm w) (ow_heap w)" by (elim exE conjE) (rule that)
  let ?w = "w\<lparr>ow_pcm := pcm1, ow_done_with_fastfill := False\<rparr>"
  have i: "os_inv (ow_pcm ?w) (ow_heap ?w)" using k(2) by simp
  then have "length (pcm_walk 8193 (ow_pcm ?w) (ow_heap ?w) None) \<le> 8192" by (intro walk_length) (simp add: os_inv_def)
  then have "length (pcm_walk 8193 (ow_pcm ?w) (ow_heap ?w) None) < OSCHED_FUEL" by (simp add: OSCHED_FUEL_def)
  from osched_loop_ok [OF c i this, of now] obtain w1 where l: "osched_loop OSCHED_FUEL env now ?w = Done w1" "os_step now ?w w1" "\<not> pend_due now w1"
    by (elim exE conjE) (rule that)
  have "os_step now w w1" using l(2) k(3) by (simp add: os_step_def)
  moreover have "vqec_dp_oscheduler_run env mem sv now w = Done (\<lparr>sv_prev_time = now, sv_prev_time_valid = True\<rparr>, w1)"
    using r t k(1) l(1) by (auto simp: vqec_dp_oscheduler_run_def)
  ultimately show ?thesis using l(3) by (intro exI [of _ w1]) simp
qed



text \<open>C4: A run of the scheduler at a time that does not lie before that of the last run returns: no assertion
  of the code fails, and the loop ends. The cache stays correct. The packets that the connected stream
  receives are the first of those that waited, in the order of their numbers from the pending one and then
  the head of the cache, without loss or repetition; the rest still waits. None goes out before its time, and
  after the run no packet is pending whose time has come.\<close>

theorem osched_run_in_order:
  assumes "os_inv (ow_pcm w) (ow_heap w)" "oe_connected env" "os_run_osched (pcm_osched (ow_pcm w))"
    and "\<not> (sv_prev_time_valid sv \<and> abs_time_lt now (sv_prev_time sv))"
  shows "\<exists>w' es. vqec_dp_oscheduler_run env mem sv now w = Done (\<lparr>sv_prev_time = now, sv_prev_time_valid = True\<rparr>, w') \<and>
    os_inv (ow_pcm w') (ow_heap w') \<and> ow_out w' = ow_out w @ es \<and> on_time now es \<and>
    pcm_queue (ow_pcm w) (ow_heap w) = sent_paks es @ pcm_queue (ow_pcm w') (ow_heap w') \<and> \<not> pend_due now w'"
  using osched_run_ok [OF assms, of mem] unfolding os_step_def by (elim exE conjE, intro exI conjI)

text \<open>A scheduler with the cache of the example, which holds one packet, and a pending packet.\<close>

definition osched_sample_env :: osched_env where
  "osched_sample_env = \<lparr>oe_encap_udp = False, oe_connected = True, oe_prim_is = False, oe_clock = (\<lambda>_. 7000), oe_collect = False,
     oe_disc = False\<rparr>"

definition osched_sample :: osched_state where
  "osched_sample = \<lparr>ow_pcm = osched_upd (\<lambda>os. os\<lparr>os_run_osched := True, os_state := PCM_SESSION_STATE_NORMAL\<rparr>) pcm_sample,
     ow_heap = pcm_heap_sample, ow_out = [], ow_done_with_fastfill = False, ow_reads = 0\<rparr>"

lemma osched_sample_ok: "os_inv (ow_pcm osched_sample) (ow_heap osched_sample)"
proof -
  let ?pcm = "ow_pcm osched_sample"
  have "pcm_core ?pcm = pcm_core pcm_sample" by (simp add: osched_sample_def osched_upd_core)
  note k = pcm_core_ok [OF this]
  have "pak_refs pcm_heap_sample 4208 < 2 ^ 31 - 1"
    using ref_ok(1) [of heap_sample 4208] by (simp add: heap_sample_ok(3))
  then show ?thesis using k(1,2) pcm_sample_ok
    by (simp add: os_inv_def osched_sample_def sess_ok_def sess)
qed

lemma osched_sample_queue: "pcm_queue (ow_pcm osched_sample) (ow_heap osched_sample) = [4208]"
proof -
  let ?pcm = "ow_pcm osched_sample" and ?h = "ow_heap osched_sample"
  have ok: "pcm_ok ?pcm ?h" using osched_sample_ok by (simp add: os_inv_def)
  have "pcm_map ?pcm = [70000 \<mapsto> 4208]" using pcm_sample_ok(2) by (simp add: osched_sample_def osched_upd_def pcm_map_def)
  then have "set (pcm_walk 8193 ?pcm ?h None) = {4208}" using walk_ok(1) [OF ok] by simp
  then have "pcm_walk 8193 ?pcm ?h None = [4208]"
    using walk_ok(2) [OF ok] by (cases "pcm_walk 8193 ?pcm ?h None"; cases "tl (pcm_walk 8193 ?pcm ?h None)") (auto simp: rank_lt_def)
  then show ?thesis by (simp add: pcm_queue_def osched_sample_def sess pcm_sample_def pcm_zero_def osched_zero_def)
qed

theorem osched_run_in_order_witness:
  "\<exists>w' es. vqec_dp_oscheduler_run osched_sample_env True \<lparr>sv_prev_time = 0, sv_prev_time_valid = False\<rparr> 7000 osched_sample =
    Done (\<lparr>sv_prev_time = 7000, sv_prev_time_valid = True\<rparr>, w') \<and> os_inv (ow_pcm w') (ow_heap w') \<and> ow_out w' = es \<and>
    on_time 7000 es \<and> [4208] = sent_paks es @ pcm_queue (ow_pcm w') (ow_heap w') \<and> \<not> pend_due 7000 w'"
proof -
  let ?sv = "\<lparr>sv_prev_time = 0, sv_prev_time_valid = False\<rparr>"
  have "oe_connected osched_sample_env" "os_run_osched (pcm_osched (ow_pcm osched_sample))" "ow_out osched_sample = []"
    "\<not> (sv_prev_time_valid ?sv \<and> abs_time_lt 7000 (sv_prev_time ?sv))"
    by (simp_all add: osched_sample_env_def osched_sample_def sess)
  then show ?thesis
    using osched_run_in_order [OF osched_sample_ok, of osched_sample_env ?sv 7000 True] osched_sample_queue by simp
qed


end
