(* ===== verification/Net_Bytes.thy ===== *)
theory Net_Bytes
  imports Vqe_Prelude
begin

text \<open>
  Octets in the memory and on the wire: \<^verbatim>\<open>htonl\<close>, \<^verbatim>\<open>ntohl\<close>, \<^verbatim>\<open>htons\<close> and \<^verbatim>\<open>ntohs\<close> as functions between
  words and the lists of their octets in network order, and the octets of a word in the memory of a host
  of either byte order.
\<close>

unbundle bit_operations_syntax

subsection \<open>Octets\<close>

definition htonl :: "u32 \<Rightarrow> u8 list" where
  "htonl w = [ucast (drop_bit 24 w), ucast (drop_bit 16 w), ucast (drop_bit 8 w), ucast w]"

definition ntohl :: "u8 list \<Rightarrow> u32" where
  "ntohl bs = push_bit 24 (ucast (bs ! 0)) OR push_bit 16 (ucast (bs ! 1)) OR push_bit 8 (ucast (bs ! 2)) OR ucast (bs ! 3)"

definition htons :: "u16 \<Rightarrow> u8 list" where
  "htons w = [ucast (drop_bit 8 w), ucast w]"

definition ntohs :: "u8 list \<Rightarrow> u16" where
  "ntohs bs = push_bit 8 (ucast (bs ! 0)) OR ucast (bs ! 1)"

text \<open>The octets of a word in the memory of a host, with the least significant one first or last.\<close>

definition host_bytes :: "bool \<Rightarrow> u32 \<Rightarrow> u8 list" where
  "host_bytes little w = (if little then rev (htonl w) else htonl w)"

text \<open>A copy over the first octets of a variable.\<close>

definition memcpy_to :: "u8 list \<Rightarrow> u8 list \<Rightarrow> u8 list" where
  "memcpy_to var val = val @ drop (length val) var"

text \<open>Reading the octets of the memory as a word of the host.\<close>

definition host_word :: "bool \<Rightarrow> u8 list \<Rightarrow> u32" where
  "host_word little bs = ntohl (if little then rev bs else bs)"

definition host_short_bytes :: "bool \<Rightarrow> u16 \<Rightarrow> u8 list" where
  "host_short_bytes little w = (if little then rev (htons w) else htons w)"

definition host_short :: "bool \<Rightarrow> u8 list \<Rightarrow> u16" where
  "host_short little bs = ntohs (if little then rev bs else bs)"

subsection \<open>Words and their octets\<close>

lemma ntohl_htonl [simp]: "ntohl (htonl w) = w"
proof (rule bit_word_eqI)
  fix n
  assume "n < LENGTH(32)"
  then consider "n < 8" | "8 \<le> n" "n < 16" | "16 \<le> n" "n < 24" | "24 \<le> n" "n < 32" by fastforce
  then show "bit (ntohl (htonl w)) n \<longleftrightarrow> bit w n"
    by cases (auto simp: ntohl_def htonl_def bit_simps)
qed

lemma ntohs_htons [simp]: "ntohs (htons w @ bs) = w"
  unfolding ntohs_def htons_def
  by (rule bit_word_eqI) (auto simp: bit_simps)

lemma length_htonl [simp]: "length (htonl w) = 4" "length (host_bytes little w) = 4" "length (htons v) = 2"
  by (simp_all add: htonl_def host_bytes_def htons_def)

lemma memcpy_whole [simp]: "length var = length val \<Longrightarrow> memcpy_to var val = val"
  by (simp add: memcpy_to_def)

end
