(* ===== verification/Rcc_Tlv.thy ===== *)
theory Rcc_Tlv
  imports Rcc_Cp Net_Bytes
begin

text \<open>
  The parameters of a rapid channel change on the wire, \<^verbatim>\<open>rtp/rcc_tlv.c\<close>: a message is a sequence of items of
  a type, a length of two octets and a value. The four messages are PPDD (from the server), and PLII, NCSI
  and ERRI (from the client).

  A buffer is a list of octets. A variable that is filled by \<^verbatim>\<open>memcpy\<close> is the list of its four octets in
  memory; \<^verbatim>\<open>ntohl\<close> reads them with the most significant octet first, whatever the byte order of the host
  is. The byte order matters only for the one value that is copied without conversion, and is an argument
  there. Whether memory is granted is an argument.
\<close>

unbundle bit_operations_syntax

subsection \<open>Types and lengths\<close>

definition PADDING :: u8 where "PADDING = 0"
definition START_SEQ_NUMBER :: u8 where "START_SEQ_NUMBER = 1"
definition START_RTP_TIMESTAMP :: u8 where "START_RTP_TIMESTAMP = 2"
definition DT_EARLIEST_TIME_TO_JOIN :: u8 where "DT_EARLIEST_TIME_TO_JOIN = 3"
definition DT_REPAIR_END_TIME :: u8 where "DT_REPAIR_END_TIME = 4"
definition TSRAP :: u8 where "TSRAP = 5"
definition MIN_RCC_FILL :: u8 where "MIN_RCC_FILL = 6"
definition MAX_RCC_FILL :: u8 where "MAX_RCC_FILL = 7"
definition ACT_RCC_FILL :: u8 where "ACT_RCC_FILL = 8"
definition ACT_RCC_FILL_AT_JOIN :: u8 where "ACT_RCC_FILL_AT_JOIN = 9"
definition ER_HOLDOFF_TIME :: u8 where "ER_HOLDOFF_TIME = 10"
definition FIRST_MCAST_PKT_SEQ_NUM :: u8 where "FIRST_MCAST_PKT_SEQ_NUM = 11"
definition FIRST_MCAST_PKT_RECV_TIME :: u8 where "FIRST_MCAST_PKT_RECV_TIME = 12"
definition DO_FASTFILL :: u8 where "DO_FASTFILL = 13"
definition ACTUAL_FASTFILL :: u8 where "ACTUAL_FASTFILL = 14"
definition MAXIMUM_RECV_BW :: u8 where "MAXIMUM_RECV_BW = 15"
definition MAXIMUM_FASTFILL_TIME :: u8 where "MAXIMUM_FASTFILL_TIME = 16"
definition RCC_STATUS :: u8 where "RCC_STATUS = 17"
definition MAX_RCC_TLV_TYPE :: u8 where "MAX_RCC_TLV_TYPE = 18"

named_theorems tlv_types "the numbers of the types"

declare PADDING_def [tlv_types] START_SEQ_NUMBER_def [tlv_types] START_RTP_TIMESTAMP_def [tlv_types]
  DT_EARLIEST_TIME_TO_JOIN_def [tlv_types] DT_REPAIR_END_TIME_def [tlv_types] TSRAP_def [tlv_types]
  MIN_RCC_FILL_def [tlv_types] MAX_RCC_FILL_def [tlv_types] ACT_RCC_FILL_def [tlv_types]
  ACT_RCC_FILL_AT_JOIN_def [tlv_types] ER_HOLDOFF_TIME_def [tlv_types] FIRST_MCAST_PKT_SEQ_NUM_def [tlv_types]
  FIRST_MCAST_PKT_RECV_TIME_def [tlv_types] DO_FASTFILL_def [tlv_types] ACTUAL_FASTFILL_def [tlv_types]
  MAXIMUM_RECV_BW_def [tlv_types] MAXIMUM_FASTFILL_TIME_def [tlv_types] RCC_STATUS_def [tlv_types]
  MAX_RCC_TLV_TYPE_def [tlv_types]

definition LENGTH_FIELD_LEN :: nat where "LENGTH_FIELD_LEN = 2"

text \<open>The table of lengths, by type.\<close>

definition rcc_tl :: "int list" where
  "rcc_tl = [0, 4, 4, 4, 4, -1, 4, 4, 4, 4, 4, 4, 4, 4, 4, 4, 4, 4, 0]"

definition rcc_tl_len :: "u8 \<Rightarrow> int" where
  "rcc_tl_len t = rcc_tl ! unat t"

record ppdd_msg = ppdd_tlv +
  tlv_tsrap :: "u8 list"

record plii_tlv =
  pl_min_rcc_fill :: u32
  pl_max_rcc_fill :: u32
  pl_do_fastfill :: u32
  pl_maximum_recv_bw :: u32
  pl_maximum_fastfill_time :: u32

record ncsi_tlv =
  nc_first_mcast_seq_number :: u32
  nc_first_mcast_recv_time :: u32

record erri_tlv =
  er_maximum_recv_bw :: u32

subsection \<open>Encoding\<close>

text \<open>The sum of the lengths over the types of a message, then the items one after the other. The padding
  is between one and four octets.\<close>

fun tlv_sizes :: "(u8 \<Rightarrow> nat) \<Rightarrow> u8 list \<Rightarrow> nat" where
  "tlv_sizes len [] = 0"
| "tlv_sizes len (t # ts) = (if t = TSRAP \<and> len t = 0 then 0 else 1 + 2 + len t) + tlv_sizes len ts"

definition tlv_padding :: "nat \<Rightarrow> nat" where
  "tlv_padding n = 4 - n mod 4"

definition tlv_item :: "u8 \<Rightarrow> nat \<Rightarrow> u8 list \<Rightarrow> u8 list" where
  "tlv_item t l val = t # htons (of_nat l) @ take l val"

fun tlv_items :: "(u8 \<Rightarrow> nat) \<Rightarrow> (u8 \<Rightarrow> u8 list) \<Rightarrow> u8 list \<Rightarrow> u8 list \<times> nat" where
  "tlv_items len val [] = ([], 0)"
| "tlv_items len val (t # ts) =
     (let (bs, n) = tlv_items len val ts
      in if t = TSRAP \<and> len t = 0 then (bs, n) else (tlv_item t (len t) (val t) @ bs, 1 + 2 + len t + n))"

definition tlv_encode :: "bool \<Rightarrow> (u8 \<Rightarrow> nat) \<Rightarrow> (u8 \<Rightarrow> u8 list) \<Rightarrow> u8 list \<Rightarrow> u8 list option outcome" where
  "tlv_encode mem len val types =
     (let tlen = tlv_sizes len types + tlv_padding (tlv_sizes len types)
      in if \<not> mem then Done None
         else let (bs, n) = tlv_items len val types;
                  total_len = n + tlv_padding n
              in if tlen = total_len then Done (Some (bs @ replicate (tlv_padding n) PADDING)) else Assert_failed)"

definition ppdd_types :: "u8 list" where
  "ppdd_types = [START_SEQ_NUMBER, START_RTP_TIMESTAMP, DT_EARLIEST_TIME_TO_JOIN, DT_REPAIR_END_TIME, TSRAP,
     ACT_RCC_FILL, ACT_RCC_FILL_AT_JOIN, ER_HOLDOFF_TIME, ACTUAL_FASTFILL]"

definition ppdd_value :: "bool \<Rightarrow> ppdd_tlv \<Rightarrow> u8 list \<Rightarrow> u8 \<Rightarrow> u8 list" where
  "ppdd_value little tlv tsrap t =
     (if t = START_SEQ_NUMBER then htonl (tlv_start_seq_number tlv)
      else if t = START_RTP_TIMESTAMP then host_bytes little (tlv_start_rtp_time tlv)
      else if t = DT_EARLIEST_TIME_TO_JOIN then htonl (tlv_dt_earliest_join tlv)
      else if t = DT_REPAIR_END_TIME then htonl (tlv_dt_repair_end tlv)
      else if t = TSRAP then tsrap
      else if t = ACT_RCC_FILL then htonl (tlv_act_rcc_fill tlv)
      else if t = ACT_RCC_FILL_AT_JOIN then htonl (tlv_act_rcc_fill_at_join tlv)
      else if t = ER_HOLDOFF_TIME then htonl (tlv_er_holdoff_time tlv)
      else if t = ACTUAL_FASTFILL then htonl (tlv_actual_fastfill tlv)
      else [])"

definition ppdd_tlv_encode_allocate :: "bool \<Rightarrow> bool \<Rightarrow> ppdd_tlv \<Rightarrow> u8 list \<Rightarrow> u16 \<Rightarrow> u8 list option outcome" where
  "ppdd_tlv_encode_allocate mem little tlv tsrap tsrap_len =
     tlv_encode mem (\<lambda>t. if t = TSRAP then unat tsrap_len else nat (rcc_tl_len t)) (ppdd_value little tlv tsrap) ppdd_types"

definition plii_types :: "u8 list" where
  "plii_types = [MIN_RCC_FILL, MAX_RCC_FILL, DO_FASTFILL, MAXIMUM_RECV_BW, MAXIMUM_FASTFILL_TIME]"

definition plii_value :: "plii_tlv \<Rightarrow> u8 \<Rightarrow> u8 list" where
  "plii_value tlv t =
     (if t = MIN_RCC_FILL then htonl (pl_min_rcc_fill tlv)
      else if t = MAX_RCC_FILL then htonl (pl_max_rcc_fill tlv)
      else if t = DO_FASTFILL then htonl (pl_do_fastfill tlv)
      else if t = MAXIMUM_RECV_BW then htonl (pl_maximum_recv_bw tlv)
      else if t = MAXIMUM_FASTFILL_TIME then htonl (pl_maximum_fastfill_time tlv)
      else [])"

definition plii_tlv_encode_allocate :: "bool \<Rightarrow> plii_tlv \<Rightarrow> u8 list option outcome" where
  "plii_tlv_encode_allocate mem tlv = tlv_encode mem (\<lambda>t. nat (rcc_tl_len t)) (plii_value tlv) plii_types"

definition ncsi_types :: "u8 list" where
  "ncsi_types = [FIRST_MCAST_PKT_SEQ_NUM, FIRST_MCAST_PKT_RECV_TIME]"

definition ncsi_value :: "ncsi_tlv \<Rightarrow> u8 \<Rightarrow> u8 list" where
  "ncsi_value tlv t =
     (if t = FIRST_MCAST_PKT_SEQ_NUM then htonl (nc_first_mcast_seq_number tlv)
      else if t = FIRST_MCAST_PKT_RECV_TIME then htonl (nc_first_mcast_recv_time tlv)
      else [])"

definition ncsi_tlv_encode_allocate :: "bool \<Rightarrow> ncsi_tlv \<Rightarrow> u8 list option outcome" where
  "ncsi_tlv_encode_allocate mem tlv = tlv_encode mem (\<lambda>t. nat (rcc_tl_len t)) (ncsi_value tlv) ncsi_types"

definition erri_types :: "u8 list" where
  "erri_types = [MAXIMUM_RECV_BW]"

definition erri_value :: "erri_tlv \<Rightarrow> u8 \<Rightarrow> u8 list" where
  "erri_value tlv t = (if t = MAXIMUM_RECV_BW then htonl (er_maximum_recv_bw tlv) else [])"

definition erri_tlv_encode_allocate :: "bool \<Rightarrow> erri_tlv \<Rightarrow> u8 list option outcome" where
  "erri_tlv_encode_allocate mem tlv = tlv_encode mem (\<lambda>t. nat (rcc_tl_len t)) (erri_value tlv) erri_types"

subsection \<open>Decoding\<close>

text \<open>The loop that the four functions share, over the octets that are left. What they do with an item of a
  known type, the check of its length first, is the argument \<open>item\<close>.\<close>

function tlv_loop :: "(u8 \<Rightarrow> u8 list \<Rightarrow> 's \<Rightarrow> 's option) \<Rightarrow> u8 list \<Rightarrow> 's \<Rightarrow> 's option" where
  "tlv_loop item [] s = Some s"
| "tlv_loop item (t # rest) s =
     (if t = PADDING then tlv_loop item rest s
      else if length rest < LENGTH_FIELD_LEN then None
      else let len = unat (ntohs rest); body = drop LENGTH_FIELD_LEN rest
           in if length body < len then None
              else if MAX_RCC_TLV_TYPE \<le> t then tlv_loop item (drop len body) s
              else case item t (take len body) s of
                     None \<Rightarrow> None
                   | Some s1 \<Rightarrow> tlv_loop item (drop len body) s1)"
  by pat_completeness auto

termination by (relation "measure (\<lambda>(_, bs, _). length bs)") auto

text \<open>The local variables of the decoder of PPDD: the octets of the eight values, the structure that the
  last item of type TSRAP has allocated, and the number of structures that are allocated.\<close>

record ppdd_vars =
  pv_valid_type_seen :: bool
  pv_start_seq_number :: "u8 list"
  pv_start_rtp_time :: "u8 list"
  pv_dt_earliest_join :: "u8 list"
  pv_dt_repair_end :: "u8 list"
  pv_act_rcc_fill :: "u8 list"
  pv_act_rcc_fill_at_join :: "u8 list"
  pv_er_holdoff_time :: "u8 list"
  pv_actual_fastfill :: "u8 list"
  pv_tlv :: "u8 list option"
  pv_allocs :: nat

abbreviation word_zero :: "u8 list" where "word_zero \<equiv> [0, 0, 0, 0]"

definition ppdd_vars_init :: ppdd_vars where
  "ppdd_vars_init = \<lparr>pv_valid_type_seen = False, pv_start_seq_number = word_zero, pv_start_rtp_time = word_zero,
     pv_dt_earliest_join = word_zero, pv_dt_repair_end = word_zero, pv_act_rcc_fill = word_zero,
     pv_act_rcc_fill_at_join = word_zero, pv_er_holdoff_time = word_zero, pv_actual_fastfill = word_zero,
     pv_tlv = None, pv_allocs = 0\<rparr>"

definition ppdd_item :: "bool \<Rightarrow> u8 \<Rightarrow> u8 list \<Rightarrow> ppdd_vars \<Rightarrow> ppdd_vars option" where
  "ppdd_item mem t val s =
     (let s1 = s\<lparr>pv_valid_type_seen := True\<rparr>
      in if t \<noteq> TSRAP \<and> rcc_tl_len t < int (length val) then None
         else if t = START_SEQ_NUMBER then Some (s1\<lparr>pv_start_seq_number := memcpy_to (pv_start_seq_number s) val\<rparr>)
         else if t = START_RTP_TIMESTAMP then Some (s1\<lparr>pv_start_rtp_time := memcpy_to (pv_start_rtp_time s) val\<rparr>)
         else if t = DT_EARLIEST_TIME_TO_JOIN then Some (s1\<lparr>pv_dt_earliest_join := memcpy_to (pv_dt_earliest_join s) val\<rparr>)
         else if t = DT_REPAIR_END_TIME then Some (s1\<lparr>pv_dt_repair_end := memcpy_to (pv_dt_repair_end s) val\<rparr>)
         else if t = TSRAP then (if mem then Some (s1\<lparr>pv_tlv := Some val, pv_allocs := pv_allocs s + 1\<rparr>) else None)
         else if t = ACT_RCC_FILL then Some (s1\<lparr>pv_act_rcc_fill := memcpy_to (pv_act_rcc_fill s) val\<rparr>)
         else if t = ACT_RCC_FILL_AT_JOIN then Some (s1\<lparr>pv_act_rcc_fill_at_join := memcpy_to (pv_act_rcc_fill_at_join s) val\<rparr>)
         else if t = ER_HOLDOFF_TIME then Some (s1\<lparr>pv_er_holdoff_time := memcpy_to (pv_er_holdoff_time s) val\<rparr>)
         else if t = ACTUAL_FASTFILL then Some (s1\<lparr>pv_actual_fastfill := memcpy_to (pv_actual_fastfill s) val\<rparr>)
         else Some s)"

definition ppdd_result :: "ppdd_vars \<Rightarrow> ppdd_msg" where
  "ppdd_result s = \<lparr>tlv_start_seq_number = ntohl (pv_start_seq_number s), tlv_start_rtp_time = ntohl (pv_start_rtp_time s),
     tlv_dt_earliest_join = ntohl (pv_dt_earliest_join s), tlv_dt_repair_end = ntohl (pv_dt_repair_end s),
     tlv_act_rcc_fill = ntohl (pv_act_rcc_fill s), tlv_act_rcc_fill_at_join = ntohl (pv_act_rcc_fill_at_join s),
     tlv_er_holdoff_time = ntohl (pv_er_holdoff_time s), tlv_actual_fastfill = ntohl (pv_actual_fastfill s),
     tlv_tsrap = (case pv_tlv s of None \<Rightarrow> [] | Some bs \<Rightarrow> bs)\<rparr>"

definition ppdd_tlv_decode_allocate :: "bool \<Rightarrow> u8 list \<Rightarrow> u16 \<Rightarrow> ppdd_msg option" where
  "ppdd_tlv_decode_allocate mem data data_len =
     (if data_len = 0 then None
      else case tlv_loop (ppdd_item mem) (take (unat data_len) data) ppdd_vars_init of
             None \<Rightarrow> None
           | Some s \<Rightarrow> if pv_valid_type_seen s \<and> (pv_tlv s \<noteq> None \<or> mem) then Some (ppdd_result s) else None)"

text \<open>The three messages of the client. A type that does not belong to the message is reported and skipped.\<close>

record plii_vars =
  lv_valid_type_seen :: bool
  lv_min_rcc_fill :: "u8 list"
  lv_max_rcc_fill :: "u8 list"
  lv_do_fastfill :: "u8 list"
  lv_maximum_recv_bw :: "u8 list"
  lv_maximum_fastfill_time :: "u8 list"

definition plii_item :: "u8 \<Rightarrow> u8 list \<Rightarrow> plii_vars \<Rightarrow> plii_vars option" where
  "plii_item t val s =
     (let s1 = s\<lparr>lv_valid_type_seen := True\<rparr>
      in if rcc_tl_len t < int (length val) then None
         else if t = MIN_RCC_FILL then Some (s1\<lparr>lv_min_rcc_fill := memcpy_to (lv_min_rcc_fill s) val\<rparr>)
         else if t = MAX_RCC_FILL then Some (s1\<lparr>lv_max_rcc_fill := memcpy_to (lv_max_rcc_fill s) val\<rparr>)
         else if t = DO_FASTFILL then Some (s1\<lparr>lv_do_fastfill := memcpy_to (lv_do_fastfill s) val\<rparr>)
         else if t = MAXIMUM_RECV_BW then Some (s1\<lparr>lv_maximum_recv_bw := memcpy_to (lv_maximum_recv_bw s) val\<rparr>)
         else if t = MAXIMUM_FASTFILL_TIME
         then Some (s1\<lparr>lv_maximum_fastfill_time := memcpy_to (lv_maximum_fastfill_time s) val\<rparr>)
         else Some s)"

definition plii_vars_init :: plii_vars where
  "plii_vars_init = \<lparr>lv_valid_type_seen = False, lv_min_rcc_fill = word_zero, lv_max_rcc_fill = word_zero,
     lv_do_fastfill = word_zero, lv_maximum_recv_bw = word_zero, lv_maximum_fastfill_time = word_zero\<rparr>"

definition plii_result :: "plii_vars \<Rightarrow> plii_tlv" where
  "plii_result s = \<lparr>pl_min_rcc_fill = ntohl (lv_min_rcc_fill s), pl_max_rcc_fill = ntohl (lv_max_rcc_fill s),
     pl_do_fastfill = ntohl (lv_do_fastfill s), pl_maximum_recv_bw = ntohl (lv_maximum_recv_bw s),
     pl_maximum_fastfill_time = ntohl (lv_maximum_fastfill_time s)\<rparr>"

definition plii_tlv_decode_allocate :: "bool \<Rightarrow> u8 list \<Rightarrow> u16 \<Rightarrow> plii_tlv option" where
  "plii_tlv_decode_allocate mem data data_len =
     (if data_len = 0 then None
      else case tlv_loop plii_item (take (unat data_len) data) plii_vars_init of
             None \<Rightarrow> None
           | Some s \<Rightarrow> if lv_valid_type_seen s \<and> mem then Some (plii_result s) else None)"

record ncsi_vars =
  nv_valid_type_seen :: bool
  nv_first_mcast_seq_number :: "u8 list"
  nv_first_mcast_recv_time :: "u8 list"

definition ncsi_item :: "u8 \<Rightarrow> u8 list \<Rightarrow> ncsi_vars \<Rightarrow> ncsi_vars option" where
  "ncsi_item t val s =
     (let s1 = s\<lparr>nv_valid_type_seen := True\<rparr>
      in if rcc_tl_len t < int (length val) then None
         else if t = FIRST_MCAST_PKT_SEQ_NUM
         then Some (s1\<lparr>nv_first_mcast_seq_number := memcpy_to (nv_first_mcast_seq_number s) val\<rparr>)
         else if t = FIRST_MCAST_PKT_RECV_TIME
         then Some (s1\<lparr>nv_first_mcast_recv_time := memcpy_to (nv_first_mcast_recv_time s) val\<rparr>)
         else Some s)"

definition ncsi_vars_init :: ncsi_vars where
  "ncsi_vars_init = \<lparr>nv_valid_type_seen = False, nv_first_mcast_seq_number = word_zero, nv_first_mcast_recv_time = word_zero\<rparr>"

definition ncsi_result :: "ncsi_vars \<Rightarrow> ncsi_tlv" where
  "ncsi_result s = \<lparr>nc_first_mcast_seq_number = ntohl (nv_first_mcast_seq_number s),
     nc_first_mcast_recv_time = ntohl (nv_first_mcast_recv_time s)\<rparr>"

definition ncsi_tlv_decode_allocate :: "bool \<Rightarrow> u8 list \<Rightarrow> u16 \<Rightarrow> ncsi_tlv option" where
  "ncsi_tlv_decode_allocate mem data data_len =
     (if data_len = 0 then None
      else case tlv_loop ncsi_item (take (unat data_len) data) ncsi_vars_init of
             None \<Rightarrow> None
           | Some s \<Rightarrow> if nv_valid_type_seen s \<and> mem then Some (ncsi_result s) else None)"

record erri_vars =
  ev_valid_type_seen :: bool
  ev_maximum_recv_bw :: "u8 list"

definition erri_item :: "u8 \<Rightarrow> u8 list \<Rightarrow> erri_vars \<Rightarrow> erri_vars option" where
  "erri_item t val s =
     (if rcc_tl_len t < int (length val) then None
      else if t = MAXIMUM_RECV_BW
      then Some (s\<lparr>ev_valid_type_seen := True, ev_maximum_recv_bw := memcpy_to (ev_maximum_recv_bw s) val\<rparr>)
      else Some s)"

definition erri_vars_init :: erri_vars where
  "erri_vars_init = \<lparr>ev_valid_type_seen = False, ev_maximum_recv_bw = word_zero\<rparr>"

definition erri_tlv_decode_allocate :: "bool \<Rightarrow> u8 list \<Rightarrow> u16 \<Rightarrow> erri_tlv option" where
  "erri_tlv_decode_allocate mem data data_len =
     (if data_len = 0 then None
      else case tlv_loop erri_item (take (unat data_len) data) erri_vars_init of
             None \<Rightarrow> None
           | Some s \<Rightarrow>
               if ev_valid_type_seen s \<and> mem then Some \<lparr>er_maximum_recv_bw = ntohl (ev_maximum_recv_bw s)\<rparr> else None)"

subsection \<open>The loop on encoded items\<close>

lemma tlv_loop_padding [simp]: "tlv_loop item (replicate n PADDING) s = Some s"
  by (induction n) simp_all

lemma tlv_loop_item:
  assumes "t \<noteq> PADDING" "length val = l" "l < 2 ^ 16"
  shows "tlv_loop item (tlv_item t l val @ bs) s =
    (if MAX_RCC_TLV_TYPE \<le> t then tlv_loop item bs s
     else case item t val s of None \<Rightarrow> None | Some s1 \<Rightarrow> tlv_loop item bs s1)"
proof -
  have "unat (of_nat l :: u16) = l" using assms(3) by (simp add: unat_of_nat_small)
  moreover have "drop l (val @ bs) = bs" "take l (val @ bs) = val" using assms(2) by simp_all
  ultimately show ?thesis using assms(1,2) by (simp add: tlv_item_def LENGTH_FIELD_LEN_def Let_def split: option.split)
qed

lemma tlv_items_sizes: "snd (tlv_items len val ts) = tlv_sizes len ts"
  by (induction ts) (simp_all add: split_beta Let_def)

lemma tlv_encode_done:
  "tlv_encode True len val ts = Done (Some (fst (tlv_items len val ts) @ replicate (tlv_padding (tlv_sizes len ts)) PADDING))"
  by (simp add: tlv_encode_def Let_def split_beta tlv_items_sizes)

lemma length_tlv_items:
  "(\<And>t. t \<in> set ts \<Longrightarrow> length (val t) = len t) \<Longrightarrow> length (fst (tlv_items len val ts)) = tlv_sizes len ts"
  by (induction ts) (auto simp: split_beta Let_def tlv_item_def)

text \<open>A message fills whole words of 32 bits.\<close>

lemma tlv_padding_words: "4 dvd n + tlv_padding n" "0 < tlv_padding n" "tlv_padding n \<le> 4"
proof -
  have "n + (4 - n mod 4) = 4 * (n div 4 + 1)" using div_mult_mod_eq [of n 4] by presburger
  then show "4 dvd n + tlv_padding n" by (metis dvd_triv_left tlv_padding_def)
qed (simp_all add: tlv_padding_def)

text \<open>The decoders see the items of a message one after the other.\<close>

lemma tlv_loop_items:
  assumes "\<And>t. t \<in> set ts \<Longrightarrow> t \<noteq> PADDING \<and> t < MAX_RCC_TLV_TYPE \<and> length (val t) = len t \<and> len t < 2 ^ 16"
  shows "tlv_loop item (fst (tlv_items len val ts) @ replicate n PADDING) s =
    fold (\<lambda>t r. case r of None \<Rightarrow> None | Some x \<Rightarrow> item t (val t) x) (filter (\<lambda>t. \<not> (t = TSRAP \<and> len t = 0)) ts) (Some s)"
  using assms
proof (induction ts arbitrary: s)
  case (Cons t ts)
  have none: "fold (\<lambda>t r. case r of None \<Rightarrow> None | Some x \<Rightarrow> item t (val t) x) us None = None" for us
    by (induction us) simp_all
  note IH = Cons.IH [OF Cons.prems [OF list.set_intros(2)]]
  have "\<not> MAX_RCC_TLV_TYPE \<le> t" "t \<noteq> PADDING" "length (val t) = len t" "len t < 2 ^ 16" using Cons.prems [of t] by auto
  note step = tlv_loop_item [OF this(2-4), of item _ s, unfolded if_not_P [OF this(1)]]
  show ?case
    using step IH none by (auto simp: split_beta Let_def split: option.split)
qed simp

text \<open>What follows after items that do not end is not read: a message that is cut inside an item is refused.\<close>

definition tlv_concat :: "(u8 \<times> u8 list) list \<Rightarrow> u8 list" where
  "tlv_concat xs = concat (map (\<lambda>(t, v). tlv_item t (length v) v) xs)"

definition tlv_well :: "(u8 \<times> u8 list) list \<Rightarrow> bool" where
  "tlv_well xs = list_all (\<lambda>(t, v). t \<noteq> PADDING \<and> length v < 2 ^ 16) xs"

lemma tlv_loop_concat:
  assumes "tlv_well xs"
  shows "tlv_loop item (tlv_concat xs @ bs) s =
    (case fold (\<lambda>(t, v) r. case r of None \<Rightarrow> None | Some x \<Rightarrow> item t v x) (filter (\<lambda>(t, v). t < MAX_RCC_TLV_TYPE) xs) (Some s) of
       None \<Rightarrow> None | Some x \<Rightarrow> tlv_loop item bs x)"
  using assms
proof (induction xs arbitrary: s)
  case Nil
  then show ?case by (simp add: tlv_concat_def)
next
  case (Cons x xs)
  obtain t v where x: "x = (t, v)" by (cases x)
  have none: "fold (\<lambda>(t, v) r. case r of None \<Rightarrow> None | Some x \<Rightarrow> item t v x) us None = None" for us
    by (induction us) (simp_all add: split_beta)
  have "t \<noteq> PADDING" "length v < 2 ^ 16" "tlv_well xs" using Cons.prems x by (simp_all add: tlv_well_def)
  then show ?case
    using tlv_loop_item [of t v "length v" item "tlv_concat xs @ bs" s] Cons.IH none x
    by (auto simp: tlv_concat_def not_le split: option.splits)
qed

lemma ppdd_skips_unknown:
  assumes "tlv_well xs"
  shows "tlv_loop item (tlv_concat xs) s = tlv_loop item (tlv_concat (filter (\<lambda>(t, v). t < MAX_RCC_TLV_TYPE) xs)) s"
proof -
  have "tlv_well (filter (\<lambda>(t, v). t < MAX_RCC_TLV_TYPE) xs)" using assms by (auto simp: tlv_well_def list_all_iff)
  then show ?thesis
    using tlv_loop_concat [OF assms, of item "[]" s] tlv_loop_concat [of "filter (\<lambda>(t, v). t < MAX_RCC_TLV_TYPE) xs" item "[]" s] by simp
qed

lemma tlv_loop_cut:
  assumes "tlv_well xs" "t \<noteq> PADDING" "length rest < 2 \<or> length rest - 2 < unat (ntohs rest)"
  shows "tlv_loop item (tlv_concat xs @ t # rest) s = None"
  using assms(2,3) by (auto simp: tlv_loop_concat [OF assms(1)] LENGTH_FIELD_LEN_def Let_def split: option.split)

subsection \<open>What is encoded is decoded\<close>

lemma take_whole: "length data < 2 ^ 16 \<Longrightarrow> take (unat (of_nat (length data) :: u16)) data = data"
  by (simp add: unat_of_nat_small)

lemma of_nat_16_nonzero: "0 < n \<Longrightarrow> n < 2 ^ 16 \<Longrightarrow> (of_nat n :: u16) \<noteq> 0"
  using unat_of_nat_small [of n, where 'a = 16] by auto

lemma ppdd_loop:
  fixes tsrap_len :: u16
  assumes "unat tsrap_len = length tsrap"
  shows "tlv_loop (ppdd_item True) (fst (tlv_items (\<lambda>t. if t = TSRAP then unat tsrap_len else nat (rcc_tl_len t))
      (ppdd_value little tlv tsrap) ppdd_types) @ replicate n PADDING) ppdd_vars_init =
    Some \<lparr>pv_valid_type_seen = True, pv_start_seq_number = htonl (tlv_start_seq_number tlv),
      pv_start_rtp_time = host_bytes little (tlv_start_rtp_time tlv), pv_dt_earliest_join = htonl (tlv_dt_earliest_join tlv),
      pv_dt_repair_end = htonl (tlv_dt_repair_end tlv), pv_act_rcc_fill = htonl (tlv_act_rcc_fill tlv),
      pv_act_rcc_fill_at_join = htonl (tlv_act_rcc_fill_at_join tlv), pv_er_holdoff_time = htonl (tlv_er_holdoff_time tlv),
      pv_actual_fastfill = htonl (tlv_actual_fastfill tlv), pv_tlv = (if tsrap = [] then None else Some tsrap),
      pv_allocs = (if tsrap = [] then 0 else 1)\<rparr>"
proof -
  have "length tsrap < 2 ^ 16" using assms unat_less_pow [of tsrap_len] by simp
  then show ?thesis
    using assms
    by (subst tlv_loop_items)
      (auto simp: ppdd_types_def ppdd_value_def rcc_tl_len_def rcc_tl_def ppdd_item_def ppdd_vars_init_def tlv_types)
qed

definition ppdd_image :: "ppdd_tlv \<Rightarrow> u32 \<Rightarrow> u8 list \<Rightarrow> ppdd_msg" where
  "ppdd_image tlv rtp tsrap = ppdd_tlv.extend (tlv\<lparr>tlv_start_rtp_time := rtp\<rparr>) \<lparr>tlv_tsrap = tsrap\<rparr>"

lemma ppdd_roundtrip:
  fixes tsrap_len :: u16
  assumes "unat tsrap_len = length tsrap" "length tsrap \<le> 65400"
    and "host_bytes little (tlv_start_rtp_time tlv) = htonl rtp"
  obtains data where "ppdd_tlv_encode_allocate True little tlv tsrap tsrap_len = Done (Some data)"
    and "0 < length data" "length data < 2 ^ 16" "4 dvd length data"
    and "ppdd_tlv_decode_allocate True data (of_nat (length data)) = Some (ppdd_image tlv rtp tsrap)"
proof -
  let ?len = "\<lambda>t. if t = TSRAP then unat tsrap_len else nat (rcc_tl_len t)" and ?val = "ppdd_value little tlv tsrap"
  let ?n = "tlv_sizes ?len ppdd_types"
  let ?data = "fst (tlv_items ?len ?val ppdd_types) @ replicate (tlv_padding ?n) PADDING"
  have enc: "ppdd_tlv_encode_allocate True little tlv tsrap tsrap_len = Done (Some ?data)"
    by (simp only: ppdd_tlv_encode_allocate_def tlv_encode_done)
  have "length (?val t) = ?len t" if "t \<in> set ppdd_types" for t
    using that assms(1) by (auto simp: ppdd_types_def ppdd_value_def rcc_tl_len_def rcc_tl_def tlv_types)
  then have n: "length ?data = ?n + tlv_padding ?n" by (simp add: length_tlv_items)
  have "?n \<le> 8 * 7 + (3 + length tsrap)" using assms(1) by (simp add: ppdd_types_def rcc_tl_len_def rcc_tl_def tlv_types)
  then have lt: "length ?data < 2 ^ 16" using n tlv_padding_words(3) [of ?n] assms(2) by simp
  have pos: "0 < length ?data" "4 dvd length ?data" using n tlv_padding_words(1,2) [of ?n] by simp_all
  have "(of_nat (length ?data) :: u16) \<noteq> 0" by (rule of_nat_16_nonzero [OF pos(1) lt])
  then have "ppdd_tlv_decode_allocate True ?data (of_nat (length ?data)) = Some (ppdd_image tlv rtp tsrap)"
    unfolding ppdd_tlv_decode_allocate_def take_whole [OF lt] ppdd_loop [OF assms(1)]
    using assms(3) by (simp add: ppdd_result_def ppdd_image_def ppdd_tlv.defs)
  then show ?thesis using that enc lt pos by blast
qed

text \<open>The messages of the client have values of four octets only.\<close>

lemma plain_roundtrip:
  assumes ty: "\<And>t. t \<in> set ts \<Longrightarrow> t \<noteq> PADDING \<and> t < MAX_RCC_TLV_TYPE \<and> t \<noteq> TSRAP \<and> rcc_tl_len t = 4 \<and> length (val t) = 4"
    and l: "length ts < 100"
  obtains data where "tlv_encode True (\<lambda>t. nat (rcc_tl_len t)) val ts = Done (Some data)" "4 dvd length data"
    "(of_nat (length data) :: u16) \<noteq> 0" "tlv_loop item (take (unat (of_nat (length data) :: u16)) data) s =
      fold (\<lambda>t r. case r of None \<Rightarrow> None | Some x \<Rightarrow> item t (val t) x) ts (Some s)"
proof -
  let ?len = "\<lambda>t. nat (rcc_tl_len t)"
  let ?n = "tlv_sizes ?len ts"
  let ?data = "fst (tlv_items ?len val ts) @ replicate (tlv_padding ?n) PADDING"
  have n: "length ?data = ?n + tlv_padding ?n" using ty by (simp add: length_tlv_items)
  have "?n = 7 * length ts" using ty by (induction ts) auto
  then have lt: "length ?data < 2 ^ 16" using n tlv_padding_words(3) [of ?n] l by simp
  have pos: "0 < length ?data" "4 dvd length ?data" using n tlv_padding_words(1,2) [of ?n] by simp_all
  have "filter (\<lambda>t. \<not> (t = TSRAP \<and> ?len t = 0)) ts = ts" using ty by (simp add: filter_id_conv)
  then have "tlv_loop item ?data s = fold (\<lambda>t r. case r of None \<Rightarrow> None | Some x \<Rightarrow> item t (val t) x) ts (Some s)"
    using ty by (subst tlv_loop_items) auto
  then show ?thesis
    using that [of ?data] pos(2) of_nat_16_nonzero [OF pos(1) lt] take_whole [OF lt] tlv_encode_done [of ?len val ts] by simp
qed

lemmas tlv_table = rcc_tl_len_def rcc_tl_def tlv_types

lemma plii_roundtrip:
  "\<exists>data. plii_tlv_encode_allocate True p = Done (Some data) \<and> 4 dvd length data \<and>
     plii_tlv_decode_allocate True data (of_nat (length data)) = Some p"
  by (rule plain_roundtrip [of plii_types "plii_value p" plii_item plii_vars_init])
    (auto simp: plii_tlv_encode_allocate_def plii_tlv_decode_allocate_def plii_types_def plii_item_def plii_value_def
      plii_vars_init_def plii_result_def tlv_table)

lemma ncsi_roundtrip:
  "\<exists>data. ncsi_tlv_encode_allocate True n = Done (Some data) \<and> 4 dvd length data \<and>
     ncsi_tlv_decode_allocate True data (of_nat (length data)) = Some n"
  by (rule plain_roundtrip [of ncsi_types "ncsi_value n" ncsi_item ncsi_vars_init])
    (auto simp: ncsi_tlv_encode_allocate_def ncsi_tlv_decode_allocate_def ncsi_types_def ncsi_item_def ncsi_value_def
      ncsi_vars_init_def ncsi_result_def tlv_table)

lemma erri_roundtrip:
  "\<exists>data. erri_tlv_encode_allocate True e = Done (Some data) \<and> 4 dvd length data \<and>
     erri_tlv_decode_allocate True data (of_nat (length data)) = Some e"
  by (rule plain_roundtrip [of erri_types "erri_value e" erri_item erri_vars_init])
    (auto simp: erri_tlv_encode_allocate_def erri_tlv_decode_allocate_def erri_types_def erri_item_def erri_value_def
      erri_vars_init_def tlv_table)

text \<open>C35: Every message of the client survives: what the decoder of PLII, NCSI or ERRI reads from the encoded
  message is what was encoded, for all values. The message fills whole words of 32 bits.\<close>

theorem rcc_tlv_roundtrip:
  "(\<exists>data. plii_tlv_encode_allocate True p = Done (Some data) \<and> 4 dvd length data \<and>
     plii_tlv_decode_allocate True data (of_nat (length data)) = Some p) \<and>
   (\<exists>data. ncsi_tlv_encode_allocate True n = Done (Some data) \<and> 4 dvd length data \<and>
     ncsi_tlv_decode_allocate True data (of_nat (length data)) = Some n) \<and>
   (\<exists>data. erri_tlv_encode_allocate True e = Done (Some data) \<and> 4 dvd length data \<and>
     erri_tlv_decode_allocate True data (of_nat (length data)) = Some e)"
  using plii_roundtrip ncsi_roundtrip erri_roundtrip by blast
end
