(* ===== verification/Rtp_Header.thy ===== *)
theory Rtp_Header
  imports Net_Bytes
begin

text \<open>
  The header of RTP packets, \<^verbatim>\<open>rtp/rtp.h\<close> and the validation of \<^verbatim>\<open>rtp/rtp_header.c\<close>. A packet is the list of
  octets from its header to the end of the memory it lies in; the macros read the first two octets of it as
  the field \<^verbatim>\<open>combined_bits\<close>.
\<close>

subsection \<open>Fields\<close>

definition MINRTPHEADERBYTES :: u32 where "MINRTPHEADERBYTES = 12"
definition MINRTPEXTHDRBYTES :: u32 where "MINRTPEXTHDRBYTES = 4"
definition RTPVERSION :: u16 where "RTPVERSION = 2"

text \<open>Two octets of a buffer in network order.\<close>

definition get_short :: "u8 list \<Rightarrow> nat \<Rightarrow> u16 outcome" where
  "get_short buf off = (if off + 2 \<le> length buf then Done (ntohs (drop off buf)) else Bad_access)"

definition RTP_VERSION :: "u16 \<Rightarrow> u16" where
  "RTP_VERSION bits = drop_bit 14 (bits AND 0xc000)"
definition RTP_EXT :: "u16 \<Rightarrow> u16" where
  "RTP_EXT bits = drop_bit 12 (bits AND 0x1000)"
definition RTP_CSRCC :: "u16 \<Rightarrow> u16" where
  "RTP_CSRCC bits = drop_bit 8 (bits AND 0x0f00) AND 0x000f"
definition RTP_PAYLOAD :: "u16 \<Rightarrow> u16" where
  "RTP_PAYLOAD bits = bits AND 0x007f"
definition SET_RTP_PAYLOAD :: "u16 \<Rightarrow> u16 \<Rightarrow> u16" where
  "SET_RTP_PAYLOAD bits v = (bits AND 0xFF80) OR (v AND 0x7F)"
definition SET_RTP_VERSION :: "u16 \<Rightarrow> u16 \<Rightarrow> u16" where
  "SET_RTP_VERSION bits v = (bits AND 0x3FFF) OR push_bit 14 (v AND 0x03)"

definition RTP_CSRC_LEN :: "u16 \<Rightarrow> u32" where
  "RTP_CSRC_LEN bits = ucast (RTP_CSRCC bits) * 4"

definition RTPEXTHDRBYTES :: "u16 \<Rightarrow> u32" where
  "RTPEXTHDRBYTES len = (ucast len + 1) * 4"

definition RTPHEADERBYTES :: "u8 list \<Rightarrow> u32 outcome" where
  "RTPHEADERBYTES rtp =
     bind_out (get_short rtp 0) (\<lambda>bits.
       let bytes = MINRTPHEADERBYTES + RTP_CSRC_LEN bits
       in if RTP_EXT bits \<noteq> 0
          then bind_out (get_short rtp (unat bytes + 2)) (\<lambda>len. Done (bytes + RTPEXTHDRBYTES len))
          else Done bytes)"

subsection \<open>Validation\<close>

datatype rtp_hdr_status =
    RTP_HDR_OK | RTP_HDR_SEQSTART | RTP_HDR_SEQJUMP | RTP_HDR_SEQDUP | RTP_HDR_EXTENSION | RTP_HDR_SEQRESTART
  | RTP_HDR_RUNT | RTP_HDR_BADVER | RTP_HDR_BADLEN

record rtp_hdr_session =
  rs_runts :: u32
  rs_badver :: u32
  rs_badlen :: u32
  rs_seqjumps :: u32
  rs_initseq_count :: u32

definition rtp_hdr_session_zero :: rtp_hdr_session where
  "rtp_hdr_session_zero = \<lparr>rs_runts = 0, rs_badver = 0, rs_badlen = 0, rs_seqjumps = 0, rs_initseq_count = 0\<rparr>"

definition rtp_validate_hdr ::
  "rtp_hdr_session \<Rightarrow> u8 list \<Rightarrow> u16 \<Rightarrow> (rtp_hdr_status \<times> rtp_hdr_session) outcome" where
  "rtp_validate_hdr session buf len =
     (let minlen = MINRTPHEADERBYTES; badlen = session\<lparr>rs_badlen := rs_badlen session + 1\<rparr>
      in if ucast len < minlen then Done (RTP_HDR_RUNT, session\<lparr>rs_runts := rs_runts session + 1\<rparr>)
         else bind_out (get_short buf 0) (\<lambda>bits.
           if RTP_VERSION bits \<noteq> RTPVERSION then Done (RTP_HDR_BADVER, session\<lparr>rs_badver := rs_badver session + 1\<rparr>)
           else let minlen = minlen + RTP_CSRC_LEN bits
           in if ucast len < minlen then Done (RTP_HDR_BADLEN, badlen)
              else if RTP_EXT bits \<noteq> 0
              then (if ucast len < minlen + MINRTPEXTHDRBYTES then Done (RTP_HDR_BADLEN, badlen)
                    else bind_out (get_short buf (unat minlen + 2)) (\<lambda>ext.
                      if ucast len < minlen + RTPEXTHDRBYTES ext then Done (RTP_HDR_BADLEN, badlen)
                      else Done (RTP_HDR_EXTENSION, session)))
              else Done (RTP_HDR_OK, session)))"

definition rtp_hdr_ok :: "rtp_hdr_status \<Rightarrow> bool" where
  "rtp_hdr_ok status = (case status of
      RTP_HDR_OK \<Rightarrow> True | RTP_HDR_EXTENSION \<Rightarrow> True | RTP_HDR_SEQSTART \<Rightarrow> True | RTP_HDR_SEQRESTART \<Rightarrow> True
    | RTP_HDR_SEQJUMP \<Rightarrow> False | RTP_HDR_SEQDUP \<Rightarrow> False | RTP_HDR_RUNT \<Rightarrow> False | RTP_HDR_BADVER \<Rightarrow> False
    | RTP_HDR_BADLEN \<Rightarrow> False)"

datatype rtp_event = RTP_EVENT_NONE | RTP_EVENT_SEQSTART

definition rtp_hdr_event :: "rtp_hdr_status \<Rightarrow> rtp_event" where
  "rtp_hdr_event status = (if status = RTP_HDR_SEQSTART then RTP_EVENT_SEQSTART else RTP_EVENT_NONE)"

subsection \<open>Lengths\<close>

lemma csrc_len_bound: "unat (RTP_CSRC_LEN bits) \<le> 60"
proof -
  have m: "(0x000f :: u16) = mask 4" by (simp add: mask_eq_exp_minus_1)
  have "unat (RTP_CSRCC bits) = unat (drop_bit 8 (bits AND 0x0f00)) mod 2 ^ 4"
    unfolding RTP_CSRCC_def m by (rule unat_and_mask)
  then have b: "unat (RTP_CSRCC bits) < 16" by simp
  have "unat (ucast (RTP_CSRCC bits) * 4 :: u32) = unat (RTP_CSRCC bits) * 4"
    using b by (simp add: unat_word_ariths unat_ucast_16_32)
  then show ?thesis using b by (simp add: RTP_CSRC_LEN_def)
qed

lemma ext_len_eq: "unat (RTPEXTHDRBYTES len) = (unat len + 1) * 4"
  using unat_less_pow [of len] by (simp add: RTPEXTHDRBYTES_def unat_word_ariths unat_ucast_16_32)

lemma hdr_len_eq: "unat (MINRTPHEADERBYTES + RTP_CSRC_LEN bits) = 12 + unat (RTP_CSRC_LEN bits)"
  using csrc_len_bound [of bits] by (simp add: MINRTPHEADERBYTES_def unat_word_ariths)

lemma hdr_ext_eq:
  "unat (MINRTPHEADERBYTES + RTP_CSRC_LEN bits + MINRTPEXTHDRBYTES) = 16 + unat (RTP_CSRC_LEN bits)"
  "unat (MINRTPHEADERBYTES + RTP_CSRC_LEN bits + RTPEXTHDRBYTES l) = 12 + unat (RTP_CSRC_LEN bits) + (unat l + 1) * 4"
  using csrc_len_bound [of bits] unat_less_pow [of l] hdr_len_eq [of bits] ext_len_eq [of l]
  by (simp_all add: unat_word_ariths(1) [of "MINRTPHEADERBYTES + RTP_CSRC_LEN bits"] MINRTPEXTHDRBYTES_def)

lemma len_less: "(ucast (len :: u16) :: u32) < n \<longleftrightarrow> unat len < unat n"
  by (simp add: word_less_nat_alt unat_ucast_16_32)

text \<open>C37: the validation of an RTP header reads no octet behind the packet, and a packet that it accepts has
  the header inside: the length of the header, with its contributing sources and its extension, is then
  defined, at least twelve octets and no more than the packet.\<close>

theorem rtp_validate_hdr_safe:
  assumes "unat len \<le> length buf"
  shows "\<exists>status session'. rtp_validate_hdr session buf len = Done (status, session') \<and>
    (rtp_hdr_ok status \<longrightarrow> session' = session \<and>
      (\<exists>n. RTPHEADERBYTES buf = Done n \<and> 12 \<le> unat n \<and> unat n \<le> unat len))"
proof (cases "unat len < 12")
  case True
  then show ?thesis by (simp add: rtp_validate_hdr_def len_less MINRTPHEADERBYTES_def rtp_hdr_ok_def)
next
  case False
  then obtain bits where b: "get_short buf 0 = Done bits" using assms by (simp add: get_short_def)
  have len: "\<not> (ucast len :: u32) < MINRTPHEADERBYTES" using False by (simp add: len_less MINRTPHEADERBYTES_def)
  let ?n = "12 + unat (RTP_CSRC_LEN bits)"
  note l = len_less hdr_len_eq hdr_ext_eq
  show ?thesis
  proof (cases "RTP_VERSION bits = RTPVERSION \<and> ?n \<le> unat len \<and> RTP_EXT bits \<noteq> 0 \<and> ?n + 4 \<le> unat len")
    case True
    then have "get_short buf (?n + 2) = Done (ntohs (drop (?n + 2) buf))" using assms by (simp add: get_short_def)
    then show ?thesis
      using True b len by (auto simp: rtp_validate_hdr_def RTPHEADERBYTES_def Let_def l rtp_hdr_ok_def not_less)
  next
    case False
    then show ?thesis
      using b len by (auto simp: rtp_validate_hdr_def RTPHEADERBYTES_def Let_def l rtp_hdr_ok_def not_less not_le)
  qed
qed

theorem rtp_validate_hdr_safe_witness:
  "\<exists>status s'. rtp_validate_hdr rtp_hdr_session_zero (htons 0x8021 @ replicate 10 0) 12 = Done (status, s') \<and>
     (rtp_hdr_ok status \<longrightarrow> (\<exists>n. RTPHEADERBYTES (htons 0x8021 @ replicate 10 0) = Done n \<and> unat n \<le> 12))"
  using rtp_validate_hdr_safe [of 12 "htons 0x8021 @ replicate 10 0" rtp_hdr_session_zero] by auto

end
