(* ===== verification/Rtcp.thy ===== *)
theory Rtcp
  imports Rcc_Tlv Rtp_Header
begin

text \<open>
  The reception of a compound RTCP packet in the control plane, \<^verbatim>\<open>rtp/rtp_session.c\<close>, and of the APP message with
  the parameters of a rapid channel change in the repair session, \<^verbatim>\<open>eva/rtp_repair_recv.c\<close>.

  A packet is the list of its octets, and a position in it the list from there on. The handlers of the other
  message types, the table of members and what the session keeps are parameters. The statistics are recorded
  in the order of their updates.
\<close>

unbundle bit_operations_syntax

subsection \<open>Headers\<close>

definition SIZEOF_RTCPTYPE :: nat where "SIZEOF_RTCPTYPE = 8"
definition RTCP_SR :: u16 where "RTCP_SR = 200"
definition RTCP_RR :: u16 where "RTCP_RR = 201"
definition RTCP_SDES :: u16 where "RTCP_SDES = 202"
definition RTCP_BYE :: u16 where "RTCP_BYE = 203"
definition RTCP_APP :: u16 where "RTCP_APP = 204"
definition RTCP_PUBPORTS :: u16 where "RTCP_PUBPORTS = 209"
definition NOT_AN_RTCP_MSGTYPE :: u16 where "NOT_AN_RTCP_MSGTYPE = 0"
definition RTCP_SDES_CNAME :: u8 where "RTCP_SDES_CNAME = 1"

datatype rtcp_parse_status = RTCP_PARSE_OK | RTCP_PARSE_BADVER | RTCP_PARSE_RUNT | RTCP_PARSE_BADLEN | RTCP_PARSE_UNEXP

definition rtcp_get_type :: "u16 \<Rightarrow> u16" where "rtcp_get_type params = params AND 0xff"
definition rtcp_get_version :: "u16 \<Rightarrow> u16" where "rtcp_get_version params = drop_bit 14 params"
definition rtcp_get_count :: "u16 \<Rightarrow> u16" where "rtcp_get_count params = drop_bit 8 params AND 0x1f"
definition RTCP_MSGTYPE_OK :: "u16 \<Rightarrow> bool" where "RTCP_MSGTYPE_OK t \<longleftrightarrow> RTCP_SR \<le> t \<and> t \<le> RTCP_PUBPORTS"

text \<open>The fields of the header at a position: the parameters, the length in words less one, and the source.\<close>

definition rtcp_params :: "u8 list \<Rightarrow> u16" where "rtcp_params p = ntohs p"
definition rtcp_len :: "u8 list \<Rightarrow> u16" where "rtcp_len p = ntohs (drop 2 p)"
definition rtcp_ssrc :: "u8 list \<Rightarrow> u32" where "rtcp_ssrc p = ntohl (drop 4 p)"

text \<open>The length in octets, computed in the type int.\<close>

definition rtcp_bytelen :: "u8 list \<Rightarrow> nat" where
  "rtcp_bytelen p = (unat (rtcp_len p) + 1) * 4"

subsection \<open>The search for the name\<close>

function rtcp_find_pkttype :: "u8 list \<Rightarrow> u16 \<Rightarrow> u8 list option" where
  "rtcp_find_pkttype p pkttype =
     (if length p < SIZEOF_RTCPTYPE then None
      else if rtcp_get_type (rtcp_params p) \<noteq> pkttype then rtcp_find_pkttype (drop (rtcp_bytelen p) p) pkttype
      else Some p)"
  by pat_completeness auto

termination by (relation "measure (\<lambda>(p, _). length p)") (auto simp: rtcp_bytelen_def SIZEOF_RTCPTYPE_def)

declare rtcp_find_pkttype.simps [simp del]

text \<open>The items of a chunk from the offset \<open>i\<close> of the message: the name, a bad length, or the end of the items.
  The octet with the length of an item at the very end lies behind the message; whatever it is, the next item
  would start behind the end.\<close>

datatype sdes_scan = Sdes_cname "u8 list" | Sdes_bad | Sdes_end nat

function sdes_items :: "u8 list \<Rightarrow> bool \<Rightarrow> nat \<Rightarrow> sdes_scan" where
  "sdes_items m wanted i =
     (if length m \<le> i \<or> m ! i = 0 then Sdes_end i
      else let len = (if i + 1 < length m then unat (m ! (i + 1)) else 0); nxt = i + len + 2
           in if length m \<le> nxt then Sdes_bad
              else if wanted \<and> m ! i = RTCP_SDES_CNAME then Sdes_cname (take len (drop (i + 2) m))
              else sdes_items m wanted nxt)"
  by pat_completeness auto

termination by (relation "measure (\<lambda>(m, _, i). length m - i)") auto

declare sdes_items.simps [simp del]

fun sdes_chunks :: "nat \<Rightarrow> u8 list \<Rightarrow> u32 \<Rightarrow> nat \<Rightarrow> u8 list option" where
  "sdes_chunks 0 m ssrc c = None"
| "sdes_chunks (Suc count) m ssrc c =
     (if length m \<le> c + 4 then None
      else case sdes_items m (ntohl (drop c m) = ssrc) (c + 4) of
             Sdes_cname name \<Rightarrow> Some name
           | Sdes_bad \<Rightarrow> None
           | Sdes_end i \<Rightarrow> sdes_chunks count m ssrc (c + 4 * ((i - c) div 4 + 1)))"

definition rtcp_find_cname :: "u8 list \<Rightarrow> u32 \<Rightarrow> u8 list option" where
  "rtcp_find_cname pkt ssrc =
     (case rtcp_find_pkttype pkt RTCP_SDES of
        None \<Rightarrow> None
      | Some p \<Rightarrow>
          if length p < rtcp_bytelen p then None
          else sdes_chunks (unat (rtcp_get_count (rtcp_params p))) (take (rtcp_bytelen p) p) ssrc 4)"

subsection \<open>The compound packet\<close>

datatype rtcp_stat =
    Upd_msg u16 rtcp_parse_status
  | Upd_pkt u16 bool bool

text \<open>A handler gets a message up to its end and the count of its header, and gives a status.\<close>

type_synonym 'c rtcp_handler = "u8 list \<Rightarrow> u16 \<Rightarrow> 'c \<Rightarrow> (rtcp_parse_status \<times> 'c) outcome"

record 'c rtcp_run =
  rr_sess :: 'c
  rr_stats :: "rtcp_stat list"
  rr_parsed_ok :: bool
  rr_mask :: "u16 set"

definition rr_upd_msg :: "u16 \<Rightarrow> rtcp_parse_status \<Rightarrow> 'c rtcp_run \<Rightarrow> 'c rtcp_run" where
  "rr_upd_msg t s r = r\<lparr>rr_stats := rr_stats r @ [Upd_msg t s]\<rparr>"

definition rtcp_demux :: "(u16 \<Rightarrow> 'c rtcp_handler option) \<Rightarrow> u16 \<Rightarrow> 'c rtcp_handler" where
  "rtcp_demux handlers t frame count c =
     (if RTCP_MSGTYPE_OK t
      then case handlers t of None \<Rightarrow> Done (RTCP_PARSE_UNEXP, c) | Some f \<Rightarrow> f frame count c
      else Done (RTCP_PARSE_UNEXP, c))"

text \<open>The length of a message is kept in 16 bits.\<close>

definition rtcp_msg_len :: "u8 list \<Rightarrow> u16" where
  "rtcp_msg_len p = (rtcp_len p + 1) * 4"

text \<open>One round of the loop, with the octets that are left, or none after an error that ends the loop.\<close>

definition rtcp_round ::
  "(u16 \<Rightarrow> 'c rtcp_handler option) \<Rightarrow> u8 list \<Rightarrow> 'c rtcp_run \<Rightarrow> (u8 list option \<times> 'c rtcp_run) outcome" where
  "rtcp_round handlers p r =
     (let params = (if 2 \<le> length p then rtcp_params p else 0);
          msg_type = (if 2 \<le> length p then rtcp_get_type params else NOT_AN_RTCP_MSGTYPE);
          msg_len = unat (if 4 \<le> length p then rtcp_msg_len p else 4)
      in if length p < msg_len \<or> rtcp_get_version params \<noteq> RTPVERSION
         then Done (None, (rr_upd_msg msg_type RTCP_PARSE_RUNT r)\<lparr>rr_parsed_ok := False\<rparr>)
         else bind_out (rtcp_demux handlers msg_type (take msg_len p) (rtcp_get_count params) (rr_sess r)) (\<lambda>(status, c).
                let r1 = rr_upd_msg msg_type status (r\<lparr>rr_sess := c\<rparr>)
                in Done (Some (drop msg_len p),
                     if status \<noteq> RTCP_PARSE_OK then r1\<lparr>rr_parsed_ok := False\<rparr> else r1\<lparr>rr_mask := insert msg_type (rr_mask r1)\<rparr>)))"

fun rtcp_loop :: "nat \<Rightarrow> (u16 \<Rightarrow> 'c rtcp_handler option) \<Rightarrow> u8 list \<Rightarrow> 'c rtcp_run \<Rightarrow> 'c rtcp_run outcome" where
  "rtcp_loop 0 handlers p r = (if p = [] then Done r else Out_of_fuel)"
| "rtcp_loop (Suc k) handlers p r =
     (if p = [] then Done r
      else bind_out (rtcp_round handlers p r) (\<lambda>(rest, r1). case rest of None \<Rightarrow> Done r1 | Some p1 \<Rightarrow> rtcp_loop k handlers p1 r1))"

definition rtcp_finish :: "u16 \<Rightarrow> 'c rtcp_run \<Rightarrow> bool \<times> 'c rtcp_run" where
  "rtcp_finish len r = (rr_parsed_ok r, r\<lparr>rr_stats := rr_stats r @
     [Upd_pkt len (rr_parsed_ok r) (rr_parsed_ok r \<and> \<not> (RTCP_RR \<in> rr_mask r \<or> RTCP_SR \<in> rr_mask r))]\<rparr>)"

text \<open>An error before the loop goes straight to the statistics of the packet, whose last flag is then false.\<close>

definition rtcp_refuse :: "u16 \<Rightarrow> u16 \<Rightarrow> rtcp_parse_status \<Rightarrow> 'c rtcp_run \<Rightarrow> (bool \<times> 'c rtcp_run) outcome" where
  "rtcp_refuse len t s r = Done (rtcp_finish len ((rr_upd_msg t s r)\<lparr>rr_parsed_ok := False\<rparr>))"

text \<open>The whole function. The number of rounds is an argument, as is whether the member is found or created.\<close>

definition rtcp_process_packet_base ::
  "nat \<Rightarrow> (u16 \<Rightarrow> 'c rtcp_handler option) \<Rightarrow> bool \<Rightarrow> bool \<Rightarrow> u8 list \<Rightarrow> 'c \<Rightarrow> (bool \<times> 'c rtcp_run) outcome" where
  "rtcp_process_packet_base k handlers rtcp_rsize member pkt sess =
     (let r = \<lparr>rr_sess = sess, rr_stats = [], rr_parsed_ok = True, rr_mask = {}\<rparr>;
          len = of_nat (length pkt);
          msg_type = (if 2 \<le> length pkt then rtcp_get_type (rtcp_params pkt) else NOT_AN_RTCP_MSGTYPE)
      in if length pkt < SIZEOF_RTCPTYPE then rtcp_refuse len msg_type RTCP_PARSE_RUNT r
         else if rtcp_get_version (rtcp_params pkt) \<noteq> RTPVERSION then rtcp_refuse len msg_type RTCP_PARSE_BADVER r
         else let r1 = (if msg_type \<notin> {RTCP_SR, RTCP_RR, RTCP_BYE} \<and> \<not> rtcp_rsize
                        then rr_upd_msg msg_type RTCP_PARSE_UNEXP r else r)
              in if rtcp_find_cname pkt (rtcp_ssrc pkt) = None then rtcp_refuse len RTCP_SDES RTCP_PARSE_BADLEN r1
                 else if \<not> member then rtcp_refuse len msg_type RTCP_PARSE_UNEXP r1
                 else bind_out (rtcp_loop k handlers pkt r1) (\<lambda>r2. Done (rtcp_finish len r2)))"

subsection \<open>The APP message\<close>

definition PPDD_APP_NAME :: "u8 list" where "PPDD_APP_NAME = [0x50, 0x50, 0x44, 0x44]"
definition SIZEOF_RTCP_APP :: nat where "SIZEOF_RTCP_APP = 4"

text \<open>The channel that a session belongs to is there; without one the message is not looked at.\<close>

definition rtcp_process_app :: "cp_env \<Rightarrow> bool \<Rightarrow> vqec_chan rtcp_handler" where
  "rtcp_process_app env mem frame count chan =
     (let fail = (\<lambda>s. bind_out (vqec_chan_app_parse_failure env chan) (\<lambda>c. Done (s, c)))
      in if length frame < SIZEOF_RTCPTYPE + SIZEOF_RTCP_APP then fail RTCP_PARSE_BADLEN
         else if take SIZEOF_RTCP_APP (drop SIZEOF_RTCPTYPE frame) \<noteq> PPDD_APP_NAME then fail RTCP_PARSE_UNEXP
         else let len = push_bit 2 (ucast (rtcp_len frame) + 1 :: u32) - 4 - 8
              in case ppdd_tlv_decode_allocate mem (drop (SIZEOF_RTCPTYPE + SIZEOF_RTCP_APP) frame) (ucast len) of
                   None \<Rightarrow> fail RTCP_PARSE_BADLEN
                 | Some tlv \<Rightarrow> bind_out (vqec_chan_process_app env (ppdd_tlv.truncate tlv) chan) (\<lambda>c. Done (RTCP_PARSE_OK, c)))"

subsection \<open>The loop over the messages\<close>

text \<open>The handlers do not fail an assertion and do not run forever.\<close>

definition handlers_return :: "(u16 \<Rightarrow> 'c rtcp_handler option) \<Rightarrow> bool" where
  "handlers_return handlers \<longleftrightarrow> (\<forall>t f frame count c. handlers t = Some f \<longrightarrow> (\<exists>s c'. f frame count c = Done (s, c')))"

text \<open>A message whose length wraps to zero in 16 bits.\<close>

definition rtcp_stuck :: "u8 list \<Rightarrow> bool" where
  "rtcp_stuck p \<longleftrightarrow> 4 \<le> length p \<and> unat (rtcp_len p) mod 16384 = 16383 \<and> rtcp_get_version (rtcp_params p) = RTPVERSION"

lemma msg_len_zero: "rtcp_msg_len p = 0 \<longleftrightarrow> unat (rtcp_len p) mod 16384 = 16383"
proof -
  have "unat (rtcp_msg_len p) = (unat (rtcp_len p) + 1) * 4 mod 2 ^ 16"
    by (simp add: rtcp_msg_len_def unat_word_ariths) presburger
  then have "rtcp_msg_len p = 0 \<longleftrightarrow> (unat (rtcp_len p) + 1) * 4 mod 2 ^ 16 = 0" by (metis unat_eq_zero)
  also have "\<dots> \<longleftrightarrow> 16384 dvd unat (rtcp_len p) + 1"
    using nat_mult_dvd_cancel1 [of 4 16384 "unat (rtcp_len p) + 1"] by (simp add: dvd_eq_mod_eq_0 [symmetric] mult.commute)
  also have "\<dots> \<longleftrightarrow> unat (rtcp_len p) mod 16384 = 16383" by (simp add: dvd_eq_mod_eq_0 mod_Suc)
  finally show ?thesis .
qed

lemma demux_done:
  assumes "handlers_return handlers"
  obtains s c' where "rtcp_demux handlers t frame count c = Done (s, c')"
proof -
  have "\<exists>s c'. rtcp_demux handlers t frame count c = Done (s, c')"
    using assms by (cases "handlers t") (auto simp: handlers_return_def rtcp_demux_def)
  then show ?thesis using that by blast
qed

lemma round_done:
  assumes "handlers_return handlers"
  obtains (Stop) r' where "rtcp_round handlers p r = Done (None, r')" "\<not> rtcp_stuck p"
  | (Go) r' where "rtcp_round handlers p r = Done (Some (drop (unat (rtcp_msg_len p)) p), r')" "4 \<le> length p"
      "rtcp_get_version (rtcp_params p) = RTPVERSION"
proof (cases "4 \<le> length p \<and> unat (rtcp_msg_len p) \<le> length p \<and> rtcp_get_version (rtcp_params p) = RTPVERSION")
  case True
  obtain s c where "rtcp_demux handlers (rtcp_get_type (rtcp_params p)) (take (unat (rtcp_msg_len p)) p) (rtcp_get_count (rtcp_params p))
      (rr_sess r) = Done (s, c)" by (rule demux_done [OF assms])
  then show ?thesis using True by (intro Go) (auto simp: rtcp_round_def Let_def)
next
  case False
  have "\<not> rtcp_stuck p" using False msg_len_zero [of p] by (auto simp: rtcp_stuck_def)
  moreover have "\<exists>r'. rtcp_round handlers p r = Done (None, r')"
    using False by (auto simp: rtcp_round_def Let_def)
  ultimately show ?thesis using Stop by blast
qed

lemma stuck_forever:
  assumes "handlers_return handlers" "rtcp_stuck p"
  shows "rtcp_loop k handlers p r = Out_of_fuel"
proof (induction k arbitrary: r)
  case 0
  then show ?case using assms(2) by (auto simp: rtcp_stuck_def)
next
  case (Suc k)
  have "p \<noteq> []" "rtcp_msg_len p = 0" using assms(2) msg_len_zero [of p] by (auto simp: rtcp_stuck_def)
  then show ?case using Suc round_done [OF assms(1), of p r] assms(2) by (metis (no_types, lifting) bind_out.simps(1) case_prod_conv
    drop0 option.simps(5) rtcp_loop.simps(2) unat_0)
qed

lemma rtcp_loop_cases:
  assumes h: "handlers_return handlers"
  shows "(\<exists>r'. \<forall>k\<ge>length p. rtcp_loop k handlers p r = Done r') \<or>
    (\<exists>i. rtcp_stuck (drop i p) \<and> (\<forall>k. rtcp_loop k handlers p r = Out_of_fuel))"
proof (induction "length p" arbitrary: p r rule: less_induct)
  case less
  show ?case
  proof (cases "p = []")
    case True
    then have "rtcp_loop k handlers p r = Done r" for k by (cases k) simp_all
    then show ?thesis by blast
  next
    case ne: False
    then have fuel: "\<exists>j. k = Suc j \<and> length p - 1 \<le> j" if "length p \<le> k" for k using that by (cases k) auto
    show ?thesis
    proof (cases rule: round_done [OF h, of p r])
      case (1 r')
      then have "rtcp_loop k handlers p r = Done r'" if "length p \<le> k" for k using fuel [OF that] ne by auto
      then show ?thesis by blast
    next
      case (2 r')
      let ?p = "drop (unat (rtcp_msg_len p)) p"
      have step: "rtcp_loop (Suc k) handlers p r = rtcp_loop k handlers ?p r'" for k using 2(1) ne by simp
      show ?thesis
      proof (cases "rtcp_msg_len p = 0")
        case True
        then have "rtcp_stuck p" using 2(2,3) msg_len_zero [of p] by (simp add: rtcp_stuck_def)
        then show ?thesis using stuck_forever [OF h] by (intro disjI2 exI [of _ 0]) simp
      next
        case False
        then have "0 < unat (rtcp_msg_len p)" by (metis gr0I unat_eq_zero)
        then have lt: "length ?p < length p" using 2(2) by simp
        from less [OF lt, of r'] show ?thesis
        proof (elim disjE exE conjE)
          fix r''
          assume "\<forall>k\<ge>length ?p. rtcp_loop k handlers ?p r' = Done r''"
          then have "rtcp_loop k handlers p r = Done r''" if "length p \<le> k" for k using fuel [OF that] lt step by fastforce
          then show ?thesis by blast
        next
          fix i
          assume i: "rtcp_stuck (drop i ?p)" "\<forall>k. rtcp_loop k handlers ?p r' = Out_of_fuel"
          have "rtcp_loop k handlers p r = Out_of_fuel" for k using i(2) step ne by (cases k) simp_all
          then show ?thesis using i(1) by (intro disjI2 exI [of _ "i + unat (rtcp_msg_len p)"]) (simp add: add.commute)
        qed
      qed
    qed
  qed
qed

subsection \<open>Whether the reception returns\<close>

lemma process_base_cases:
  assumes h: "handlers_return handlers"
  shows "(\<exists>x. \<forall>k\<ge>length pkt. rtcp_process_packet_base k handlers rsize member pkt sess = Done x) \<or>
    (\<exists>i. rtcp_stuck (drop i pkt) \<and> (\<forall>k. rtcp_process_packet_base k handlers rsize member pkt sess = Out_of_fuel))"
proof -
  define r where "r = (\<lparr>rr_sess = sess, rr_stats = [], rr_parsed_ok = True, rr_mask = {}\<rparr> :: 'a rtcp_run)"
  define t where "t = (if 2 \<le> length pkt then rtcp_get_type (rtcp_params pkt) else NOT_AN_RTCP_MSGTYPE)"
  define q where "q = (if t \<notin> {RTCP_SR, RTCP_RR, RTCP_BYE} \<and> \<not> rsize then rr_upd_msg t RTCP_PARSE_UNEXP r else r)"
  have run: "(\<exists>y. \<forall>k. rtcp_process_packet_base k handlers rsize member pkt sess = Done y) \<or>
    (\<forall>k. rtcp_process_packet_base k handlers rsize member pkt sess =
       bind_out (rtcp_loop k handlers pkt q) (\<lambda>r2. Done (rtcp_finish (of_nat (length pkt)) r2)))"
  proof -
    have eq: "rtcp_process_packet_base k handlers rsize member pkt sess =
      (if length pkt < SIZEOF_RTCPTYPE then rtcp_refuse (of_nat (length pkt)) t RTCP_PARSE_RUNT r
       else if rtcp_get_version (rtcp_params pkt) \<noteq> RTPVERSION then rtcp_refuse (of_nat (length pkt)) t RTCP_PARSE_BADVER r
       else if rtcp_find_cname pkt (rtcp_ssrc pkt) = None then rtcp_refuse (of_nat (length pkt)) RTCP_SDES RTCP_PARSE_BADLEN q
       else if \<not> member then rtcp_refuse (of_nat (length pkt)) t RTCP_PARSE_UNEXP q
       else bind_out (rtcp_loop k handlers pkt q) (\<lambda>r2. Done (rtcp_finish (of_nat (length pkt)) r2)))" for k
      unfolding rtcp_process_packet_base_def Let_def r_def t_def q_def by (rule refl)
    show ?thesis unfolding eq rtcp_refuse_def
      by (cases "length pkt < SIZEOF_RTCPTYPE"; cases "rtcp_get_version (rtcp_params pkt) = RTPVERSION";
          cases "rtcp_find_cname pkt (rtcp_ssrc pkt)"; cases member) simp_all
  qed
  from rtcp_loop_cases [OF h, of pkt q] show ?thesis
  proof (elim disjE exE conjE)
    fix r'
    assume "\<forall>k\<ge>length pkt. rtcp_loop k handlers pkt q = Done r'"
    then show ?thesis using run by auto
  next
    fix i
    assume "rtcp_stuck (drop i pkt)" "\<forall>k. rtcp_loop k handlers pkt q = Out_of_fuel"
    then show ?thesis using run by auto
  qed
qed

text \<open>A name, and then a header with the length 0x3fff.\<close>

definition rtcp_stuck_packet :: "u8 list" where
  "rtcp_stuck_packet = htons 0x81ca @ htons 2 @ htonl 1 @ [1, 1, 0x61, 0] @ htons 0x80c8 @ htons 0x3fff"

lemma ntohl_htonl_append [simp]: "ntohl (htonl w @ bs) = w"
  using ntohl_htonl [of w] by (simp add: ntohl_def htonl_def)

lemma sample_params: "rtcp_get_version 0x81ca = RTPVERSION" "rtcp_get_version 0x80c8 = RTPVERSION" "rtcp_get_type 0x81ca = RTCP_SDES"
  "rtcp_get_count 0x81ca = 1"
  by code_simp+

lemma stuck_packet_headers:
  "rtcp_params rtcp_stuck_packet = 0x81ca" "rtcp_len rtcp_stuck_packet = 2" "rtcp_ssrc rtcp_stuck_packet = 1"
  "rtcp_params (drop 12 rtcp_stuck_packet) = 0x80c8" "rtcp_len (drop 12 rtcp_stuck_packet) = 0x3fff" "length rtcp_stuck_packet = 16"
  by (simp_all add: rtcp_stuck_packet_def rtcp_params_def rtcp_len_def rtcp_ssrc_def ntohs_htons [where bs = "[]", simplified])

lemma stuck_packet_stuck: "rtcp_msg_len rtcp_stuck_packet = 12" "rtcp_stuck (drop 12 rtcp_stuck_packet)"
  by (simp_all add: rtcp_msg_len_def rtcp_stuck_def stuck_packet_headers sample_params)

lemma stuck_packet_name: "rtcp_find_cname rtcp_stuck_packet 1 = Some [0x61]"
proof -
  have len: "rtcp_bytelen rtcp_stuck_packet = 12" by (simp add: rtcp_bytelen_def stuck_packet_headers)
  have "rtcp_find_pkttype rtcp_stuck_packet RTCP_SDES = Some rtcp_stuck_packet"
    by (subst rtcp_find_pkttype.simps) (simp add: stuck_packet_headers sample_params SIZEOF_RTCPTYPE_def)
  moreover have "take 12 rtcp_stuck_packet = htons 0x81ca @ htons 2 @ htonl 1 @ [1, 1, 0x61, 0]" (is "_ = ?m")
    by (simp add: rtcp_stuck_packet_def)
  moreover have "sdes_items ?m True 8 = Sdes_cname [0x61]"
  proof -
    have at: "length ?m = 12" "?m ! 8 = 1" "?m ! 9 = 1" "drop 10 ?m = [0x61, 0]"
      by (simp_all add: nth_append)
    show ?thesis by (subst sdes_items.simps) (simp add: at RTCP_SDES_CNAME_def Let_def del: append.simps)
  qed
  ultimately show ?thesis
    by (simp add: rtcp_find_cname_def len stuck_packet_headers sample_params)
qed

lemma stuck_packet_forever:
  assumes h: "handlers_return handlers"
  shows "rtcp_process_packet_base k handlers rsize True rtcp_stuck_packet sess = Out_of_fuel"
proof -
  have "rtcp_loop k handlers rtcp_stuck_packet r = Out_of_fuel" for r
  proof (cases k)
    case 0
    then show ?thesis by (simp add: rtcp_stuck_packet_def)
  next
    case (Suc j)
    obtain s c where "rtcp_demux handlers (rtcp_get_type (rtcp_params rtcp_stuck_packet)) (take 12 rtcp_stuck_packet)
      (rtcp_get_count (rtcp_params rtcp_stuck_packet)) (rr_sess r) = Done (s, c)" by (rule demux_done [OF h])
    then obtain r' where "rtcp_round handlers rtcp_stuck_packet r = Done (Some (drop 12 rtcp_stuck_packet), r')"
      using stuck_packet_headers stuck_packet_stuck(1) sample_params by (simp add: rtcp_round_def Let_def)
    moreover have "rtcp_stuck_packet \<noteq> []" by (simp add: rtcp_stuck_packet_def)
    ultimately show ?thesis using stuck_forever [OF h stuck_packet_stuck(2), of j r'] Suc by simp
  qed
  then show ?thesis
    using stuck_packet_name stuck_packet_headers(1,3,6) sample_params by (simp add: rtcp_process_packet_base_def Let_def SIZEOF_RTCPTYPE_def)
qed

text \<open>C13: The reception of a compound packet either returns, after no more rounds than the packet has octets, or it
  reaches a message whose length field is 0x3fff modulo 0x4000, so that the length in octets wraps to zero in
  16 bits, and never returns, whatever the handlers do. There is a packet of 16 octets, with a valid name, for
  which it never returns.\<close>

theorem rtcp_reception_returns:
  assumes "handlers_return handlers"
  shows "((\<exists>x. \<forall>k\<ge>length pkt. rtcp_process_packet_base k handlers rsize member pkt sess = Done x) \<or>
     (\<exists>i. 4 \<le> length (drop i pkt) \<and> unat (rtcp_len (drop i pkt)) mod 0x4000 = 0x3fff \<and>
        (\<forall>k. rtcp_process_packet_base k handlers rsize member pkt sess = Out_of_fuel))) \<and>
    (\<exists>bad. length bad = 16 \<and> rtcp_find_cname bad (rtcp_ssrc bad) \<noteq> None \<and>
       (\<forall>k. rtcp_process_packet_base k handlers rsize True bad sess = Out_of_fuel))"
proof (rule conjI)
  show "(\<exists>x. \<forall>k\<ge>length pkt. rtcp_process_packet_base k handlers rsize member pkt sess = Done x) \<or>
     (\<exists>i. 4 \<le> length (drop i pkt) \<and> unat (rtcp_len (drop i pkt)) mod 0x4000 = 0x3fff \<and>
        (\<forall>k. rtcp_process_packet_base k handlers rsize member pkt sess = Out_of_fuel))"
    using process_base_cases [OF assms, of pkt rsize member sess] unfolding rtcp_stuck_def by simp blast
  show "\<exists>bad. length bad = 16 \<and> rtcp_find_cname bad (rtcp_ssrc bad) \<noteq> None \<and>
       (\<forall>k. rtcp_process_packet_base k handlers rsize True bad sess = Out_of_fuel)"
    using stuck_packet_forever [OF assms] stuck_packet_headers(3,6) stuck_packet_name
    by (intro exI [of _ rtcp_stuck_packet]) simp
qed

theorem rtcp_reception_returns_witness:
  "\<exists>bad. length bad = 16 \<and>
     (\<forall>k. rtcp_process_packet_base k (\<lambda>_. None :: unit rtcp_handler option) True True bad () = Out_of_fuel)"
proof -
  have "handlers_return (\<lambda>_. None :: unit rtcp_handler option)" by (simp add: handlers_return_def)
  from rtcp_reception_returns [OF this, of "[]" True True "()"] show ?thesis by blast
qed

subsection \<open>From the server to the state machine\<close>


lemma length_app_name [simp]: "length PPDD_APP_NAME = 4"
  by (simp add: PPDD_APP_NAME_def)

lemma app_data_len:
  assumes "4 dvd n" "n < 2 ^ 16"
  shows "ucast (push_bit 2 (ucast (of_nat (n div 4 + 2) :: u16) + 1 :: u32) - 4 - 8) = (of_nat n :: u16)"
proof -
  have "unat (of_nat (n div 4 + 2) :: u16) = n div 4 + 2" using assms(2) by (intro unat_of_nat_small) simp
  then have "(ucast (of_nat (n div 4 + 2) :: u16) :: u32) = of_nat (n div 4 + 2)" 
    using assms(2) unat_of_nat_small [of "n div 4 + 2", where 'a = 32] by (simp only: word_eq_unat_iff unat_ucast_16_32) simp
  moreover have "push_bit 2 (of_nat (n div 4 + 2) + 1 :: u32) = of_nat (n + 12)"
  proof -
    have e: "n + 12 = 4 * (n div 4 + 3)" using assms(1) by auto
    show ?thesis unfolding e by (simp add: push_bit_eq_mult)
  qed
  ultimately have "push_bit 2 (ucast (of_nat (n div 4 + 2) :: u16) + 1 :: u32) - 4 - 8 = of_nat n" by simp
  then show ?thesis
    using assms(2) unat_of_nat_small [of n, where 'a = 32] unat_of_nat_small [of n, where 'a = 16]
    by (simp add: word_eq_unat_iff unat_ucast_16)
qed



text \<open>The three ways in which the octets of an APP message are refused: too short, another name, or cut inside an
  item.\<close>

definition app_malformed :: "u8 list \<Rightarrow> bool" where
  "app_malformed frame \<longleftrightarrow> length frame < 12 \<or> take 4 (drop 8 frame) \<noteq> PPDD_APP_NAME \<or>
     (\<exists>xs t rest. drop 12 frame = tlv_concat xs @ t # rest \<and> tlv_well xs \<and> t \<noteq> PADDING \<and>
       (length rest < 2 \<or> length rest - 2 < unat (ntohs rest)) \<and> length frame < 2 ^ 16 \<and> length frame = (unat (rtcp_len frame) + 1) * 4)"

lemma parse_failure_ok:
  assumes "cp_rest c"
  shows "\<exists>c'. vqec_chan_app_parse_failure env c = Done c' \<and> cp_rest c' \<and>
    cp_state c' \<in> {cp_step (cp_state c) VQEC_EVENT_RECEIVE_INVALID_APP, VQEC_SM_STATE_ABORT}"
proof -
  obtain r c1 where d: "vqec_sm_deliver_event env VQEC_EVENT_RECEIVE_INVALID_APP 0 c = Done (r, c1)" "cp_rest c1"
    "cp_state c1 = (if r then cp_step (cp_state c) VQEC_EVENT_RECEIVE_INVALID_APP else VQEC_SM_STATE_ABORT)"
    using cp_deliver_total [OF assms, of env VQEC_EVENT_RECEIVE_INVALID_APP 0] by blast
  then show ?thesis by (simp add: vqec_chan_app_parse_failure_def cp_deliver_ignore_def cp_rest_def)
qed

lemma cut_not_decoded:
  assumes "drop 12 frame = tlv_concat xs @ t # rest" "tlv_well xs" "t \<noteq> PADDING" "length rest < 2 \<or> length rest - 2 < unat (ntohs rest)"
    and n: "length frame < 2 ^ 16" "length frame = (unat (rtcp_len frame) + 1) * 4"
  shows "ppdd_tlv_decode_allocate mem (drop 12 frame) (ucast (push_bit 2 (ucast (rtcp_len frame) + 1 :: u32) - 4 - 8)) = None"
proof -
  let ?d = "drop 12 frame"
  have l: "length ?d < 2 ^ 16" "4 dvd length ?d" "length ?d div 4 + 2 = unat (rtcp_len frame)"
  proof -
    have "0 < length ?d" using assms(1) by simp
    then obtain m where "unat (rtcp_len frame) = m + 2" "length ?d = 4 * m" using n(2) by (auto intro: that [of "unat (rtcp_len frame) - 2"])
    then show "length ?d < 2 ^ 16" "4 dvd length ?d" "length ?d div 4 + 2 = unat (rtcp_len frame)" using n(1) by auto
  qed
  then have "of_nat (length ?d div 4 + 2) = rtcp_len frame" by simp
  note e = app_data_len [OF l(2,1), unfolded this]
  show ?thesis unfolding e ppdd_tlv_decode_allocate_def take_whole [OF l(1)]
    by (simp add: assms(1) tlv_loop_cut [OF assms(2-4)])
qed

text \<open>C34: A malformed APP message is refused without a failed assertion: the channel gets the event of an invalid APP
  message, and is at rest in the state of the transition table for it or in the abort state.\<close>

theorem app_malformed_refused:
  assumes "cp_rest c" "app_malformed frame"
  shows "\<exists>s c'. rtcp_process_app env mem frame count c = Done (s, c') \<and> s \<noteq> RTCP_PARSE_OK \<and> cp_rest c' \<and>
    cp_state c' \<in> {cp_step (cp_state c) VQEC_EVENT_RECEIVE_INVALID_APP, VQEC_SM_STATE_ABORT}"
proof -
  from parse_failure_ok [OF assms(1), of env] obtain c' where c: "vqec_chan_app_parse_failure env c = Done c'" "cp_rest c'"
    "cp_state c' \<in> {cp_step (cp_state c) VQEC_EVENT_RECEIVE_INVALID_APP, VQEC_SM_STATE_ABORT}" by blast
  have "\<exists>s. rtcp_process_app env mem frame count c = Done (s, c') \<and> s \<noteq> RTCP_PARSE_OK"
  proof (cases "length frame < 12 \<or> take 4 (drop 8 frame) \<noteq> PPDD_APP_NAME")
    case True
    then show ?thesis using c(1) by (auto simp: rtcp_process_app_def Let_def SIZEOF_RTCPTYPE_def SIZEOF_RTCP_APP_def)
  next
    case False
    then have "ppdd_tlv_decode_allocate mem (drop 12 frame) (ucast (push_bit 2 (ucast (rtcp_len frame) + 1 :: u32) - 4 - 8)) = None"
      using assms(2) cut_not_decoded unfolding app_malformed_def by blast
    then show ?thesis using False c(1)
      unfolding rtcp_process_app_def Let_def by (simp add: SIZEOF_RTCPTYPE_def SIZEOF_RTCP_APP_def)
  qed
  then show ?thesis using c(2,3) by blast
qed

theorem app_malformed_refused_witness:
  "\<exists>s c'. rtcp_process_app (cp_env_all False) True [0x80, 0xcc] 0 (vqec_sm_init vqec_chan_zero) = Done (s, c') \<and>
     s \<noteq> RTCP_PARSE_OK \<and> cp_rest c'"
proof -
  have "app_malformed [0x80, 0xcc]" by (simp add: app_malformed_def)
  from app_malformed_refused [OF vqec_chan_zero_rest this, of "cp_env_all False" True 0] show ?thesis by blast
qed
end
