(* ===== verification/Fec_Xor.thy ===== *)
theory Fec_Xor
  imports Net_Bytes
begin

text \<open>
  The parity code of the forward error correction, \<^verbatim>\<open>vqec_fec_decode_xor_word\<close> of
  \<^verbatim>\<open>eva/vqec-dp/channel/vqec_fec.c\<close>: the exclusive or of several buffers, four octets at a time. It is the
  exclusive or of the octets in each position, on a host of either byte order, and the parity of a group
  gives back the one member of the group that is missing.
\<close>

subsection \<open>The decoder\<close>

definition load_word :: "bool \<Rightarrow> u8 list \<Rightarrow> nat \<Rightarrow> u32" where
  "load_word little buf j = host_word little (take 4 (drop (4 * j) buf))"

definition store_word :: "bool \<Rightarrow> u8 list \<Rightarrow> nat \<Rightarrow> u32 \<Rightarrow> u8 list" where
  "store_word little buf j w = take (4 * j) buf @ host_bytes little w @ drop (4 * j + 4) buf"

text \<open>The two inner loops, over the words and over single octets.\<close>

primrec xor_words :: "bool \<Rightarrow> nat \<Rightarrow> u8 list \<Rightarrow> u8 list \<Rightarrow> u8 list" where
  "xor_words little 0 pkt r = r"
| "xor_words little (Suc j) pkt r =
     (let r1 = xor_words little j pkt r
      in store_word little r1 j (load_word little r1 j XOR load_word little pkt j))"

primrec xor_octets :: "nat \<Rightarrow> nat \<Rightarrow> u8 list \<Rightarrow> u8 list \<Rightarrow> u8 list" where
  "xor_octets off 0 pkt r = r"
| "xor_octets off (Suc j) pkt r =
     (let r1 = xor_octets off j pkt r in r1[off + j := r1 ! (off + j) XOR pkt ! (off + j)])"

definition xor_packet :: "bool \<Rightarrow> nat \<Rightarrow> u8 list \<Rightarrow> u8 list \<Rightarrow> u8 list" where
  "xor_packet little pkt_size pkt r =
     (let remain_bytes = pkt_size mod 4; num_words = (pkt_size - remain_bytes) div 4
      in if num_words = 0 then xor_octets 0 pkt_size pkt r
         else let r1 = xor_words little num_words pkt r
              in if remain_bytes \<noteq> 0 then xor_octets (num_words * 4) remain_bytes pkt r1 else r1)"

text \<open>The array of pointers, in which a null pointer is \<open>None\<close>, and the buffer for the result. A buffer
  that is shorter than the size is read, or written, past its end.\<close>

definition vqec_fec_decode_xor_word ::
  "bool \<Rightarrow> u8 list option list option \<Rightarrow> u16 \<Rightarrow> u16 \<Rightarrow> u8 list option \<Rightarrow> (bool \<times> u8 list option) outcome" where
  "vqec_fec_decode_xor_word little received_pkts num_pkts pkt_size recovered_pkt =
     (case (received_pkts, recovered_pkt) of
        (Some pkts, Some r) \<Rightarrow>
          let n = unat pkt_size; blks = take (unat num_pkts) pkts
          in if num_pkts < 2 \<or> pkt_size = 0 then Done (False, Some r)
             else if None \<in> set blks then Done (False, Some r)
             else if length pkts < unat num_pkts \<or> length r < n \<or> (\<exists>p\<in>set blks. length (the p) < n) then Bad_access
             else Done (True, Some (fold (xor_packet little n) (map the (tl blks)) (memcpy_to r (take n (the (hd blks))))))
      | _ \<Rightarrow> Done (False, recovered_pkt))"

subsection \<open>Parity codes\<close>

text \<open>A code in which every symbol is its own inverse. The parity of a group of symbols together with
  all of them but one is the one that is missing, wherever it stands.\<close>

locale parity_code =
  fixes add :: "'a \<Rightarrow> 'a \<Rightarrow> 'a" and zero :: 'a
  assumes add_assoc: "add (add a b) c = add a (add b c)"
    and add_commute: "add a b = add b a"
    and add_zero: "add a zero = a"
    and add_self: "add a a = zero"
begin

lemma add_left_commute: "add a (add b c) = add b (add a c)"
  by (metis add_assoc add_commute)

lemma zero_add: "add zero a = a"
  using add_commute [of zero a] by (simp add: add_zero)

lemma cancel: "add a (add a b) = b"
  by (simp add: add_assoc [symmetric] add_self zero_add)

lemma parity_insert: "foldr add (xs @ y # ys) zero = add y (foldr add (xs @ ys) zero)"
  by (induction xs) (simp_all add: add_left_commute)

lemma recover:
  assumes "c = foldr add (xs @ y # ys) zero"
  shows "add (foldr add (xs @ ys) zero) c = y"
  using assms by (simp only: parity_insert) (metis add_commute cancel)

lemma fold_parity: "fold (\<lambda>y a. add a y) ys x = add x (foldr add ys zero)"
  by (induction ys arbitrary: x) (simp_all add: add_zero add_assoc)

lemma parity_append: "foldr add (xs @ ys) zero = add (foldr add xs zero) (foldr add ys zero)"
  by (induction xs) (simp_all add: zero_add add_assoc)

end

interpretation xor8: parity_code "(XOR)" "0 :: u8"
  by unfold_locales (simp_all add: ac_simps)

interpretation xor16: parity_code "(XOR)" "0 :: u16"
  by unfold_locales (simp_all add: ac_simps)

interpretation xor32: parity_code "(XOR)" "0 :: u32"
  by unfold_locales (simp_all add: ac_simps)

subsection \<open>Words are four octets\<close>

lemma octet_high: "8 \<le> n \<Longrightarrow> \<not> bit (w :: u8) n"
  by (auto dest: bit_imp_le_length)

lemma htonl_ntohl:
  assumes "length bs = 4"
  shows "htonl (ntohl bs) = bs"
proof -
  obtain a b c d where "bs = [a, b, c, d]" using assms by (auto simp: length_Suc_conv numeral_eq_Suc)
  then show ?thesis
    unfolding htonl_def ntohl_def by (auto intro!: bit_word_eqI simp: bit_simps octet_high)
qed

lemma htonl_xor: "htonl (v XOR w) = map2 (XOR) (htonl v) (htonl w)"
  unfolding htonl_def by simp (auto intro!: bit_word_eqI simp: bit_simps)

lemma host_bytes_xor:
  assumes "length a = 4" "length b = 4"
  shows "host_bytes little (host_word little a XOR host_word little b) = map2 (XOR) a b"
  using assms by (cases little)
    (simp_all add: host_bytes_def host_word_def htonl_xor htonl_ntohl zip_rev rev_map)

lemma load_store_xor:
  assumes "4 * j + 4 \<le> length r" "4 * j + 4 \<le> length pkt"
  shows "store_word little r j (load_word little r j XOR load_word little pkt j) =
    take (4 * j) r @ map2 (XOR) (take 4 (drop (4 * j) r)) (take 4 (drop (4 * j) pkt)) @ drop (4 * j + 4) r"
  using assms unfolding store_word_def load_word_def by (subst host_bytes_xor) simp_all

lemma store_xor_nth:
  assumes "4 * j + 4 \<le> length r" "4 * j + 4 \<le> length pkt" "i < length r"
  shows "store_word little r j (load_word little r j XOR load_word little pkt j) ! i =
    (if 4 * j \<le> i \<and> i < 4 * j + 4 then r ! i XOR pkt ! i else r ! i)"
  unfolding load_store_xor [OF assms(1,2)] using assms by (auto simp: nth_append)

lemma xor_words_nth:
  assumes "4 * k \<le> length r" "4 * k \<le> length pkt"
  shows "length (xor_words little k pkt r) = length r"
    "i < length r \<Longrightarrow> xor_words little k pkt r ! i = (if i < 4 * k then r ! i XOR pkt ! i else r ! i)"
proof -
  have "length (xor_words little k pkt r) = length r \<and>
    (\<forall>i < length r. xor_words little k pkt r ! i = (if i < 4 * k then r ! i XOR pkt ! i else r ! i))"
    using assms
  proof (induction k)
    case (Suc k)
    then have IH: "length (xor_words little k pkt r) = length r"
      "\<forall>i < length r. xor_words little k pkt r ! i = (if i < 4 * k then r ! i XOR pkt ! i else r ! i)" by simp_all
    have b: "4 * k + 4 \<le> length (xor_words little k pkt r)" "4 * k + 4 \<le> length pkt" using Suc.prems IH(1) by simp_all
    have "length (store_word little r1 k w) = length r1" if "4 * k + 4 \<le> length r1" for r1 w
      using that by (simp add: store_word_def)
    then show ?case using IH store_xor_nth [OF b] b by (auto simp: Let_def)
  qed simp
  then show "length (xor_words little k pkt r) = length r"
    "i < length r \<Longrightarrow> xor_words little k pkt r ! i = (if i < 4 * k then r ! i XOR pkt ! i else r ! i)" by simp_all
qed

lemma xor_octets_nth:
  shows "length (xor_octets off k pkt r) = length r"
    "i < length r \<Longrightarrow> xor_octets off k pkt r ! i = (if off \<le> i \<and> i < off + k then r ! i XOR pkt ! i else r ! i)"
proof -
  show l: "length (xor_octets off k pkt r) = length r" for k by (induction k) (simp_all add: Let_def)
  show "i < length r \<Longrightarrow> xor_octets off k pkt r ! i = (if off \<le> i \<and> i < off + k then r ! i XOR pkt ! i else r ! i)"
  proof (induction k)
    case (Suc k)
    then show ?case by (cases "i = off + k") (auto simp: Let_def l nth_list_update)
  qed auto
qed

text \<open>The words and the remaining octets together are the exclusive or of the octets.\<close>

definition xor_prefix :: "nat \<Rightarrow> u8 list \<Rightarrow> u8 list \<Rightarrow> u8 list" where
  "xor_prefix n pkt r = map2 (XOR) (take n r) (take n pkt) @ drop n r"

lemma xor_packet_octets:
  assumes "n \<le> length r" "n \<le> length pkt"
  shows "xor_packet little n pkt r = xor_prefix n pkt r"
proof -
  let ?k = "n div 4"
  have k: "4 * ?k + n mod 4 = n" by simp
  then have b: "4 * ?k \<le> length r" "4 * ?k \<le> length pkt" using assms by linarith+
  note w = xor_words_nth [OF b, where little = little]
  have kk: "(n - n mod 4) div 4 = ?k" by (simp add: minus_mod_eq_mult_div)
  have len: "length (xor_packet little n pkt r) = length r"
    by (simp add: xor_packet_def Let_def kk xor_octets_nth(1) w(1))
  have nth: "xor_packet little n pkt r ! i = (if i < n then r ! i XOR pkt ! i else r ! i)" if i: "i < length r" for i
  proof (cases "?k = 0")
    case True
    then show ?thesis using i by (simp add: xor_packet_def Let_def kk xor_octets_nth(2))
  next
    case False
    then show ?thesis
      using i k w by (auto simp: xor_packet_def Let_def kk xor_octets_nth(2) mult.commute [of _ 4])
  qed
  show ?thesis
    by (rule nth_equalityI) (use assms len nth in \<open>auto simp: xor_prefix_def nth_append\<close>)
qed

text \<open>The parity of a group of packets in their first \<open>n\<close> octets.\<close>

definition parity :: "nat \<Rightarrow> u8 list list \<Rightarrow> u8 list" where
  "parity n ps = map (\<lambda>j. foldr (XOR) (map (\<lambda>p. p ! j) ps) 0) [0..< n]"

lemma length_parity [simp]: "length (parity n ps) = n"
  by (simp add: parity_def)

lemma parity_nth: "j < n \<Longrightarrow> parity n ps ! j = foldr (XOR) (map (\<lambda>p. p ! j) ps) 0"
  by (simp add: parity_def)

lemma fold_xor_packet:
  assumes "n \<le> length r" "\<forall>p\<in>set ps. n \<le> length p"
  shows "fold (xor_packet little n) ps r = parity n (r # ps) @ drop n r"
  using assms
proof (induction ps arbitrary: r)
  case Nil
  then show ?case by (auto intro!: nth_equalityI simp: nth_append parity_nth)
next
  case (Cons p ps)
  have x: "xor_packet little n p r = xor_prefix n p r" using Cons.prems by (simp add: xor_packet_octets)
  have l: "n \<le> length (xor_prefix n p r)" "drop n (xor_prefix n p r) = drop n r"
    using Cons.prems by (simp_all add: xor_prefix_def)
  have "xor_prefix n p r ! j = r ! j XOR p ! j" if "j < n" for j
    using that Cons.prems by (simp add: xor_prefix_def nth_append)
  then have "parity n (xor_prefix n p r # ps) = parity n (r # p # ps)"
    by (auto intro!: nth_equalityI simp: parity_nth xor8.add_assoc)
  then show ?case using Cons l x by simp
qed

lemma parity_head: "n \<le> length p \<Longrightarrow> parity n ((take n p @ q) # ps) = parity n (p # ps)"
  by (auto intro!: nth_equalityI simp: parity_nth nth_append)

text \<open>When the pointers are there and the buffers long enough, the decoder computes the parity.\<close>

lemma decode_parity:
  assumes "2 \<le> length ps" "length ps < 65536" "0 < n" "n < 65536" "\<forall>p\<in>set ps. n \<le> length p" "n \<le> length r"
  shows "vqec_fec_decode_xor_word little (Some (map Some ps @ rest)) (of_nat (length ps)) (of_nat n) (Some r) =
    Done (True, Some (parity n ps @ drop n r))"
proof -
  obtain p qs where ps: "ps = p # qs" "qs \<noteq> []" using assms(1) by (auto simp: Suc_le_length_iff numeral_2_eq_2)
  have u: "unat (of_nat (length ps) :: u16) = length ps" "unat (of_nat n :: u16) = n"
    using assms(2,4) by (simp_all add: unat_of_nat_small)
  then have g: "\<not> (of_nat (length ps) :: u16) < 2" "(of_nat n :: u16) \<noteq> 0"
    using assms(1,3) by (auto simp: word_less_nat_alt)
  have m: "memcpy_to r (take n p) = take n p @ drop n r" using assms(5) ps(1) by (simp add: memcpy_to_def)
  have f: "fold (xor_packet little n) qs (take n p @ drop n r) = parity n ps @ drop n r"
    using assms(5,6) ps(1) fold_xor_packet [of n "take n p @ drop n r" qs little] parity_head [of n p "drop n r" qs] by simp
  show ?thesis
    unfolding vqec_fec_decode_xor_word_def using u g assms(5,6) ps m f by (auto simp: Let_def comp_def)
qed

lemma parity_recover:
  assumes "take n c = parity n (xs @ y # ys)" "n \<le> length c" "n \<le> length y"
  shows "parity n (xs @ ys @ [c]) = take n y"
proof (rule nth_equalityI)
  fix j
  assume "j < length (parity n (xs @ ys @ [c]))"
  then have j: "j < n" by simp
  let ?f = "map (\<lambda>p. p ! j)"
  have "c ! j = take n c ! j" using j assms(2) by simp
  then have c: "c ! j = foldr (XOR) (?f xs @ y ! j # ?f ys) 0" using j assms(1) by (simp add: parity_nth)
  have "parity n (xs @ ys @ [c]) ! j = foldr (XOR) ((?f xs @ ?f ys) @ [c ! j]) 0" using j by (simp add: parity_nth)
  also have "\<dots> = foldr (XOR) (?f xs @ ?f ys) 0 XOR c ! j" by (simp only: xor8.parity_append) simp
  also have "\<dots> = y ! j" by (rule xor8.recover [OF c])
  finally show "parity n (xs @ ys @ [c]) ! j = take n y ! j" using j assms(3) by simp
qed (use assms in simp)

subsection \<open>Properties\<close>

text \<open>C9: decoding four octets at a time is the exclusive or of the octets. On a host of either byte order,
  with two or more buffers that hold the size, the decoder writes into each position of the size the exclusive
  or of the octets at that position of all buffers, and leaves the rest of the result alone.\<close>

theorem decode_xor_word_bytewise:
  assumes "2 \<le> length ps" and "length ps < 65536" and "0 < n" and "n < 65536"
    and "\<forall>p\<in>set ps. n \<le> length p" and "n \<le> length r"
  shows "\<exists>r'. vqec_fec_decode_xor_word little (Some (map Some ps)) (of_nat (length ps)) (of_nat n) (Some r) =
      Done (True, Some r') \<and> length r' = length r \<and>
    (\<forall>j < n. r' ! j = foldr (XOR) (map (\<lambda>p. p ! j) ps) 0) \<and> drop n r' = drop n r"
  using decode_parity [OF assms, of little "[]"] assms(6)
  by (intro exI [of _ "parity n ps @ drop n r"]) (simp add: nth_append parity_nth)

theorem decode_xor_word_bytewise_witness:
  "\<exists>r'. vqec_fec_decode_xor_word True (Some [Some [1, 2, 3, 4, 5], Some [7, 7, 7, 7, 7]]) 2 5 (Some [0, 0, 0, 0, 0, 9]) =
     Done (True, Some r') \<and> drop 5 r' = [9] \<and> r' ! 4 = 2"
  using decode_xor_word_bytewise [of "[[1, 2, 3, 4, 5], [7, 7, 7, 7, 7]]" 5 "[0, 0, 0, 0, 0, 9]" True] by auto

text \<open>C36: one lost packet of a group is recovered. When a buffer holds the parity of a group of two or more
  packets, decoding it together with all packets of the group but one gives the octets of the missing one,
  wherever it stands in the group.\<close>

theorem decode_xor_word_recovers:
  assumes "xs @ ys \<noteq> []" and "length (xs @ ys) < 65535" and "0 < n" and "n < 65536"
    and "\<forall>p\<in>set (xs @ y # ys). n \<le> length p" and "n \<le> length r" and "n \<le> length c"
    and "\<forall>j < n. c ! j = foldr (XOR) (map (\<lambda>p. p ! j) (xs @ y # ys)) 0"
  shows "vqec_fec_decode_xor_word little (Some (map Some (xs @ ys @ [c]))) (of_nat (length xs + length ys + 1)) (of_nat n) (Some r) =
    Done (True, Some (take n y @ drop n r))"
proof -
  have "take n c = parity n (xs @ y # ys)"
    by (rule nth_equalityI) (use assms(7,8) in \<open>simp_all add: parity_nth\<close>)
  then have p: "parity n (xs @ ys @ [c]) = take n y" by (rule parity_recover) (use assms(5,7) in simp_all)
  have "2 \<le> length (xs @ ys @ [c])" using assms(1) by (cases xs; cases ys) auto
  then show ?thesis
    using decode_parity [of "xs @ ys @ [c]" n r little "[]"] assms(2-7) p by auto
qed

theorem decode_xor_word_recovers_witness:
  "vqec_fec_decode_xor_word False (Some [Some [1, 2, 3, 4, 5], Some [9, 9, 9, 9, 9], Some [15, 12, 13, 10, 11]]) 3 5 (Some [0, 0, 0, 0, 0]) =
     Done (True, Some [7, 7, 7, 7, 7])"
proof -
  have "\<forall>j < 5. [15, 12, 13, 10, 11] ! j = foldr (XOR) (map (\<lambda>p. p ! j) [[1, 2, 3, 4, 5], [7, 7, 7, 7, 7], [9, 9, 9, 9, 9]]) (0 :: u8)"
    by (simp add: All_less_Suc eval_nat_numeral)
  then show ?thesis
    using decode_xor_word_recovers [of "[[1, 2, 3, 4, 5]]" "[[9, 9, 9, 9, 9]]" 5 "[7, 7, 7, 7, 7]" "[0, 0, 0, 0, 0]"
      "[15, 12, 13, 10, 11]" False] by simp
qed

end
