(* ===== verification/Fec.thy ===== *)
theory Fec
  imports Pcm_Insert Rtp_Header Fec_Xor
begin

text \<open>
  The forward error correction of a channel, \<^verbatim>\<open>eva/vqec-dp/channel/vqec_fec.c\<close>, \<^verbatim>\<open>vqec_fec.h\<close> and
  \<^verbatim>\<open>rtp/fec_fast_type.h\<close>: the headers of FEC packets, the detection of the order in which the head end sends
  them, and the two sequencers, for columns and for rows, in which they wait.

  The module is a record that is never null; what the code keeps twice, for columns and for rows, is a
  record of its own. The packet cache is a part of the module that points to it. The pools of modules and
  of sequencers appear as flags that say whether they have a free element; a sequencer that is released
  and acquired again is the same block, so the pointer that the insertion read before a flush is that of the
  new sequencer. The field \<^verbatim>\<open>rtp\<close> of a packet points to its head, and \<^verbatim>\<open>fec_hdr\<close> twelve octets behind it.
  Notifications of the channel are counted.
\<close>

unbundle bit_operations_syntax

subsection \<open>Types\<close>

datatype vqec_fec_stream_avail =
    VQEC_FEC_STREAM_AVAIL_NONE | VQEC_FEC_STREAM_AVAIL_1D | VQEC_FEC_STREAM_AVAIL_2D

datatype vqec_fec_type = VQEC_FEC_TYPE_XOR | VQEC_FEC_TYPE_UNKNOWN

datatype vqec_fec_hdr_error =
    VQEC_FEC_HDR_OK | VQEC_FEC_HDR_WRONG_VERSION | VQEC_FEC_HDR_WRONG_FLOW | VQEC_FEC_HDR_UNSUPPORTED_TYPE
  | VQEC_FEC_HDR_INVALID_L | VQEC_FEC_HDR_INVALID_D | VQEC_FEC_HDR_INVALID_LD | VQEC_FEC_HDR_INVALID_L_2D
  | VQEC_FEC_HDR_WRONG_COLUMN_OFFSET | VQEC_FEC_HDR_INVALID_FLOW_ID | VQEC_FEC_HDR_ERROR_OTHER

datatype vqec_fec_insert_error =
    VQEC_FEC_INSERT_ERROR_INVALID_ARG | VQEC_FEC_INSERT_ERROR_DUPLICATE_PAK | VQEC_FEC_INSERT_ERROR_BAD_RANGE_PAK
  | VQEC_FEC_INSERT_ERROR_LATE_PAK | VQEC_FEC_INSERT_OK

record vqec_fec_params =
  fp_is_fec_enabled :: bool
  fp_avail_streams :: vqec_fec_stream_avail
  fp_fec_type_stream1 :: vqec_fec_type
  fp_fec_type_stream2 :: vqec_fec_type

record vqec_fec_stats =
  fs_late_paks :: u64
  fs_recovered_paks :: u64
  fs_dec_not_needed :: u64
  fs_duplicate_paks :: u64
  fs_total_paks :: u64
  fs_rtp_hdr_invalid :: u64
  fs_hdr_invalid :: u64
  fs_unrecoverable_paks :: u64
  fs_drops_other :: u64
  fs_gap_detected :: u64

text \<open>The fields for columns, or those for rows.\<close>

record fec_ring =
  fr_pak_seq :: "vqec_pak_seq option"
  fr_head :: vqec_seq_num
  fr_tail :: vqec_seq_num
  fr_last_rx_seq_num :: vqec_seq_num
  fr_largest_seq_num_recved :: vqec_seq_num

record vqec_fec =
  fec_column :: fec_ring
  fec_row :: fec_ring
  fec_info :: vqec_fec_info
  fec_column_avail :: bool
  fec_row_avail :: bool
  fec_params :: vqec_fec_params
  fec_stats :: vqec_fec_stats
  fec_stats_snapshot :: vqec_fec_stats
  fec_pcm :: "vqec_pcm option"
  fec_chanid :: u32
  fec_first_pak_processed :: bool
  fec_is_stream1_column :: bool
  fec_sending_order_detected :: bool
  fec_num_paks_saved :: u8
  fec_fst_fec_seq32 :: vqec_seq_num
  fec_fst_sn_base32 :: vqec_seq_num
  fec_snd_fec_seq32 :: vqec_seq_num
  fec_snd_sn_base32 :: vqec_seq_num
  fec_saved_L :: u8
  fec_saved_D :: u8
  fec_update_notices :: nat
  fec_repairs_done :: nat

definition VQEC_FEC_STREAM_RING_BUFFER_BUCKET_BITS :: nat where "VQEC_FEC_STREAM_RING_BUFFER_BUCKET_BITS = 8"
definition MAX_L :: u8 where "MAX_L = 20"
definition MAX_D :: u8 where "MAX_D = 20"
definition MAX_LD :: int where "MAX_LD = 256"
definition MIN_L :: u8 where "MIN_L = 1"
definition MIN_D :: u8 where "MIN_D = 4"
definition MIN_L_IN_2D :: u8 where "MIN_L_IN_2D = 4"

definition fec_ring_of :: "bool \<Rightarrow> vqec_fec \<Rightarrow> fec_ring" where
  "fec_ring_of is_column_fec fec = (if is_column_fec then fec_column fec else fec_row fec)"

definition fec_ring_put :: "bool \<Rightarrow> fec_ring \<Rightarrow> vqec_fec \<Rightarrow> vqec_fec" where
  "fec_ring_put is_column_fec r fec = (if is_column_fec then fec\<lparr>fec_column := r\<rparr> else fec\<lparr>fec_row := r\<rparr>)"

definition fec_stats_upd :: "(vqec_fec_stats \<Rightarrow> vqec_fec_stats) \<Rightarrow> vqec_fec \<Rightarrow> vqec_fec" where
  "fec_stats_upd f fec = fec\<lparr>fec_stats := f (fec_stats fec)\<rparr>"

subsection \<open>The FEC header\<close>

text \<open>The fields in the byte order of the host.\<close>

record fecfasttype =
  fh_snbase_low_bits :: u16
  fh_length_recovery :: u16
  fh_combined1 :: u32
  fh_ts_recovery :: u32
  fh_combined2 :: u16
  fh_combined3 :: u16

definition SIZEOF_FEC_HDR :: nat where "SIZEOF_FEC_HDR = 16"
definition SIZEOF_RTP_HDR :: nat where "SIZEOF_RTP_HDR = 12"

definition fec_hdr_read :: "u8 list \<Rightarrow> fecfasttype outcome" where
  "fec_hdr_read buf =
     (if length buf < SIZEOF_FEC_HDR then Bad_access
      else Done \<lparr>fh_snbase_low_bits = ntohs buf, fh_length_recovery = ntohs (drop 2 buf),
                 fh_combined1 = ntohl (drop 4 buf), fh_ts_recovery = ntohl (drop 8 buf),
                 fh_combined2 = ntohs (drop 12 buf), fh_combined3 = ntohs (drop 14 buf)\<rparr>)"

definition FEC_E_BIT :: "fecfasttype \<Rightarrow> u32" where
  "FEC_E_BIT a = drop_bit 31 (fh_combined1 a AND 0x80000000)"
definition FEC_PT_RECOVERY :: "fecfasttype \<Rightarrow> u32" where
  "FEC_PT_RECOVERY a = drop_bit 24 (fh_combined1 a AND 0x7f000000)"
definition FEC_X_BIT :: "fecfasttype \<Rightarrow> u16" where
  "FEC_X_BIT a = drop_bit 15 (fh_combined2 a AND 0x8000)"
definition FEC_D_BIT :: "fecfasttype \<Rightarrow> u16" where
  "FEC_D_BIT a = drop_bit 14 (fh_combined2 a AND 0x4000)"
definition FEC_TYPE :: "fecfasttype \<Rightarrow> u16" where
  "FEC_TYPE a = drop_bit 11 (fh_combined2 a AND 0x3800)"
definition FEC_OFFSET :: "fecfasttype \<Rightarrow> u16" where
  "FEC_OFFSET a = fh_combined2 a AND 0x00ff"
definition FEC_NA :: "fecfasttype \<Rightarrow> u16" where
  "FEC_NA a = drop_bit 8 (fh_combined3 a AND 0xff00)"

text \<open>The octets of a packet from its head to the end of its buffer.\<close>

definition pak_head_bytes :: "vqec_pak \<Rightarrow> u8 list outcome" where
  "pak_head_bytes pak =
     (case pk_buff pak of
        None \<Rightarrow> Bad_access
      | Some b \<Rightarrow> Done (drop (unat (pk_head_offset pak)) b))"

definition vqec_fec_get_seq_num :: "vqec_pak \<Rightarrow> vqec_seq_num" where
  "vqec_fec_get_seq_num pak = pk_seq_num pak"

text \<open>Whether the header is accepted.\<close>

definition vqec_fec_rtp_hdr_validation :: "u8 list \<Rightarrow> u16 \<Rightarrow> bool outcome" where
  "vqec_fec_rtp_hdr_validation buf len =
     (if len = 0 then Done False
      else bind_out (rtp_validate_hdr rtp_hdr_session_zero buf len) (\<lambda>(rtp_status, _). Done (rtp_hdr_ok rtp_status)))"

definition vqec_fec_get_fec_hdr :: "vqec_pak \<Rightarrow> u8 list option outcome" where
  "vqec_fec_get_fec_hdr pak =
     (if pk_type pak \<noteq> VQEC_PAK_TYPE_FEC then Done None
      else bind_out (pak_head_bytes pak) (\<lambda>b. Done (Some (drop SIZEOF_RTP_HDR b))))"

subsection \<open>The sending order\<close>

definition fec_start_over :: "vqec_fec \<Rightarrow> vqec_seq_num \<Rightarrow> vqec_seq_num \<Rightarrow> u8 \<Rightarrow> u8 \<Rightarrow> vqec_fec" where
  "fec_start_over fec fec_seq32 sn_base32 l_value d_value =
     fec\<lparr>fec_saved_L := l_value, fec_saved_D := d_value, fec_fst_fec_seq32 := fec_seq32,
         fec_fst_sn_base32 := sn_base32, fec_num_paks_saved := 1\<rparr>"

text \<open>The switch on the number of packets seen, with the restart.\<close>

definition fec_collect :: "vqec_fec \<Rightarrow> vqec_seq_num \<Rightarrow> vqec_seq_num \<Rightarrow> u8 \<Rightarrow> u8 \<Rightarrow> vqec_fec" where
  "fec_collect fec fec_seq32 sn_base32 l_value d_value =
     (let start_over = fec_start_over fec fec_seq32 sn_base32 l_value d_value;
          other = (l_value \<noteq> fec_saved_L fec \<or> d_value \<noteq> fec_saved_D fec)
      in if fec_num_paks_saved fec = 0 then start_over
         else if fec_num_paks_saved fec = 1
         then (if other \<or> fec_seq32 \<noteq> vqec_next_seq_num (fec_fst_fec_seq32 fec) then start_over
               else fec\<lparr>fec_snd_fec_seq32 := fec_seq32, fec_snd_sn_base32 := sn_base32, fec_num_paks_saved := 2\<rparr>)
         else if fec_num_paks_saved fec = 2
         then (if other \<or> fec_seq32 \<noteq> vqec_next_seq_num (fec_snd_fec_seq32 fec) then start_over
               else fec\<lparr>fec_num_paks_saved := 3\<rparr>)
         else fec)"

text \<open>The products are computed on \<^verbatim>\<open>int\<close>, where they cannot overflow.\<close>

definition fec_judge_order :: "s32 \<Rightarrow> s32 \<Rightarrow> u8 \<Rightarrow> u8 \<Rightarrow> fec_order" where
  "fec_judge_order sn_base_diff1 sn_base_diff2 l_value d_value =
     (let l = int (unat l_value); d = int (unat d_value); d1 = sint sn_base_diff1; d2 = sint sn_base_diff2
      in if d1 = l * d - (l - 1) \<or> d2 = l * d - (l - 1) \<or> d1 = 1 \<and> d2 = 1 then VQEC_DP_FEC_SENDING_ORDER_ANNEXB
         else if d1 = l + 1 \<or> d2 = l + 1 then VQEC_DP_FEC_SENDING_ORDER_ANNEXA
         else VQEC_DP_FEC_SENDING_ORDER_OTHER)"

definition vqec_fec_detect_sending_order ::
  "vqec_fec \<Rightarrow> vqec_seq_num \<Rightarrow> vqec_seq_num \<Rightarrow> u8 \<Rightarrow> u8 \<Rightarrow> fec_order \<times> vqec_fec" where
  "vqec_fec_detect_sending_order fec fec_seq32 sn_base32 l_value d_value =
     (let fec1 = fec_collect fec fec_seq32 sn_base32 l_value d_value
      in if fec_num_paks_saved fec1 = 3
         then (fec_judge_order (vqec_seq_num_sub (fec_snd_sn_base32 fec1) (fec_fst_sn_base32 fec1))
                 (vqec_seq_num_sub sn_base32 (fec_snd_sn_base32 fec1)) l_value d_value,
               fec1\<lparr>fec_sending_order_detected := True, fec_num_paks_saved := 0\<rparr>)
         else (VQEC_DP_FEC_SENDING_ORDER_NOT_DECIDED, fec1))"

subsection \<open>Validation of a FEC header\<close>

text \<open>The delay that a decided order of packets needs, as a number of packets.\<close>

definition fec_factor :: "fec_order \<Rightarrow> u8 \<Rightarrow> u8 \<Rightarrow> int" where
  "fec_factor res l_value d_value =
     (let l = int (unat l_value); d = int (unat d_value)
      in case res of
           VQEC_DP_FEC_SENDING_ORDER_ANNEXA \<Rightarrow> l * d + l
         | VQEC_DP_FEC_SENDING_ORDER_ANNEXB \<Rightarrow> 2 * l * d
         | VQEC_DP_FEC_SENDING_ORDER_OTHER \<Rightarrow> 2 * l * d
         | VQEC_DP_FEC_SENDING_ORDER_NOT_DECIDED \<Rightarrow> MAX_LD)"

definition fec_pkt_time :: "vqec_pcm \<Rightarrow> rel_time" where
  "fec_pkt_time pcm =
     (if pcm_ts_calculation_done pcm \<and> rel_time_lt (pcm_avg_pkt_time pcm) (pcm_new_rtp_ts_pkt_time pcm)
      then pcm_new_rtp_ts_pkt_time pcm else pcm_avg_pkt_time pcm)"

text \<open>What follows when the shape of the block is new, or its sending order not known yet.\<close>

definition fec_learn ::
  "vqec_fec \<Rightarrow> vqec_pcm \<Rightarrow> u8 list \<Rightarrow> fecfasttype \<Rightarrow> u8 \<Rightarrow> u8 \<Rightarrow> (vqec_fec_hdr_error \<times> vqec_fec) outcome" where
  "fec_learn fec pcm buff fec_hdr l_value d_value =
     (if fp_avail_streams (fec_params fec) = VQEC_FEC_STREAM_AVAIL_2D \<and> l_value < MIN_L_IN_2D
      then Done (VQEC_FEC_HDR_INVALID_L_2D, fec)
      else if int (unat l_value) * int (unat d_value) > MAX_LD then Done (VQEC_FEC_HDR_INVALID_LD, fec)
      else let fec_seq32 = vqec_seq_num_nearest_to_rtp_seq_num (fr_last_rx_seq_num (fec_column fec)) (ntohs (drop 2 buff));
               sn_base32 = vqec_seq_num_nearest_to_rtp_seq_num (pcm_last_rx_seq_num pcm) (fh_snbase_low_bits fec_hdr);
               (res, fec1) = vqec_fec_detect_sending_order fec fec_seq32 sn_base32 l_value d_value
           in if res = VQEC_DP_FEC_SENDING_ORDER_NOT_DECIDED then Done (VQEC_FEC_HDR_OK, fec1)
              else let fec2 = fec1\<lparr>fec_info := (fec_info fec1)\<lparr>fi_fec_l_value := l_value, fi_fec_d_value := d_value,
                                     fi_fec_order := res\<rparr>,
                                  fec_update_notices := fec_update_notices fec1 + 1\<rparr>;
                       fec_delay = rel_time_mult_int (fec_pkt_time pcm) (word_of_int (fec_factor res l_value d_value))
                   in bind_out (vqec_pcm_update_fec_delay pcm fec_delay) (\<lambda>pcm1.
                        Done (VQEC_FEC_HDR_OK, fec2\<lparr>fec_pcm := Some pcm1\<rparr>)))"

definition vqec_fec_hdr_validation ::
  "vqec_fec \<Rightarrow> u8 list \<Rightarrow> bool \<Rightarrow> (vqec_fec_hdr_error \<times> vqec_fec) outcome" where
  "vqec_fec_hdr_validation fec buff is_column_fec =
     (case fec_pcm fec of
        None \<Rightarrow> Done (VQEC_FEC_HDR_ERROR_OTHER, fec)
      | Some pcm \<Rightarrow>
          bind_out (fec_hdr_read (drop SIZEOF_RTP_HDR buff)) (\<lambda>fec_hdr.
            if FEC_X_BIT fec_hdr \<noteq> 0 then Done (VQEC_FEC_HDR_WRONG_VERSION, fec)
            else if FEC_E_BIT fec_hdr = 0 then Done (VQEC_FEC_HDR_WRONG_VERSION, fec)
            else if FEC_TYPE fec_hdr \<noteq> 0 then Done (VQEC_FEC_HDR_UNSUPPORTED_TYPE, fec)
            else if is_column_fec
            then (let l_value = ucast (FEC_OFFSET fec_hdr); d_value = ucast (FEC_NA fec_hdr)
                  in if FEC_D_BIT fec_hdr \<noteq> 0 then Done (VQEC_FEC_HDR_WRONG_FLOW, fec)
                     else if l_value > MAX_L \<or> l_value < MIN_L then Done (VQEC_FEC_HDR_INVALID_L, fec)
                     else if d_value > MAX_D \<or> d_value < MIN_D then Done (VQEC_FEC_HDR_INVALID_D, fec)
                     else if l_value \<noteq> fi_fec_l_value (fec_info fec) \<or> d_value \<noteq> fi_fec_d_value (fec_info fec) \<or>
                             \<not> fec_sending_order_detected fec
                     then fec_learn fec pcm buff fec_hdr l_value d_value
                     else Done (VQEC_FEC_HDR_OK, fec))
            else if FEC_D_BIT fec_hdr = 0 then Done (VQEC_FEC_HDR_WRONG_FLOW, fec)
            else if FEC_OFFSET fec_hdr \<noteq> 1 then Done (VQEC_FEC_HDR_WRONG_COLUMN_OFFSET, fec)
            else Done (VQEC_FEC_HDR_OK, fec)))"

subsection \<open>The switch for demonstrations\<close>

record fec_globals =
  g_fec_enabled :: bool
  g_fec_set :: bool

definition vqec_dp_set_fec :: "bool \<Rightarrow> fec_globals \<Rightarrow> fec_globals" where
  "vqec_dp_set_fec enabled g = g\<lparr>g_fec_enabled := enabled, g_fec_set := True\<rparr>"

text \<open>The two output arguments; the first is written only when the switch has been set.\<close>

definition vqec_dp_get_fec :: "bool \<Rightarrow> bool \<Rightarrow> fec_globals \<Rightarrow> bool \<times> bool" where
  "vqec_dp_get_fec fec fec_set g = (if g_fec_set g then g_fec_enabled g else fec, g_fec_set g)"

subsection \<open>Creation, destruction and flush\<close>

definition fec_stats_zero :: vqec_fec_stats where
  "fec_stats_zero = \<lparr>fs_late_paks = 0, fs_recovered_paks = 0, fs_dec_not_needed = 0, fs_duplicate_paks = 0,
     fs_total_paks = 0, fs_rtp_hdr_invalid = 0, fs_hdr_invalid = 0, fs_unrecoverable_paks = 0, fs_drops_other = 0,
     fs_gap_detected = 0\<rparr>"

definition fec_ring_zero :: fec_ring where
  "fec_ring_zero = \<lparr>fr_pak_seq = None, fr_head = 0, fr_tail = 0, fr_last_rx_seq_num = 0, fr_largest_seq_num_recved = 0\<rparr>"

definition fec_zero :: vqec_fec where
  "fec_zero = \<lparr>fec_column = fec_ring_zero, fec_row = fec_ring_zero,
     fec_info = \<lparr>fi_fec_l_value = 0, fi_fec_d_value = 0, fi_fec_order = VQEC_DP_FEC_SENDING_ORDER_NOT_DECIDED,
                 fi_rtp_ts_pkt_time = 0\<rparr>,
     fec_column_avail = False, fec_row_avail = False,
     fec_params = \<lparr>fp_is_fec_enabled = False, fp_avail_streams = VQEC_FEC_STREAM_AVAIL_NONE,
                   fp_fec_type_stream1 = VQEC_FEC_TYPE_XOR, fp_fec_type_stream2 = VQEC_FEC_TYPE_XOR\<rparr>,
     fec_stats = fec_stats_zero, fec_stats_snapshot = fec_stats_zero, fec_pcm = None, fec_chanid = 0,
     fec_first_pak_processed = False, fec_is_stream1_column = False, fec_sending_order_detected = False,
     fec_num_paks_saved = 0, fec_fst_fec_seq32 = 0, fec_fst_sn_base32 = 0, fec_snd_fec_seq32 = 0,
     fec_snd_sn_base32 = 0, fec_saved_L = 0, fec_saved_D = 0, fec_update_notices = 0, fec_repairs_done = 0\<rparr>"

definition fec_ring_destroy :: "fec_ring \<Rightarrow> pak_heap \<Rightarrow> pak_heap outcome" where
  "fec_ring_destroy r h =
     (case fr_pak_seq r of
        None \<Rightarrow> Done h
      | Some s \<Rightarrow> vqec_pak_seq_destroy_in_pool s h)"

text \<open>The module goes back to its pool, and what is left of the call is the heap.\<close>

definition vqec_fec_destroy :: "vqec_fec \<Rightarrow> pak_heap \<Rightarrow> pak_heap outcome" where
  "vqec_fec_destroy fec h =
     bind_out (fec_ring_destroy (fec_column fec) h) (fec_ring_destroy (fec_row fec))"

text \<open>The flags say whether a module, a sequencer for columns and one for rows are free.\<close>

definition vqec_fec_create ::
  "bool \<Rightarrow> bool \<Rightarrow> bool \<Rightarrow> vqec_fec_params option \<Rightarrow> vqec_pcm option \<Rightarrow> u32 \<Rightarrow> pak_heap \<Rightarrow>
   (vqec_fec option \<times> pak_heap) outcome" where
  "vqec_fec_create mem mem_column mem_row fec_param pcm chanid h =
     (case fec_param of
        None \<Rightarrow> Done (None, h)
      | Some params \<Rightarrow>
          if \<not> fp_is_fec_enabled params \<or> pcm = None \<or> \<not> mem then Done (None, h)
          else
            let fec = fec_zero\<lparr>fec_pcm := pcm, fec_chanid := chanid\<rparr>;
                col = vqec_pak_seq_create_in_pool mem_column VQEC_FEC_STREAM_RING_BUFFER_BUCKET_BITS;
                row = vqec_pak_seq_create_in_pool mem_row VQEC_FEC_STREAM_RING_BUFFER_BUCKET_BITS;
                fec1 = fec\<lparr>fec_column := fec_ring_zero\<lparr>fr_pak_seq := col\<rparr>\<rparr>;
                fec2 = fec1\<lparr>fec_row := fec_ring_zero\<lparr>fr_pak_seq := row\<rparr>\<rparr>;
                fail = (\<lambda>f. bind_out (vqec_fec_destroy f h) (\<lambda>h1. Done (None, h1)))
            in (case fp_avail_streams params of
                  VQEC_FEC_STREAM_AVAIL_NONE \<Rightarrow> fail fec
                | VQEC_FEC_STREAM_AVAIL_1D \<Rightarrow>
                    (case col of
                       None \<Rightarrow> fail fec1
                     | Some s \<Rightarrow> if vqec_pak_seq_get_num_paks s \<noteq> 0 then Assert_failed
                                 else Done (Some (fec1\<lparr>fec_params := params\<rparr>), h))
                | VQEC_FEC_STREAM_AVAIL_2D \<Rightarrow>
                    (case (col, row) of
                       (None, _) \<Rightarrow> fail fec1
                     | (Some s, None) \<Rightarrow> fail fec2
                     | (Some s, Some t) \<Rightarrow>
                         if vqec_pak_seq_get_num_paks s \<noteq> 0 \<or> vqec_pak_seq_get_num_paks t \<noteq> 0 then Assert_failed
                         else Done (Some (fec2\<lparr>fec_params := params\<rparr>), h))))"


subsection \<open>Insertion\<close>





subsection \<open>Neighbours and removal\<close>

text \<open>The search upwards stops behind the tail, or after a whole turn of the buckets.\<close>

function fec_next_loop :: "vqec_pak_seq \<Rightarrow> vqec_seq_num \<Rightarrow> vqec_seq_num \<Rightarrow> vqec_seq_num \<Rightarrow> pak_ptr option" where
  "fec_next_loop s tail seq_num temp =
     (if vqec_pak_seq_find s temp \<noteq> None then vqec_pak_seq_find s temp
      else let temp1 = vqec_next_seq_num temp
           in if vqec_seq_num_gt temp1 tail then None
              else if vqec_pak_seq_find_bucket s temp1 = vqec_pak_seq_find_bucket s seq_num then None
              else fec_next_loop s tail seq_num temp1)"
  by pat_completeness auto

lemma fec_next_further:
  assumes "\<not> vqec_seq_num_gt (vqec_next_seq_num t) tail"
  shows "fdist (vqec_next_seq_num t) tail < fdist t tail"
proof (cases "t = tail")
  case True
  then show ?thesis using assms by (simp add: vqec_next_seq_num_def seq_simps)
next
  case False
  then have "0 < fdist t tail" by (simp add: unat_gt_0)
  then show ?thesis by (simp add: vqec_next_seq_num_def fdist_plus)
qed

termination fec_next_loop
  by (relation "measure (\<lambda>(s, tail, seq_num, temp). fdist temp tail)") (auto intro: fec_next_further)

declare fec_next_loop.simps [simp del]

definition vqec_fec_find_next_packet_internal :: "fec_ring \<Rightarrow> pak_heap \<Rightarrow> pak_ptr option \<Rightarrow> pak_ptr option" where
  "vqec_fec_find_next_packet_internal r h pak =
     (case fr_pak_seq r of
        None \<Rightarrow> None
      | Some s \<Rightarrow>
          if vqec_pak_seq_get_num_paks s = 0 then None
          else (case pak of
            None \<Rightarrow> vqec_pak_seq_find s (fr_head r)
          | Some p \<Rightarrow>
              let seq_num = vqec_fec_get_seq_num (ph_mem h p)
              in if vqec_pak_seq_find s seq_num = None then None
                 else if seq_num = fr_tail r then None
                 else fec_next_loop s (fr_tail r) seq_num (vqec_next_seq_num seq_num)))"

definition vqec_fec_find_pre_packet_internal :: "fec_ring \<Rightarrow> pak_heap \<Rightarrow> pak_ptr option \<Rightarrow> pak_ptr option" where
  "vqec_fec_find_pre_packet_internal r h pak =
     (case fr_pak_seq r of
        None \<Rightarrow> None
      | Some s \<Rightarrow>
          if vqec_pak_seq_get_num_paks s = 0 then None
          else (case pak of
            None \<Rightarrow> vqec_pak_seq_find s (fr_tail r)
          | Some p \<Rightarrow>
              let seq_num = vqec_fec_get_seq_num (ph_mem h p)
              in if vqec_pak_seq_find s seq_num = None then None
                 else if seq_num = fr_head r then None
                 else pre_loop s (fr_head r) seq_num (vqec_pre_seq_num seq_num)))"

text \<open>The ends without the packet, or nothing when a neighbour that must be there is not found.\<close>

definition fec_shrink :: "fec_ring \<Rightarrow> vqec_pak_seq \<Rightarrow> pak_heap \<Rightarrow> pak_ptr \<Rightarrow> fec_ring option outcome" where
  "fec_shrink r s h pak =
     (let seq_num = vqec_fec_get_seq_num (ph_mem h pak)
      in if fr_head r = seq_num \<and> fr_tail r = seq_num
         then (if vqec_pak_seq_get_num_paks s = 1 then Done (Some r) else Assert_failed)
         else if fr_head r = seq_num
         then Done (case vqec_fec_find_next_packet_internal r h (Some pak) of
                      None \<Rightarrow> None
                    | Some next_pak \<Rightarrow> Some (r\<lparr>fr_head := vqec_fec_get_seq_num (ph_mem h next_pak)\<rparr>))
         else if fr_tail r = seq_num
         then Done (case vqec_fec_find_pre_packet_internal r h (Some pak) of
                      None \<Rightarrow> None
                    | Some pre_pak \<Rightarrow> Some (r\<lparr>fr_tail := vqec_fec_get_seq_num (ph_mem h pre_pak)\<rparr>))
         else Done (Some r))"

definition vqec_fec_remove_packet ::
  "vqec_fec \<Rightarrow> pak_ptr \<Rightarrow> bool \<Rightarrow> pak_heap \<Rightarrow> (bool \<times> vqec_fec \<times> pak_heap) outcome" where
  "vqec_fec_remove_packet fec pak is_column_fec h =
     (let r = fec_ring_of is_column_fec fec; seq_num = vqec_fec_get_seq_num (ph_mem h pak)
      in case fr_pak_seq r of
           None \<Rightarrow> Done (False, fec, h)
         | Some s \<Rightarrow>
             if vqec_pak_seq_find s seq_num \<noteq> Some pak then Done (False, fec, h)
             else bind_out (fec_shrink r s h pak) (\<lambda>shrunk.
                    case shrunk of
                      None \<Rightarrow> Done (False, fec, h)
                    | Some r1 \<Rightarrow>
                        bind_out (vqec_pak_seq_delete s seq_num h) (\<lambda>(ok, s1, h1).
                          Done (ok, fec_ring_put is_column_fec ((if ok then r1 else r)\<lparr>fr_pak_seq := Some s1\<rparr>) fec, h1))))"

subsection \<open>Counters\<close>

definition vqec_fec_counter_clear :: "vqec_fec \<Rightarrow> vqec_fec" where
  "vqec_fec_counter_clear fec = fec\<lparr>fec_stats_snapshot := fec_stats fec\<rparr>"

definition fec_stats_minus :: "vqec_fec_stats \<Rightarrow> vqec_fec_stats \<Rightarrow> vqec_fec_stats" where
  "fec_stats_minus s t =
     \<lparr>fs_late_paks = fs_late_paks s - fs_late_paks t, fs_recovered_paks = fs_recovered_paks s - fs_recovered_paks t,
      fs_dec_not_needed = fs_dec_not_needed s - fs_dec_not_needed t,
      fs_duplicate_paks = fs_duplicate_paks s - fs_duplicate_paks t,
      fs_total_paks = fs_total_paks s - fs_total_paks t,
      fs_rtp_hdr_invalid = fs_rtp_hdr_invalid s - fs_rtp_hdr_invalid t,
      fs_hdr_invalid = fs_hdr_invalid s - fs_hdr_invalid t,
      fs_unrecoverable_paks = fs_unrecoverable_paks s - fs_unrecoverable_paks t,
      fs_drops_other = fs_drops_other s - fs_drops_other t,
      fs_gap_detected = fs_gap_detected s - fs_gap_detected t\<rparr>"

record vqec_dp_fec_status =
  df_is_fec_enabled :: bool
  df_avail_streams :: vqec_fec_stream_avail
  df_column_avail :: bool
  df_row_avail :: bool
  df_L :: u8
  df_D :: u8
  df_fec_column_head :: vqec_seq_num
  df_fec_column_tail :: vqec_seq_num
  df_fec_row_head :: vqec_seq_num
  df_fec_row_tail :: vqec_seq_num
  df_stats :: vqec_fec_stats

definition vqec_fec_get_status :: "vqec_fec \<Rightarrow> bool \<Rightarrow> vqec_dp_fec_status" where
  "vqec_fec_get_status fec cumulative =
     \<lparr>df_is_fec_enabled = fp_is_fec_enabled (fec_params fec), df_avail_streams = fp_avail_streams (fec_params fec),
      df_column_avail = fec_column_avail fec, df_row_avail = fec_row_avail fec,
      df_L = fi_fec_l_value (fec_info fec), df_D = fi_fec_d_value (fec_info fec),
      df_fec_column_head = fr_head (fec_column fec), df_fec_column_tail = fr_tail (fec_column fec),
      df_fec_row_head = fr_head (fec_row fec), df_fec_row_tail = fr_tail (fec_row fec),
      df_stats = (if cumulative then fec_stats fec else fec_stats_minus (fec_stats fec) (fec_stats_snapshot fec))\<rparr>"

subsection \<open>The detection of the sending order\<close>

text \<open>The number of the first packet of a block that the FEC packet \<open>n\<close> of a head end protects when it sends the
  columns of a block one after the other, as in Annex B of the code of practice.\<close>

definition annexb_base :: "vqec_seq_num \<Rightarrow> nat \<Rightarrow> nat \<Rightarrow> nat \<Rightarrow> vqec_seq_num" where
  "annexb_base base l d n = base + of_nat (n div l * (l * d) + n mod l)"

lemma annexb_step:
  assumes "0 < l" "0 < d"
  shows "annexb_base base l d (Suc n) - annexb_base base l d n =
    of_nat (if Suc n mod l = 0 then l * d - (l - 1) else 1)"
proof (cases "Suc n mod l = 0")
  case True
  then have m: "n mod l = l - 1" "Suc n div l = Suc (n div l)"
    using assms(1) mod_Suc [of n l] div_Suc [of n l] by (auto split: if_splits)
  have "l - 1 \<le> l * d" using assms by (cases d) auto
  then have "n div l * (l * d) + l * d = (n div l * (l * d) + (l - 1)) + (l * d - (l - 1))" by simp
  then have "of_nat (n div l * (l * d) + l * d) =
      (of_nat (n div l * (l * d) + (l - 1)) + of_nat (l * d - (l - 1)) :: vqec_seq_num)" by (metis of_nat_add)
  then show ?thesis using True m by (simp add: annexb_base_def algebra_simps)
next
  case False
  then have "Suc n mod l = Suc (n mod l)" "Suc n div l = n div l"
    using mod_Suc [of n l] div_Suc [of n l] by (auto split: if_splits)
  then show ?thesis using False by (simp add: annexb_base_def)
qed

lemma sint_of_nat_small: "n < 2 ^ 31 \<Longrightarrow> sint (of_nat n :: s32) = int n"
  by (simp add: signed_of_nat signed_take_bit_int_eq_self)

lemma two_steps_not_zero:
  assumes "(1 :: nat) < l" "Suc n mod l = 0"
  shows "Suc (Suc n) mod l \<noteq> 0"
  using assms mod_Suc [of "Suc n" l] by auto

text \<open>Three packets in sequence with the same shape are judged by the distances of their bases.\<close>

lemma detect_three:
  assumes "fec_num_paks_saved fec = 0"
    and "vqec_fec_detect_sending_order fec s b1 l d = (o1, f1)"
    and "vqec_fec_detect_sending_order f1 (vqec_next_seq_num s) b2 l d = (o2, f2)"
    and "vqec_fec_detect_sending_order f2 (vqec_next_seq_num (vqec_next_seq_num s)) b3 l d = (o3, f3)"
  shows "o1 = VQEC_DP_FEC_SENDING_ORDER_NOT_DECIDED" "o2 = VQEC_DP_FEC_SENDING_ORDER_NOT_DECIDED"
    "o3 = fec_judge_order (b2 - b1) (b3 - b2) l d" "fec_sending_order_detected f3" "fec_num_paks_saved f3 = 0"
  using assms
  by (auto simp: vqec_fec_detect_sending_order_def fec_collect_def fec_start_over_def Let_def vqec_seq_num_sub_def)

text \<open>C38: the sending order of the head end is detected. Of any three successive FEC packets of a head end that
  sends the columns of its blocks in turn, the first two leave the order open and the third one decides for
  Annex B, wherever in a block they start; the module is then ready for the next detection.\<close>

theorem annexb_stream_detected:
  assumes "fec_num_paks_saved fec = 0" and "1 \<le> unat l" and "4 \<le> unat d"
    and "vqec_fec_detect_sending_order fec s (annexb_base base (unat l) (unat d) n) l d = (o1, f1)"
    and "vqec_fec_detect_sending_order f1 (vqec_next_seq_num s) (annexb_base base (unat l) (unat d) (n + 1)) l d = (o2, f2)"
    and "vqec_fec_detect_sending_order f2 (vqec_next_seq_num (vqec_next_seq_num s))
           (annexb_base base (unat l) (unat d) (n + 2)) l d = (o3, f3)"
  shows "o1 = VQEC_DP_FEC_SENDING_ORDER_NOT_DECIDED \<and> o2 = VQEC_DP_FEC_SENDING_ORDER_NOT_DECIDED \<and>
    o3 = VQEC_DP_FEC_SENDING_ORDER_ANNEXB \<and> fec_sending_order_detected f3 \<and> fec_num_paks_saved f3 = 0"
proof -
  note t = detect_three [OF assms(1,4-6)]
  let ?B = "annexb_base base (unat l) (unat d)" and ?k = "unat l * unat d - (unat l - 1)"
  have lt: "unat l < 256" "unat d < 256" using unat_less_pow [of l] unat_less_pow [of d] by simp_all
  then have "unat l * unat d \<le> 255 * 255" by (intro mult_le_mono) simp_all
  then have k: "?k < 2 ^ 31" by simp
  have "unat l - 1 \<le> unat l * unat d" using assms(2,3) by (cases "unat d") auto
  then have ki: "int ?k = int (unat l) * int (unat d) - (int (unat l) - 1)"
    using assms(2) by simp
  have st: "?B (Suc m) - ?B m = of_nat (if Suc m mod unat l = 0 then ?k else 1)" for m
    using assms(2,3) by (intro annexb_step) simp_all
  have "fec_judge_order (?B (n + 1) - ?B n) (?B (n + 2) - ?B (n + 1)) l d = VQEC_DP_FEC_SENDING_ORDER_ANNEXB"
    using st [of n] st [of "n + 1"] sint_of_nat_small [OF k] ki
    by (auto simp: fec_judge_order_def Let_def numeral_2_eq_2)
  then show ?thesis using t by simp
qed

theorem annexb_stream_detected_witness:
  "\<exists>f1 f2 f3. vqec_fec_detect_sending_order fec_zero 7 102 5 10 = (VQEC_DP_FEC_SENDING_ORDER_NOT_DECIDED, f1) \<and>
     vqec_fec_detect_sending_order f1 8 103 5 10 = (VQEC_DP_FEC_SENDING_ORDER_NOT_DECIDED, f2) \<and>
     vqec_fec_detect_sending_order f2 9 104 5 10 = (VQEC_DP_FEC_SENDING_ORDER_ANNEXB, f3)"
proof -
  obtain o1 f1 o2 f2 o3 f3 where d: "vqec_fec_detect_sending_order fec_zero 7 102 5 10 = (o1, f1)"
    "vqec_fec_detect_sending_order f1 8 103 5 10 = (o2, f2)" "vqec_fec_detect_sending_order f2 9 104 5 10 = (o3, f3)"
    by (metis surj_pair)
  have "annexb_base 100 5 10 2 = 102" "annexb_base 100 5 10 3 = 103" "annexb_base 100 5 10 4 = 104"
    by (simp_all add: annexb_base_def)
  then show ?thesis
    using annexb_stream_detected [of fec_zero 5 10 7 100 2 o1 f1 o2 f2 o3 f3] d
    by (auto simp: vqec_next_seq_num_def fec_zero_def)
qed

text \<open>The two patterns exclude each other for the blocks that are accepted, so that two steps of Annex A are
  taken for Annex A.\<close>

lemma annex_patterns_exclusive:
  assumes "1 \<le> unat l" "4 \<le> unat d"
  shows "int (unat l) * int (unat d) - (int (unat l) - 1) \<noteq> int (unat l) + 1"
proof -
  have "4 \<le> int (unat d)" using assms(2) by linarith
  then have "int (unat l) * 4 \<le> int (unat l) * int (unat d)" by (rule mult_left_mono) simp
  then show ?thesis using assms(1) by linarith
qed

lemma annexa_judged:
  assumes "1 \<le> unat l" "4 \<le> unat d"
  shows "fec_judge_order (of_nat (unat l + 1)) (of_nat (unat l + 1)) l d = VQEC_DP_FEC_SENDING_ORDER_ANNEXA"
proof -
  have "unat l + 1 < 2 ^ 31" using unat_less_pow [of l] by simp
  from sint_of_nat_small [OF this] show ?thesis
    unfolding fec_judge_order_def Let_def using annex_patterns_exclusive [OF assms] assms(1) by (auto simp: word_le_nat_alt)
qed

subsection \<open>The invariant of a ring\<close>

definition ring_map :: "fec_ring \<Rightarrow> vqec_seq_num \<Rightarrow> pak_ptr option" where
  "ring_map r = (case fr_pak_seq r of None \<Rightarrow> Map.empty | Some s \<Rightarrow> vqec_pak_seq_find s)"

text \<open>The ring has 256 buckets, holds its packets, and they lie between the head and the tail, both present
  and less than 256 apart.\<close>

definition ring_ok :: "pak_heap \<Rightarrow> fec_ring \<Rightarrow> bool" where
  "ring_ok h r \<longleftrightarrow> (\<exists>s. fr_pak_seq r = Some s \<and> seq_ok s \<and> seq_cap s = 256 \<and> seq_held h s) \<and>
     ends_ok (ring_map r) (fr_head r) (fr_tail r) \<and> (ring_map r \<noteq> Map.empty \<longrightarrow> fdist (fr_head r) (fr_tail r) < 256)"

lemma ring_okE:
  assumes "ring_ok h r"
  obtains s where "fr_pak_seq r = Some s" "seq_ok s" "seq_cap s = 256" "seq_held h s" "ring_map r = vqec_pak_seq_find s"
    "ends_ok (vqec_pak_seq_find s) (fr_head r) (fr_tail r)"
    "vqec_pak_seq_find s \<noteq> Map.empty \<Longrightarrow> fdist (fr_head r) (fr_tail r) < 256"
  using assms by (auto simp: ring_ok_def ring_map_def)

lemma ring_okI:
  assumes "fr_pak_seq r = Some s" "seq_ok s" "seq_cap s = 256" "seq_held h s"
    "ends_ok (vqec_pak_seq_find s) (fr_head r) (fr_tail r)"
    "vqec_pak_seq_find s \<noteq> Map.empty \<Longrightarrow> fdist (fr_head r) (fr_tail r) < 256"
  shows "ring_ok h r"
  using assms by (auto simp: ring_ok_def ring_map_def)

lemma ring_put_of [simp]:
  "fec_ring_of c (fec_ring_put c r fec) = r" "fec_ring_of (\<not> c) (fec_ring_put c r fec) = fec_ring_of (\<not> c) fec"
  "fec_params (fec_ring_put c r fec) = fec_params fec" "fec_pcm (fec_ring_put c r fec) = fec_pcm fec"
  "fec_stats (fec_ring_put c r fec) = fec_stats fec" "fec_info (fec_ring_put c r fec) = fec_info fec"
  by (simp_all add: fec_ring_of_def fec_ring_put_def)

lemma stats_upd_of [simp]:
  "fec_ring_of c (fec_stats_upd f fec) = fec_ring_of c fec" "fec_params (fec_stats_upd f fec) = fec_params fec"
  "fec_pcm (fec_stats_upd f fec) = fec_pcm fec"
  by (simp_all add: fec_ring_of_def fec_stats_upd_def)

text \<open>The search upwards finds the next packet of the ring.\<close>

lemma fec_next_loop_ok:
  assumes ok: "seq_ok s" and tl: "vqec_pak_seq_find s tail \<noteq> None"
    and "fdist head n < fdist head t" "fdist head t \<le> fdist head tail" "fdist head tail < seq_cap s"
  shows "\<exists>n' q. fec_next_loop s tail n t = Some q \<and> vqec_pak_seq_find s n' = Some q \<and> fdist head t \<le> fdist head n' \<and>
    (\<forall>k. vqec_pak_seq_find s k \<noteq> None \<longrightarrow> \<not> (fdist head t \<le> fdist head k \<and> fdist head k < fdist head n'))"
  using assms(3,4)
proof (induction "fdist head tail - fdist head t" arbitrary: t rule: less_induct)
  case less
  let ?f = "vqec_pak_seq_find s"
  show ?case
  proof (cases "?f t")
    case (Some q)
    then show ?thesis by (intro exI [of _ t] exI [of _ q]) (auto simp: fec_next_loop.simps)
  next
    case None
    let ?t = "vqec_next_seq_num t"
    have "fdist head t \<noteq> fdist head tail" using None tl by (metis at_dist)
    then have lt: "fdist head t < fdist head tail" using less.prems(2) by simp
    have cap: "seq_cap s \<le> 65536" using seq_cap_bounds(2) [OF ok] .
    have d: "fdist head ?t = Suc (fdist head t)"
      using fdist_step [of t head 1] lt assms(5) cap by (simp add: vqec_next_seq_num_def)
    have "fdist ?t tail = fdist head tail - fdist head ?t" using d lt by (intro unat_window_diff) simp
    then have "fdist ?t tail < 65536" using assms(5) cap by linarith
    then have ng: "\<not> vqec_seq_num_gt ?t tail"
      using fdist_swap [of tail ?t] by (cases "?t = tail") (auto simp: seq_simps)
    have "?t \<noteq> n" using d less.prems(1) by auto
    moreover have "fdist head ?t < seq_cap s" "fdist head n < seq_cap s" using d lt less.prems assms(5) by linarith+
    ultimately have nb: "vqec_pak_seq_find_bucket s ?t \<noteq> vqec_pak_seq_find_bucket s n"
      using seqs.window_slot [OF ok, of ?t head n] by (auto simp: find_bucket_mod(1) [OF ok])
    have e: "fec_next_loop s tail n t = fec_next_loop s tail n ?t"
      using None ng nb by (subst fec_next_loop.simps) (simp add: Let_def)
    have "fdist head tail - fdist head ?t < fdist head tail - fdist head t" "fdist head n < fdist head ?t"
      "fdist head ?t \<le> fdist head tail" using d lt less.prems by simp_all
    from less.hyps [OF this] obtain n' q where q: "fec_next_loop s tail n ?t = Some q" "?f n' = Some q"
      "fdist head ?t \<le> fdist head n'"
      "\<forall>k. ?f k \<noteq> None \<longrightarrow> \<not> (fdist head ?t \<le> fdist head k \<and> fdist head k < fdist head n')"
      by (elim exE conjE) (rule that)
    have "\<not> (fdist head t \<le> fdist head k \<and> fdist head k < fdist head n')" if k: "?f k \<noteq> None" for k
    proof -
      have "fdist head k \<noteq> fdist head t" using k None by (metis at_dist)
      then show ?thesis using q(4) k d by auto
    qed
    then show ?thesis using e q d by (intro exI [of _ n'] exI [of _ q]) simp
  qed
qed

lemma ring_next_ok:
  assumes "ring_ok h r" "ring_map r n = Some p" "n \<noteq> fr_tail r"
  shows "\<exists>n' q. vqec_fec_find_next_packet_internal r h (Some p) = Some q \<and> ring_map r n' = Some q \<and>
    next_num (ring_map r) (fr_head r) n n'"
  using assms(1)
proof (rule ring_okE)
  fix s
  assume s: "fr_pak_seq r = Some s" "seq_ok s" "seq_cap s = 256" "seq_held h s" "ring_map r = vqec_pak_seq_find s"
    "ends_ok (vqec_pak_seq_find s) (fr_head r) (fr_tail r)"
    "vqec_pak_seq_find s \<noteq> Map.empty \<Longrightarrow> fdist (fr_head r) (fr_tail r) < 256"
  let ?f = "vqec_pak_seq_find s" and ?h = "fr_head r" and ?t = "fr_tail r" and ?n1 = "vqec_next_seq_num n"
  have n: "?f n = Some p" and ne: "?f n \<noteq> None" using assms(2) s(5) by simp_all
  have pn: "pk_seq_num (ph_mem h p) = n" using s(4) n by (simp add: seq_held_def)
  have num: "vqec_pak_seq_get_num_paks s \<noteq> 0" using num_paks_empty [OF s(2)] ne by auto
  note e = ends_okD [OF s(6) ne]
  have w: "fdist ?h ?t < 256" by (rule s(7)) (use ne in \<open>auto simp: fun_eq_iff\<close>)
  have "fdist ?h n \<noteq> fdist ?h ?t" using assms(3) by (metis at_dist)
  then have lt: "fdist ?h n < fdist ?h ?t" using e(5) by simp
  have d: "fdist ?h ?n1 = fdist ?h n + 1" using fdist_step [of n ?h 1] lt w by (simp add: vqec_next_seq_num_def)
  have a: "fdist ?h n < fdist ?h ?n1" "fdist ?h ?n1 \<le> fdist ?h ?t" "fdist ?h ?t < seq_cap s" using d lt w s(3) by simp_all
  from fec_next_loop_ok [OF s(2) e(2) a] obtain n' q where q: "fec_next_loop s ?t n ?n1 = Some q" "?f n' = Some q"
    "fdist ?h ?n1 \<le> fdist ?h n'" "\<forall>k. ?f k \<noteq> None \<longrightarrow> \<not> (fdist ?h ?n1 \<le> fdist ?h k \<and> fdist ?h k < fdist ?h n')"
    by (elim exE conjE) (rule that)
  have "next_num ?f ?h n n'" using q(2-4) d by (auto simp: next_num_def)
  moreover have "vqec_fec_find_next_packet_internal r h (Some p) = Some q"
    using s(1) num n pn assms(3) q(1) by (simp add: vqec_fec_find_next_packet_internal_def vqec_fec_get_seq_num_def)
  ultimately show ?thesis using q(2) s(5) by auto
qed

lemma ring_pre_ok:
  assumes "ring_ok h r" "ring_map r n = Some p" "n \<noteq> fr_head r"
  shows "\<exists>n' q. vqec_fec_find_pre_packet_internal r h (Some p) = Some q \<and> ring_map r n' = Some q \<and>
    next_num (ring_map r) (fr_head r) n' n"
  using assms(1)
proof (rule ring_okE)
  fix s
  assume s: "fr_pak_seq r = Some s" "seq_ok s" "seq_cap s = 256" "seq_held h s" "ring_map r = vqec_pak_seq_find s"
    "ends_ok (vqec_pak_seq_find s) (fr_head r) (fr_tail r)"
    "vqec_pak_seq_find s \<noteq> Map.empty \<Longrightarrow> fdist (fr_head r) (fr_tail r) < 256"
  let ?f = "vqec_pak_seq_find s" and ?h = "fr_head r" and ?p = "vqec_pre_seq_num n"
  have n: "?f n = Some p" and ne: "?f n \<noteq> None" using assms(2) s(5) by simp_all
  have pn: "pk_seq_num (ph_mem h p) = n" using s(4) n by (simp add: seq_held_def)
  have num: "vqec_pak_seq_get_num_paks s \<noteq> 0" using num_paks_empty [OF s(2)] ne by auto
  note e = ends_okD [OF s(6) ne]
  have w: "fdist ?h (fr_tail r) < 256" by (rule s(7)) (use ne in \<open>auto simp: fun_eq_iff\<close>)
  have pos: "0 < fdist ?h n" using assms(3) by (simp add: unat_gt_0)
  note d = fdist_pre [OF pos]
  have "fdist ?h ?p < fdist ?h n" "fdist ?h n < seq_cap s" using d pos e(5) w s(3) by simp_all
  from pre_loop_ok [OF s(2) e(1) this] obtain n' q where q: "pre_loop s ?h n ?p = Some q" "?f n' = Some q"
    "fdist ?h n' \<le> fdist ?h ?p" "\<forall>k. ?f k \<noteq> None \<longrightarrow> \<not> (fdist ?h n' < fdist ?h k \<and> fdist ?h k \<le> fdist ?h ?p)"
    by (elim exE conjE) (rule that)
  have "next_num ?f ?h n' n" using q(3,4) ne d pos by (auto simp: next_num_def)
  moreover have "vqec_fec_find_pre_packet_internal r h (Some p) = Some q"
    using s(1) num n pn assms(3) q(1) by (simp add: vqec_fec_find_pre_packet_internal_def vqec_fec_get_seq_num_def)
  ultimately show ?thesis using q(2) s(5) by auto
qed

text \<open>The ends without the packet of the number \<open>n\<close>, which are not further apart.\<close>

lemma ring_shrink_ok:
  assumes ok: "ring_ok h r" and n: "ring_map r n = Some p" and s: "fr_pak_seq r = Some s"
  shows "\<exists>hd tl. fec_shrink r s h p = Done (Some (r\<lparr>fr_head := hd, fr_tail := tl\<rparr>)) \<and>
    ends_ok ((ring_map r)(n := None)) hd tl \<and> ((ring_map r)(n := None) \<noteq> Map.empty \<longrightarrow> fdist hd tl < 256)"
proof -
  let ?h = "fr_head r" and ?t = "fr_tail r" and ?f = "ring_map r"
  have so: "seq_ok s" "seq_held h s" "ends_ok ?f ?h ?t" "?f = vqec_pak_seq_find s" "?f \<noteq> Map.empty \<longrightarrow> fdist ?h ?t < 256"
    using ok s by (auto elim!: ring_okE)
  have pn: "vqec_fec_get_seq_num (ph_mem h p) = n" using so(2,4) n by (simp add: seq_held_def vqec_fec_get_seq_num_def)
  have ne: "?f n \<noteq> None" using n by simp
  then have w: "fdist ?h ?t < 256" using so(5) by auto
  have num: "vqec_fec_get_seq_num (ph_mem h q) = k" if "?f k = Some q" for k q
    using so(2,4) that by (simp add: seq_held_def vqec_fec_get_seq_num_def)
  note e = ends_okD [OF so(3) ne]
  consider (one) "?h = n" "?t = n" | (head) "?h = n" "?t \<noteq> n" | (tail) "?h \<noteq> n" "?t = n" | (inner) "?h \<noteq> n" "?t \<noteq> n" by blast
  then show ?thesis
  proof cases
    case one
    have em: "?f(n := None) = Map.empty" using ends_del_one [of ?f n] so(3) one ne by simp
    have "dom ?f = {n}" using em ne by (auto simp: fun_eq_iff dom_def split: if_splits)
    then have "unat (ps_num_paks s) = 1" using seqs.count_look [OF so(1)] so(4) by simp
    then have "vqec_pak_seq_get_num_paks s = 1" by (simp add: vqec_pak_seq_get_num_paks_def word_unat_eq_iff)
    then have "fec_shrink r s h p = Done (Some r)" using one pn by (simp add: fec_shrink_def)
    moreover have "r = r\<lparr>fr_head := n, fr_tail := n\<rparr>" using one by (cases r) simp
    ultimately show ?thesis using em by (intro exI [of _ n]) (simp add: ends_ok_def)
  next
    case head
    from ring_next_ok [OF ok n] head obtain n' q where q: "vqec_fec_find_next_packet_internal r h (Some p) = Some q"
      "?f n' = Some q" "next_num ?f n n n'" by auto
    have "fec_shrink r s h p = Done (Some (r\<lparr>fr_head := n', fr_tail := ?t\<rparr>))"
      using head pn q num [OF q(2)] by (cases r) (simp add: fec_shrink_def)
    moreover have "ends_ok (?f(n := None)) n' ?t"
      using ends_del_head [of ?f n ?t n'] so(3) head ne q(3) by simp
    moreover have "fdist n' ?t < 256"
    proof -
      have "fdist n n' \<le> fdist n ?t" using e(4) q(2) head by simp
      then show ?thesis using unat_window_diff [of n' n ?t] w head by simp
    qed
    ultimately show ?thesis by blast
  next
    case tail
    from ring_pre_ok [OF ok n] tail obtain n' q where q: "vqec_fec_find_pre_packet_internal r h (Some p) = Some q"
      "?f n' = Some q" "next_num ?f ?h n' n" by auto
    have "fec_shrink r s h p = Done (Some (r\<lparr>fr_head := ?h, fr_tail := n'\<rparr>))"
      using tail pn q num [OF q(2)] by (cases r) (simp add: fec_shrink_def)
    moreover have "ends_ok (?f(n := None)) ?h n'"
      using ends_del_tail [of ?f ?h n n'] so(3) tail ne q(2,3) by simp
    moreover have "fdist ?h n' < 256" using q(3) w tail by (simp add: next_num_def)
    ultimately show ?thesis by blast
  next
    case inner
    have "fec_shrink r s h p = Done (Some (r\<lparr>fr_head := ?h, fr_tail := ?t\<rparr>))"
      using inner pn by (cases r) (simp add: fec_shrink_def)
    moreover have "ends_ok (?f(n := None)) ?h ?t" using e inner by (auto simp: ends_ok_def)
    ultimately show ?thesis using w by blast
  qed
qed

lemma ring_remove_ok:
  assumes ok: "ring_ok h (fec_ring_of c fec)" "heap_ok h" and n: "ring_map (fec_ring_of c fec) n = Some p"
  shows "\<exists>r' h'. vqec_fec_remove_packet fec p c h = Done (True, fec_ring_put c r' fec, h') \<and> ring_ok h' r' \<and>
    heap_ok h' \<and> ring_map r' = (ring_map (fec_ring_of c fec))(n := None) \<and>
    heap_live h' = (if pak_refs h p = 1 then heap_live h - {p} else heap_live h) \<and>
    (\<forall>q. pak_refs h' q = pak_refs h q - (if q = p then 1 else 0)) \<and>
    (\<forall>q. (ph_mem h' q)\<lparr>pk_ref_count := 0\<rparr> = (ph_mem h q)\<lparr>pk_ref_count := 0\<rparr>)"
  using ok(1)
proof (rule ring_okE)
  let ?r = "fec_ring_of c fec"
  fix s
  assume s: "fr_pak_seq ?r = Some s" "seq_ok s" "seq_cap s = 256" "seq_held h s" "ring_map ?r = vqec_pak_seq_find s"
  let ?f = "vqec_pak_seq_find s"
  have f: "?f n = Some p" and ne: "?f n \<noteq> None" using n s(5) by simp_all
  have pn: "vqec_fec_get_seq_num (ph_mem h p) = n" using s(4) f by (simp add: seq_held_def vqec_fec_get_seq_num_def)
  from ring_shrink_ok [OF ok(1) n s(1)] obtain hd tl where e: "fec_shrink ?r s h p = Done (Some (?r\<lparr>fr_head := hd, fr_tail := tl\<rparr>))"
    "ends_ok (?f(n := None)) hd tl" "?f(n := None) \<noteq> Map.empty \<longrightarrow> fdist hd tl < 256" using s(5) by auto
  from delete_cases [OF s(2) ok(2) s(4), of n] f obtain h' where d: "vqec_pak_seq_delete s n h = Done (True, seq_del s n, h')"
    "heap_ok h'" "seq_held h' (seq_del s n)"
    "heap_live h' = (if pak_refs h p = 1 then heap_live h - {p} else heap_live h)"
    "\<forall>q. pak_refs h' q = pak_refs h q - (if q = p then 1 else 0)"
    "\<forall>q. (ph_mem h' q)\<lparr>pk_ref_count := 0\<rparr> = (ph_mem h q)\<lparr>pk_ref_count := 0\<rparr>" by auto
  note l = seqs.del_law [OF s(2) ne]
  let ?r' = "?r\<lparr>fr_head := hd, fr_tail := tl, fr_pak_seq := Some (seq_del s n)\<rparr>"
  have run: "vqec_fec_remove_packet fec p c h = Done (True, fec_ring_put c ?r' fec, h')"
    unfolding vqec_fec_remove_packet_def using s(1) f pn e(1) d(1) by (simp add: Let_def)
  have m: "ring_map ?r' = (ring_map ?r)(n := None)" using l s(5) by (simp add: ring_map_def)
  have "ring_ok h' ?r'"
    by (rule ring_okI [where s = "seq_del s n"]) (use d l s(3) e(2,3) in simp_all)
  then show ?thesis using run m d by (intro exI [of _ ?r'] exI [of _ h']) simp
qed

subsection \<open>Insertion into a ring\<close>






lemma held_set_flag [simp]:
  "seq_held (pak_set_flag p fl h) s = seq_held h s" "pak_refs (pak_set_flag p fl h) q = pak_refs h q"
  "heap_ok (pak_set_flag p fl h) = heap_ok h"
proof -
  have n: "pk_seq_num (ph_mem (pak_set_flag p fl h) q) = pk_seq_num (ph_mem h q)" for q by (simp add: pak_set_flag_def)
  show r: "pak_refs (pak_set_flag p fl h) q = pak_refs h q" for q by (simp add: pak_refs_def pak_set_flag_def)
  have l: "heap_live (pak_set_flag p fl h) = heap_live h" by (simp add: pak_set_flag_def)
  show "seq_held (pak_set_flag p fl h) s = seq_held h s" by (simp only: seq_held_def pak_held_def n r l)
  show "heap_ok (pak_set_flag p fl h) = heap_ok h" by (simp add: pak_set_flag_def)
qed



lemma empty_ring:
  "\<exists>s. ring_ok h (fec_ring_zero\<lparr>fr_pak_seq := Some s\<rparr>) \<and> ring_map (fec_ring_zero\<lparr>fr_pak_seq := Some s\<rparr>) = Map.empty \<and>
     seq_ok s \<and> seq_cap s = 256 \<and> vqec_pak_seq_find s = Map.empty"
proof -
  obtain s where s: "seq_ok s" "ps_bucket_bits s = 8" "vqec_pak_seq_find s = Map.empty" using create_seq_ok [of 8] by auto
  then have c: "seq_cap s = 256" by (simp add: seq_cap_def)
  have "ring_ok h (fec_ring_zero\<lparr>fr_pak_seq := Some s\<rparr>)"
    by (rule ring_okI [where s = s]) (use s c in \<open>simp_all add: seq_held_def ends_ok_def\<close>)
  then show ?thesis using s c by (intro exI [of _ s]) (simp add: ring_map_def)
qed


text \<open>C7: a FEC packet leaves its ring. Removal succeeds exactly for a packet of the ring, fails no assertion,
  keeps the invariant, takes away the number of the packet and one reference, and moves the head or the tail to
  the next packet when it must. The other ring is not touched.\<close>

theorem fec_remove_packet_refines:
  assumes "ring_ok h (fec_ring_of c fec)" and "heap_ok h"
  shows "\<exists>fec' h'. vqec_fec_remove_packet fec p c h = Done (p \<in> ran (ring_map (fec_ring_of c fec)), fec', h') \<and>
    ring_ok h' (fec_ring_of c fec') \<and> heap_ok h' \<and> fec_ring_of (\<not> c) fec' = fec_ring_of (\<not> c) fec \<and>
    ring_map (fec_ring_of c fec') = (\<lambda>n. if ring_map (fec_ring_of c fec) n = Some p then None else ring_map (fec_ring_of c fec) n) \<and>
    (\<forall>q. pak_refs h' q = pak_refs h q - (if q = p \<and> p \<in> ran (ring_map (fec_ring_of c fec)) then 1 else 0))"
proof -
  let ?f = "ring_map (fec_ring_of c fec)"
  obtain s where s: "fr_pak_seq (fec_ring_of c fec) = Some s" "seq_held h s" "?f = vqec_pak_seq_find s"
    using assms(1) by (auto elim!: ring_okE)
  show ?thesis
  proof (cases "p \<in> ran ?f")
    case False
    then have np: "?f n \<noteq> Some p" for n by (auto simp: ran_def)
    then have "vqec_fec_remove_packet fec p c h = Done (False, fec, h)"
      using s(1,3) by (simp add: vqec_fec_remove_packet_def Let_def)
    moreover have "(\<lambda>n. if ?f n = Some p then None else ?f n) = ?f" using np by simp
    ultimately show ?thesis using False assms by (intro exI [of _ fec] exI [of _ h]) simp
  next
    case True
    then obtain n where n: "?f n = Some p" by (auto simp: ran_def)
    from ring_remove_ok [OF assms n] obtain r' h' where r: "vqec_fec_remove_packet fec p c h = Done (True, fec_ring_put c r' fec, h')"
      "ring_ok h' r'" "heap_ok h'" "ring_map r' = ?f(n := None)" "\<forall>q. pak_refs h' q = pak_refs h q - (if q = p then 1 else 0)"
      by (elim exE conjE) (rule that)
    have inj: "?f m = Some p \<longleftrightarrow> m = n" for m using seq_held_inj [OF s(2), of m p n] n s(3) by auto
    have "?f(n := None) = (\<lambda>m. if ?f m = Some p then None else ?f m)" unfolding inj by (rule ext) simp
    then show ?thesis using True r by (intro exI [of _ "fec_ring_put c r' fec"] exI [of _ h']) simp
  qed
qed

theorem fec_remove_packet_refines_witness:
  "\<exists>fec fec' h'. ring_map (fec_row fec) = [70000 \<mapsto> 4208] \<and>
     vqec_fec_remove_packet fec 4208 False heap_sample = Done (True, fec', h') \<and> ring_map (fec_row fec') = Map.empty"
proof -
  obtain s where s: "seq_ok s" "seq_cap s = 256" "vqec_pak_seq_find s = Map.empty" using empty_ring by blast
  let ?s = "seq_put s 70000 4208"
  let ?r = "fec_ring_zero\<lparr>fr_pak_seq := Some ?s, fr_head := 70000, fr_tail := 70000\<rparr>"
  have "\<not> seq_full s (unat (70000 :: u32) mod seq_cap s)" using slot_free_iff [OF s(1), of 70000] s(3) by simp
  note p = put_ok [OF s(1) this, where p = 4208]
  have f: "vqec_pak_seq_find ?s = [70000 \<mapsto> 4208]" using p(2) s(3) by (auto simp: fun_eq_iff)
  have "seq_held heap_sample ?s"
    using f heap_sample_ok(2) by (auto simp: seq_held_def heap_sample_def pak_zero_def)
  then have ok: "ring_ok heap_sample ?r"
    by (intro ring_okI [where s = ?s]) (use p(1) s(2) f in \<open>simp_all add: ends_ok_def\<close>)
  let ?fec = "fec_zero\<lparr>fec_row := ?r\<rparr>"
  have r: "fec_ring_of False ?fec = ?r" "ring_map ?r = [70000 \<mapsto> 4208]" using f by (simp_all add: fec_ring_of_def ring_map_def)
  have em: "(\<lambda>n. if [70000 \<mapsto> 4208] n = Some 4208 then None else [70000 \<mapsto> 4208] n) = (Map.empty :: vqec_seq_num \<Rightarrow> pak_ptr option)"
    by (simp add: fun_eq_iff)
  have "ring_ok heap_sample (fec_ring_of False ?fec)" using ok r(1) by simp
  from fec_remove_packet_refines [OF this heap_sample_ok(1), where p = 4208]
  obtain fec' h' where "vqec_fec_remove_packet ?fec 4208 False heap_sample = Done (True, fec', h')"
    "ring_map (fec_ring_of False fec') = Map.empty"
    unfolding r em by (elim exE conjE) (rule that, simp_all)
  then show ?thesis using r by (intro exI [of _ ?fec] exI [of _ fec'] exI [of _ h']) (simp add: fec_ring_of_def)
qed

end
