(* ===== verification/Fec_Decode.thy ===== *)
theory Fec_Decode
  imports Fec
begin

text \<open>
  Decoding in \<^verbatim>\<open>eva/vqec-dp/channel/vqec_fec.c\<close>: a FEC packet recovers the one packet of its row or column
  that the cache misses, from the headers, the lengths and the payloads of the others, and the packet
  is inserted into the cache as a repair. Received packets are validated and put into their ring, and each
  of them triggers the decoding of what the rings hold.

  The arrays on the stack have \<open>MAX_D\<close> entries; a write behind them, a null pointer in them that is followed,
  and an access behind the memory of a packet are \<open>Bad_access\<close>. The loop that decodes columns and rows in turn has fuel.
\<close>

unbundle bit_operations_syntax

subsection \<open>Types\<close>

datatype vqec_fec_dec_error =
    VQEC_FEC_DEC_OK | VQEC_FEC_DEC_NOT_NEEDED | VQEC_FEC_DEC_LATE_PAK | VQEC_FEC_DEC_FUTURE_PAK
  | VQEC_FEC_DEC_UNRECOVERABLE | VQEC_FEC_DEC_FAILURE | VQEC_FEC_DEC_MEM_ALLOC_WRONG | VQEC_FEC_DEC_RTP_VALIDATE_WRONG
  | VQEC_FEC_DEC_PAK_TOO_EARLY

definition MAX_XOR_CORRECTION :: nat where "MAX_XOR_CORRECTION = 1"

text \<open>The byte order of the host; the size of the header in an element of the pool of packets; the contents
  of the memory of a new packet; whether a sequencer is free; whether statistics for debugging are collected.\<close>

record fec_env =
  fe_little :: bool
  fe_hdr :: int
  fe_junk :: "pak_heap \<Rightarrow> u8 list"
  fe_mem :: bool
  fe_collect :: bool

subsection \<open>The packets of a row or column\<close>

text \<open>The loop over the packets that are protected: those that are found, and the number of the last one
  that is not.\<close>

primrec fec_gather ::
  "vqec_pak_seq \<Rightarrow> vqec_seq_num \<Rightarrow> u16 \<Rightarrow> u16 \<Rightarrow> nat list \<Rightarrow> u16 \<Rightarrow> pak_ptr list \<Rightarrow> (u16 \<times> pak_ptr list) outcome" where
  "fec_gather s sn_base32 sn_base offset [] lost blks = Done (lost, blks)"
| "fec_gather s sn_base32 sn_base offset (i # is) lost blks =
     (case vqec_pak_seq_find s (sn_base32 + of_nat i * ucast offset) of
        None \<Rightarrow> fec_gather s sn_base32 sn_base offset is (sn_base + of_nat i * offset) blks
      | Some p \<Rightarrow>
          if length blks < unat MAX_D then fec_gather s sn_base32 sn_base offset is lost (blks @ [p])
          else Bad_access)"

text \<open>What the decoding reads of a packet: the octets from its RTP header on, its length without the
  fixed header, cut to 16 bits, and the octets from its payload on.\<close>

record fec_media =
  fm_rtp :: "u8 list"
  fm_payload_len :: u16
  fm_payload :: "u8 list"

definition fec_media_of :: "vqec_pak \<Rightarrow> fec_media outcome" where
  "fec_media_of pak =
     bind_out (pak_head_bytes pak) (\<lambda>b.
       Done \<lparr>fm_rtp = b, fm_payload_len = ucast (vqec_pak_get_content_len pak - of_nat SIZEOF_RTP_HDR),
             fm_payload = drop (unat (pk_mpeg_payload_offset pak)) b\<rparr>)"

primrec fec_media_all :: "vqec_pak list \<Rightarrow> fec_media list outcome" where
  "fec_media_all [] = Done []"
| "fec_media_all (p # ps) = bind_out (fec_media_of p) (\<lambda>m. bind_out (fec_media_all ps) (\<lambda>ms. Done (m # ms)))"

text \<open>An array of pointers, null behind the entries that are set.\<close>

definition fec_array :: "u8 list list \<Rightarrow> u8 list option list" where
  "fec_array xs = map Some xs @ replicate (unat MAX_D - length xs) None"

text \<open>The RTP header that takes part in the decoding for the FEC packet: its first two octets with the
  payload type of the recovery, and the time stamp of the recovery.\<close>

definition fec_rtp_header :: "u8 list \<Rightarrow> fecfasttype \<Rightarrow> u8 list" where
  "fec_rtp_header fec_rtp fec_hdr =
     htons (SET_RTP_PAYLOAD (ntohs fec_rtp) (ucast (FEC_PT_RECOVERY fec_hdr))) @ [0, 0] @
     htonl (fh_ts_recovery fec_hdr) @ [0, 0, 0, 0]"

text \<open>The header, the length and the payload of the missing packet are decoded into the buffer \<open>buf\<close>. The
  result is the buffer with the size of the payload, or nothing when the decoder refuses.\<close>

definition fec_recover ::
  "bool \<Rightarrow> u8 list \<Rightarrow> fecfasttype \<Rightarrow> fec_media list \<Rightarrow> u16 \<Rightarrow> u8 list \<Rightarrow> (u8 list \<times> u16) option outcome" where
  "fec_recover little fec_rtp fec_hdr media lost_seq_num buf =
     (let na_bits = of_nat (length media + 1);
          headers = fec_array (map fm_rtp media @ [fec_rtp_header fec_rtp fec_hdr]);
          lengths = fec_array (map (\<lambda>m. host_short_bytes little (fm_payload_len m)) media @
                      [host_short_bytes little (fh_length_recovery fec_hdr)]);
          payloads = fec_array (map fm_payload media @ [drop (SIZEOF_RTP_HDR + SIZEOF_FEC_HDR) fec_rtp])
      in bind_out (vqec_fec_decode_xor_word little (Some headers) na_bits 8 (Some buf)) (\<lambda>(ok, b1).
           if \<not> ok then Done None
           else let b2 = htons (SET_RTP_VERSION (ntohs (the b1)) RTPVERSION) @ htons lost_seq_num @ drop 4 (the b1)
           in bind_out (vqec_fec_decode_xor_word little (Some lengths) na_bits 2 (Some [0, 0])) (\<lambda>(ok, l).
                if \<not> ok then Done None
                else let pkt_size = host_short little (the l)
                in bind_out (vqec_fec_decode_xor_word little (Some payloads) na_bits pkt_size
                               (Some (drop SIZEOF_RTP_HDR b2))) (\<lambda>(ok, p).
                     if \<not> ok then Done None else Done (Some (take SIZEOF_RTP_HDR b2 @ the p, pkt_size))))))"

subsection \<open>Decoding one FEC packet\<close>

text \<open>The recovered packet \<open>p\<close> gets its fields, is validated, inserted into the cache, and released.\<close>

definition fec_repair_pak :: "vqec_pcm \<Rightarrow> u8 list \<Rightarrow> u16 \<Rightarrow> u16 \<Rightarrow> u8 list \<Rightarrow> vqec_pak \<Rightarrow> vqec_pak outcome" where
  "fec_repair_pak pcm buf pkt_size lost_seq_num ssrc pak =
     (let pak1 = snd (vqec_pak_set_content_len (pak\<lparr>pk_buff := Some buf\<rparr>) (ucast pkt_size + of_nat SIZEOF_RTP_HDR))
      in bind_out (RTPHEADERBYTES buf) (\<lambda>offset.
           Done (pak1\<lparr>pk_rtp_ts := ntohl (drop 4 buf),
                      pk_seq_num := vqec_seq_num_nearest_to_rtp_seq_num (pcm_last_rx_seq_num pcm) lost_seq_num,
                      pk_mpeg_payload_offset := offset, pk_type := VQEC_PAK_TYPE_REPAIR,
                      pk_flags := VQEC_PAK_FLAGS_SET (pk_flags pak1) VQEC_PAK_FLAGS_AFTER_EC,
                      pk_buff := Some (take 8 buf @ ssrc @ drop 12 buf)\<rparr>)))"

definition fec_insert_repair ::
  "fec_env \<Rightarrow> vqec_fec \<Rightarrow> vqec_pcm \<Rightarrow> pak_ptr \<Rightarrow> pak_heap \<Rightarrow> (vqec_fec_dec_error \<times> vqec_fec \<times> pak_heap) outcome" where
  "fec_insert_repair env fec pcm p h =
     bind_out (pak_head_bytes (ph_mem h p)) (\<lambda>buf.
     bind_out (vqec_fec_rtp_hdr_validation buf (ucast (vqec_pak_get_content_len (ph_mem h p)))) (\<lambda>ok.
       if \<not> ok then bind_out (vqec_pak_free (Some p) h) (\<lambda>h1. Done (VQEC_FEC_DEC_RTP_VALIDATE_WRONG, fec, h1))
       else bind_out (vqec_pcm_insert_packets (fe_mem env) (fe_collect env) pcm [p] False None
                        (pak_upd p (\<lambda>pak. pak\<lparr>pk_fec_touched := FEC_TOUCHED\<rparr>) h)) (\<lambda>(cb, w).
         let pcm1 = (if is_wr w = 0 then vqec_pcm_log_tr135_overrun (is_pcm w) 1 else is_pcm w)
         in bind_out (vqec_pak_free (Some p) (is_heap w)) (\<lambda>h1.
              Done (VQEC_FEC_DEC_OK,
                    fec\<lparr>fec_pcm := Some pcm1, fec_repairs_done := fec_repairs_done fec + (if cb then 1 else 0)\<rparr>, h1)))))"

text \<open>The recovery of the one missing packet.\<close>

definition fec_decode_loss ::
  "fec_env \<Rightarrow> vqec_fec \<Rightarrow> vqec_pcm \<Rightarrow> u8 list \<Rightarrow> fecfasttype \<Rightarrow> vqec_seq_num \<Rightarrow> pak_heap \<Rightarrow>
   (vqec_fec_dec_error \<times> vqec_fec \<times> pak_heap) outcome" where
  "fec_decode_loss env fec pcm fec_rtp fec_hdr sn_base32 h =
     (case pcm_pak_seq pcm of
        None \<Rightarrow> Bad_access
      | Some s \<Rightarrow>
          let na_bits = unat (FEC_NA fec_hdr)
          in bind_out (fec_gather s sn_base32 (fh_snbase_low_bits fec_hdr) (FEC_OFFSET fec_hdr) [0..< na_bits] 0 [])
            (\<lambda>(lost_seq_num, blks).
             bind_out (vqec_pak_alloc_with_particle (fe_hdr env) (fe_junk env h) h) (\<lambda>(recovered, h1).
               case recovered of
                 None \<Rightarrow> Done (VQEC_FEC_DEC_MEM_ALLOC_WRONG, fec, h1)
               | Some p \<Rightarrow>
                   if na_bits > unat MAX_D \<or> length blks < na_bits - 1 then Bad_access
                   else bind_out (fec_media_all (map (ph_mem h1) (take (na_bits - 1) blks))) (\<lambda>media.
                        bind_out (fec_recover (fe_little env) fec_rtp fec_hdr media lost_seq_num (fe_junk env h)) (\<lambda>res.
                          case res of
                            None \<Rightarrow> bind_out (vqec_pak_free (Some p) h1) (\<lambda>h2. Done (VQEC_FEC_DEC_FAILURE, fec, h2))
                          | Some (buf, pkt_size) \<Rightarrow>
                              bind_out (fec_repair_pak pcm buf pkt_size lost_seq_num (take 4 (drop 8 (fm_rtp (hd media))))
                                          (ph_mem h1 p)) (\<lambda>pak.
                                fec_insert_repair env fec pcm p (pak_upd p (\<lambda>_. pak) h1)))))))"

definition vqec_fec_decode_basic ::
  "fec_env \<Rightarrow> vqec_fec \<Rightarrow> pak_ptr \<Rightarrow> pak_heap \<Rightarrow> (vqec_fec_dec_error \<times> vqec_fec \<times> pak_heap) outcome" where
  "vqec_fec_decode_basic env fec fec_pak h =
     bind_out (pak_head_bytes (ph_mem h fec_pak)) (\<lambda>fec_rtp.
     bind_out (fec_hdr_read (drop SIZEOF_RTP_HDR fec_rtp)) (\<lambda>fec_hdr.
       case fec_pcm fec of
         None \<Rightarrow> Done (VQEC_FEC_DEC_MEM_ALLOC_WRONG, fec, h)
       | Some pcm \<Rightarrow>
           let sn_base = fh_snbase_low_bits fec_hdr; offset = FEC_OFFSET fec_hdr; na_bits = FEC_NA fec_hdr;
               sn_base32 = vqec_seq_num_nearest_to_rtp_seq_num (pcm_last_rx_seq_num pcm) sn_base;
               h1 = pak_upd fec_pak (\<lambda>p. p\<lparr>pk_fec_touched := pk_fec_touched p + 1\<rparr>) h;
               temp_seq32 = vqec_seq_num_nearest_to_rtp_seq_num (pcm_last_rx_seq_num pcm) (sn_base + (na_bits - 1) * offset)
           in if vqec_seq_num_lt sn_base32 (pcm_head pcm) then Done (VQEC_FEC_DEC_LATE_PAK, fec, h1)
              else if vqec_seq_num_lt (pcm_tail pcm) temp_seq32
              then Done (if sint (vqec_seq_num_sub temp_seq32 (pcm_tail pcm)) >
                            2 * int (unat (fi_fec_l_value (fec_info fec))) * int (unat (fi_fec_d_value (fec_info fec)))
                         then VQEC_FEC_DEC_PAK_TOO_EARLY else VQEC_FEC_DEC_FUTURE_PAK, fec, h1)
              else let lost_seq_nums = vqec_pcm_gap_search (pcm_gapmap pcm) sn_base32 (ucast offset) (ucast na_bits)
              in if length lost_seq_nums > unat MAX_D then Bad_access
                 else if lost_seq_nums = [] then Done (VQEC_FEC_DEC_NOT_NEEDED, fec, h1)
                 else if length lost_seq_nums > MAX_XOR_CORRECTION then Done (VQEC_FEC_DEC_UNRECOVERABLE, fec, h1)
                 else fec_decode_loss env fec pcm fec_rtp fec_hdr sn_base32 h1))"

subsection \<open>The fate of the FEC packet\<close>




subsection \<open>Receiving a FEC packet\<close>


subsection \<open>Decoding a ring\<close>









subsection \<open>The entry point\<close>






subsection \<open>A group of packets and its FEC packet\<close>
















lemma host_short_bytes_id [simp]: "host_short little (host_short_bytes little w) = w"
  using ntohs_htons [of w "[]"] by (simp add: host_short_def host_short_bytes_def)

subsection \<open>Recovery\<close>










subsection \<open>Properties\<close>








lemma fec_na_bound: "unat (FEC_NA a) < 256"
  using unat_less_pow [of "fh_combined3 a AND 0xff00"] unfolding FEC_NA_def
  by (simp only: unat_drop_bit_div) (simp add: less_mult_imp_div_less)

lemma unat_ucast_na: "unat (ucast (FEC_NA a) :: u8) = unat (FEC_NA a)"
  using fec_na_bound [of a] by (simp add: unsigned_ucast_eq take_bit_nat_eq_self)

lemma gap_search_count:
  assumes "bitmap_ok m"
  shows "length (vqec_pcm_gap_search (Some m) start 1 num) = card {i. i < unat num \<and> \<not> bm_bit m (start + of_nat i)}"
  using gap_search_finds_missing [OF assms, of 1 start num]
  by (auto simp: length_filter_conv_card intro!: arg_cong [of _ _ card])

text \<open>C8: the length of a row is not checked. The header of a row packet is accepted whatever the number of packets
  is that it claims to protect; when more than twenty of them are missing from the cache, the search for the losses writes
  behind the end of its array of twenty numbers.\<close>

theorem fec_row_length_unchecked:
  assumes "pak_head_bytes (ph_mem h p) = Done buf" and "fec_hdr_read (drop 12 buf) = Done hdr"
    and "FEC_X_BIT hdr = 0" and "FEC_E_BIT hdr \<noteq> 0" and "FEC_TYPE hdr = 0" and "FEC_D_BIT hdr \<noteq> 0" and "FEC_OFFSET hdr = 1"
    and "fec_pcm fec = Some pcm" and "pcm_gapmap pcm = Some m" and "bitmap_ok m"
    and "sn_base32 = vqec_seq_num_nearest_to_rtp_seq_num (pcm_last_rx_seq_num pcm) (fh_snbase_low_bits hdr)"
    and "\<not> vqec_seq_num_lt sn_base32 (pcm_head pcm)"
    and "\<not> vqec_seq_num_lt (pcm_tail pcm)
          (vqec_seq_num_nearest_to_rtp_seq_num (pcm_last_rx_seq_num pcm) (fh_snbase_low_bits hdr + (FEC_NA hdr - 1)))"
    and "20 < card {i. i < unat (FEC_NA hdr) \<and> \<not> bm_bit m (sn_base32 + of_nat i)}"
  shows "vqec_fec_hdr_validation fec buf False = Done (VQEC_FEC_HDR_OK, fec) \<and>
    vqec_fec_decode_basic env fec p h = Bad_access"
proof
  show "vqec_fec_hdr_validation fec buf False = Done (VQEC_FEC_HDR_OK, fec)"
    using assms(2-8) by (simp add: vqec_fec_hdr_validation_def SIZEOF_RTP_HDR_def)
  have "20 < length (vqec_pcm_gap_search (Some m) sn_base32 1 (ucast (FEC_NA hdr)))"
    using assms(14) unfolding gap_search_count [OF assms(10)] unat_ucast_na .
  then show "vqec_fec_decode_basic env fec p h = Bad_access"
    using assms(1,2,7-9,11-13) by (simp add: vqec_fec_decode_basic_def SIZEOF_RTP_HDR_def MAX_D_def Let_def)
qed

definition row_hdr_sample :: "u8 list" where
  "row_hdr_sample = htons 0 @ htons 0 @ htonl 0x80000000 @ htonl 0 @ htons 0x4001 @ htons 0x1E00"

theorem fec_row_length_unchecked_witness:
  "\<exists>h fec. pk_buff (ph_mem h 4208) = Some (replicate 12 0 @ row_hdr_sample) \<and>
     vqec_fec_decode_basic \<lparr>fe_little = True, fe_hdr = 48, fe_junk = \<lambda>_. [], fe_mem = True, fe_collect = False\<rparr> fec 4208 h = Bad_access"
proof -
  let ?m = "\<lparr>bm_data = [0, 0, 0, 0], bm_size = 128\<rparr>"
  let ?pcm = "pcm_zero\<lparr>pcm_gapmap := Some ?m, pcm_tail := 1000\<rparr>" and ?buf = "replicate 12 0 @ row_hdr_sample"
  let ?h = "pak_upd 4208 (\<lambda>_. pak_zero\<lparr>pk_buff := Some ?buf\<rparr>) heap_sample" and ?fec = "fec_zero\<lparr>fec_pcm := Some ?pcm\<rparr>"
  let ?hdr = "\<lparr>fh_snbase_low_bits = 0, fh_length_recovery = 0, fh_combined1 = 0x80000000, fh_ts_recovery = 0,
    fh_combined2 = 0x4001, fh_combined3 = 0x1E00\<rparr>"
  have mok: "bitmap_ok ?m"
  proof -
    have "(128 :: nat) = (\<lambda>k. 2 ^ k) 7" by simp
    then have "(128 :: nat) \<in> (\<lambda>k. 2 ^ k) ` {5..16}" by (rule image_eqI) simp
    then show ?thesis by (simp add: bitmap_ok_def)
  qed
  have l: "ntohl (htonl w @ bs) = w" for w bs using ntohl_htonl [of w] by (simp add: ntohl_def htonl_def)
  have "fec_hdr_read (htons a @ htons b @ htonl c @ htonl d @ htons e @ htons f) =
      Done \<lparr>fh_snbase_low_bits = a, fh_length_recovery = b, fh_combined1 = c, fh_ts_recovery = d, fh_combined2 = e, fh_combined3 = f\<rparr>"
    for a b c d e f
    using ntohs_htons [of f "[]"] by (simp add: fec_hdr_read_def SIZEOF_FEC_HDR_def l)
  then have hdr: "fec_hdr_read row_hdr_sample = Done ?hdr" by (simp add: row_hdr_sample_def)
  have bits: "\<not> bm_bit ?m (of_nat i)" if "i < 30" for i
    using that by (simp add: bm_bit_def dbit_def unat_of_nat_small)
  have na: "FEC_NA ?hdr = 30" "FEC_OFFSET ?hdr = 1" "FEC_X_BIT ?hdr = 0" "FEC_E_BIT ?hdr \<noteq> 0" "FEC_TYPE ?hdr = 0" "FEC_D_BIT ?hdr \<noteq> 0"
    by (simp_all add: FEC_NA_def FEC_OFFSET_def FEC_X_BIT_def FEC_E_BIT_def FEC_TYPE_def FEC_D_BIT_def)
  have "{i. i < unat (FEC_NA ?hdr) \<and> \<not> bm_bit ?m (0 + of_nat i)} = {..< 30}" using bits na(1) by auto
  then have c: "20 < card {i. i < unat (FEC_NA ?hdr) \<and> \<not> bm_bit ?m (0 + of_nat i)}" by simp
  have "vqec_fec_decode_basic \<lparr>fe_little = True, fe_hdr = 48, fe_junk = \<lambda>_. [], fe_mem = True, fe_collect = False\<rparr> ?fec 4208 ?h = Bad_access"
    using fec_row_length_unchecked [of ?h 4208 ?buf ?hdr ?fec ?pcm ?m 0] hdr na mok c
    by (simp add: pak_head_bytes_def pak_zero_def pcm_zero_def fec_zero_def vqec_seq_num_nearest_to_rtp_seq_num_def seq_simps)
  then show ?thesis by (intro exI [of _ ?h] exI [of _ ?fec]) (simp add: pak_zero_def)
qed

subsection \<open>Counting the packets\<close>


lemma bind_out_DoneE:
  assumes "bind_out m f = Done y"
  obtains x where "m = Done x" "f x = Done y"
  using assms by (auto simp: bind_out_Done_iff)









lemma repair_total:
  assumes "fec_insert_repair env fec pcm p h = Done (e, fec', h')"
  shows "fec_stats fec' = fec_stats fec"
  using assms unfolding fec_insert_repair_def Let_def
  by (elim bind_out_DoneE) (auto elim!: bind_out_DoneE split: if_splits prod.splits)

definition yields :: "'a outcome \<Rightarrow> ('a \<Rightarrow> bool) \<Rightarrow> bool" where
  "yields m Q \<longleftrightarrow> (\<forall>y. m = Done y \<longrightarrow> Q y)"

lemma yields_simps: "yields (Done y) Q = Q y" "yields Bad_access Q" "yields Assert_failed Q" "yields Out_of_fuel Q"
  by (simp_all add: yields_def)

lemma yields_bind: "(\<And>x. m = Done x \<Longrightarrow> yields (f x) Q) \<Longrightarrow> yields (bind_out m f) Q"
  unfolding yields_def by (blast elim: bind_out_DoneE)

lemma yields_if: "(b \<Longrightarrow> yields m Q) \<Longrightarrow> (\<not> b \<Longrightarrow> yields n Q) \<Longrightarrow> yields (if b then m else n) Q"
  by simp

lemma yields_option:
  "(x = None \<Longrightarrow> yields m Q) \<Longrightarrow> (\<And>v. x = Some v \<Longrightarrow> yields (f v) Q) \<Longrightarrow> yields (case x of None \<Rightarrow> m | Some v \<Rightarrow> f v) Q"
  by (cases x) simp_all

lemma yields_prod: "(\<And>u v. x = (u, v) \<Longrightarrow> yields (f u v) Q) \<Longrightarrow> yields (case x of (u, v) \<Rightarrow> f u v) Q"
  by (cases x) simp

lemmas yields_rules = yields_bind yields_if yields_option yields_prod

lemma yieldsD: "yields m Q \<Longrightarrow> m = Done y \<Longrightarrow> Q y"
  by (simp add: yields_def)

lemma loss_yields: "yields (fec_decode_loss env fec pcm rtp hdr sn h) (\<lambda>(e, fec', h'). fec_stats fec' = fec_stats fec)"
  unfolding fec_decode_loss_def Let_def
  by (intro yields_rules) (auto simp: yields_simps yields_def dest: repair_total)

lemma loss_total:
  assumes "fec_decode_loss env fec pcm rtp hdr sn h = Done (e, fec', h')"
  shows "fec_stats fec' = fec_stats fec"
  using yieldsD [OF loss_yields assms] by simp
















end
