(* ===== verification/Spec2Isabelle.thy ===== *)
theory Spec2Isabelle
  imports Seq_Num Vam_Time Vqe_Bitmap Event_Q Rcc_Cp Rcc_Dp_Run Token_Bucket Nll Zone_Mgr Pak_Seq Pcm_Cand Pcm_Log Tr135 Pcm_State Pcm_Gaps Pcm Pcm_Insert Osched Rcc_Tlv Rtcp Fec_Xor Rtp_Header Fec Fec_Decode Net_Bytes
begin

text \<open>
  A verification development for the VQE client: the part of a set-top box that receives a multicast
  television channel, repairs its losses and changes channels rapidly (RCC) with the help of a burst
  from a server.

  \<^bold>\<open>The program.\<close> A channel has a control plane (\<^verbatim>\<open>eva/\<close>) and a data plane (\<^verbatim>\<open>eva/vqec-dp/\<close>), each
  with its own RCC state machine. The control plane asks the server for a burst, waits for its APP
  packet under a timer and hands the parameters to the data plane; the data plane waits for the first
  packet of the burst, joins the multicast group, enables error repair and waits for the end of the
  burst, each step under a timer, and aborts into ordinary reception when something fails. Packets are
  kept in a packet cache, which is a sequencer of buckets beside a bitmap of the packets that are
  present, and are played out at the times that a lock loop predicts from the sender's clock. Repair
  requests are limited by a token bucket. Packets that were lost are also recovered from the FEC packets of the
  sender, each of which is the exclusive or of a row or a column of a block. Packets come from pools of the zone manager.

  \<^bold>\<open>Theories.\<close> Each follows the source files named at its beginning, in their order, one definition
  per function, with the names of the source.
  \<^item> \<open>Vqe_Prelude\<close>: machine integers, C division, outcomes (a value, a failed assertion, an access
    outside of a buffer, or the end of the fuel), and the facts on words that the components share.
  \<^item> \<open>Seq_Num\<close> (\<^verbatim>\<open>vqecutils/vqec_seq_num.h\<close>): 32-bit sequence numbers around 16-bit RTP numbers. The
    locale \<open>serial_order\<close> is the contract of serial comparison, for both widths.
  \<^item> \<open>Vam_Time\<close> (\<^verbatim>\<open>include/utils/vam_time.h\<close>): absolute and relative times in microseconds and their
    conversions.
  \<^item> \<open>Vqe_Bitmap\<close> (\<^verbatim>\<open>utils/vqe_bitmap.c\<close>): the circular bitmap; locale \<open>bit_array\<close>.
  \<^item> \<open>Zone_Mgr\<close> (\<^verbatim>\<open>utils/zone_mgr.c\<close>): pools of fixed-size items; locale \<open>item_pool\<close>.
  \<^item> \<open>Pak_Seq\<close> (\<^verbatim>\<open>vqecutils/vqec_pak.c\<close>, \<^verbatim>\<open>vqec_pak_seq.c\<close>): packets with their reference counts and the
    sequencer that finds them by number; locale \<open>seq_store\<close>.
  \<^item> \<open>Token_Bucket\<close> (\<^verbatim>\<open>utils/vqe_token_bucket.c\<close>): rate limitation; locale \<open>metered_flow\<close>.
  \<^item> \<open>Nll\<close> (\<^verbatim>\<open>eva/vqec-dp/channel/vqec_nll.c\<close>): the lock loop.
  \<^item> The packet cache, \<^verbatim>\<open>eva/vqec-dp/channel/vqec_pcm.c\<close>, in seven theories. \<open>Pcm_Cand\<close>: the ring of ten
    candidates, which delays the report of fresh gaps. \<open>Pcm_Log\<close> (with \<^verbatim>\<open>vqec_log.c\<close>): the log of gaps.
    \<open>Tr135\<close>: the loss statistics of TR-135. \<open>Pcm_State\<close>: the structures of cache and scheduler and their small
    functions. \<open>Pcm_Gaps\<close>: the walk over the bitmap that collects the gaps, and the report to the error repair.
    \<open>Pcm\<close>: creation, search, removal, flush and the end of a burst; the invariant \<open>pcm_ok\<close>. \<open>Pcm_Insert\<close>:
    insertion of a list of packets.
  \<^item> \<open>Osched\<close> (\<^verbatim>\<open>eva/vqec-dp/channel/vqec_oscheduler.c\<close>): the output scheduler, without the histogram of the
    jitter (\<^verbatim>\<open>HAVE_SCHED_JITTER_HISTOGRAM\<close>).
  \<^item> \<open>Event_Q\<close>: the event queue that both state machines have; locales of a bounded queue and of a loop
    that serves one.
  \<^item> \<open>Rcc_Cp\<close> (\<^verbatim>\<open>eva/vqec_sm.c\<close> and its callees in \<^verbatim>\<open>vqec_channel.c\<close>): the control-plane machine.
  \<^item> \<open>Net_Bytes\<close>: words and their octets in network order and in the order of the host.
  \<^item> \<open>Rtp_Header\<close> (\<^verbatim>\<open>rtp/rtp.h\<close>, \<^verbatim>\<open>rtp_header.c\<close>): the fields of an RTP header and its validation.
  \<^item> Forward error correction, \<^verbatim>\<open>eva/vqec-dp/channel/vqec_fec.c\<close>, in three theories. \<open>Fec_Xor\<close>: the decoder on
    words; locale \<open>parity_code\<close>. \<open>Fec\<close>: headers, the detection of the sending order, and the rings in which FEC packets
    wait, with their invariant \<open>ring_ok\<close>. \<open>Fec_Decode\<close>: the recovery of a packet, its insertion into the cache, and
    the reception of a FEC packet.
  \<^item> \<open>Rcc_Tlv\<close> (\<^verbatim>\<open>rtp/rcc_tlv.c\<close>): the messages with the parameters of a burst, octet by octet.
  \<^item> \<open>Rtcp\<close> (\<^verbatim>\<open>rtp/rtp_session.c\<close>, \<^verbatim>\<open>eva/rtp_repair_recv.c\<close>): the reception of a compound RTCP packet and of the APP
    message, which ends in the control-plane machine.
  \<^item> \<open>Rcc_Dp\<close>, \<open>Rcc_Dp_Run\<close> (\<^verbatim>\<open>eva/vqec-dp/channel/vqec_dp_sm.c\<close> and its callees in \<^verbatim>\<open>vqec_dpchan.c\<close>): the
    data-plane machine, and its runs.

  \<^bold>\<open>State and effects.\<close> A structure is a record, a pointer that may be null an option, a packet an
  address in a heap of headers. Whether a resource of the operating system is granted (memory, a timer,
  a stream), the reading of the clock and the debug flags are arguments of the operations. The actions
  of the machines on other parts of the program are recorded in the channel in the order of the calls.
  Failed assertions are outcomes.

  \<^bold>\<open>What is shown.\<close> Both state machines: every delivery of an event returns without a failed assertion,
  although actions deliver events themselves, in the state that the transition table gives or in the
  abort state when a resource fails; timers run exactly in the states that wait for them; final states
  stay; and under the timers every run of the data plane makes progress to a final state. Sequence
  numbers: the comparisons are the order of a window of half the circle, and the extension of RTP numbers
  is the unique nearest one. Bitmap and sequencer: functional refinement of a set of indices and of a
  finite map, with reference counts and pool contents. Zones: no item is handed out twice, and none is
  taken back twice. Token bucket: refinement of the intended credit on unbounded numbers and a bound on
  the outflow over any sequence of operations. Lock loop: predictions do not go back, and the fixed-point
  arithmetic of the error average does not overflow. Packet cache: head, tail, bitmap, sequencer, the list of
  packets in order and the reference counts agree; insertion, removal, flush and time-outs keep that
  invariant and fail no assertion; the walk to the next packet enumerates the cache in the order of the
  numbers; the walk over the bitmap by blocks gives the gaps of a walk by single numbers. Output scheduler: a
  run returns, and what the stream receives is the beginning of what waited, in order, complete and on time.
  Forward error correction: the decoder on words is the exclusive or of octets; from a FEC packet as RFC 2733 prescribes
  it and all packets of its group but one, the missing one is recovered, header, length and payload; insertion into a
  ring and removal from it refine a finite map. A received RTP header that is accepted lies inside its packet.
  Messages: what is encoded is decoded, an APP message of the server reaches the machine with its parameters,
  and a malformed one is refused and handled as an invalid APP message. The reception of RTCP returns except on
  a length that wraps to zero.
  Some properties state what the code does where that
  is not what it means to do: the count of running RCCs that wraps around, the log display that hides a
  full ring, the rounded period and the clock that goes back in the token bucket, the comparison of zone
  names, the message length of RTCP, the unchecked length of a row of packets, the packets that are not padded with
  zeros, and the first FEC packet that is counted twice.

  \<^bold>\<open>Bounds and fuel.\<close> The event queues have four slots. The loops that serve them have fuel for eight
  rounds, and an action that delivers an event from inside a delivery enters the function one level deeper,
  for which two levels are given; the properties on delivery show that the fuel is enough, since a delivery
  in progress only queues the event, and each round serves one event of at most four while no action queues
  more than one. The display of the log walks a ring of sixteen entries with sixteen steps of fuel.
  The time-out of candidates has eleven steps for ten candidates. The play-out loop has 8193 rounds: a cache
  holds at most 8192 packets, and every round that goes on takes one out; the property on a run shows that
  this is enough. The loop over the messages of a compound packet has its number of rounds as an argument, since
  it may not end, and so has the loop that decodes columns and rows in turn; the property on the messages says when it does and that the length of the packet is then enough. What is shown of the
  reception of a FEC packet holds for every fuel with which it returns. The
  enumeration of the cache by \<open>pcm_walk\<close> takes 8193 steps for the same reason. All other
  loops are total functions with termination proofs.

  \<^bold>\<open>Not modelled.\<close> Input and output (sockets, the shims, the kernel module, the command line), text
  formats (SDP and configuration files), NAT traversal, the RTP sessions apart from the reception of RTCP, and vendored libraries. Of the
  data path, the RTP input streams and the status reports of the cache are not modelled. Zones in shared memory are not modelled.
\<close>

end
